(* ===== verification/Prelude.thy ===== *)
theory Prelude
  imports Main "HOL-Library.Word"
begin

unbundle bit_operations_syntax

section \<open>Prelude: bytes, strings, results and streams\<close>

text \<open>
  What the components share: the types of the model (bytes and machine integers as words,
  Rust strings as lists of UTF-8 bytes held in \<^typ>\<open>char\<close>, \<open>Result\<close> as a sum with the error
  on the left, \<open>Poll\<close>), the parts of the Rust standard library the sources call (big-endian
  integer conversion, \<open>read_exact\<close>, \<open>String::from_utf8\<close>, integer formatting and parsing,
  \<open>split_once\<close>, \<open>rsplitn\<close>), and the lemmas about them that carry the component proofs.
  The collections \<open>byte_simps\<close> and \<open>io_simps\<close> hold the facts to pass to \<open>simp\<close>.
\<close>

named_theorems byte_simps \<open>big-endian byte conversions\<close>
named_theorems io_simps \<open>results and exact reads\<close>

subsection \<open>Types\<close>

type_synonym byte = "8 word"
type_synonym bytes = "byte list"
type_synonym u16 = "16 word"
type_synonym u32 = "32 word"
type_synonym u64 = "64 word"

datatype io_kind =
    UnexpectedEof | InvalidData | InvalidInput | PermissionDenied | AddrNotAvailable
  | AddrInUse | ConnectionAborted | BrokenPipe | WriteZero | Unsupported | NotFoundKind | OtherKind

datatype io_error = IoError (io_kind: io_kind) (io_msg: string)

datatype 'a poll = Pending | Ready 'a

type_synonym 'a io = "io_error + 'a"

text \<open>Code that may panic returns the panic on the left.\<close>

datatype panic = Panic string

type_synonym 'a may_panic = "panic + 'a"

subsection \<open>Results\<close>

definition rbind :: "'e + 'a \<Rightarrow> ('a \<Rightarrow> 'e + 'b) \<Rightarrow> 'e + 'b" where
  "rbind r f = (case r of Inl e \<Rightarrow> Inl e | Inr x \<Rightarrow> f x)"

definition map_err :: "('e \<Rightarrow> 'f) \<Rightarrow> 'e + 'a \<Rightarrow> 'f + 'a" where
  "map_err g r = (case r of Inl e \<Rightarrow> Inl (g e) | Inr x \<Rightarrow> Inr x)"

definition ok_or :: "'e \<Rightarrow> 'a option \<Rightarrow> 'e + 'a" where
  "ok_or e x = (case x of None \<Rightarrow> Inl e | Some v \<Rightarrow> Inr v)"

definition is_ok :: "'e + 'a \<Rightarrow> bool" where
  "is_ok r = (case r of Inl _ \<Rightarrow> False | Inr _ \<Rightarrow> True)"

lemma rbind_simps [simp, io_simps]:
  "rbind (Inl e) f = Inl e"
  "rbind (Inr x) f = f x"
  by (simp_all add: rbind_def)

lemma map_err_simps [simp, io_simps]:
  "map_err g (Inl e) = Inl (g e)"
  "map_err g (Inr x) = Inr x"
  by (simp_all add: map_err_def)

lemma ok_or_simps [simp, io_simps]:
  "ok_or e None = Inl e"
  "ok_or e (Some v) = Inr v"
  by (simp_all add: ok_or_def)

lemma is_ok_simps [simp, io_simps]:
  "is_ok (Inl e) = False"
  "is_ok (Inr x) = True"
  by (simp_all add: is_ok_def)

lemma rbind_eq_Inr: "rbind r f = Inr y \<longleftrightarrow> (\<exists>x. r = Inr x \<and> f x = Inr y)"
  by (cases r) auto

lemma rbind_InrE: "rbind r f = Inr y \<Longrightarrow> (\<And>x. r = Inr x \<Longrightarrow> f x = Inr y \<Longrightarrow> P) \<Longrightarrow> P"
  by (auto simp: rbind_eq_Inr)

lemma map_err_eq_Inr [simp]: "map_err g r = Inr y \<longleftrightarrow> r = Inr y"
  by (cases r) auto

lemma ok_or_eq_Inr [simp]: "ok_or e x = Inr y \<longleftrightarrow> x = Some y"
  by (cases x) auto

subsection \<open>Exact reads from a byte stream\<close>

text \<open>
  A reader is the list of the bytes still to come. \<open>read_exact\<close> of \<open>tokio::io::AsyncReadExt\<close>
  fails with \<open>UnexpectedEof\<close> when the stream ends first.
\<close>

definition early_eof :: io_error where
  "early_eof = IoError UnexpectedEof ''early eof''"

definition read_exact :: "nat \<Rightarrow> bytes \<Rightarrow> (bytes \<times> bytes) io" where
  "read_exact n s = (if n \<le> length s then Inr (take n s, drop n s) else Inl early_eof)"

lemma read_exact_append [simp, io_simps]:
  "n = length xs \<Longrightarrow> read_exact n (xs @ ys) = Inr (xs, ys)"
  by (simp add: read_exact_def)

lemma read_exact_short: "length s < n \<Longrightarrow> read_exact n s = Inl early_eof"
  by (simp add: read_exact_def)

lemma read_exact_Suc [io_simps]:
  "read_exact (Suc n) (x # xs) = (case read_exact n xs of Inl e \<Rightarrow> Inl e | Inr (a, b) \<Rightarrow> Inr (x # a, b))"
  by (simp add: read_exact_def)

lemma read_exact_0 [simp, io_simps]: "read_exact 0 s = Inr ([], s)"
  by (simp add: read_exact_def)

lemma read_exact_Nil [io_simps]: "read_exact (Suc n) [] = Inl early_eof"
  by (simp add: read_exact_def)

lemma read_exact_InrE:
  assumes "read_exact n s = Inr (a, b)"
  shows "s = a @ b" and "length a = n"
  using assms by (auto simp: read_exact_def split: if_splits)

text \<open>Slicing \<open>&bs[s..e]\<close> panics when the range is not inside the slice.\<close>

definition slice_of :: "'a list \<Rightarrow> nat \<Rightarrow> nat \<Rightarrow> 'a list may_panic" where
  "slice_of xs s e =
     (if s \<le> e \<and> e \<le> length xs then Inr (take (e - s) (drop s xs))
      else Inl (Panic ''slice index out of range''))"

subsection \<open>Big-endian integers\<close>

fun to_be :: "nat \<Rightarrow> nat \<Rightarrow> bytes" where
  "to_be 0 x = []"
| "to_be (Suc n) x = to_be n (x div 256) @ [word_of_nat (x mod 256)]"

definition from_be :: "bytes \<Rightarrow> nat" where
  "from_be bs = foldl (\<lambda>a b. a * 256 + unat b) 0 bs"

lemma length_to_be [simp, byte_simps]: "length (to_be n x) = n"
  by (induction n arbitrary: x) auto

lemma from_be_Nil [simp]: "from_be [] = 0"
  by (simp add: from_be_def)

lemma from_be_snoc [simp]: "from_be (bs @ [b]) = from_be bs * 256 + unat b"
  by (simp add: from_be_def)

lemma unat_of_nat_byte [simp]: "unat (word_of_nat (x mod 256) :: byte) = x mod 256"
  by (simp add: unat_of_nat)

lemma from_be_to_be_mod: "from_be (to_be n x) = x mod 256 ^ n"
proof (induction n arbitrary: x)
  case 0
  then show ?case by simp
next
  case (Suc n)
  have "x div 256 mod 256 ^ n * 256 + x mod 256 = x mod (256 * 256 ^ n)"
    by (simp add: mod_mult2_eq mult.commute)
  with Suc show ?case by simp
qed

lemma from_be_to_be [byte_simps]: "x < 256 ^ n \<Longrightarrow> from_be (to_be n x) = x"
  by (simp add: from_be_to_be_mod)

lemma to_be_from_be [byte_simps]: "length bs = n \<Longrightarrow> to_be n (from_be bs) = bs"
proof (induction bs arbitrary: n rule: rev_induct)
  case Nil
  then show ?case by simp
next
  case (snoc b bs)
  then obtain m where n: "n = Suc m" and m: "length bs = m"
    by (cases n) auto
  have "unat b < 256" using unsigned_less [of b] by simp
  then have "(from_be bs * 256 + unat b) div 256 = from_be bs"
    and "(from_be bs * 256 + unat b) mod 256 = unat b"
    by simp_all
  with snoc.IH [OF m] show ?case by (simp add: n)
qed

lemma from_be_bound: "from_be bs < 256 ^ length bs"
proof (induction bs rule: rev_induct)
  case Nil
  then show ?case by simp
next
  case (snoc b bs)
  have "unat b < 256" using unsigned_less [of b] by simp
  with snoc show ?case by simp
qed

lemma from_be_Cons: "from_be (b # bs) = unat b * 256 ^ length bs + from_be bs"
proof (induction bs rule: rev_induct)
  case Nil
  then show ?case by (simp add: from_be_def)
next
  case (snoc c bs)
  have "from_be (b # bs @ [c]) = from_be (b # bs) * 256 + unat c"
    using from_be_snoc [of "b # bs" c] by simp
  with snoc show ?case by (simp add: algebra_simps)
qed

lemma to_be_Cons: "to_be (Suc n) x = word_of_nat (x div 256 ^ n mod 256) # to_be n x"
proof (induction n arbitrary: x)
  case 0
  then show ?case by simp
next
  case (Suc n)
  from Suc.IH [of "x div 256"] show ?case by (simp add: div_mult2_eq)
qed

lemma to_be_mod: "to_be n (x mod 256 ^ n) = to_be n x"
  using to_be_from_be [of "to_be n x" n] by (simp add: from_be_to_be_mod)

text \<open>\<open>to_be_bytes\<close> and \<open>from_be_bytes\<close> of \<open>u16\<close> and \<open>u32\<close>.\<close>

definition u16_to_be :: "u16 \<Rightarrow> bytes" where
  "u16_to_be w = to_be 2 (unat w)"

definition u16_from_be :: "bytes \<Rightarrow> u16" where
  "u16_from_be bs = word_of_nat (from_be bs)"

definition u32_to_be :: "u32 \<Rightarrow> bytes" where
  "u32_to_be w = to_be 4 (unat w)"

definition u32_from_be :: "bytes \<Rightarrow> u32" where
  "u32_from_be bs = word_of_nat (from_be bs)"

definition u64_to_be :: "u64 \<Rightarrow> bytes" where
  "u64_to_be w = to_be 8 (unat w)"

definition u64_from_be :: "bytes \<Rightarrow> u64" where
  "u64_from_be bs = word_of_nat (from_be bs)"

lemma length_u64_to_be [simp]: "length (u64_to_be w) = 8"
  by (simp add: u64_to_be_def)

lemma length_u16_to_be [simp]: "length (u16_to_be w) = 2"
  by (simp add: u16_to_be_def)

lemma length_u32_to_be [simp]: "length (u32_to_be w) = 4"
  by (simp add: u32_to_be_def)

lemma unat_byte_less [simp]: "unat (b :: byte) < 256"
  using unsigned_less [of b, where 'a = nat] by simp

lemma unat_u16_less [simp]: "unat (w :: u16) < 65536"
  using unsigned_less [of w, where 'a = nat] by simp

lemma unat_u32_less [simp]: "unat (w :: u32) < 4294967296"
  using unsigned_less [of w, where 'a = nat] by simp

lemma unat_u64_less [simp]: "unat (w :: u64) < 18446744073709551616"
  using unsigned_less [of w, where 'a = nat] by simp

lemma u64_from_to_be [simp]: "u64_from_be (u64_to_be w) = w"
  by (simp add: u64_from_be_def u64_to_be_def from_be_to_be)

lemma u16_from_to_be [simp]: "u16_from_be (u16_to_be w) = w"
  by (simp add: u16_from_be_def u16_to_be_def from_be_to_be)

lemma u32_from_to_be [simp]: "u32_from_be (u32_to_be w) = w"
  by (simp add: u32_from_be_def u32_to_be_def from_be_to_be)

lemma unat_u16_from_be: "length bs = 2 \<Longrightarrow> unat (u16_from_be bs) = from_be bs"
  using from_be_bound [of bs] by (simp add: u16_from_be_def unat_of_nat)

lemma u16_to_from_be: "length bs = 2 \<Longrightarrow> u16_to_be (u16_from_be bs) = bs"
  by (simp add: u16_to_be_def unat_u16_from_be to_be_from_be)

lemma unat_u32_from_be: "length bs = 4 \<Longrightarrow> unat (u32_from_be bs) = from_be bs"
  using from_be_bound [of bs] by (simp add: u32_from_be_def unat_of_nat)

lemma u32_to_from_be: "length bs = 4 \<Longrightarrow> u32_to_be (u32_from_be bs) = bs"
  by (simp add: u32_to_be_def unat_u32_from_be to_be_from_be)

lemma nat_or_push_bit: "(x :: nat) < 2 ^ k \<Longrightarrow> x OR push_bit k t = x + t * 2 ^ k"
proof -
  assume x: "x < 2 ^ k"
  have "x AND push_bit k t = 0"
  proof (rule bit_eqI)
    fix n
    have "take_bit k x = x" using x by (simp add: take_bit_nat_eq_self)
    then have "bit x n \<Longrightarrow> n < k"
      using bit_take_bit_iff [of k x n] by simp
    then show "bit (x AND push_bit k t) n = bit 0 n"
      by (auto simp: bit_simps)
  qed
  then show ?thesis
    by (simp add: push_bit_eq_mult flip: disjunctive_add_eq_or)
qed

lemma list2_of_length: "length bs = 2 \<Longrightarrow> \<exists>a b. bs = [a, b]"
  by (auto simp: length_Suc_conv numeral_2_eq_2)

subsection \<open>Strings\<close>

text \<open>
  A Rust \<open>String\<close> is a byte vector that is valid UTF-8; the model holds the bytes as \<^typ>\<open>char\<close>s.
  \<open>from_utf8\<close> accepts exactly the well-formed sequences (Unicode 15, table 3-7, which is what
  \<open>core::str::from_utf8\<close> documents).
\<close>

definition as_bytes :: "string \<Rightarrow> bytes" where
  "as_bytes s = map of_char s"

definition of_bytes :: "bytes \<Rightarrow> string" where
  "of_bytes bs = map (\<lambda>b. char_of (unat b)) bs"

definition cont_byte :: "byte \<Rightarrow> bool" where
  "cont_byte b \<longleftrightarrow> 0x80 \<le> b \<and> b \<le> 0xBF"

fun utf8_valid :: "bytes \<Rightarrow> bool" where
  "utf8_valid [] = True"
| "utf8_valid (a # r) =
     (if a < 0x80 then utf8_valid r
      else if 0xC2 \<le> a \<and> a \<le> 0xDF then
        (case r of b # r' \<Rightarrow> cont_byte b \<and> utf8_valid r' | _ \<Rightarrow> False)
      else if 0xE0 \<le> a \<and> a \<le> 0xEF then
        (case r of b # c # r' \<Rightarrow>
             (if a = 0xE0 then 0xA0 \<le> b \<and> b \<le> 0xBF
              else if a = 0xED then 0x80 \<le> b \<and> b \<le> 0x9F else cont_byte b)
             \<and> cont_byte c \<and> utf8_valid r' | _ \<Rightarrow> False)
      else if 0xF0 \<le> a \<and> a \<le> 0xF4 then
        (case r of b # c # d # r' \<Rightarrow>
             (if a = 0xF0 then 0x90 \<le> b \<and> b \<le> 0xBF
              else if a = 0xF4 then 0x80 \<le> b \<and> b \<le> 0x8F else cont_byte b)
             \<and> cont_byte c \<and> cont_byte d \<and> utf8_valid r' | _ \<Rightarrow> False)
      else False)"

definition from_utf8 :: "bytes \<Rightarrow> string option" where
  "from_utf8 bs = (if utf8_valid bs then Some (of_bytes bs) else None)"

definition str_ok :: "string \<Rightarrow> bool" where
  "str_ok s \<longleftrightarrow> utf8_valid (as_bytes s)"

lemma length_as_bytes [simp]: "length (as_bytes s) = length s"
  by (simp add: as_bytes_def)

lemma length_of_bytes [simp]: "length (of_bytes bs) = length bs"
  by (simp add: of_bytes_def)

lemma of_bytes_as_bytes [simp]: "of_bytes (as_bytes s) = s"
proof -
  have "char_of (unat (of_char c :: byte)) = c" for c
  proof -
    have "(of_char c :: nat) < 256"
      by (metis of_char_mod_256 mod_less_divisor zero_less_numeral)
    then have "unat (word_of_nat (of_char c) :: byte) = of_char c"
      by (simp add: unat_of_nat)
    then have "unat (of_char c :: byte) = of_char c"
      by (simp only: of_nat_of_char)
    then show ?thesis by simp
  qed
  then show ?thesis by (simp add: of_bytes_def as_bytes_def comp_def)
qed

lemma as_bytes_Nil [simp]: "as_bytes [] = []"
  by (simp add: as_bytes_def)

lemma as_bytes_append [simp]: "as_bytes (s @ t) = as_bytes s @ as_bytes t"
  by (simp add: as_bytes_def)

lemma from_utf8_as_bytes [simp]: "str_ok s \<Longrightarrow> from_utf8 (as_bytes s) = Some s"
  by (simp add: from_utf8_def str_ok_def)

lemma ascii_byte: "\<not> digit7 c \<Longrightarrow> (of_char c :: byte) < 0x80"
  by (cases c) (auto simp: of_char_def word_less_nat_alt split: bool.splits)

lemma str_ok_ascii: "list_all (\<lambda>c. \<not> digit7 c) s \<Longrightarrow> str_ok s"
  by (induction s) (simp_all add: str_ok_def as_bytes_def ascii_byte)

subsection \<open>Association lists\<close>

lemma map_of_filter_ne: "map_of (filter (\<lambda>e. fst e \<noteq> k) es) j = (if j = k then None else map_of es j)"
  by (induction es) auto

lemma map_of_take: "map_of (take n es) j = Some v \<Longrightarrow> map_of es j = Some v"
proof (induction es arbitrary: n)
  case (Cons e es)
  then show ?case by (cases n) (auto split: if_splits)
qed simp

end
