(* ===== verification/Std_Text.thy ===== *)
theory Std_Text
  imports Prelude
begin

section \<open>Standard library: text\<close>

text \<open>
  The string functions of \<open>core::str\<close> and \<open>core::fmt\<close> that the sources call: rendering an
  integer in a radix (\<open>{}\<close> and \<open>{:x}\<close>), \<open>char::to_digit\<close>, parsing an unsigned integer,
  prefixes and suffixes, \<open>contains\<close>, \<open>split\<close>, \<open>split_once\<close>, \<open>rsplitn(2, c)\<close>, \<open>lines\<close> and
  \<open>trim\<close>. The numeral round trips at the end serve every parser of the development.
\<close>

subsection \<open>Numerals\<close>

definition digit_char :: "nat \<Rightarrow> char" where
  "digit_char d = char_of (if d < 10 then 48 + d else 87 + d)"

definition to_digit :: "nat \<Rightarrow> char \<Rightarrow> nat option" where
  "to_digit r c =
     (let n = of_char c;
          d = (if 48 \<le> n \<and> n \<le> 57 then n - 48
               else if 97 \<le> n \<and> n \<le> 122 then n - 87
               else if 65 \<le> n \<and> n \<le> 90 then n - 55 else r)
      in if d < r then Some d else None)"

definition lower_ascii :: "char \<Rightarrow> char" where
  "lower_ascii c = (let n = (of_char c :: nat) in if 65 \<le> n \<and> n \<le> 90 then char_of (n + 32) else c)"

definition eq_ignore_ascii_case :: "string \<Rightarrow> string \<Rightarrow> bool" where
  "eq_ignore_ascii_case a b \<longleftrightarrow> map lower_ascii a = map lower_ascii b"

fun show_radix :: "nat \<Rightarrow> nat \<Rightarrow> string" where
  "show_radix r n =
     (if n < r \<or> r < 2 then [digit_char n]
      else show_radix r (n div r) @ [digit_char (n mod r)])"

declare show_radix.simps [simp del]

abbreviation show_nat :: "nat \<Rightarrow> string" where
  "show_nat \<equiv> show_radix 10"

definition is_digit :: "nat \<Rightarrow> char \<Rightarrow> bool" where
  "is_digit r c \<longleftrightarrow> to_digit r c \<noteq> None"

definition digits_val :: "nat \<Rightarrow> string \<Rightarrow> nat" where
  "digits_val r ds = foldl (\<lambda>a c. a * r + (case to_digit r c of Some d \<Rightarrow> d | None \<Rightarrow> 0)) 0 ds"

text \<open>\<open>str::parse\<close> for an unsigned type whose values are below \<open>bound\<close>.\<close>

definition parse_uint :: "nat \<Rightarrow> string \<Rightarrow> nat option" where
  "parse_uint bound s =
     (let ds = (case s of [] \<Rightarrow> [] | c # t \<Rightarrow> if c = CHR ''+'' then t else s)
      in if ds \<noteq> [] \<and> list_all (is_digit 10) ds \<and> digits_val 10 ds < bound
         then Some (digits_val 10 ds) else None)"

subsection \<open>Searching and splitting\<close>

definition starts_with :: "string \<Rightarrow> string \<Rightarrow> bool" where
  "starts_with p s \<longleftrightarrow> take (length p) s = p"

definition ends_with :: "string \<Rightarrow> string \<Rightarrow> bool" where
  "ends_with p s \<longleftrightarrow> length p \<le> length s \<and> drop (length s - length p) s = p"

fun contains :: "string \<Rightarrow> string \<Rightarrow> bool" where
  "contains p [] = (p = [])"
| "contains p (c # s) = (starts_with p (c # s) \<or> contains p s)"

definition strip_prefix :: "string \<Rightarrow> string \<Rightarrow> string option" where
  "strip_prefix p s = (if starts_with p s then Some (drop (length p) s) else None)"

definition strip_suffix :: "string \<Rightarrow> string \<Rightarrow> string option" where
  "strip_suffix p s = (if ends_with p s then Some (take (length s - length p) s) else None)"

definition split_once :: "char \<Rightarrow> string \<Rightarrow> (string \<times> string) option" where
  "split_once c s =
     (if c \<in> set s then Some (takeWhile (\<lambda>x. x \<noteq> c) s, tl (dropWhile (\<lambda>x. x \<noteq> c) s)) else None)"

text \<open>\<open>rsplitn(2, c)\<close>: the part after the last \<open>c\<close>, then the part before it if there is one.\<close>

definition rsplit2 :: "char \<Rightarrow> string \<Rightarrow> string \<times> string option" where
  "rsplit2 c s =
     (if c \<in> set s
      then (rev (takeWhile (\<lambda>x. x \<noteq> c) (rev s)),
            Some (rev (tl (dropWhile (\<lambda>x. x \<noteq> c) (rev s)))))
      else (s, None))"

fun split :: "char \<Rightarrow> string \<Rightarrow> string list" where
  "split c [] = [[]]"
| "split c (x # s) =
     (if x = c then [] # split c s
      else (case split c s of [] \<Rightarrow> [[x]] | p # ps \<Rightarrow> (x # p) # ps))"

fun join :: "string \<Rightarrow> string list \<Rightarrow> string" where
  "join sep [] = []"
| "join sep [x] = x"
| "join sep (x # y # ys) = x @ sep @ join sep (y # ys)"

definition strip_cr :: "string \<Rightarrow> string" where
  "strip_cr s = (if s \<noteq> [] \<and> last s = CHR 0x0D then butlast s else s)"

definition lines :: "string \<Rightarrow> string list" where
  "lines s = (let ps = split (CHR 0x0A) s
              in map strip_cr (if last ps = [] then butlast ps else ps))"

definition trim_end_matches :: "char \<Rightarrow> string \<Rightarrow> string" where
  "trim_end_matches c s = rev (dropWhile (\<lambda>x. x = c) (rev s))"

text \<open>
  The UTF-8 sequences of the characters with the Unicode property \<open>White_Space\<close>, which \<open>trim\<close>
  removes at both ends.
\<close>

definition white_space :: "string list" where
  "white_space =
     map (\<lambda>n. [char_of (n::nat)]) [9, 10, 11, 12, 13, 32] @
     map (map (\<lambda>n. char_of (n::nat)))
       ([[0xC2, 0x85], [0xC2, 0xA0], [0xE1, 0x9A, 0x80]] @
        map (\<lambda>n. [0xE2, 0x80, 0x80 + n]) [0, 1, 2, 3, 4, 5, 6, 7, 8, 9, 10] @
        [[0xE2, 0x80, 0xA8], [0xE2, 0x80, 0xA9], [0xE2, 0x80, 0xAF], [0xE2, 0x81, 0x9F],
         [0xE3, 0x80, 0x80]])"

fun trim_with :: "nat \<Rightarrow> (string \<Rightarrow> string \<Rightarrow> string option) \<Rightarrow> string \<Rightarrow> string" where
  "trim_with 0 f s = s"
| "trim_with (Suc n) f s =
     (case List.find (\<lambda>w. f w s \<noteq> None) white_space of
        None \<Rightarrow> s
      | Some w \<Rightarrow> trim_with n f (case f w s of Some s' \<Rightarrow> s' | None \<Rightarrow> s))"

definition trim :: "string \<Rightarrow> string" where
  "trim s = (let t = trim_with (length s) strip_prefix s in trim_with (length t) strip_suffix t)"

subsection \<open>Facts about numerals\<close>

lemma of_char_char_of_small: "n < 256 \<Longrightarrow> of_char (char_of n :: char) = (n :: nat)"
  by simp

lemma to_digit_digit_char [simp]: "d < r \<Longrightarrow> r \<le> 36 \<Longrightarrow> to_digit r (digit_char d) = Some d"
  by (auto simp: to_digit_def digit_char_def Let_def)

lemma is_digit_digit_char [simp]: "d < r \<Longrightarrow> r \<le> 36 \<Longrightarrow> is_digit r (digit_char d)"
  by (simp add: is_digit_def)

lemma digits_val_snoc [simp]:
  "digits_val r (ds @ [c]) = digits_val r ds * r + (case to_digit r c of Some d \<Rightarrow> d | None \<Rightarrow> 0)"
  by (simp add: digits_val_def)

lemma show_radix_small: "n < r \<Longrightarrow> show_radix r n = [digit_char n]"
  by (subst show_radix.simps) simp

lemma show_radix_step:
  "2 \<le> r \<Longrightarrow> r \<le> n \<Longrightarrow> show_radix r n = show_radix r (n div r) @ [digit_char (n mod r)]"
  by (subst show_radix.simps) simp

lemma show_radix_nonempty [simp]: "show_radix r n \<noteq> []"
  by (subst show_radix.simps) simp

lemma show_radix_digits:
  "2 \<le> r \<Longrightarrow> r \<le> 36 \<Longrightarrow> list_all (is_digit r) (show_radix r n)"
proof (induction r n rule: show_radix.induct)
  case (1 r n)
  then show ?case
    by (cases "n < r") (auto simp: show_radix_small show_radix_step)
qed

lemma digits_val_show_radix:
  "2 \<le> r \<Longrightarrow> r \<le> 36 \<Longrightarrow> digits_val r (show_radix r n) = n"
proof (induction r n rule: show_radix.induct)
  case (1 r n)
  show ?case
  proof (cases "n < r")
    case True
    then show ?thesis using 1 by (simp add: show_radix_small digits_val_def)
  next
    case False
    then show ?thesis using 1 by (simp add: show_radix_step)
  qed
qed

lemma length_show_radix:
  "2 \<le> r \<Longrightarrow> n < r ^ k \<Longrightarrow> 0 < k \<Longrightarrow> length (show_radix r n) \<le> k"
proof (induction k arbitrary: n)
  case 0
  then show ?case by simp
next
  case (Suc k)
  show ?case
  proof (cases "n < r")
    case True
    then show ?thesis by (simp add: show_radix_small)
  next
    case False
    have "n div r < r ^ k"
      using Suc.prems by (simp add: less_mult_imp_div_less mult.commute)
    moreover have "0 < k"
      using False Suc.prems by (cases k) auto
    ultimately have "length (show_radix r (n div r)) \<le> k"
      using Suc.IH Suc.prems by simp
    then show ?thesis using False Suc.prems by (simp add: show_radix_step)
  qed
qed

lemma digit_char_zero: "d < r \<Longrightarrow> r \<le> 36 \<Longrightarrow> digit_char d = CHR ''0'' \<Longrightarrow> d = 0"
  using to_digit_digit_char [of d r] by (auto simp: to_digit_def split: if_splits)

lemma show_radix_no_leading_zero:
  "2 \<le> r \<Longrightarrow> r \<le> 36 \<Longrightarrow> 1 < length (show_radix r n) \<Longrightarrow> hd (show_radix r n) \<noteq> CHR ''0''"
proof (induction r n rule: show_radix.induct)
  case (1 r n)
  have big: "\<not> n < r" using "1.prems"(3) by (auto simp: show_radix_small)
  show ?case
  proof (cases "n div r < r")
    case True
    have "0 < n div r" using big "1.prems" by (simp add: div_greater_zero_iff)
    then have "digit_char (n div r) \<noteq> CHR ''0''"
      using digit_char_zero [OF True "1.prems"(2)] by linarith
    then show ?thesis
      using big True "1.prems"(1) by (simp add: show_radix_step [of r n] show_radix_small)
  next
    case False
    then have "length (show_radix r (n div r)) = Suc (length (show_radix r (n div r div r)))"
      using "1.prems"(1) by (simp add: show_radix_step [of r "n div r"])
    then have "1 < length (show_radix r (n div r))" by simp
    then have "hd (show_radix r (n div r)) \<noteq> CHR ''0''"
      using "1.IH" big "1.prems"(1,2) by simp
    then show ?thesis using big "1.prems"(1) by (simp add: show_radix_step [of r n])
  qed
qed

lemma show_nat_hd_not_plus: "hd (show_nat n) \<noteq> CHR ''+''"
proof -
  have "is_digit 10 (hd (show_nat n))"
    using show_radix_digits [of 10 n] by (cases "show_nat n") auto
  then show ?thesis by (auto simp: is_digit_def to_digit_def)
qed

lemma parse_uint_show_nat [simp]: "n < bound \<Longrightarrow> parse_uint bound (show_nat n) = Some n"
  using show_radix_digits [of 10 n] show_nat_hd_not_plus [of n] digits_val_show_radix [of 10 n]
  by (cases "show_nat n") (auto simp: parse_uint_def Let_def)

lemma not_digit_in_show_nat: "\<not> is_digit 10 c \<Longrightarrow> c \<notin> set (show_nat n)"
  using show_radix_digits [of 10 n] by (auto simp: list_all_iff)

subsection \<open>Facts about splitting\<close>

lemma rsplit2_append [simp]: "c \<notin> set t \<Longrightarrow> rsplit2 c (s @ c # t) = (t, Some s)"
proof -
  assume c: "c \<notin> set t"
  then have "takeWhile (\<lambda>x. x \<noteq> c) (rev t @ c # rev s) = rev t"
    and "dropWhile (\<lambda>x. x \<noteq> c) (rev t @ c # rev s) = c # rev s"
    by (auto simp: takeWhile_append dropWhile_append)
  then show ?thesis by (simp add: rsplit2_def)
qed

lemma rsplit2_SomeD: "rsplit2 c s = (t, Some h) \<Longrightarrow> s = h @ c # t \<and> c \<notin> set t"
proof -
  assume a: "rsplit2 c s = (t, Some h)"
  then have c: "c \<in> set s" by (auto simp: rsplit2_def split: if_splits)
  then obtain h' t' where s: "s = h' @ c # t'" and t': "c \<notin> set t'"
    by (metis split_list_last)
  with a show ?thesis by simp
qed

lemma split_once_append [simp]: "c \<notin> set s \<Longrightarrow> split_once c (s @ c # t) = Some (s, t)"
  by (auto simp: split_once_def takeWhile_append dropWhile_append)

lemma join_Cons: "join sep (x # xs) = x @ concat (map (\<lambda>y. sep @ y) xs)"
  by (induction xs arbitrary: x) simp_all

lemma starts_with_append [simp]: "starts_with p (p @ s)"
  by (simp add: starts_with_def)

lemma ends_with_append [simp]: "ends_with p (s @ p)"
  by (simp add: ends_with_def)

lemma ends_with_iff: "ends_with p s \<longleftrightarrow> (\<exists>t. s = t @ p)"
proof
  assume "ends_with p s"
  then show "\<exists>t. s = t @ p"
    unfolding ends_with_def by (metis append_take_drop_id)
next
  assume "\<exists>t. s = t @ p"
  then show "ends_with p s" by auto
qed

lemma starts_with_iff: "starts_with p s \<longleftrightarrow> (\<exists>t. s = p @ t)"
  by (metis append_take_drop_id append_eq_conv_conj starts_with_def)

lemma contains_iff: "contains p s \<longleftrightarrow> (\<exists>a b. s = a @ p @ b)"
proof (induction s)
  case Nil
  then show ?case by auto
next
  case (Cons c s)
  show ?case
  proof
    assume "contains p (c # s)"
    then show "\<exists>a b. c # s = a @ p @ b"
      using Cons by (metis append_Cons append_Nil contains.simps(2) starts_with_iff)
  next
    assume "\<exists>a b. c # s = a @ p @ b"
    then obtain a b where ab: "c # s = a @ p @ b" by blast
    show "contains p (c # s)"
    proof (cases a)
      case Nil
      then show ?thesis using ab by (metis append_Nil contains.simps(2) starts_with_append)
    next
      case (Cons x a')
      then have "s = a' @ p @ b" using ab by simp
      then show ?thesis using Cons.IH by auto
    qed
  qed
qed

subsection \<open>Trimming\<close>

definition graphic :: "char \<Rightarrow> bool" where
  "graphic c \<longleftrightarrow> 32 < (of_char c :: nat) \<and> (of_char c :: nat) < 128"

lemma white_space_edges: "list_all (\<lambda>w. w \<noteq> [] \<and> \<not> graphic (hd w) \<and> \<not> graphic (last w)) white_space"
  by code_simp

lemma strip_prefix_graphic: "graphic (hd s) \<Longrightarrow> w \<in> set white_space \<Longrightarrow> strip_prefix w s = None"
  using white_space_edges
  by (auto simp: strip_prefix_def starts_with_iff list_all_iff)

lemma strip_suffix_graphic: "graphic (last s) \<Longrightarrow> w \<in> set white_space \<Longrightarrow> strip_suffix w s = None"
  using white_space_edges
  by (auto simp: strip_suffix_def ends_with_iff list_all_iff)

lemma trim_with_none:
  "(\<And>w. w \<in> set white_space \<Longrightarrow> f w s = None) \<Longrightarrow> trim_with n f s = s"
proof (cases n)
  case (Suc m)
  assume "\<And>w. w \<in> set white_space \<Longrightarrow> f w s = None"
  then have "List.find (\<lambda>w. f w s \<noteq> None) white_space = None" by (simp add: find_None_iff)
  then show ?thesis by (simp add: Suc)
qed simp

lemma trim_graphic: "graphic (hd s) \<Longrightarrow> graphic (last s) \<Longrightarrow> trim s = s"
  by (simp add: trim_def Let_def trim_with_none strip_prefix_graphic strip_suffix_graphic)

end
