(* ===== verification/Compact_Vec_String.thy ===== *)
theory Compact_Vec_String
  imports Std_Text
begin

section \<open>The compact string vector\<close>

text \<open>
  \<open>rd-interface/src/config/compact_vec_string.rs\<close>: a list of strings in one byte vector with the
  start offset of each string. \<open>get\<close> turns a byte range into a \<open>str\<close> without checking it
  (\<open>from_utf8_unchecked\<close>), so the offsets carry the memory safety of the type. The theory gives the
  record, its operations, the representation \<open>cvs_of\<close> of a list of strings and the refinement of
  every operation to lists. The locale \<open>string_vector\<close> is the interface the context (\<open>net_list\<close>) and
  the domain rules rely on.
\<close>

record cvs =
  underlying :: bytes
  offsets :: "nat list"

definition cvs_new :: cvs where
  "cvs_new = \<lparr>underlying = [], offsets = []\<rparr>"

definition cvs_push :: "cvs \<Rightarrow> string \<Rightarrow> cvs" where
  "cvs_push v s =
     (let len = length (underlying v)
      in v\<lparr>underlying := underlying v @ as_bytes s, offsets := offsets v @ [len]\<rparr>)"

definition cvs_pop :: "cvs \<Rightarrow> cvs" where
  "cvs_pop v =
     (if offsets v = [] then v
      else v\<lparr>offsets := butlast (offsets v), underlying := take (last (offsets v)) (underlying v)\<rparr>)"

definition cvs_len :: "cvs \<Rightarrow> nat" where
  "cvs_len v = length (offsets v)"

definition cvs_is_empty :: "cvs \<Rightarrow> bool" where
  "cvs_is_empty v \<longleftrightarrow> offsets v = []"

text \<open>The bytes \<open>get\<close> hands to \<open>from_utf8_unchecked\<close>, and \<open>get\<close> itself.\<close>

definition cvs_get_bytes :: "cvs \<Rightarrow> nat \<Rightarrow> bytes option may_panic" where
  "cvs_get_bytes v i =
     (if length (offsets v) \<le> i then Inr None
      else
        let start = offsets v ! i;
            stop = (if i + 1 < length (offsets v) then offsets v ! (i + 1) else length (underlying v))
        in rbind (slice_of (underlying v) start stop) (\<lambda>b. Inr (Some b)))"

definition cvs_get :: "cvs \<Rightarrow> nat \<Rightarrow> string option may_panic" where
  "cvs_get v i = rbind (cvs_get_bytes v i) (\<lambda>b. Inr (map_option of_bytes b))"

text \<open>The iterator: \<open>next\<close> returns \<open>get(index)\<close> and advances; a loop over it stops at \<open>None\<close>.\<close>

function cvs_iter :: "cvs \<Rightarrow> nat \<Rightarrow> string list may_panic" where
  "cvs_iter v i =
     (case cvs_get v i of
        Inl p \<Rightarrow> Inl p
      | Inr None \<Rightarrow> Inr []
      | Inr (Some s) \<Rightarrow> rbind (cvs_iter v (Suc i)) (\<lambda>ss. Inr (s # ss)))"
  by pat_completeness auto
termination
  by (relation "measure (\<lambda>(v, i). length (offsets v) - i)")
    (auto simp: cvs_get_def cvs_get_bytes_def split: if_splits)

declare cvs_iter.simps [simp del]

fun cvs_extend :: "cvs \<Rightarrow> string list \<Rightarrow> cvs" where
  "cvs_extend v [] = v"
| "cvs_extend v (s # ss) = cvs_extend (cvs_push v s) ss"

definition cvs_from_iter :: "string list \<Rightarrow> cvs" where
  "cvs_from_iter ss = cvs_extend cvs_new ss"

definition cvs_join :: "cvs \<Rightarrow> string \<Rightarrow> string may_panic" where
  "cvs_join v sep = rbind (cvs_iter v 0) (\<lambda>ss. Inr (join sep ss))"

text \<open>\<open>PartialEq<Vec<I>>\<close>: the lengths first, then the iterators.\<close>

definition cvs_eq_vec :: "cvs \<Rightarrow> string list \<Rightarrow> bool may_panic" where
  "cvs_eq_vec v other =
     (if cvs_len v \<noteq> length other then Inr False
      else rbind (cvs_iter v 0) (\<lambda>ss. Inr (ss = other)))"

text \<open>
  Serde: one string is written as a string, anything else as a sequence; both forms are read.
  The wire form is the part of the data model that the visitor accepts.
\<close>

datatype strings_wire = WireStr string | WireSeq "string list"

definition cvs_serialize :: "cvs \<Rightarrow> strings_wire may_panic" where
  "cvs_serialize v =
     (if cvs_len v = 1 then
        (case cvs_get v 0 of
           Inl p \<Rightarrow> Inl p
         | Inr (Some s) \<Rightarrow> Inr (WireStr s)
         | Inr None \<Rightarrow> rbind (cvs_iter v 0) (\<lambda>ss. Inr (WireSeq ss)))
      else rbind (cvs_iter v 0) (\<lambda>ss. Inr (WireSeq ss)))"

fun cvs_deserialize :: "strings_wire \<Rightarrow> cvs" where
  "cvs_deserialize (WireSeq ss) = cvs_extend cvs_new ss"
| "cvs_deserialize (WireStr s) = cvs_push cvs_new s"

subsection \<open>Representation\<close>

fun starts :: "nat \<Rightarrow> string list \<Rightarrow> nat list" where
  "starts n [] = []"
| "starts n (s # ss) = n # starts (n + length s) ss"

definition cvs_of :: "string list \<Rightarrow> cvs" where
  "cvs_of ss = \<lparr>underlying = concat (map as_bytes ss), offsets = starts 0 ss\<rparr>"

abbreviation total :: "string list \<Rightarrow> nat" where
  "total ss \<equiv> length (concat ss)"

lemma length_starts [simp]: "length (starts n ss) = length ss"
  by (induction ss arbitrary: n) auto

lemma starts_snoc: "starts n (ss @ [s]) = starts n ss @ [n + total ss]"
  by (induction ss arbitrary: n) (auto simp: add.assoc)

lemma starts_nth: "i < length ss \<Longrightarrow> starts n ss ! i = n + total (take i ss)"
proof (induction ss arbitrary: n i)
  case Nil
  then show ?case by simp
next
  case (Cons s ss)
  then show ?case by (cases i) auto
qed

lemma length_concat_as_bytes [simp]: "length (concat (map as_bytes ss)) = total ss"
  by (induction ss) auto

lemma cvs_of_Nil: "cvs_of [] = cvs_new"
  by (simp add: cvs_of_def cvs_new_def)

lemma cvs_push_of [simp]: "cvs_push (cvs_of ss) s = cvs_of (ss @ [s])"
  by (simp add: cvs_push_def cvs_of_def starts_snoc)

lemma cvs_pop_of [simp]: "cvs_pop (cvs_of ss) = cvs_of (butlast ss)"
proof (cases ss rule: rev_cases)
  case Nil
  then show ?thesis by (simp add: cvs_pop_def cvs_of_def)
next
  case (snoc ts s)
  have "length (concat (map as_bytes ts)) = total ts" by simp
  then have "take (total ts) (concat (map as_bytes ts) @ as_bytes s) = concat (map as_bytes ts)"
    by (metis append_eq_conv_conj)
  then show ?thesis using snoc by (simp add: cvs_pop_def cvs_of_def starts_snoc)
qed

lemma cvs_len_of [simp]: "cvs_len (cvs_of ss) = length ss"
  by (simp add: cvs_len_def cvs_of_def)

lemma cvs_is_empty_of [simp]: "cvs_is_empty (cvs_of ss) \<longleftrightarrow> ss = []"
  by (cases ss) (simp_all add: cvs_is_empty_def cvs_of_def)

lemma cvs_get_bytes_of:
  "cvs_get_bytes (cvs_of ss) i = Inr (if i < length ss then Some (as_bytes (ss ! i)) else None)"
proof (cases "i < length ss")
  case False
  then show ?thesis by (simp add: cvs_get_bytes_def cvs_of_def)
next
  case True
  let ?a = "take i ss" and ?s = "ss ! i" and ?b = "drop (Suc i) ss"
  have ss: "ss = ?a @ ?s # ?b" using True by (simp add: id_take_nth_drop)
  have stop: "(if i + 1 < length ss then starts 0 ss ! (i + 1) else total ss) = total ?a + length ?s"
  proof (cases "i + 1 < length ss")
    case True
    then show ?thesis by (simp add: starts_nth take_Suc_conv_app_nth)
  next
    case False
    then have "?b = []" by simp
    then have "total ss = total (?a @ [?s])" using ss by simp
    then show ?thesis using False by simp
  qed
  have u: "concat (map as_bytes ss) = concat (map as_bytes ?a) @ as_bytes ?s @ concat (map as_bytes ?b)"
    by (subst ss) simp
  have l: "total ss = total ?a + length ?s + total ?b" by (subst ss) simp
  have "slice_of (concat (map as_bytes ss)) (total ?a) (total ?a + length ?s) = Inr (as_bytes ?s)"
    unfolding slice_of_def u by (simp add: l)
  moreover have "cvs_get_bytes (cvs_of ss) i =
      rbind (slice_of (concat (map as_bytes ss)) (starts 0 ss ! i)
        (if i + 1 < length ss then starts 0 ss ! (i + 1) else total ss)) (\<lambda>b. Inr (Some b))"
    using True by (simp add: cvs_get_bytes_def cvs_of_def Let_def)
  ultimately show ?thesis
    using True unfolding stop by (simp add: starts_nth)
qed

lemma cvs_get_of [simp]:
  "cvs_get (cvs_of ss) i = Inr (if i < length ss then Some (ss ! i) else None)"
  by (simp add: cvs_get_def cvs_get_bytes_of)

lemma cvs_iter_of: "i \<le> length ss \<Longrightarrow> cvs_iter (cvs_of ss) i = Inr (drop i ss)"
proof (induction "length ss - i" arbitrary: i)
  case 0
  then show ?case by (subst cvs_iter.simps) simp
next
  case (Suc n)
  then have "cvs_iter (cvs_of ss) (Suc i) = Inr (drop (Suc i) ss)" by simp
  then show ?case
    using Suc by (subst cvs_iter.simps) (simp add: Cons_nth_drop_Suc)
qed

lemma cvs_iter_of_0 [simp]: "cvs_iter (cvs_of ss) 0 = Inr ss"
  by (simp add: cvs_iter_of)

subsection \<open>The interface\<close>

text \<open>What a vector of strings promises to its clients, against the list of its elements.\<close>

locale string_vector =
  fixes empty :: 'v
    and push :: "'v \<Rightarrow> string \<Rightarrow> 'v"
    and pop :: "'v \<Rightarrow> 'v"
    and get :: "'v \<Rightarrow> nat \<Rightarrow> string option may_panic"
    and elems :: "'v \<Rightarrow> string list may_panic"
    and repr :: "string list \<Rightarrow> 'v"
  assumes empty_repr: "empty = repr []"
    and push_repr: "push (repr ss) s = repr (ss @ [s])"
    and pop_repr: "pop (repr ss) = repr (butlast ss)"
    and get_repr: "get (repr ss) i = Inr (if i < length ss then Some (ss ! i) else None)"
    and elems_repr: "elems (repr ss) = Inr ss"
begin

fun extend :: "'v \<Rightarrow> string list \<Rightarrow> 'v" where
  "extend v [] = v"
| "extend v (s # ss) = extend (push v s) ss"

lemma extend_repr: "extend (repr ss) ts = repr (ss @ ts)"
  by (induction ts arbitrary: ss) (simp_all add: push_repr)

lemma push_pop: "pop (push (repr ss) s) = repr ss"
  by (simp add: push_repr pop_repr)

lemma elems_inject: "repr ss = repr ts \<Longrightarrow> ss = ts"
  by (metis elems_repr sum.inject(2))

end

interpretation strvec: string_vector cvs_new cvs_push cvs_pop cvs_get "\<lambda>v. cvs_iter v 0" cvs_of
  by unfold_locales (simp_all add: cvs_of_Nil)

lemma cvs_extend_eq: "cvs_extend v ss = strvec.extend v ss"
  by (induction ss arbitrary: v) simp_all

lemma cvs_extend_of [simp]: "cvs_extend (cvs_of ss) ts = cvs_of (ss @ ts)"
  by (simp add: cvs_extend_eq strvec.extend_repr)

lemma cvs_from_iter_of [simp]: "cvs_from_iter ss = cvs_of ss"
  using cvs_extend_of [of "[]" ss] by (simp add: cvs_from_iter_def cvs_of_Nil)

lemma cvs_of_inject [simp]: "cvs_of ss = cvs_of ts \<longleftrightarrow> ss = ts"
  using strvec.elems_inject by blast

subsection \<open>Reachable vectors\<close>

text \<open>
  Every operation that changes a vector, on strings (which Rust keeps valid UTF-8). The fields of
  the struct are private, so these are the vectors a program can hold.
\<close>

inductive cvs_reach :: "cvs \<Rightarrow> bool" where
  new: "cvs_reach cvs_new"
| push: "cvs_reach v \<Longrightarrow> str_ok s \<Longrightarrow> cvs_reach (cvs_push v s)"
| pop: "cvs_reach v \<Longrightarrow> cvs_reach (cvs_pop v)"
| extend: "cvs_reach v \<Longrightarrow> list_all str_ok ss \<Longrightarrow> cvs_reach (cvs_extend v ss)"

lemma cvs_reach_repr: "cvs_reach v \<Longrightarrow> \<exists>ss. v = cvs_of ss \<and> list_all str_ok ss"
proof (induction rule: cvs_reach.induct)
  case new
  then show ?case by (intro exI [of _ "[]"]) (simp add: cvs_of_Nil)
next
  case (push v s)
  then obtain ts where "v = cvs_of ts" "list_all str_ok ts" by blast
  then show ?case using push by (intro exI [of _ "ts @ [s]"]) simp
next
  case (pop v)
  then obtain ts where "v = cvs_of ts" "list_all str_ok ts" by blast
  then show ?case
    by (intro exI [of _ "butlast ts"]) (auto simp: list_all_iff dest: in_set_butlastD)
next
  case (extend v ss)
  then obtain ts where "v = cvs_of ts" "list_all str_ok ts" by blast
  then show ?case using extend by (intro exI [of _ "ts @ ss"]) simp
qed


subsection \<open>Properties\<close>

text \<open>Whatever a program has done to a compact vector, \<open>get\<close> does not panic, and the byte range
  it passes to \<open>from_utf8_unchecked\<close> is valid UTF-8: the unsafe block is sound.\<close>

theorem cvs_get_sound:
  "cvs_reach v \<Longrightarrow> \<exists>b. cvs_get_bytes v i = Inr b \<and> pred_option utf8_valid b \<and>
     (b = None \<longleftrightarrow> cvs_len v \<le> i)"
  using cvs_reach_repr [of v]
  by (auto simp: cvs_get_bytes_of list_all_iff str_ok_def)

lemma cvs_get_sound_witness:
  "\<exists>b. cvs_get_bytes (cvs_push cvs_new ''ab'') 0 = Inr b \<and> pred_option utf8_valid b \<and>
     (b = None \<longleftrightarrow> cvs_len (cvs_push cvs_new ''ab'') \<le> 0)"
proof -
  have "cvs_reach (cvs_push cvs_new ''ab'')"
    by (intro cvs_reach.intros) (simp add: str_ok_def as_bytes_def)
  then show ?thesis by (rule cvs_get_sound)
qed

text \<open>The compact vector refines a list of strings: on the representation of a list every
  operation returns what the list operation returns, and no operation panics.\<close>

theorem cvs_refines_list:
  "cvs_push (cvs_of ss) s = cvs_of (ss @ [s]) \<and> cvs_pop (cvs_of ss) = cvs_of (butlast ss) \<and>
   cvs_extend (cvs_of ss) ts = cvs_of (ss @ ts) \<and> cvs_from_iter ss = cvs_of ss \<and>
   cvs_len (cvs_of ss) = length ss \<and> cvs_is_empty (cvs_of ss) = (ss = []) \<and>
   cvs_get (cvs_of ss) i = Inr (if i < length ss then Some (ss ! i) else None) \<and>
   cvs_iter (cvs_of ss) 0 = Inr ss \<and> cvs_join (cvs_of ss) s = Inr (join s ss) \<and>
   cvs_eq_vec (cvs_of ss) ts = Inr (ss = ts)"
  by (auto simp: cvs_join_def cvs_eq_vec_def)

text \<open>Writing a vector with serde and reading it gives the same vector, for the string form of a
  single element and the sequence form of all others.\<close>

theorem cvs_serde_roundtrip:
  "cvs_reach v \<Longrightarrow> \<exists>w. cvs_serialize v = Inr w \<and> cvs_deserialize w = v"
proof -
  assume "cvs_reach v"
  then obtain ss where v: "v = cvs_of ss" using cvs_reach_repr by blast
  have ext: "cvs_extend cvs_new ss = cvs_of ss"
    by (simp flip: cvs_from_iter_def)
  show ?thesis
  proof (cases "length ss = 1")
    case True
    then obtain s where "ss = [s]" by (metis One_nat_def length_0_conv length_Suc_conv)
    then show ?thesis using ext by (simp add: v cvs_serialize_def)
  next
    case False
    then show ?thesis using ext by (simp add: v cvs_serialize_def)
  qed
qed

lemma cvs_serde_roundtrip_witness:
  "\<exists>w. cvs_serialize (cvs_push cvs_new ''x'') = Inr w \<and> cvs_deserialize w = cvs_push cvs_new ''x''"
proof -
  have "cvs_reach (cvs_push cvs_new ''x'')"
    by (intro cvs_reach.intros) (simp add: str_ok_def as_bytes_def)
  then show ?thesis by (rule cvs_serde_roundtrip)
qed

end
