(* ===== verification/Std_Net.thy ===== *)
theory Std_Net
  imports Std_Text
begin

section \<open>Standard library: network addresses\<close>

text \<open>
  \<open>std::net\<close> as far as the sources use it: \<open>IpAddr\<close>, \<open>SocketAddr\<close>, their \<open>Display\<close>
  implementations (an IPv6 address with its longest run of zero groups compressed, an
  IPv4-mapped one with a dotted tail, a scope id after a percent sign) and the parser of \<open>core::net::parser\<close>
  behind \<open>str::parse::<IpAddr>()\<close>. The result of the theory is that parsing what \<open>Display\<close>
  prints gives the address back, for every IPv4 and IPv6 address.
\<close>

type_synonym ipv4 = u32
type_synonym ipv6 = "128 word"

datatype ip_addr = IpV4 ipv4 | IpV6 ipv6

datatype socket_addr =
    SockV4 (v4_ip: ipv4) (v4_port: u16)
  | SockV6 (v6_ip: ipv6) (v6_port: u16) (flowinfo: u32) (scope_id: u32)

definition sock_new :: "ip_addr \<Rightarrow> u16 \<Rightarrow> socket_addr" where
  "sock_new ip p = (case ip of IpV4 a \<Rightarrow> SockV4 a p | IpV6 a \<Rightarrow> SockV6 a p 0 0)"

fun sock_ip :: "socket_addr \<Rightarrow> ip_addr" where
  "sock_ip (SockV4 a _) = IpV4 a"
| "sock_ip (SockV6 a _ _ _) = IpV6 a"

fun sock_port :: "socket_addr \<Rightarrow> u16" where
  "sock_port (SockV4 _ p) = p"
| "sock_port (SockV6 _ p _ _) = p"

definition v4_octets :: "ipv4 \<Rightarrow> bytes" where
  "v4_octets a = to_be 4 (unat a)"

definition v6_octets :: "ipv6 \<Rightarrow> bytes" where
  "v6_octets a = to_be 16 (unat a)"

fun to_segs :: "nat \<Rightarrow> nat \<Rightarrow> nat list" where
  "to_segs 0 x = []"
| "to_segs (Suc n) x = to_segs n (x div 65536) @ [x mod 65536]"

definition from_segs :: "nat list \<Rightarrow> nat" where
  "from_segs ss = foldl (\<lambda>a s. a * 65536 + s) 0 ss"

definition v6_segments :: "ipv6 \<Rightarrow> nat list" where
  "v6_segments a = to_segs 8 (unat a)"

subsection \<open>Display\<close>

definition show_ipv4 :: "ipv4 \<Rightarrow> string" where
  "show_ipv4 a = join ''.'' (map (\<lambda>b. show_nat (unat b)) (v4_octets a))"

fun zero_span :: "nat \<Rightarrow> nat \<times> nat \<Rightarrow> nat \<times> nat \<Rightarrow> nat list \<Rightarrow> nat \<times> nat" where
  "zero_span i current longest [] = longest"
| "zero_span i current longest (s # ss) =
     (if s = 0 then
        (let current' = (if snd current = 0 then (i, 1) else (fst current, Suc (snd current)));
             longest' = (if snd longest < snd current' then current' else longest)
         in zero_span (Suc i) current' longest' ss)
      else zero_span (Suc i) (0, 0) longest ss)"

definition fmt_subslice :: "nat list \<Rightarrow> string" where
  "fmt_subslice ss = join '':'' (map (show_radix 16) ss)"

definition to_ipv4_mapped :: "nat list \<Rightarrow> ipv4 option" where
  "to_ipv4_mapped ss =
     (if take 6 ss = [0, 0, 0, 0, 0, 65535] then Some (word_of_nat (from_segs (drop 6 ss))) else None)"

definition show_ipv6 :: "ipv6 \<Rightarrow> string" where
  "show_ipv6 a =
     (let ss = v6_segments a
      in case to_ipv4_mapped ss of
           Some v4 \<Rightarrow> ''::ffff:'' @ show_ipv4 v4
         | None \<Rightarrow>
             (case zero_span 0 (0, 0) (0, 0) ss of (start, n) \<Rightarrow>
                if 1 < n then fmt_subslice (take start ss) @ ''::'' @ fmt_subslice (drop (start + n) ss)
                else fmt_subslice ss))"

fun show_ip :: "ip_addr \<Rightarrow> string" where
  "show_ip (IpV4 a) = show_ipv4 a"
| "show_ip (IpV6 a) = show_ipv6 a"

fun show_socket_addr :: "socket_addr \<Rightarrow> string" where
  "show_socket_addr (SockV4 a p) = show_ipv4 a @ '':'' @ show_nat (unat p)"
| "show_socket_addr (SockV6 a p _ sc) =
     ''['' @ show_ipv6 a @ (if sc = 0 then [] else ''%'' @ show_nat (unat sc)) @ '']:'' @ show_nat (unat p)"

subsection \<open>Parsing\<close>

text \<open>Each reader returns what it read and the rest of the input, or fails and consumes nothing.\<close>

definition read_number :: "nat \<Rightarrow> nat \<Rightarrow> bool \<Rightarrow> nat \<Rightarrow> string \<Rightarrow> (nat \<times> string) option" where
  "read_number r max_digits allow_zero_prefix bound s =
     (let ds = takeWhile (is_digit r) s
      in if ds = [] \<or> max_digits < length ds then None
         else if \<not> allow_zero_prefix \<and> hd ds = CHR ''0'' \<and> 1 < length ds then None
         else if digits_val r ds < bound then Some (digits_val r ds, dropWhile (is_digit r) s)
         else None)"

definition read_given_char :: "char \<Rightarrow> string \<Rightarrow> string option" where
  "read_given_char c s = (case s of [] \<Rightarrow> None | x # t \<Rightarrow> if x = c then Some t else None)"

definition read_separator ::
    "char \<Rightarrow> bool \<Rightarrow> (string \<Rightarrow> ('a \<times> string) option) \<Rightarrow> string \<Rightarrow> ('a \<times> string) option" where
  "read_separator sep first inner s =
     (if first then inner s
      else case read_given_char sep s of None \<Rightarrow> None | Some t \<Rightarrow> inner t)"

fun read_octets :: "nat \<Rightarrow> bool \<Rightarrow> string \<Rightarrow> (nat list \<times> string) option" where
  "read_octets 0 first s = Some ([], s)"
| "read_octets (Suc n) first s =
     (case read_separator (CHR ''.'') first (read_number 10 3 False 256) s of
        None \<Rightarrow> None
      | Some (x, t) \<Rightarrow>
          (case read_octets n False t of None \<Rightarrow> None | Some (xs, u) \<Rightarrow> Some (x # xs, u)))"

definition read_ipv4_addr :: "string \<Rightarrow> (ipv4 \<times> string) option" where
  "read_ipv4_addr s =
     (case read_octets 4 True s of
        None \<Rightarrow> None
      | Some (xs, t) \<Rightarrow> Some (word_of_nat (from_be (map word_of_nat xs)), t))"

fun read_groups :: "nat \<Rightarrow> bool \<Rightarrow> string \<Rightarrow> nat list \<times> bool \<times> string" where
  "read_groups 0 first s = ([], False, s)"
| "read_groups (Suc k) first s =
     (case (if 0 < k then read_separator (CHR '':'') first read_ipv4_addr s else None) of
        Some (v4, t) \<Rightarrow> (to_segs 2 (unat v4), True, t)
      | None \<Rightarrow>
          (case read_separator (CHR '':'') first (read_number 16 4 True 65536) s of
             None \<Rightarrow> ([], False, s)
           | Some (g, t) \<Rightarrow>
               (case read_groups k False t of (gs, b, u) \<Rightarrow> (g # gs, b, u))))"

definition read_ipv6_addr :: "string \<Rightarrow> (ipv6 \<times> string) option" where
  "read_ipv6_addr s =
     (case read_groups 8 True s of (head, head_ipv4, s1) \<Rightarrow>
        if length head = 8 then Some (word_of_nat (from_segs head), s1)
        else if head_ipv4 then None
        else
          (case read_given_char (CHR '':'') s1 of None \<Rightarrow> None | Some s2 \<Rightarrow>
           (case read_given_char (CHR '':'') s2 of None \<Rightarrow> None | Some s3 \<Rightarrow>
            (case read_groups (8 - Suc (length head)) True s3 of (tail, _, s4) \<Rightarrow>
               Some (word_of_nat (from_segs
                 (head @ replicate (8 - length head - length tail) 0 @ tail)), s4)))))"

definition read_ip_addr :: "string \<Rightarrow> (ip_addr \<times> string) option" where
  "read_ip_addr s =
     (case read_ipv4_addr s of
        Some (a, t) \<Rightarrow> Some (IpV4 a, t)
      | None \<Rightarrow> (case read_ipv6_addr s of Some (a, t) \<Rightarrow> Some (IpV6 a, t) | None \<Rightarrow> None))"

definition parse_ip :: "string \<Rightarrow> ip_addr option" where
  "parse_ip s = (case read_ip_addr s of Some (ip, []) \<Rightarrow> Some ip | _ \<Rightarrow> None)"


subsection \<open>Octets and segments\<close>

lemma length_v4_octets [simp]: "length (v4_octets a) = 4"
  by (simp add: v4_octets_def)

lemma length_v6_octets [simp]: "length (v6_octets a) = 16"
  by (simp add: v6_octets_def)

lemma v4_of_octets [simp]: "word_of_nat (from_be (v4_octets a)) = a"
  by (simp add: v4_octets_def from_be_to_be)

lemma unat_v6_less [simp]: "unat (a :: ipv6) < 340282366920938463463374607431768211456"
  using unsigned_less [of a, where 'a = nat] by simp

lemma v6_of_octets [simp]: "word_of_nat (from_be (v6_octets a)) = a"
  by (simp add: v6_octets_def from_be_to_be)

lemma length_to_segs [simp]: "length (to_segs n x) = n"
  by (induction n arbitrary: x) auto

lemma from_segs_snoc [simp]: "from_segs (ss @ [s]) = from_segs ss * 65536 + s"
  by (simp add: from_segs_def)

lemma from_segs_Nil [simp]: "from_segs [] = 0"
  by (simp add: from_segs_def)

lemma from_segs_to_segs: "from_segs (to_segs n x) = x mod 65536 ^ n"
proof (induction n arbitrary: x)
  case 0
  then show ?case by simp
next
  case (Suc n)
  have "x div 65536 mod 65536 ^ n * 65536 + x mod 65536 = x mod (65536 * 65536 ^ n)"
    by (simp add: mod_mult2_eq mult.commute)
  with Suc show ?case by simp
qed

lemma to_segs_bound: "list_all (\<lambda>s. s < 65536) (to_segs n x)"
  by (induction n arbitrary: x) auto

lemma from_segs_bound: "list_all (\<lambda>s. s < 65536) ss \<Longrightarrow> from_segs ss < 65536 ^ length ss"
proof (induction ss rule: rev_induct)
  case Nil
  then show ?case by simp
next
  case (snoc s ss)
  then have "from_segs ss < 65536 ^ length ss" and "s < 65536" by simp_all
  then show ?case by simp
qed

lemma to_segs_from_segs:
  "list_all (\<lambda>s. s < 65536) ss \<Longrightarrow> length ss = n \<Longrightarrow> to_segs n (from_segs ss) = ss"
proof (induction ss arbitrary: n rule: rev_induct)
  case Nil
  then show ?case by simp
next
  case (snoc s ss)
  then obtain m where n: "n = Suc m" and m: "length ss = m" by (cases n) auto
  with snoc show ?case by simp
qed

lemma length_v6_segments [simp]: "length (v6_segments a) = 8"
  by (simp add: v6_segments_def)

lemma v6_segments_bound: "list_all (\<lambda>s. s < 65536) (v6_segments a)"
  by (simp add: v6_segments_def to_segs_bound)

lemma v6_of_segments [simp]: "word_of_nat (from_segs (v6_segments a)) = a"
  by (simp add: v6_segments_def from_segs_to_segs)

subsection \<open>Reading back what was printed\<close>

definition stops :: "nat \<Rightarrow> string \<Rightarrow> bool" where
  "stops r s \<longleftrightarrow> s = [] \<or> \<not> is_digit r (hd s)"

lemma read_number_show:
  assumes r: "2 \<le> r" "r \<le> 36" and n: "n < bound" "n < r ^ k" and k: "0 < k" and st: "stops r t"
  shows "read_number r k z bound (show_radix r n @ t) = Some (n, t)"
proof -
  let ?s = "show_radix r n"
  have all: "\<And>c. c \<in> set ?s \<Longrightarrow> is_digit r c"
    using show_radix_digits [OF r, of n] by (simp add: list_all_iff)
  have t: "takeWhile (is_digit r) t = []" "dropWhile (is_digit r) t = t"
    using st by (cases t; simp add: stops_def)+
  have tw: "takeWhile (is_digit r) (?s @ t) = ?s" and dw: "dropWhile (is_digit r) (?s @ t) = t"
    using all t by simp_all
  have len: "length ?s \<le> k" using length_show_radix [OF r(1) n(2) k] .
  have lead: "\<not> (hd ?s = CHR ''0'' \<and> 1 < length ?s)"
    using show_radix_no_leading_zero [OF r, of n] by blast
  show ?thesis
    unfolding read_number_def Let_def tw dw
    using n(1) len lead by (auto simp: digits_val_show_radix [OF r])
qed

lemma not_digit_seps [simp]:
  "\<not> is_digit 10 (CHR ''.'')" "\<not> is_digit 10 (CHR '':'')" "\<not> is_digit 16 (CHR '':'')"
  "\<not> is_digit 10 (CHR ''f'')" "\<not> is_digit 10 (CHR ''['')" "\<not> is_digit 10 (CHR '']'')"
  "\<not> is_digit 16 (CHR ''.'')" "\<not> is_digit 16 (CHR ''['')" "\<not> is_digit 16 (CHR '']'')"
  by (simp_all add: is_digit_def to_digit_def)

lemma stops_Nil [simp]: "stops r []"
  by (simp add: stops_def)

lemma stops_Cons [simp]: "stops r (c # s) \<longleftrightarrow> \<not> is_digit r c"
  by (simp add: stops_def)

lemma read_octets_show:
  assumes "list_all (\<lambda>x. x < 256) xs" and "stops 10 t"
  shows "read_octets (length xs) False (concat (map (\<lambda>x. ''.'' @ show_nat x) xs) @ t) = Some (xs, t)"
  using assms(1)
proof (induction xs)
  case Nil
  then show ?case by simp
next
  case (Cons x xs)
  let ?t = "concat (map (\<lambda>x. ''.'' @ show_nat x) xs) @ t"
  have "stops 10 ?t" using assms(2) by (cases xs) simp_all
  then have "read_number 10 3 False 256 (show_nat x @ ?t) = Some (x, ?t)"
    using Cons.prems by (intro read_number_show) simp_all
  then show ?case
    using Cons by (simp add: read_separator_def read_given_char_def)
qed

lemma read_ipv4_addr_show:
  assumes "stops 10 t"
  shows "read_ipv4_addr (show_ipv4 a @ t) = Some (a, t)"
proof -
  let ?os = "v4_octets a" and ?n = "\<lambda>b :: byte. unat b"
  obtain o1 os where os: "?os = o1 # os" and len: "length os = 3"
    using length_v4_octets [of a] by (cases ?os) auto
  let ?xs = "map ?n os" and ?t = "concat (map (\<lambda>x. ''.'' @ show_nat x) (map ?n os)) @ t"
  have s: "show_ipv4 a @ t = show_nat (?n o1) @ ?t"
    by (simp add: show_ipv4_def os join_Cons comp_def)
  have "stops 10 ?t" using assms len by (cases os) simp_all
  then have one: "read_number 10 3 False 256 (show_nat (?n o1) @ ?t) = Some (?n o1, ?t)"
    by (intro read_number_show) (simp_all add: less_trans [OF unat_byte_less])
  have "read_octets (length ?xs) False ?t = Some (?xs, t)"
    using assms by (intro read_octets_show) (simp_all add: list_all_iff)
  then have "read_octets 4 True (show_ipv4 a @ t) = Some (?n o1 # ?xs, t)"
    using one len unfolding s by (simp add: eval_nat_numeral read_separator_def)
  moreover have "map (\<lambda>x. word_of_nat x :: byte) (?n o1 # ?xs) = ?os"
    by (simp add: os comp_def)
  ultimately show ?thesis by (simp add: read_ipv4_addr_def)
qed

lemma read_number_rest: "read_number r k z b s = Some (n, t) \<Longrightarrow> t = dropWhile (is_digit r) s"
  by (auto simp: read_number_def Let_def split: if_splits)

lemma read_ipv4_addr_dot:
  assumes "read_ipv4_addr s = Some (a, t)"
  shows "CHR ''.'' \<in> set s"
proof -
  from assms obtain x u where n: "read_number 10 3 False 256 s = Some (x, u)"
    and o3: "read_octets 3 False u \<noteq> None"
    by (auto simp: read_ipv4_addr_def eval_nat_numeral read_separator_def split: option.splits prod.splits)
  from o3 have "CHR ''.'' \<in> set u"
    by (cases u) (auto simp: eval_nat_numeral read_separator_def read_given_char_def split: if_splits)
  then show ?thesis
    using read_number_rest [OF n] set_dropWhileD by fastforce
qed

lemma read_ipv4_addr_no_dot: "CHR ''.'' \<notin> set s \<Longrightarrow> read_ipv4_addr s = None"
  using read_ipv4_addr_dot by (cases "read_ipv4_addr s") auto

lemma read_ipv4_addr_stops: "stops 10 s \<Longrightarrow> read_ipv4_addr s = None"
  by (cases s) (simp_all add: read_ipv4_addr_def eval_nat_numeral read_separator_def read_number_def)

lemma read_number_stops: "stops r s \<Longrightarrow> read_number r k z b s = None"
  by (cases s) (simp_all add: read_number_def)

lemma no_dot_hex: "CHR ''.'' \<notin> set (show_radix 16 n)"
  using show_radix_digits [of 16 n] by (auto simp: list_all_iff)

text \<open>What may follow a run of printed groups: the end of the text or the compression.\<close>

definition groups_end :: "string \<Rightarrow> bool" where
  "groups_end t \<longleftrightarrow> (t = [] \<or> (\<exists>u. t = ''::'' @ u)) \<and> CHR ''.'' \<notin> set t"

lemma groups_end_stops: "groups_end t \<Longrightarrow> stops 16 t"
  by (auto simp: groups_end_def)

lemma read_groups_end:
  assumes "groups_end t"
  shows "read_groups k first t = ([], False, t)"
proof (cases k)
  case 0
  then show ?thesis by simp
next
  case (Suc m)
  have v4: "read_separator (CHR '':'') first read_ipv4_addr t = None"
  proof (cases first)
    case True
    then show ?thesis using assms by (simp add: read_separator_def groups_end_def read_ipv4_addr_no_dot)
  next
    case False
    then show ?thesis using assms
      by (auto simp: read_separator_def groups_end_def read_given_char_def read_ipv4_addr_no_dot)
  qed
  have "read_separator (CHR '':'') first (read_number 16 4 True 65536) t = None"
    using assms by (auto simp: read_separator_def groups_end_def read_given_char_def read_number_stops)
  then show ?thesis using v4 Suc by simp
qed

lemma read_groups_more:
  assumes "list_all (\<lambda>x. x < 65536) xs" and "length xs \<le> k" and "groups_end t"
  shows "read_groups k False (concat (map (\<lambda>x. '':'' @ show_radix 16 x) xs) @ t) = (xs, False, t)"
  using assms(1,2)
proof (induction xs arbitrary: k)
  case Nil
  then show ?case using read_groups_end [OF assms(3)] by simp
next
  case (Cons x xs)
  then obtain m where k: "k = Suc m" by (cases k) auto
  let ?t = "concat (map (\<lambda>x. '':'' @ show_radix 16 x) xs) @ t"
  have nodot: "CHR ''.'' \<notin> set (show_radix 16 x @ ?t)"
    using assms(3) no_dot_hex by (auto simp: groups_end_def)
  have "stops 16 ?t" using groups_end_stops [OF assms(3)] by (cases xs) simp_all
  then have "read_number 16 4 True 65536 (show_radix 16 x @ ?t) = Some (x, ?t)"
    using Cons.prems by (intro read_number_show) simp_all
  then show ?case
    using Cons nodot k by (auto simp: read_separator_def read_given_char_def read_ipv4_addr_no_dot)
qed

lemma read_groups_show:
  assumes "list_all (\<lambda>x. x < 65536) xs" and "length xs \<le> k" and "groups_end t"
  shows "read_groups k True (fmt_subslice xs @ t) = (xs, False, t)"
proof (cases xs)
  case Nil
  then show ?thesis using read_groups_end [OF assms(3)] by (simp add: fmt_subslice_def)
next
  case (Cons x ys)
  then obtain m where k: "k = Suc m" using assms(2) by (cases k) auto
  let ?t = "concat (map (\<lambda>x. '':'' @ show_radix 16 x) ys) @ t"
  have s: "fmt_subslice xs @ t = show_radix 16 x @ ?t"
    by (simp add: fmt_subslice_def Cons join_Cons comp_def)
  have nodot: "CHR ''.'' \<notin> set (show_radix 16 x @ ?t)"
    using assms(3) no_dot_hex by (auto simp: groups_end_def)
  have "stops 16 ?t" using groups_end_stops [OF assms(3)] by (cases ys) simp_all
  then have "read_number 16 4 True 65536 (show_radix 16 x @ ?t) = Some (x, ?t)"
    using assms(1) Cons by (intro read_number_show) simp_all
  moreover have "read_groups m False ?t = (ys, False, t)"
    using assms Cons k by (intro read_groups_more) simp_all
  ultimately show ?thesis
    unfolding s k using nodot Cons assms(2) k by (auto simp: read_separator_def read_ipv4_addr_no_dot)
qed


subsection \<open>The compressed run\<close>

text \<open>
  The loop of \<open>Display for Ipv6Addr\<close> keeps a current and a longest run of zero groups: both lie
  inside the groups seen so far, \<open>ss\<close> taken up to \<open>i\<close>.
\<close>

definition zero_run :: "nat list \<Rightarrow> nat \<Rightarrow> nat \<times> nat \<Rightarrow> bool" where
  "zero_run ss i sp \<longleftrightarrow> fst sp + snd sp \<le> i \<and> (\<forall>j. fst sp \<le> j \<and> j < fst sp + snd sp \<longrightarrow> ss ! j = 0)"

definition run_ends :: "nat \<Rightarrow> nat \<times> nat \<Rightarrow> bool" where
  "run_ends i sp \<longleftrightarrow> snd sp = 0 \<or> fst sp + snd sp = i"

lemma zero_span_run:
  assumes "zero_run ss i current" and "run_ends i current" and "zero_run ss i longest"
    and "drop i ss = rest"
  shows "zero_run ss (i + length rest) (zero_span i current longest rest)"
  using assms
proof (induction i current longest rest rule: zero_span.induct)
  case (1 i current longest)
  then show ?case by simp
next
  case (2 i current longest s rest)
  have i: "i < length ss" using "2.prems"(4) by (metis drop_eq_Nil leI list.distinct(1))
  have s: "ss ! i = s" and rest: "drop (Suc i) ss = rest"
    using "2.prems"(4) i by (metis Cons_nth_drop_Suc list.inject)+
  show ?case
  proof (cases "s = 0")
    case False
    have "zero_run ss (Suc i) (0, 0)" "run_ends (Suc i) (0, 0)" "zero_run ss (Suc i) longest"
      using "2.prems"(3) by (auto simp: zero_run_def run_ends_def)
    then show ?thesis using "2.IH"(2) False rest by simp
  next
    case True
    let ?c = "if snd current = 0 then (i, 1) else (fst current, Suc (snd current))"
    let ?l = "if snd longest < snd ?c then ?c else longest"
    have c: "zero_run ss (Suc i) ?c" "run_ends (Suc i) ?c"
      using "2.prems"(1,2) s True by (auto simp: zero_run_def run_ends_def less_Suc_eq)
    moreover have "zero_run ss (Suc i) ?l"
      using c(1) "2.prems"(3) by (auto simp: zero_run_def)
    ultimately show ?thesis using "2.IH"(1) True rest by (simp add: Let_def)
  qed
qed

lemma zero_span_decompose:
  assumes "zero_span 0 (0, 0) (0, 0) ss = (st, n)"
  shows "st + n \<le> length ss" and "ss = take st ss @ replicate n 0 @ drop (st + n) ss"
proof -
  have run: "zero_run ss (length ss) (st, n)"
    using zero_span_run [of ss 0 "(0, 0)" "(0, 0)" ss] assms
    by (simp add: zero_run_def run_ends_def)
  then show le: "st + n \<le> length ss" by (simp add: zero_run_def)
  have "take n (drop st ss) = replicate n 0"
    using run le by (intro nth_equalityI) (auto simp: zero_run_def)
  then show "ss = take st ss @ replicate n 0 @ drop (st + n) ss"
    by (metis append_take_drop_id drop_drop add.commute)
qed

subsection \<open>Round trips\<close>

lemma no_dot_fmt_subslice: "CHR ''.'' \<notin> set (fmt_subslice xs)"
  by (cases xs) (auto simp: fmt_subslice_def join_Cons no_dot_hex)

lemma list_all_take: "list_all P xs \<Longrightarrow> list_all P (take n xs)"
  by (auto simp: list_all_iff dest: in_set_takeD)

lemma list_all_drop: "list_all P xs \<Longrightarrow> list_all P (drop n xs)"
  by (auto simp: list_all_iff dest: in_set_dropD)

lemma stops_hex_dec: "stops 16 t \<Longrightarrow> stops 10 t"
  by (cases t) (auto simp: is_digit_def to_digit_def Let_def split: if_splits)

text \<open>An address printed without its dotted form, closed by the end of the text.\<close>

lemma read_ipv6_groups:
  assumes "zero_span 0 (0, 0) (0, 0) (v6_segments a) = (st, n)"
  shows "read_ipv6_addr (if 1 < n
      then fmt_subslice (take st (v6_segments a)) @ ''::'' @ fmt_subslice (drop (st + n) (v6_segments a))
      else fmt_subslice (v6_segments a)) = Some (a, [])"
proof (cases "1 < n")
  case True
  let ?ss = "v6_segments a"
  let ?hd = "take st ?ss" and ?tl = "drop (st + n) ?ss"
  have le: "st + n \<le> 8" and dec: "?ss = ?hd @ replicate n 0 @ ?tl"
    using zero_span_decompose [OF assms] by simp_all
  have bounds: "list_all (\<lambda>s. s < 65536) ?hd" "list_all (\<lambda>s. s < 65536) ?tl"
    using v6_segments_bound [of a] by (simp_all add: list_all_take list_all_drop)
  have "groups_end (''::'' @ fmt_subslice ?tl)"
    using no_dot_fmt_subslice by (auto simp: groups_end_def)
  then have h: "read_groups 8 True (fmt_subslice ?hd @ ''::'' @ fmt_subslice ?tl)
      = (?hd, False, ''::'' @ fmt_subslice ?tl)"
    using bounds by (intro read_groups_show) simp_all
  have t: "read_groups (7 - st) True (fmt_subslice ?tl) = (?tl, False, [])"
    using read_groups_show [of ?tl "7 - st" "[]"] bounds True le by (simp add: groups_end_def)
  have "8 - st - length ?tl = n" using le by simp
  then have segs: "?hd @ replicate (8 - st - length ?tl) 0 @ ?tl = ?ss" using dec by simp
  have hl: "length ?hd = st" "st \<noteq> 8" using le True by simp_all
  show ?thesis
    using True h t segs hl by (simp add: read_ipv6_addr_def read_given_char_def)
next
  case False
  have "read_groups 8 True (fmt_subslice (v6_segments a) @ []) = (v6_segments a, False, [])"
    using v6_segments_bound by (intro read_groups_show) (simp_all add: groups_end_def)
  then show ?thesis using False by (simp add: read_ipv6_addr_def)
qed

lemma read_ipv6_mapped:
  assumes "to_ipv4_mapped (v6_segments a) = Some v4"
  shows "read_ipv6_addr (''::ffff:'' @ show_ipv4 v4) = Some (a, [])"
proof -
  let ?ss = "v6_segments a"
  have hd6: "take 6 ?ss = [0, 0, 0, 0, 0, 65535]" and v4: "v4 = word_of_nat (from_segs (drop 6 ?ss))"
    using assms by (auto simp: to_ipv4_mapped_def split: if_splits)
  have d6: "list_all (\<lambda>s. s < 65536) (drop 6 ?ss)" "length (drop 6 ?ss) = 2"
    using v6_segments_bound [of a] by (simp_all add: list_all_drop)
  then have "from_segs (drop 6 ?ss) < 4294967296" using from_segs_bound [OF d6(1)] by simp
  then have "unat v4 = from_segs (drop 6 ?ss)" by (simp add: v4 unat_of_nat)
  then have tail: "to_segs 2 (unat v4) = drop 6 ?ss"
    using to_segs_from_segs [OF d6] by simp
  have g1: "read_groups 8 True (''::ffff:'' @ show_ipv4 v4) = ([], False, ''::ffff:'' @ show_ipv4 v4)"
    by (simp add: read_groups.simps(2) [of 7, simplified] read_separator_def
        read_ipv4_addr_stops read_number_stops)
  have "read_number 16 4 True 65536 (show_radix 16 65535 @ '':'' @ show_ipv4 v4)
      = Some (65535, '':'' @ show_ipv4 v4)"
    by (intro read_number_show) simp_all
  moreover have "show_radix 16 65535 = ''ffff''"
    by (simp add: show_radix.simps digit_char_def char_of_eq_iff)
  ultimately have f: "read_number 16 4 True 65536 (''ffff:'' @ show_ipv4 v4)
      = Some (65535, '':'' @ show_ipv4 v4)" by simp
  have g2: "read_groups 6 False ('':'' @ show_ipv4 v4) = (drop 6 ?ss, True, [])"
    using read_ipv4_addr_show [of "[]" v4] tail
    by (simp add: read_groups.simps(2) [of 5, simplified] read_separator_def read_given_char_def)
  have g3: "read_groups 7 True (''ffff:'' @ show_ipv4 v4) = (65535 # drop 6 ?ss, True, [])"
    using f g2 by (simp add: read_groups.simps(2) [of 6, simplified] read_separator_def
        read_ipv4_addr_stops)
  have "replicate 5 (0::nat) = [0, 0, 0, 0, 0]" by (simp add: eval_nat_numeral)
  then have "replicate 5 0 @ 65535 # drop 6 ?ss = take 6 ?ss @ drop 6 ?ss"
    unfolding hd6 by simp
  then have segs: "replicate 5 0 @ 65535 # drop 6 ?ss = ?ss"
    by (simp only: append_take_drop_id)
  show ?thesis
    using g1 g3 segs d6(2) by (simp add: read_ipv6_addr_def read_given_char_def)
qed

lemma parse_show_ipv4 [simp]: "parse_ip (show_ipv4 a) = Some (IpV4 a)"
  using read_ipv4_addr_show [of "[]" a] by (simp add: parse_ip_def read_ip_addr_def)

lemma parse_show_ipv6 [simp]: "parse_ip (show_ipv6 a) = Some (IpV6 a)"
proof (cases "to_ipv4_mapped (v6_segments a)")
  case None
  obtain st n where z: "zero_span 0 (0, 0) (0, 0) (v6_segments a) = (st, n)" by force
  have s: "show_ipv6 a = (if 1 < n
      then fmt_subslice (take st (v6_segments a)) @ ''::'' @ fmt_subslice (drop (st + n) (v6_segments a))
      else fmt_subslice (v6_segments a))"
    by (simp add: show_ipv6_def None z Let_def)
  have "CHR ''.'' \<notin> set (show_ipv6 a)"
    unfolding s using no_dot_fmt_subslice by auto
  then have "read_ipv4_addr (show_ipv6 a) = None" by (rule read_ipv4_addr_no_dot)
  then show ?thesis
    using read_ipv6_groups [OF z] s by (simp add: parse_ip_def read_ip_addr_def)
next
  case (Some v4)
  have "show_ipv6 a = ''::ffff:'' @ show_ipv4 v4" by (simp add: show_ipv6_def Some)
  then show ?thesis
    using read_ipv6_mapped [OF Some]
    by (simp add: parse_ip_def read_ip_addr_def read_ipv4_addr_stops)
qed

lemma parse_show_ip: "parse_ip (show_ip ip) = Some ip"
  by (cases ip) simp_all

end
