(* ===== verification/Errors.thy ===== *)
theory Errors
  imports Std_Net
begin

section \<open>Errors of the interface crate\<close>

text \<open>
  \<open>rd-interface/src/error.rs\<close> and the error enum of \<open>rd-interface/src/context.rs\<close>. Boxed
  foreign errors are held as their message. The \<open>Display\<close> texts are generated by the
  \<open>thiserror\<close> derive, so the conversion to \<open>io::Error\<close> takes the renderer as an argument.
\<close>

datatype ctx_error = Serde string | NonExist | BadFormat

datatype rd_error =
    IO io_error
  | NotMatched
  | NotEnabled
  | NotImplemented
  | ConfigError string
  | AbortedByUser
  | ContextError ctx_error
  | NotFound string
  | OtherError string
  | WithContext string rd_error
  | Timeout

type_synonym 'a rd = "rd_error + 'a"

definition to_io_err :: "(rd_error \<Rightarrow> string) \<Rightarrow> rd_error \<Rightarrow> io_error" where
  "to_io_err display e = (case e of IO i \<Rightarrow> i | _ \<Rightarrow> IoError OtherKind (display e))"

text \<open>\<open>map_other\<close> boxes a foreign error, here an \<open>io::Error\<close>.\<close>

definition map_other :: "io_error \<Rightarrow> rd_error" where
  "map_other e = OtherError (io_msg e)"

definition is_aborted :: "rd_error \<Rightarrow> bool" where
  "is_aborted e = (e = AbortedByUser)"

definition is_addr_in_use :: "rd_error \<Rightarrow> bool" where
  "is_addr_in_use e = (case e of IO i \<Rightarrow> io_kind i = AddrInUse | _ \<Rightarrow> False)"

definition err_context :: "string \<Rightarrow> 'a rd \<Rightarrow> 'a rd" where
  "err_context ctx r = map_err (WithContext ctx) r"

lemma to_io_err_IO [simp]: "to_io_err display (IO i) = i"
  by (simp add: to_io_err_def)

lemma is_addr_in_use_io: "is_addr_in_use (IO (to_io_err display e)) = is_addr_in_use e"
  by (cases e) (simp_all add: is_addr_in_use_def to_io_err_def)

lemma err_context_ok [simp]: "err_context c r = Inr x \<longleftrightarrow> r = Inr x"
  by (simp add: err_context_def)

end
