(* ===== verification/Address.thy ===== *)
theory Address
  imports Errors
begin

section \<open>Addresses\<close>

text \<open>
  \<open>rd-interface/src/address.rs\<close>: the \<open>Address\<close> every \<open>Net\<close> and \<open>Server\<close> of the program takes (a socket
  address or a domain with a port), its conversions from text and pairs (\<open>IntoAddress\<close>),
  \<open>Display\<close>, and the normalisation that turns a domain which spells an IP address into a
  socket address. The locale \<open>display_from_str\<close> states what a type with \<open>Display\<close> and
  \<open>FromStr\<close> promises to serde (\<open>collect_str\<close> and \<open>FromStr::from_str\<close> are its serializer and
  deserializer); \<open>Address\<close> and \<open>AddressDomain\<close> are interpretations.
\<close>

record address_domain =
  ad_domain :: string
  ad_port :: u16

datatype address = SocketAddr socket_addr | Domain string u16

definition no_addr :: io_error where
  "no_addr = IoError AddrNotAvailable ''''"

definition address_domain_into :: "address_domain \<Rightarrow> address" where
  "address_domain_into d = Domain (ad_domain d) (ad_port d)"

definition parse_port :: "string \<Rightarrow> u16 io" where
  "parse_port s = (case parse_uint 65536 s of None \<Rightarrow> Inl no_addr | Some n \<Rightarrow> Inr (word_of_nat n))"

definition address_domain_from_str :: "string \<Rightarrow> address_domain io" where
  "address_domain_from_str s =
     (case rsplit2 (CHR '':'') s of (p, h) \<Rightarrow>
        rbind (parse_port p) (\<lambda>port.
        rbind (ok_or no_addr h) (\<lambda>host.
        Inr \<lparr>ad_domain = host, ad_port = port\<rparr>)))"

definition show_address_domain :: "address_domain \<Rightarrow> string" where
  "show_address_domain d = ad_domain d @ '':'' @ show_nat (unat (ad_port d))"

definition strip_brackets :: "string \<Rightarrow> string" where
  "strip_brackets host =
     (case Option.bind (strip_prefix ''['' host) (strip_suffix '']'') of
        Some h \<Rightarrow> h | None \<Rightarrow> host)"

definition host_to_address :: "string \<Rightarrow> u16 \<Rightarrow> address" where
  "host_to_address host port =
     (case parse_ip (strip_brackets host) of
        Some ip \<Rightarrow> SocketAddr (sock_new ip port)
      | None \<Rightarrow> Domain host port)"

definition str_into_address :: "string \<Rightarrow> address io" where
  "str_into_address s =
     (case rsplit2 (CHR '':'') s of (p, h) \<Rightarrow>
        rbind (parse_port p) (\<lambda>port.
        rbind (ok_or no_addr h) (\<lambda>host.
        Inr (host_to_address host port))))"

definition pair_into_address :: "string \<times> u16 \<Rightarrow> address io" where
  "pair_into_address hp = Inr (host_to_address (fst hp) (snd hp))"

definition ip_into_address :: "ip_addr \<times> u16 \<Rightarrow> address io" where
  "ip_into_address ip = Inr (SocketAddr (sock_new (fst ip) (snd ip)))"

fun show_address :: "address \<Rightarrow> string" where
  "show_address (Domain d p) = d @ '':'' @ show_nat (unat p)"
| "show_address (SocketAddr s) = show_socket_addr s"

fun any_addr_port :: "socket_addr \<Rightarrow> address" where
  "any_addr_port (SockV4 _ _) = SocketAddr (sock_new (IpV4 0) 0)"
| "any_addr_port (SockV6 _ _ _ _) = SocketAddr (sock_new (IpV6 0) 0)"

text \<open>\<open>normalize\<close> returns the private enum \<open>Either\<close>: \<open>Left\<close> a socket address, \<open>Right\<close> a domain.\<close>

fun normalize :: "address \<Rightarrow> socket_addr + (string \<times> u16)" where
  "normalize (SocketAddr s) = Inl s"
| "normalize (Domain d p) =
     (case parse_ip (strip_brackets d) of
        Some ip \<Rightarrow> Inl (sock_new ip p)
      | None \<Rightarrow> Inr (d, p))"

definition to_any_addr_port :: "address \<Rightarrow> address io" where
  "to_any_addr_port a = (case normalize a of Inl s \<Rightarrow> Inr (any_addr_port s) | Inr _ \<Rightarrow> Inl no_addr)"

definition to_socket_addr :: "address \<Rightarrow> socket_addr io" where
  "to_socket_addr a = (case normalize a of Inl s \<Rightarrow> Inr s | Inr _ \<Rightarrow> Inl no_addr)"

definition str_into_socket_addr :: "string \<Rightarrow> socket_addr io" where
  "str_into_socket_addr s = rbind (str_into_address s) to_socket_addr"

definition resolve_with :: "(string \<Rightarrow> u16 \<Rightarrow> socket_addr list io) \<Rightarrow> address \<Rightarrow> socket_addr list io" where
  "resolve_with f a = (case normalize a of Inl s \<Rightarrow> Inr [s] | Inr (d, p) \<Rightarrow> f d p)"

fun host :: "address \<Rightarrow> string" where
  "host (SocketAddr (SockV4 a _)) = show_ipv4 a"
| "host (SocketAddr (SockV6 a _ _ _)) = ''['' @ show_ipv6 a @ '']''"
| "host (Domain d _) = d"

fun port :: "address \<Rightarrow> u16" where
  "port (SocketAddr s) = sock_port s"
| "port (Domain _ p) = p"

definition to_normalized :: "address \<Rightarrow> address" where
  "to_normalized a = (case normalize a of Inl s \<Rightarrow> SocketAddr s | Inr (d, p) \<Rightarrow> Domain d p)"

fun into_normalized :: "address \<Rightarrow> address" where
  "into_normalized (SocketAddr s) = SocketAddr s"
| "into_normalized (Domain d p) =
     (case parse_ip (strip_brackets d) of
        Some ip \<Rightarrow> SocketAddr (sock_new ip p)
      | None \<Rightarrow> Domain d p)"

fun is_domain :: "address \<Rightarrow> bool" where
  "is_domain (Domain _ _) = True"
| "is_domain _ = False"

fun is_socket_addr :: "address \<Rightarrow> bool" where
  "is_socket_addr (SocketAddr _) = True"
| "is_socket_addr _ = False"

text \<open>
  An address that its text determines: a socket address printed by \<open>Display\<close> loses the flow
  label of IPv6, and the text of a scoped one is no \<open>IpAddr\<close>.
\<close>

fun plain :: "address \<Rightarrow> bool" where
  "plain (SocketAddr (SockV6 _ _ f sc)) \<longleftrightarrow> f = 0 \<and> sc = 0"
| "plain _ \<longleftrightarrow> True"

subsection \<open>Brackets and ports\<close>

lemma strip_brackets_brackets [simp]: "strip_brackets (''['' @ s @ '']'') = s"
proof -
  have "strip_prefix ''['' (''['' @ s @ '']'') = Some (s @ '']'')"
    by (simp add: strip_prefix_def starts_with_def)
  moreover have "strip_suffix '']'' (s @ '']'') = Some s"
    by (simp add: strip_suffix_def)
  ultimately show ?thesis by (simp add: strip_brackets_def)
qed

lemma strip_brackets_plain: "s = [] \<or> hd s \<noteq> CHR ''['' \<Longrightarrow> strip_brackets s = s"
  by (cases s) (auto simp: strip_brackets_def strip_prefix_def starts_with_def)

lemma show_ipv4_hd: "show_ipv4 a \<noteq> [] \<and> is_digit 10 (hd (show_ipv4 a))"
proof -
  obtain o1 os where "v4_octets a = o1 # os"
    using length_v4_octets [of a] by (cases "v4_octets a") auto
  then have s: "show_ipv4 a = show_nat (unat o1) @ concat (map (\<lambda>b. ''.'' @ show_nat (unat b)) os)"
    by (simp add: show_ipv4_def join_Cons comp_def)
  have "is_digit 10 (hd (show_nat (unat o1)))"
    using show_radix_digits [of 10 "unat o1"] by (cases "show_nat (unat o1)") auto
  then show ?thesis by (simp add: s)
qed

lemma strip_brackets_ipv4 [simp]: "strip_brackets (show_ipv4 a) = show_ipv4 a"
  using show_ipv4_hd [of a] by (intro strip_brackets_plain) auto

lemma parse_port_show [simp]: "parse_port (show_nat (unat (p :: u16))) = Inr p"
  by (simp add: parse_port_def)

lemma parse_port_err: "parse_port s = Inl e \<Longrightarrow> e = no_addr"
  by (auto simp: parse_port_def split: option.splits)

lemma no_colon_show_nat [simp]: "CHR '':'' \<notin> set (show_nat n)"
  by (rule not_digit_in_show_nat) simp

subsection \<open>Normal forms\<close>

lemma into_normalized_eq [simp]: "into_normalized a = to_normalized a"
  by (cases a) (simp_all add: to_normalized_def split: option.splits)

lemma host_to_address_normal: "host_to_address h p = to_normalized (Domain h p)"
  by (simp add: host_to_address_def to_normalized_def split: option.splits)

lemma to_normalized_SocketAddr [simp]: "to_normalized (SocketAddr s) = SocketAddr s"
  by (simp add: to_normalized_def)

lemma to_normalized_idem [simp]: "to_normalized (to_normalized a) = to_normalized a"
  by (cases a) (simp_all add: to_normalized_def split: option.splits)

lemma port_to_normalized [simp]: "port (to_normalized a) = port a"
  by (cases a) (auto simp: to_normalized_def sock_new_def split: option.splits ip_addr.splits)

lemma plain_to_normalized [simp]: "plain a \<Longrightarrow> plain (to_normalized a)"
  by (cases a) (auto simp: to_normalized_def sock_new_def split: option.splits ip_addr.splits)

lemma host_to_address_host:
  "plain a \<Longrightarrow> host_to_address (host a) (port a) = to_normalized a"
proof (cases a rule: host.cases)
  case (2 ip p f sc)
  assume "plain a"
  moreover have "strip_brackets (host a) = show_ipv6 ip"
    using strip_brackets_brackets [of "show_ipv6 ip"] by (simp add: 2)
  ultimately show ?thesis by (simp add: 2 host_to_address_def sock_new_def)
qed (simp_all add: host_to_address_def sock_new_def to_normalized_def split: option.splits)

lemma show_address_host: "plain a \<Longrightarrow> show_address a = host a @ '':'' @ show_nat (unat (port a))"
  by (cases a rule: host.cases) simp_all

lemma str_into_address_colon:
  "CHR '':'' \<notin> set p \<Longrightarrow> str_into_address (h @ '':'' @ p) =
     rbind (parse_port p) (\<lambda>q. Inr (host_to_address h q))"
  by (cases "parse_port p") (simp_all add: str_into_address_def)

lemma str_into_address_show: "plain a \<Longrightarrow> str_into_address (show_address a) = Inr (to_normalized a)"
  using str_into_address_colon [of "show_nat (unat (port a))" "host a"]
  by (simp add: show_address_host host_to_address_host)

subsection \<open>Types with Display and FromStr\<close>

text \<open>
  \<open>from_str\<close> reads what \<open>display\<close> prints back as its normal form, and a normal form is stable. A
  configuration value that is written and read again any number of times then keeps its first
  normal form.
\<close>

locale display_from_str =
  fixes display :: "'a \<Rightarrow> string"
    and from_str :: "string \<Rightarrow> 'a io"
    and norm :: "'a \<Rightarrow> 'a"
    and printable :: "'a \<Rightarrow> bool"
  assumes parse_show: "printable a \<Longrightarrow> from_str (display a) = Inr (norm a)"
    and norm_norm: "norm (norm a) = norm a"
    and printable_norm: "printable a \<Longrightarrow> printable (norm a)"
begin

fun reread :: "nat \<Rightarrow> 'a \<Rightarrow> 'a io" where
  "reread 0 a = Inr a"
| "reread (Suc n) a = rbind (from_str (display a)) (reread n)"

lemma reread_stable: "printable a \<Longrightarrow> reread (Suc n) a = Inr (norm a)"
proof (induction n arbitrary: a)
  case 0
  then show ?case by (simp add: parse_show)
next
  case (Suc n)
  then have "reread (Suc n) (norm a) = Inr (norm (norm a))"
    by (intro Suc.IH printable_norm)
  then show ?case using Suc.prems by (simp add: parse_show norm_norm)
qed

end

interpretation addr_text: display_from_str show_address str_into_address to_normalized plain
  by unfold_locales (simp_all add: str_into_address_show)

lemma address_domain_roundtrip: "address_domain_from_str (show_address_domain d) = Inr d"
  by (simp add: address_domain_from_str_def show_address_domain_def)

interpretation addr_domain_text:
  display_from_str show_address_domain address_domain_from_str "\<lambda>d. d" "\<lambda>_. True"
  by unfold_locales (simp_all add: address_domain_roundtrip)


subsection \<open>Properties\<close>

text \<open>C14: Reading the text that \<open>Display\<close> prints for an address gives its normal form back, for
  IPv4, IPv6 (compressed and IPv4-mapped) and domains, however often it is written and read. The
  flow label and the scope of IPv6 must be zero: \<open>Display\<close> drops the first, and the parser
  takes no scope.\<close>

theorem address_text_roundtrip:
  "plain a \<Longrightarrow> str_into_address (show_address a) = Inr (to_normalized a) \<and>
     addr_text.reread (Suc n) a = Inr (to_normalized a)"
  using addr_text.reread_stable addr_text.parse_show by blast

lemma address_text_roundtrip_witness:
  "str_into_address (show_address (Domain ''[::1]'' 443)) = Inr (to_normalized (Domain ''[::1]'' 443)) \<and>
     addr_text.reread (Suc 2) (Domain ''[::1]'' 443) = Inr (to_normalized (Domain ''[::1]'' 443))"
  by (rule address_text_roundtrip) simp

text \<open>A text is accepted as an address exactly when it has a port after its last colon; the part
  before it is the host, an IP address (in brackets or not) or a domain, and every other text is
  refused with \<open>AddrNotAvailable\<close>.\<close>

theorem str_into_address_spec:
  "str_into_address s =
     (if \<exists>h p. s = h @ '':'' @ p \<and> CHR '':'' \<notin> set p \<and> parse_uint 65536 p \<noteq> None
      then (case rsplit2 (CHR '':'') s of (p, h) \<Rightarrow>
              Inr (to_normalized (Domain (the h) (word_of_nat (the (parse_uint 65536 p))))))
      else Inl no_addr)"
proof (cases "\<exists>h p. s = h @ '':'' @ p \<and> CHR '':'' \<notin> set p \<and> parse_uint 65536 p \<noteq> None")
  case True
  then obtain h p n where "s = h @ '':'' @ p" "CHR '':'' \<notin> set p" "parse_uint 65536 p = Some n"
    by auto
  then show ?thesis
    using True by (simp add: str_into_address_def parse_port_def host_to_address_normal)
next
  case False
  obtain p h where ph: "rsplit2 (CHR '':'') s = (p, h)" by fastforce
  show ?thesis
  proof (cases h)
    case None
    then show ?thesis using ph False
      by (auto simp: str_into_address_def parse_port_def split: option.splits)
  next
    case (Some t)
    then have "parse_uint 65536 p = None"
      using False rsplit2_SomeD [of "CHR '':''" s p t] ph by auto
    then show ?thesis using ph False by (auto simp: str_into_address_def parse_port_def)
  qed
qed

text \<open>The three ways to ask whether an address is an IP address agree: \<open>to_socket_addr\<close> succeeds
  exactly on the addresses whose normal form is a socket address, \<open>into_normalized\<close> equals
  \<open>to_normalized\<close>, and \<open>resolve\<close> calls the resolver only for a real domain.\<close>

theorem normal_form_agreement:
  "into_normalized a = to_normalized a \<and>
   (to_socket_addr a = Inr s \<longleftrightarrow> to_normalized a = SocketAddr s) \<and>
   (to_socket_addr a = Inl e \<longleftrightarrow> is_domain (to_normalized a) \<and> e = no_addr) \<and>
   resolve_with f a = (case to_normalized a of SocketAddr s \<Rightarrow> Inr [s] | Domain d p \<Rightarrow> f d p)"
  by (cases a)
    (auto simp: to_normalized_def to_socket_addr_def resolve_with_def split: option.splits)

end
