(* ===== verification/Hysteria_Codec.thy ===== *)
theory Hysteria_Codec
  imports Address
begin

unbundle bit_operations_syntax

section \<open>Hysteria 2: variable-length integers, TCP messages and the Salamander obfuscation\<close>

text \<open>
  \<open>protocol/hysteria/src/codec.rs\<close> and \<open>salamander.rs\<close>. Integers are \<open>u64\<close> words; a stream is the
  list of the bytes still to come. Rust's \<open>Vec\<close> appends are list appends: a writer returns the
  bytes it pushes. BLAKE2b is a foreign crate, so the key stream is the argument \<open>hash\<close>.
\<close>

subsection \<open>QUIC variable-length integers\<close>

definition HY2_TCP_REQUEST :: u64 where
  "HY2_TCP_REQUEST = 0x401"

definition varint_len :: "u64 \<Rightarrow> nat" where
  "varint_len x =
     (if x < 0x40 then 1 else if x < 0x4000 then 2 else if x < 0x40000000 then 4 else 8)"

definition write_varint :: "u64 \<Rightarrow> bytes" where
  "write_varint x =
     (if x < 0x40 then [ucast x]
      else if x < 0x4000 then u16_to_be (ucast (x OR push_bit 14 1))
      else if x < 0x40000000 then u32_to_be (ucast (x OR push_bit 30 2))
      else u64_to_be (x OR push_bit 62 3))"

definition decode_varint :: "bytes \<Rightarrow> (u64 \<times> nat) option" where
  "decode_varint input = (case input of [] \<Rightarrow> None | first # _ \<Rightarrow>
     let tag = drop_bit 6 first; b0 = first AND 0x3F in
     if tag = 0 then Some (ucast b0, 1)
     else if tag = 1 then
       (if length input < 2 then None
        else Some (ucast (u16_from_be (b0 # take 1 (drop 1 input))), 2))
     else if tag = 2 then
       (if length input < 4 then None
        else Some (ucast (u32_from_be (b0 # take 3 (drop 1 input))), 4))
     else if tag = 3 then
       (if length input < 8 then None
        else Some (u64_from_be (b0 # take 7 (drop 1 input)), 8))
     else None)"

definition varint_tag_len :: "byte \<Rightarrow> nat" where
  "varint_tag_len first =
     (let tag = drop_bit 6 first in
      if tag = 0 then 1 else if tag = 1 then 2 else if tag = 2 then 4 else if tag = 3 then 8 else 1)"

definition read_quic_varint :: "bytes \<Rightarrow> (u64 \<times> bytes) rd" where
  "read_quic_varint r =
     rbind (map_err map_other (read_exact 1 r)) (\<lambda>(first, r).
     let len = varint_tag_len (hd first) in
     rbind (if len > 1 then map_err map_other (read_exact (len - 1) r) else Inr ([], r)) (\<lambda>(more, r).
     rbind (ok_or (OtherError ''hysteria: bad varint'') (decode_varint (first @ more))) (\<lambda>(v, _).
     Inr (v, r))))"

subsection \<open>TCP request and response\<close>

definition address_to_host_port :: "address \<Rightarrow> string" where
  "address_to_host_port target = (case target of
     SocketAddr sa \<Rightarrow> show_socket_addr sa
   | Domain domain p \<Rightarrow> domain @ '':'' @ show_nat (unat p))"

definition write_tcp_request_with_padding :: "address \<Rightarrow> bytes \<Rightarrow> bytes" where
  "write_tcp_request_with_padding target padding =
     (let addr_bytes = as_bytes (address_to_host_port target) in
      write_varint HY2_TCP_REQUEST
      @ write_varint (word_of_nat (length addr_bytes)) @ addr_bytes
      @ write_varint (word_of_nat (length padding)) @ padding)"

definition write_tcp_response :: "byte \<Rightarrow> string \<Rightarrow> bytes \<Rightarrow> bytes" where
  "write_tcp_response status msg padding =
     [status] @ write_varint (word_of_nat (length (as_bytes msg))) @ as_bytes msg
     @ write_varint (word_of_nat (length padding)) @ padding"

definition write_tcp_response_ok :: "bytes \<Rightarrow> bytes" where
  "write_tcp_response_ok padding = write_tcp_response 0 '''' padding"

definition write_tcp_response_error :: "string \<Rightarrow> bytes \<Rightarrow> bytes" where
  "write_tcp_response_error msg padding = write_tcp_response 1 msg padding"

subsection \<open>Salamander\<close>

text \<open>
  \<open>derive_key_stream\<close> runs BLAKE2b-256 over key and salt; \<open>hash\<close> maps the hashed bytes to the
  32-byte digest. The random salt is an argument.
\<close>

definition derive_key_stream :: "(bytes \<Rightarrow> bytes) \<Rightarrow> bytes \<Rightarrow> bytes \<Rightarrow> bytes" where
  "derive_key_stream hash salt shared_key = hash (shared_key @ salt)"

definition xor_stream :: "bytes \<Rightarrow> bytes \<Rightarrow> bytes" where
  "xor_stream key_stream payload =
     map (\<lambda>(i, b). b XOR key_stream ! (i mod length key_stream)) (enumerate 0 payload)"

definition encode_packet :: "(bytes \<Rightarrow> bytes) \<Rightarrow> bytes \<Rightarrow> bytes \<Rightarrow> bytes \<Rightarrow> bytes" where
  "encode_packet hash salt shared_key payload =
     salt @ xor_stream (derive_key_stream hash salt shared_key) payload"

text \<open>\<open>decode_in_place\<close> returns the new buffer and the length of the payload at its front.\<close>

definition decode_in_place :: "(bytes \<Rightarrow> bytes) \<Rightarrow> bytes \<Rightarrow> bytes \<Rightarrow> bytes \<times> nat option" where
  "decode_in_place hash shared_key buf =
     (if length buf < 8 then (buf, None)
      else
        let salt = take 8 buf;
            payload = xor_stream (derive_key_stream hash salt shared_key) (drop 8 buf);
            buf = salt @ payload
        in (payload @ drop (length payload) buf, Some (length buf - 8)))"


subsection \<open>Varints\<close>

lemma tagged_to_be:
  assumes "x < 64 * 256 ^ n" and "t < 4"
  shows "to_be (Suc n) (x + t * (64 * 256 ^ n)) = word_of_nat (x div 256 ^ n + 64 * t) # to_be n x"
proof -
  have "(x + t * (64 * 256 ^ n)) div 256 ^ n = (x + 256 ^ n * (64 * t)) div 256 ^ n"
    by (simp add: algebra_simps)
  also have "\<dots> = 64 * t + x div 256 ^ n"
    by (rule div_mult_self2) simp
  finally have d: "(x + t * (64 * 256 ^ n)) div 256 ^ n = x div 256 ^ n + 64 * t"
    by simp
  have "x div 256 ^ n < 64"
    using assms(1) by (simp add: less_mult_imp_div_less)
  moreover have "64 * t \<le> 192" using assms(2) by simp
  ultimately have "(x div 256 ^ n + 64 * t) mod 256 = x div 256 ^ n + 64 * t"
    by simp
  moreover have "(x + t * (64 * 256 ^ n)) mod 256 ^ n = x mod 256 ^ n"
    by (metis mod_mult_self1 mult.assoc)
  then have "to_be n (x + t * (64 * 256 ^ n)) = to_be n x"
    by (metis to_be_mod)
  ultimately show ?thesis by (simp only: to_be_Cons d)
qed

lemma unat_eq_word_of_nat: "unat w = n \<Longrightarrow> w = word_of_nat n"
  by auto

lemma tag_byte:
  assumes "h < 64" and "t < 4"
  shows "drop_bit 6 (word_of_nat (h + 64 * t) :: byte) = word_of_nat t"
    and "(word_of_nat (h + 64 * t) :: byte) AND 0x3F = word_of_nat h"
proof -
  define v where "v = (word_of_nat (h + 64 * t) :: byte)"
  have "unat v = (h + 64 * t) mod 256"
    using unat_of_nat [where 'a = 8, of "h + 64 * t"] by (simp add: v_def del: of_nat_add)
  with assms have w: "unat v = h + 64 * t" by simp
  have "unat (drop_bit 6 v) = t"
    using assms by (simp only: unsigned_drop_bit_eq w) (simp add: drop_bit_eq_div take_bit_eq_mod)
  then show "drop_bit 6 (word_of_nat (h + 64 * t) :: byte) = word_of_nat t"
    unfolding v_def [symmetric] by (metis unat_eq_word_of_nat)
  have m: "(0x3F :: byte) = mask 6" by (simp add: mask_eq_exp_minus_1)
  have "unat (v AND 0x3F) = h"
    unfolding m using assms
    by (simp only: take_bit_eq_mask [symmetric] unsigned_take_bit_eq w) (simp add: take_bit_eq_mod)
  then show "(word_of_nat (h + 64 * t) :: byte) AND 0x3F = word_of_nat h"
    unfolding v_def [symmetric] by (metis unat_eq_word_of_nat)
qed

lemma unat_or_push_bit:
  assumes "unat (x :: u64) < 2 ^ k" and "unat (push_bit k t :: u64) = push_bit k s"
  shows "unat (x OR push_bit k t) = unat x + s * 2 ^ k"
  using assms by (simp only: unsigned_or_eq nat_or_push_bit)

lemma unat_ucast_small: "unat (x :: u64) < 2 ^ LENGTH('a) \<Longrightarrow> unat (ucast x :: 'a :: len word) = unat x"
  by (simp add: unsigned_ucast_eq take_bit_nat_eq_self)

lemma unat_take_bit_62: "unat (take_bit 62 (x :: u64)) = unat x mod 2 ^ 62"
  by (simp only: unsigned_take_bit_eq) (simp add: take_bit_eq_mod)

lemma or_top_bits: "take_bit 62 (x :: u64) OR push_bit 62 3 = x OR push_bit 62 3"
proof (rule bit_word_eqI)
  fix n
  assume "n < LENGTH(64)"
  then consider "n < 62" | "n = 62" | "n = 63" by fastforce
  then show "bit (take_bit 62 x OR push_bit 62 3) n = bit (x OR push_bit 62 3) n"
    by cases (simp_all add: bit_simps)
qed

lemma take_bit_62_small: "unat (x :: u64) < 2 ^ 62 \<Longrightarrow> take_bit 62 x = x"
  using unat_take_bit_62 [of x] by (simp add: word_unat_eq_iff)

lemma to_be_two: "to_be 2 y = to_be (Suc 1) y"
  by (simp only: Suc_1)

lemma numeral_eq_Suc_8: "(8 :: nat) = Suc 7"
  by simp

lemma write_varint_bytes:
  "unat x < 64 \<Longrightarrow> write_varint x = to_be (Suc 0) (unat x + 0 * (64 * 256 ^ 0))"
  "64 \<le> unat x \<Longrightarrow> unat x < 16384 \<Longrightarrow> write_varint x = to_be (Suc 1) (unat x + 1 * (64 * 256 ^ 1))"
  "16384 \<le> unat x \<Longrightarrow> unat x < 1073741824 \<Longrightarrow> write_varint x = to_be (Suc 3) (unat x + 2 * (64 * 256 ^ 3))"
  "1073741824 \<le> unat x \<Longrightarrow>
     write_varint x = to_be (Suc 7) (unat (take_bit 62 x) + 3 * (64 * 256 ^ 7))"
proof -
  assume x: "unat x < 64"
  then have "[ucast x] = [word_of_nat (unat x) :: byte]" by simp
  with x show "write_varint x = to_be (Suc 0) (unat x + 0 * (64 * 256 ^ 0))"
    by (simp add: write_varint_def word_less_nat_alt)
next
  assume x: "64 \<le> unat x" "unat x < 16384"
  have "unat (x OR push_bit 14 1) = unat x + 1 * 2 ^ 14"
    by (rule unat_or_push_bit) (use x in \<open>simp_all add: push_bit_eq_mult\<close>)
  then have "unat (ucast (x OR push_bit 14 1) :: u16) = unat x + 1 * (64 * 256 ^ 1)"
    using x by (subst unat_ucast_small) simp_all
  with x show "write_varint x = to_be (Suc 1) (unat x + 1 * (64 * 256 ^ 1))"
    by (simp only: write_varint_def u16_to_be_def word_less_nat_alt) (simp add: to_be_two)
next
  assume x: "16384 \<le> unat x" "unat x < 1073741824"
  have "unat (x OR push_bit 30 2) = unat x + 2 * 2 ^ 30"
    by (rule unat_or_push_bit) (use x in \<open>simp_all add: push_bit_eq_mult\<close>)
  then have "unat (ucast (x OR push_bit 30 2) :: u32) = unat x + 2 * (64 * 256 ^ 3)"
    using x by (subst unat_ucast_small) simp_all
  with x show "write_varint x = to_be (Suc 3) (unat x + 2 * (64 * 256 ^ 3))"
    by (simp only: write_varint_def u32_to_be_def word_less_nat_alt) simp
next
  assume x: "1073741824 \<le> unat x"
  have "unat (take_bit 62 x OR push_bit 62 3) = unat (take_bit 62 x) + 3 * 2 ^ 62"
    by (rule unat_or_push_bit) (simp_all only: unat_take_bit_62, simp_all add: push_bit_eq_mult)
  then have e: "unat (x OR push_bit 62 3) = unat (take_bit 62 x) + 3 * (64 * 256 ^ 7)"
    by (simp only: or_top_bits) simp
  have "write_varint x = u64_to_be (x OR push_bit 62 3)"
    using x by (simp add: write_varint_def word_less_nat_alt)
  also have "\<dots> = to_be (Suc 7) (unat (take_bit 62 x) + 3 * (64 * 256 ^ 7))"
    by (simp only: u64_to_be_def e numeral_eq_Suc_8)
  finally show "write_varint x = to_be (Suc 7) (unat (take_bit 62 x) + 3 * (64 * 256 ^ 7))" .
qed


lemma varint_shape:
  obtains n t where "(n, t) \<in> {(0, 0), (1, 1), (3, 2), (7, 3)}" and "varint_len x = Suc n"
    and "unat (take_bit 62 x) < 64 * 256 ^ n"
    and "write_varint x =
      word_of_nat (unat (take_bit 62 x) div 256 ^ n + 64 * t) # to_be n (unat (take_bit 62 x))"
proof -
  consider "unat x < 64" | "64 \<le> unat x" "unat x < 16384" | "16384 \<le> unat x" "unat x < 1073741824"
    | "1073741824 \<le> unat x"
    by fastforce
  then show ?thesis
  proof cases
    case 1
    have y: "take_bit 62 x = x" using 1 by (intro take_bit_62_small) simp
    have b: "unat (take_bit 62 x) < 64 * 256 ^ 0" using 1 by (simp add: y)
    show ?thesis
      by (rule that [of 0 0, OF _ _ b])
        (use 1 in \<open>simp_all only: write_varint_bytes(1) tagged_to_be [OF b, unfolded y] y\<close>,
          simp_all add: varint_len_def word_less_nat_alt)
  next
    case 2
    have y: "take_bit 62 x = x" using 2 by (intro take_bit_62_small) simp
    have b: "unat (take_bit 62 x) < 64 * 256 ^ 1" using 2 by (simp add: y)
    show ?thesis
      by (rule that [of 1 1, OF _ _ b])
        (use 2 in \<open>simp_all only: write_varint_bytes(2) tagged_to_be [OF b, unfolded y] y\<close>,
          simp_all add: varint_len_def word_less_nat_alt)
  next
    case 3
    have y: "take_bit 62 x = x" using 3 by (intro take_bit_62_small) simp
    have b: "unat (take_bit 62 x) < 64 * 256 ^ 3" using 3 by (simp add: y)
    show ?thesis
      by (rule that [of 3 2, OF _ _ b])
        (use 3 in \<open>simp_all only: write_varint_bytes(3) tagged_to_be [OF b, unfolded y] y\<close>,
          simp_all add: varint_len_def word_less_nat_alt)
  next
    case 4
    have b: "unat (take_bit 62 x) < 64 * 256 ^ 7" by (simp add: unat_take_bit_62)
    show ?thesis
      by (rule that [of 7 3, OF _ _ b])
        (use 4 in \<open>simp_all only: write_varint_bytes(4) tagged_to_be [OF b]\<close>,
          simp_all add: varint_len_def word_less_nat_alt)
  qed
qed

lemma length_write_varint [simp]: "length (write_varint x) = varint_len x"
  by (rule varint_shape [of x]) simp

lemma from_be_shape: "x < 64 * 256 ^ n \<Longrightarrow> from_be (word_of_nat (x div 256 ^ n) # to_be n x) = x"
proof -
  assume "x < 64 * 256 ^ n"
  then have "x div 256 ^ n < 256" by (simp add: less_mult_imp_div_less)
  then show ?thesis
    using div_mult_mod_eq [of x "256 ^ n"] by (simp add: from_be_Cons unat_of_nat from_be_to_be_mod)
qed

lemma ucast_ucast_small:
  assumes "unat (x :: u64) < 2 ^ LENGTH('a :: len)"
  shows "ucast (ucast x :: 'a word) = x"
proof -
  have "ucast (ucast x :: 'a word) = (word_of_nat (unat (ucast x :: 'a word)) :: u64)" by simp
  also have "\<dots> = x" using assms by (simp only: unat_ucast_small) simp
  finally show ?thesis .
qed

lemma varint_parts:
  obtains b n where "write_varint x = b # to_be n (unat (take_bit 62 x))"
    and "varint_tag_len b = Suc n" and "varint_len x = Suc n"
    and "\<And>rest. decode_varint (b # to_be n (unat (take_bit 62 x)) @ rest) = Some (take_bit 62 x, Suc n)"
proof -
  define y where "y = take_bit 62 x"
  obtain n t where nt: "(n, t) \<in> {(0, 0), (1, 1), (3, 2), (7, 3)}"
    and len: "varint_len x = Suc n" and small: "unat y < 64 * 256 ^ n"
    and w: "write_varint x = word_of_nat (unat y div 256 ^ n + 64 * t) # to_be n (unat y)"
    unfolding y_def by (rule varint_shape)
  have h: "unat y div 256 ^ n < 64" using small by (simp add: less_mult_imp_div_less)
  have t4: "t < 4" using nt by auto
  define b where "b = (word_of_nat (unat y div 256 ^ n + 64 * t) :: byte)"
  note tb = tag_byte [OF h t4, folded b_def]
  have u64: "u64_from_be (word_of_nat (unat y div 256 ^ n) # to_be n (unat y)) = y"
    by (simp add: u64_from_be_def from_be_shape [OF small])
  have u32: "ucast (u32_from_be (word_of_nat (unat y div 256 ^ n) # to_be n (unat y))) = y"
    if "64 * 256 ^ n \<le> (2 :: nat) ^ 32"
    using that small by (simp add: u32_from_be_def from_be_shape [OF small] ucast_ucast_small)
  have u16: "ucast (u16_from_be (word_of_nat (unat y div 256 ^ n) # to_be n (unat y))) = y"
    if "64 * 256 ^ n \<le> (2 :: nat) ^ 16"
    using that small by (simp add: u16_from_be_def from_be_shape [OF small] ucast_ucast_small)
  have u8: "ucast (ucast y :: byte) = y" if "n = 0"
    using that small by (simp add: ucast_ucast_small)
  have "decode_varint (b # to_be n (unat y) @ rest) = Some (y, Suc n)" for rest
    using nt tb
    by (elim insertE) (use u64 u32 u16 u8 in \<open>simp_all add: decode_varint_def\<close>)
  moreover have "varint_tag_len b = Suc n"
    using nt tb by (elim insertE) (simp_all add: varint_tag_len_def)
  ultimately show ?thesis using that [of b n] w len by (simp add: b_def y_def)
qed


lemma decode_write_varint [simp]:
  "decode_varint (write_varint x @ rest) = Some (take_bit 62 x, varint_len x)"
  by (rule varint_parts [of x]) simp

lemma read_write_varint [simp]:
  "read_quic_varint (write_varint x @ rest) = Inr (take_bit 62 x, rest)"
proof -
  obtain b n where w: "write_varint x = b # to_be n (unat (take_bit 62 x))"
    and tag: "varint_tag_len b = Suc n"
    and d: "\<And>rest. decode_varint (b # to_be n (unat (take_bit 62 x)) @ rest) = Some (take_bit 62 x, Suc n)"
    by (rule varint_parts [of x]) blast
  show ?thesis
    using d [of "[]"] by (cases n) (simp_all add: read_quic_varint_def w tag read_exact_def)
qed

lemma take_bit_62_of_nat:
  "n < 2 ^ 62 \<Longrightarrow> take_bit 62 (word_of_nat n :: u64) = word_of_nat n"
  by (intro take_bit_62_small) (simp add: unat_of_nat)

lemma unat_varint_len [simp]: "n < 2 ^ 62 \<Longrightarrow> unat (take_bit 62 (word_of_nat n :: u64)) = n"
  by (simp only: take_bit_62_of_nat) (simp add: unat_of_nat)

lemma decode_varint_consumed:
  "decode_varint input = Some (v, n) \<Longrightarrow> 0 < n \<and> n \<le> length input \<and> n \<in> {1, 2, 4, 8}"
  by (auto simp: decode_varint_def Let_def Suc_le_eq split: list.splits if_splits)

text \<open>\<open>write_varint\<close> writes exactly \<open>varint_len x\<close> bytes and both readers recover its value and
  stop right after it, whatever follows. The value is that of the low 62 bits of \<open>x\<close>: it is \<open>x\<close>
  itself for every \<open>x\<close> below \<open>2 ^ 62\<close>, and larger integers lose their two top bits.\<close>

theorem varint_roundtrip:
  "length (write_varint x) = varint_len x
   \<and> decode_varint (write_varint x @ rest) = Some (take_bit 62 x, varint_len x)
   \<and> read_quic_varint (write_varint x @ rest) = Inr (take_bit 62 x, rest)
   \<and> (take_bit 62 x = x \<longleftrightarrow> unat x < 2 ^ 62)"
proof -
  have "unat (take_bit 62 x) < 2 ^ 62" by (simp only: unat_take_bit_62) simp
  then have "take_bit 62 x = x \<longleftrightarrow> unat x < 2 ^ 62" using take_bit_62_small [of x] by auto
  then show ?thesis by simp
qed

subsection \<open>Salamander\<close>

lemma length_xor_stream [simp]: "length (xor_stream ks p) = length p"
  by (simp add: xor_stream_def)

lemma xor_stream_nth: "i < length p \<Longrightarrow> xor_stream ks p ! i = p ! i XOR ks ! (i mod length ks)"
  by (simp add: xor_stream_def nth_enumerate_eq)

lemma xor_stream_involution [simp]: "xor_stream ks (xor_stream ks p) = p"
  by (rule nth_equalityI) (simp_all add: xor_stream_nth xor.assoc)

text \<open>A packet obfuscated by \<open>encode_packet\<close> with an 8-byte salt is decoded by
  \<open>decode_in_place\<close> under the same key to the original payload, at the front of the buffer and
  with its length; a buffer without a full salt is refused unchanged.\<close>

theorem salamander_roundtrip:
  assumes "length salt = 8"
  shows "(case decode_in_place hash key (encode_packet hash salt key payload) of
            (buf, n) \<Rightarrow> n = Some (length payload) \<and> take (length payload) buf = payload)
    \<and> length (encode_packet hash salt key payload) = 8 + length payload
    \<and> (length short < 8 \<longrightarrow> decode_in_place hash key short = (short, None))"
  using assms by (simp add: encode_packet_def decode_in_place_def Let_def)

definition toy_hash :: "bytes \<Rightarrow> bytes" where
  "toy_hash bs = replicate 32 (fold (\<lambda>b a. a * 31 + b) bs 7)"

lemma salamander_roundtrip_witness:
  "length [1, 2, 3, 4, 5, 6, 7, 8 :: byte] = 8
   \<and> take (length [10, 20, 30 :: byte]) (fst (decode_in_place toy_hash [9, 9] (encode_packet toy_hash [1, 2, 3, 4, 5, 6, 7, 8] [9, 9] [10, 20, 30])))
     = [10, 20, 30]"
  using salamander_roundtrip [where salt = "[1, 2, 3, 4, 5, 6, 7, 8]" and hash = toy_hash and key = "[9, 9]"
      and payload = "[10, 20, 30]" and short = "[]"]
  by (simp add: case_prod_beta)

end
