(* ===== verification/Hysteria_Tcp.thy ===== *)
theory Hysteria_Tcp
  imports Hysteria_Codec
begin

section \<open>Hysteria 2: TCP streams, client and server side\<close>

text \<open>
  The TCP parts of \<open>protocol/hysteria/src/client.rs\<close> and \<open>server.rs\<close>: the request the client
  writes on a fresh QUIC stream, the server's handler, the response reader of the client, the
  admission test of the authentication request, and the choice of server name and address.
  A QUIC stream is the list of bytes still to be received; \<open>fin\<close> is the text of quinn's error
  for a stream that ends inside a read. The outbound network is the argument \<open>connect\<close>
  (what \<open>Net::tcp_connect\<close> answers for a target), \<open>display\<close> renders an error. The message of a
  UTF-8 error is kept without its byte positions.
\<close>

definition recv_exact :: "string \<Rightarrow> nat \<Rightarrow> bytes \<Rightarrow> (bytes \<times> bytes) rd" where
  "recv_exact fin n recv =
     (if n \<le> length recv then Inr (take n recv, drop n recv) else Inl (OtherError fin))"

text \<open>The discard loop: \<open>d\<close> is the length of the scratch buffer, which is positive whenever the
  loop is entered.\<close>

function discard_loop :: "string \<Rightarrow> nat \<Rightarrow> nat \<Rightarrow> bytes \<Rightarrow> bytes rd" where
  "discard_loop fin d left recv =
     (if left = 0 \<or> d = 0 then Inr recv
      else
        let n = min d left in
        rbind (recv_exact fin n recv) (\<lambda>(_, recv). discard_loop fin d (left - n) recv))"
  by pat_completeness auto
termination
  by (relation "measure (\<lambda>(_, _, left, _). left)") auto

definition skip_padding :: "string \<Rightarrow> nat \<Rightarrow> bytes \<Rightarrow> bytes rd" where
  "skip_padding fin padding_len recv =
     (if padding_len > 0 then discard_loop fin (min padding_len (64 * 1024)) padding_len recv
      else Inr recv)"

subsection \<open>Client\<close>

definition read_tcp_response :: "string \<Rightarrow> (bytes \<Rightarrow> string) \<Rightarrow> bytes \<Rightarrow> bytes rd" where
  "read_tcp_response fin lossy recv =
     rbind (recv_exact fin 1 recv) (\<lambda>(status, recv).
     rbind (read_quic_varint recv) (\<lambda>(msg_len, recv).
     if unat msg_len > 0 then
       rbind (recv_exact fin (unat msg_len) recv) (\<lambda>(msg, recv).
       rbind (read_quic_varint recv) (\<lambda>(padding_len, recv).
       rbind (skip_padding fin (unat padding_len) recv) (\<lambda>recv.
       if status ! 0 \<noteq> 0 then Inl (OtherError (''hysteria tcp error: '' @ lossy msg))
       else Inr recv)))
     else
       rbind (read_quic_varint recv) (\<lambda>(padding_len, recv).
       rbind (skip_padding fin (unat padding_len) recv) (\<lambda>recv.
       if status ! 0 \<noteq> 0 then Inl (OtherError ''hysteria tcp error'') else Inr recv))))"

text \<open>The bytes the client sends on a new stream; \<open>padding\<close> is what \<open>random_padding_bytes(32)\<close> drew.\<close>

definition tcp_connect_request :: "bool \<Rightarrow> bytes \<Rightarrow> address \<Rightarrow> bytes" where
  "tcp_connect_request cfg_padding padding addr =
     write_tcp_request_with_padding addr (if cfg_padding then padding else [])"

definition resolve_server_name :: "string option \<Rightarrow> address \<Rightarrow> string rd" where
  "resolve_server_name server_name server = (case server_name of
     Some sni \<Rightarrow> Inr sni
   | None \<Rightarrow> (case server of
       Domain h _ \<Rightarrow> Inr h
     | SocketAddr _ \<Rightarrow> Inl (OtherError ''hysteria: server_name is required when server is an IP'')))"

definition resolve_server_addr :: "(address \<Rightarrow> socket_addr list rd) \<Rightarrow> address \<Rightarrow> socket_addr rd" where
  "resolve_server_addr lookup_host server = (case server of
     SocketAddr sa \<Rightarrow> Inr sa
   | Domain _ _ \<Rightarrow> rbind (lookup_host server) (\<lambda>addrs.
       ok_or (OtherError ''hysteria: failed to resolve server address'')
         (case addrs of [] \<Rightarrow> None | a # _ \<Rightarrow> Some a)))"

subsection \<open>Server\<close>

text \<open>
  The handler returns the bytes it sends and its result: the target, the outbound connection and
  what is left of the inbound stream, which it then relays with \<open>connect_tcp\<close>.
\<close>

definition hy2_handle_tcp_stream ::
  "string \<Rightarrow> (rd_error \<Rightarrow> string) \<Rightarrow> (address \<Rightarrow> 'c rd) \<Rightarrow> bytes \<Rightarrow> bytes \<times> (address \<times> 'c \<times> bytes) rd" where
  "hy2_handle_tcp_stream fin display connect recv =
     (case
        rbind (read_quic_varint recv) (\<lambda>(msg_type, recv).
        if msg_type \<noteq> 0x401 then Inl (OtherError ''hysteria: unknown stream type'') else
        rbind (read_quic_varint recv) (\<lambda>(addr_len, recv).
        if unat addr_len = 0 \<or> unat addr_len > 1024
        then Inl (OtherError ''hysteria: invalid tcp address length'') else
        rbind (recv_exact fin (unat addr_len) recv) (\<lambda>(addr_buf, recv).
        rbind (ok_or (OtherError ''invalid utf-8'') (from_utf8 addr_buf)) (\<lambda>addr_str.
        rbind (read_quic_varint recv) (\<lambda>(padding_len, recv).
        rbind (skip_padding fin (unat padding_len) recv) (\<lambda>recv.
        rbind (map_err IO (str_into_address addr_str)) (\<lambda>target. Inr (target, recv))))))))
      of
        Inl e \<Rightarrow> ([], Inl e)
      | Inr (target, recv) \<Rightarrow>
          (case connect target of
             Inl e \<Rightarrow> (write_tcp_response_error (display e) [], Inl e)
           | Inr outbound \<Rightarrow> (write_tcp_response_ok [], Inr (target, outbound, recv))))"

text \<open>An HTTP/3 request as the \<open>http\<close> crate presents it: method, path, authority and a header
  lookup that returns the value when it is visible ASCII (\<open>HeaderValue::to_str\<close>).\<close>

record http_request =
  req_method :: string
  req_path :: string
  req_authority :: "string option"
  req_header :: "string \<Rightarrow> string option"

definition is_auth_request :: "http_request \<Rightarrow> string \<Rightarrow> bool" where
  "is_auth_request req cfg_auth =
     (if req_method req \<noteq> ''POST'' then False
      else if req_path req \<noteq> ''/auth'' then False
      else
        let host_ok = (case (case map_option (\<lambda>a. eq_ignore_ascii_case a ''hysteria'') (req_authority req) of
               Some b \<Rightarrow> Some b
             | None \<Rightarrow> map_option (\<lambda>h. eq_ignore_ascii_case h ''hysteria'') (req_header req ''host'')) of
             Some b \<Rightarrow> b | None \<Rightarrow> False)
        in if \<not> host_ok then False
           else (case req_header req ''hysteria-auth'' of
               Some auth \<Rightarrow> auth = cfg_auth
             | None \<Rightarrow> (case req_header req ''authorization'' of
                 None \<Rightarrow> False
               | Some auth \<Rightarrow>
                   auth = cfg_auth
                   \<or> (case strip_prefix ''Bearer '' auth of Some v \<Rightarrow> v = cfg_auth | None \<Rightarrow> False))))"

text \<open>The server's authentication loop over the requests of a connection: the replies it sends
  and its result.\<close>

datatype auth_reply = AuthOk bool | NotFound404

fun hy2_auth_server :: "http_request list \<Rightarrow> string \<Rightarrow> bool \<Rightarrow> auth_reply list \<times> unit rd" where
  "hy2_auth_server [] cfg_auth cfg_udp = ([], Inl (OtherError ''hysteria: no auth request''))"
| "hy2_auth_server (req # reqs) cfg_auth cfg_udp =
     (if is_auth_request req cfg_auth then ([AuthOk cfg_udp], Inr ())
      else (case hy2_auth_server reqs cfg_auth cfg_udp of (rs, r) \<Rightarrow> (NotFound404 # rs, r)))"

text \<open>The client's request and its reading of the reply: status 233 is success, and the
  \<open>hysteria-udp\<close> header says whether UDP is on.\<close>

definition hy2_auth_request :: "string \<Rightarrow> u64 \<Rightarrow> string option \<Rightarrow> http_request" where
  "hy2_auth_request cfg_auth cfg_cc_rx padding =
     \<lparr> req_method = ''POST'', req_path = ''/auth'', req_authority = Some ''hysteria'',
       req_header = (\<lambda>h.
         if h = ''hysteria-auth'' then Some cfg_auth
         else if h = ''hysteria-cc-rx'' then Some (show_nat (unat cfg_cc_rx))
         else if h = ''hysteria-padding'' then padding else None) \<rparr>"

definition auth_status :: "auth_reply \<Rightarrow> nat" where
  "auth_status r = (case r of AuthOk _ \<Rightarrow> 233 | NotFound404 \<Rightarrow> 404)"

definition auth_udp_header :: "auth_reply \<Rightarrow> string option" where
  "auth_udp_header r = (case r of AuthOk udp \<Rightarrow> Some (if udp then ''true'' else ''false'') | NotFound404 \<Rightarrow> None)"

definition hy2_auth_result :: "(nat \<Rightarrow> string) \<Rightarrow> auth_reply \<Rightarrow> bool rd" where
  "hy2_auth_result show_status resp =
     (if auth_status resp \<noteq> 233
      then Inl (OtherError (''HY2 auth failed: status='' @ show_status (auth_status resp)))
      else Inr (case auth_udp_header resp of Some v \<Rightarrow> eq_ignore_ascii_case v ''true'' | None \<Rightarrow> False))"


subsection \<open>Lemmas\<close>

lemma recv_exact_append [simp]: "n = length xs \<Longrightarrow> recv_exact fin n (xs @ ys) = Inr (xs, ys)"
  by (simp add: recv_exact_def)

lemma discard_loop_enough:
  "left \<le> length recv \<Longrightarrow> 0 < d \<Longrightarrow> discard_loop fin d left recv = Inr (drop left recv)"
proof (induction fin d left recv rule: discard_loop.induct)
  case (1 fin d left recv)
  show ?case
  proof (cases "left = 0")
    case False
    define n where "n = min d left"
    have n: "n \<le> length recv" "left - n \<le> length (drop n recv)" "n \<le> left"
      using "1.prems" by (auto simp: n_def)
    have "discard_loop fin d (left - n) (drop n recv) = Inr (drop (left - n) (drop n recv))"
      by (rule "1.IH") (use n "1.prems" False in \<open>auto simp: n_def recv_exact_def\<close>)
    then show ?thesis
      using n "1.prems" False by (simp add: n_def [symmetric] recv_exact_def Let_def)
  qed simp
qed

lemma discard_loop_short:
  "length recv < left \<Longrightarrow> 0 < d \<Longrightarrow> discard_loop fin d left recv = Inl (OtherError fin)"
proof (induction fin d left recv rule: discard_loop.induct)
  case (1 fin d left recv)
  define n where "n = min d left"
  show ?case
  proof (cases "n \<le> length recv")
    case True
    have "discard_loop fin d (left - n) (drop n recv) = Inl (OtherError fin)"
      by (rule "1.IH") (use True "1.prems" in \<open>auto simp: n_def recv_exact_def\<close>)
    then show ?thesis
      using True "1.prems" by (simp add: n_def [symmetric] recv_exact_def Let_def)
  next
    case False
    then show ?thesis using "1.prems" by (simp add: n_def [symmetric] recv_exact_def Let_def)
  qed
qed

declare discard_loop.simps [simp del]

lemma skip_padding_spec:
  "skip_padding fin n recv = (if n \<le> length recv then Inr (drop n recv) else Inl (OtherError fin))"
  by (simp add: skip_padding_def discard_loop_enough discard_loop_short)

lemma address_to_host_port_show: "address_to_host_port a = show_address a"
  by (cases a) (simp_all add: address_to_host_port_def)


lemma handle_request:
  assumes "plain a" and "str_ok (show_address a)" and "length (show_address a) \<le> 1024"
    and "length (if pf then padding else []) < 2 ^ 62"
  shows "hy2_handle_tcp_stream fin display connect (tcp_connect_request pf padding a @ rest) =
    (case connect (to_normalized a) of
       Inl e \<Rightarrow> (write_tcp_response_error (display e) [], Inl e)
     | Inr outbound \<Rightarrow> (write_tcp_response_ok [], Inr (to_normalized a, outbound, rest)))"
proof -
  define pad where "pad = (if pf then padding else [])"
  define L where "L = length (show_address a)"
  have "length (show_address a) \<noteq> 0"
    using show_address_host [OF assms(1)] by simp
  then have L: "L < 2 ^ 62" "L \<noteq> 0" "\<not> L > 1024" "L = length (show_address a)"
    using assms(3) by (simp_all add: L_def)
  have P: "length pad < 2 ^ 62" using assms(4) by (simp add: pad_def)
  have ty: "take_bit 62 HY2_TCP_REQUEST = 0x401"
    by (simp add: HY2_TCP_REQUEST_def)
  show ?thesis
    unfolding hy2_handle_tcp_stream_def tcp_connect_request_def write_tcp_request_with_padding_def
      Let_def address_to_host_port_show length_as_bytes append_assoc pad_def [symmetric]
      L_def [symmetric]
    using L P assms(2) str_into_address_show [OF assms(1)]
    by (simp add: ty skip_padding_spec)
qed

lemma read_response:
  assumes "length msg < 2 ^ 62" and "length padding < 2 ^ 62"
  shows "read_tcp_response fin lossy (write_tcp_response status msg padding @ rest) =
    (if status \<noteq> 0
     then Inl (OtherError (if msg = [] then ''hysteria tcp error'' else ''hysteria tcp error: '' @ lossy (as_bytes msg)))
     else Inr rest)"
  using assms recv_exact_append [of 1 "[status]" fin]
  by (simp add: read_tcp_response_def write_tcp_response_def skip_padding_spec)

text \<open>C20: End to end over one QUIC stream: for an address whose text is UTF-8 of at most 1024
  bytes, the server connects to the normal form of the address the client asked for, leaves the
  stream exactly at the client's first payload byte, and the client's reader of the reply then
  succeeds with the following bytes untouched, or reports the server's error text when the
  outbound connection failed.\<close>

theorem hysteria_tcp_end_to_end:
  assumes "plain a" and "str_ok (show_address a)" and "length (show_address a) \<le> 1024"
    and "length padding < 2 ^ 62"
    and "\<And>e. connect (to_normalized a) = Inl e \<Longrightarrow> length (display e) < 2 ^ 62"
  shows "case hy2_handle_tcp_stream fin display connect (tcp_connect_request pf padding a @ up) of
     (reply, r) \<Rightarrow>
       (case connect (to_normalized a) of
          Inr out \<Rightarrow> r = Inr (to_normalized a, out, up)
            \<and> read_tcp_response fin lossy (reply @ down) = Inr down
        | Inl e \<Rightarrow> r = Inl e
            \<and> read_tcp_response fin lossy (reply @ down) =
               Inl (OtherError (if display e = [] then ''hysteria tcp error''
                     else ''hysteria tcp error: '' @ lossy (as_bytes (display e)))))"
proof -
  have p: "length (if pf then padding else []) < 2 ^ 62" using assms(4) by simp
  show ?thesis
    using assms(5)
    by (simp add: handle_request [OF assms(1-3) p] write_tcp_response_error_def
        write_tcp_response_ok_def read_response split: sum.split)
qed

lemma hysteria_tcp_end_to_end_witness:
  "plain (Domain ''a.b'' 80) \<and> str_ok (show_address (Domain ''a.b'' 80))
   \<and> (case hy2_handle_tcp_stream ''eof'' (\<lambda>_. ''e'') (\<lambda>a. Inr (port a)) (tcp_connect_request True [1, 2, 3] (Domain ''a.b'' 80) @ [7]) of
     (reply, r) \<Rightarrow> r = Inr (to_normalized (Domain ''a.b'' 80), 80, [7])
        \<and> read_tcp_response ''eof'' of_bytes (reply @ [5]) = Inr [5])"
proof -
  have ok: "str_ok (show_address (Domain ''a.b'' 80))"
    by code_simp
  have len: "length (show_address (Domain ''a.b'' 80)) \<le> 1024"
    by code_simp
  show ?thesis
    using hysteria_tcp_end_to_end [where a = "Domain ''a.b'' 80" and padding = "[1, 2, 3]"
        and connect = "\<lambda>a. Inr (port a)" and display = "\<lambda>_. ''e''" and fin = "''eof''" and pf = True
        and up = "[7]" and lossy = of_bytes and down = "[5]"] ok len
    by simp
qed

lemma auth_own_request [simp]: "is_auth_request (hy2_auth_request a cc pad) b \<longleftrightarrow> a = b"
  by (simp add: is_auth_request_def hy2_auth_request_def Let_def eq_ignore_ascii_case_def)

lemma hy2_auth_server_eq:
  "hy2_auth_server reqs secret udp =
     (let n = length (takeWhile (\<lambda>r. \<not> is_auth_request r secret) reqs) in
      if n < length reqs then (replicate n NotFound404 @ [AuthOk udp], Inr ())
      else (replicate n NotFound404, Inl (OtherError ''hysteria: no auth request'')))"
  by (induction reqs) (simp_all add: Let_def)

text \<open>The authentication loop of the server replies 404 to every request before the first
  admitted one, admits exactly that one, and fails when there is none. A request of this client is
  admitted exactly when both sides hold the same secret, whatever its padding, and the client
  reads back the UDP switch of the server and fails on a 404.\<close>

theorem hysteria_auth_correct:
  "hy2_auth_server reqs secret udp =
     (let n = length (takeWhile (\<lambda>r. \<not> is_auth_request r secret) reqs) in
      if n < length reqs then (replicate n NotFound404 @ [AuthOk udp], Inr ())
      else (replicate n NotFound404, Inl (OtherError ''hysteria: no auth request'')))
   \<and> hy2_auth_server [hy2_auth_request own cc pad] secret udp =
     (if own = secret then ([AuthOk udp], Inr ())
      else ([NotFound404], Inl (OtherError ''hysteria: no auth request'')))
   \<and> hy2_auth_result show_status (AuthOk udp) = Inr udp
   \<and> \<not> is_ok (hy2_auth_result show_status NotFound404)"
proof -
  have "eq_ignore_ascii_case ''true'' ''true''" and "\<not> eq_ignore_ascii_case ''false'' ''true''"
    by code_simp+
  then show ?thesis
    by (intro conjI hy2_auth_server_eq)
      (simp_all add: hy2_auth_result_def auth_status_def auth_udp_header_def)
qed

end
