(* ===== verification/Hysteria_Udp.thy ===== *)
theory Hysteria_Udp
  imports Hysteria_Codec Hash_Map
begin

section \<open>Hysteria 2: UDP over QUIC datagrams\<close>

text \<open>
  \<open>protocol/hysteria/src/udp.rs\<close> and the UDP half of \<open>server.rs\<close>: sessions, fragmentation,
  reassembly and pruning, on the client and on the server. Both sides keep a table of partial
  packets; they test a fragment in a different order, so each has its own step, and the interface
  \<open>reassembler\<close> states what the two have in common. An \<open>Instant\<close> is a number of nanoseconds, and
  \<open>duration_since\<close>, which saturates at zero, is subtraction of naturals. A datagram is handled at
  one instant. The outcome of polling the resolver task is the argument \<open>poll_join\<close>, that of
  \<open>send_datagram\<close> the argument \<open>send\<close> (an error text, or nothing).
\<close>

subsection \<open>Partial packets\<close>

record reassembly =
  r_frag_count :: byte
  r_frags :: "bytes option list"
  r_received :: byte
  r_created_at :: nat

type_synonym frag_key = "u32 \<times> u16"
type_synonym frag_table = "(frag_key, reassembly) hmap"

definition REASSEMBLY_TTL :: nat where
  "REASSEMBLY_TTL = 10 * 1000000000"

definition REASSEMBLY_PRUNE_INTERVAL :: nat where
  "REASSEMBLY_PRUNE_INTERVAL = 1000000000"

definition REASSEMBLY_MAX_ENTRIES :: nat where
  "REASSEMBLY_MAX_ENTRIES = 2048"

definition prune_table :: "nat \<Rightarrow> nat \<times> frag_table \<Rightarrow> nat \<times> frag_table" where
  "prune_table now = (\<lambda>(last_prune, tbl).
     if now - last_prune < REASSEMBLY_PRUNE_INTERVAL \<and> length tbl < REASSEMBLY_MAX_ENTRIES
     then (last_prune, tbl)
     else
       let tbl = hm_retain (\<lambda>_ e. now - r_created_at e \<le> REASSEMBLY_TTL) tbl
       in (now, if length tbl > REASSEMBLY_MAX_ENTRIES then [] else tbl))"

definition new_entry :: "nat \<Rightarrow> byte \<Rightarrow> reassembly" where
  "new_entry now frag_count =
     \<lparr> r_frag_count = frag_count, r_frags = replicate (unat frag_count) None, r_received = 0,
       r_created_at = now \<rparr>"

definition entry_or_insert :: "nat \<Rightarrow> frag_key \<Rightarrow> byte \<Rightarrow> frag_table \<Rightarrow> reassembly \<times> frag_table" where
  "entry_or_insert now key frag_count tbl = (case hm_get tbl key of
     Some e \<Rightarrow> (e, tbl)
   | None \<Rightarrow> let e = new_entry now frag_count in (e, hm_insert key e tbl))"

definition saturating_inc :: "byte \<Rightarrow> byte" where
  "saturating_inc b = (if b = 255 then 255 else b + 1)"

definition fill_slot ::
  "frag_key \<Rightarrow> byte \<Rightarrow> byte \<Rightarrow> bytes \<Rightarrow> reassembly \<Rightarrow> frag_table \<Rightarrow> frag_table \<times> bytes option" where
  "fill_slot key frag_id frag_count payload entry tbl =
     (let entry = (if r_frags entry ! unat frag_id = None
                   then entry\<lparr> r_frags := (r_frags entry)[unat frag_id := Some payload],
                               r_received := saturating_inc (r_received entry) \<rparr>
                   else entry);
          tbl = hm_insert key entry tbl
      in if r_received entry = frag_count
         then (hm_remove key tbl, Some (concat (map (\<lambda>f. case f of Some b \<Rightarrow> b | None \<Rightarrow> []) (r_frags entry))))
         else (tbl, None))"

text \<open>The client checks the fragment count, then the age, then the fragment number.\<close>

definition client_reassemble ::
  "nat \<Rightarrow> frag_key \<Rightarrow> byte \<Rightarrow> byte \<Rightarrow> bytes \<Rightarrow> frag_table \<Rightarrow> frag_table \<times> bytes option" where
  "client_reassemble now key frag_id frag_count payload tbl =
     (case entry_or_insert now key frag_count tbl of (entry, tbl) \<Rightarrow>
        if r_frag_count entry \<noteq> frag_count then (hm_remove key tbl, None)
        else if now - r_created_at entry > REASSEMBLY_TTL then (hm_remove key tbl, None)
        else if frag_id \<ge> frag_count then (tbl, None)
        else fill_slot key frag_id frag_count payload entry tbl)"

text \<open>The server checks the age first, and drops the partial packet on a bad fragment number.\<close>

definition server_reassemble ::
  "nat \<Rightarrow> frag_key \<Rightarrow> byte \<Rightarrow> byte \<Rightarrow> bytes \<Rightarrow> frag_table \<Rightarrow> frag_table \<times> bytes option" where
  "server_reassemble now key frag_id frag_count payload tbl =
     (case entry_or_insert now key frag_count tbl of (entry, tbl) \<Rightarrow>
        if now - r_created_at entry > REASSEMBLY_TTL then (hm_remove key tbl, None)
        else if r_frag_count entry \<noteq> frag_count \<or> frag_id \<ge> frag_count then (hm_remove key tbl, None)
        else fill_slot key frag_id frag_count payload entry tbl)"

subsection \<open>Datagrams\<close>

record udp_message =
  m_session :: u32
  m_packet :: u16
  m_frag_id :: byte
  m_frag_count :: byte
  m_addr :: bytes
  m_payload :: bytes

text \<open>The header parser of both receive loops; \<open>None\<close> is the \<open>continue\<close> on a bad datagram.\<close>

definition parse_datagram :: "bytes \<Rightarrow> udp_message option" where
  "parse_datagram datagram =
     (if length datagram < 4 + 2 + 1 + 1 then None
      else
        let rest = drop 8 datagram in
        case decode_varint rest of
          None \<Rightarrow> None
        | Some (addr_len, vi_len) \<Rightarrow>
            let rest = drop vi_len rest in
            if length rest < unat addr_len then None
            else Some \<lparr> m_session = u32_from_be (take 4 datagram),
                        m_packet = u16_from_be (take 2 (drop 4 datagram)),
                        m_frag_id = datagram ! 6, m_frag_count = datagram ! 7,
                        m_addr = take (unat addr_len) rest, m_payload = drop (unat addr_len) rest \<rparr>)"

definition build_datagram :: "u32 \<Rightarrow> u16 \<Rightarrow> nat \<Rightarrow> nat \<Rightarrow> bytes \<Rightarrow> bytes \<Rightarrow> bytes" where
  "build_datagram session_id packet_id frag_id frag_count addr_bytes payload =
     u32_to_be session_id @ u16_to_be packet_id @ [word_of_nat frag_id, word_of_nat frag_count]
     @ write_varint (word_of_nat (length addr_bytes)) @ addr_bytes @ payload"

definition header_len :: "bytes \<Rightarrow> nat" where
  "header_len addr_bytes = 4 + 2 + 1 + 1 + varint_len (word_of_nat (length addr_bytes)) + length addr_bytes"

definition frag_count_for :: "nat \<Rightarrow> nat \<Rightarrow> nat" where
  "frag_count_for per_frag len = max ((len + per_frag - 1) div per_frag) 1"

definition frag_payload :: "nat \<Rightarrow> bytes \<Rightarrow> nat \<Rightarrow> bytes" where
  "frag_payload per_frag buf frag_id =
     (let start = frag_id * per_frag; stop = min ((frag_id + 1) * per_frag) (length buf)
      in take (stop - start) (drop start buf))"

definition udp_fragments :: "u32 \<Rightarrow> u16 \<Rightarrow> bytes \<Rightarrow> nat \<Rightarrow> bytes \<Rightarrow> bytes list" where
  "udp_fragments session_id packet_id addr_bytes per_frag buf =
     (let frag_count = frag_count_for per_frag (length buf) in
      map (\<lambda>i. build_datagram session_id packet_id i frag_count addr_bytes (frag_payload per_frag buf i))
        [0..<frag_count])"

fun send_datagrams :: "(bytes \<Rightarrow> string option) \<Rightarrow> bytes list \<Rightarrow> bytes list \<times> string option" where
  "send_datagrams send [] = ([], None)"
| "send_datagrams send (d # ds) = (case send d of
     Some e \<Rightarrow> ([], Some e)
   | None \<Rightarrow> (case send_datagrams send ds of (sent, r) \<Rightarrow> (d # sent, r)))"

subsection \<open>Client\<close>

record hy2_session =
  s_session_id :: u32
  s_address_str :: string
  s_next_packet_id :: u16

datatype session_entry = SReady hy2_session | SResolving string

record hy2_udp_state =
  c_next_session_id :: u32
  c_sessions :: "(address, session_entry) hmap"
  c_id_to_peer :: "(u32, socket_addr) hmap"
  c_reassembly :: frag_table
  c_last_prune :: nat

definition hy2_udp_new :: "u32 \<Rightarrow> nat \<Rightarrow> hy2_udp_state" where
  "hy2_udp_new random_id now =
     \<lparr> c_next_session_id = random_id, c_sessions = [], c_id_to_peer = [], c_reassembly = [],
       c_last_prune = now \<rparr>"

definition prune_reassembly :: "nat \<Rightarrow> hy2_udp_state \<Rightarrow> hy2_udp_state" where
  "prune_reassembly now st =
     (case prune_table now (c_last_prune st, c_reassembly st) of (l, tbl) \<Rightarrow>
        st\<lparr> c_last_prune := l, c_reassembly := tbl \<rparr>)"

text \<open>One round of \<open>recv_loop\<close>: the new state and the packet broadcast to the sockets.\<close>

definition recv_step :: "nat \<Rightarrow> bytes \<Rightarrow> hy2_udp_state \<Rightarrow> hy2_udp_state \<times> (socket_addr \<times> bytes) option" where
  "recv_step now datagram st = (case parse_datagram datagram of
     None \<Rightarrow> (st, None)
   | Some m \<Rightarrow>
       let st = prune_reassembly now st in
       case hm_get (c_id_to_peer st) (m_session m) of
         None \<Rightarrow> (st, None)
       | Some peer \<Rightarrow>
           if m_frag_count m \<le> 1 then (st, Some (peer, m_payload m))
           else (case client_reassemble now (m_session m, m_packet m) (m_frag_id m) (m_frag_count m)
                        (m_payload m) (c_reassembly st) of
                   (tbl, out) \<Rightarrow> (st\<lparr> c_reassembly := tbl \<rparr>, map_option (\<lambda>p. (peer, p)) out)))"

fun recv_loop :: "(nat \<times> bytes) list \<Rightarrow> hy2_udp_state \<Rightarrow> hy2_udp_state \<times> (socket_addr \<times> bytes) list" where
  "recv_loop [] st = (st, [])"
| "recv_loop ((now, d) # ds) st = (case recv_step now d st of (st, out) \<Rightarrow>
     case recv_loop ds st of (st, outs) \<Rightarrow> (st, (case out of Some p \<Rightarrow> [p] | None \<Rightarrow> []) @ outs))"

definition new_session :: "address \<Rightarrow> string \<Rightarrow> socket_addr \<Rightarrow> hy2_udp_state \<Rightarrow> hy2_udp_state \<times> hy2_session" where
  "new_session target address_str peer st =
     (let session = \<lparr> s_session_id = c_next_session_id st, s_address_str = address_str, s_next_packet_id = 0 \<rparr>
      in (st\<lparr> c_next_session_id := c_next_session_id st + 1,
              c_id_to_peer := hm_insert (c_next_session_id st) peer (c_id_to_peer st),
              c_sessions := hm_insert target (SReady session) (c_sessions st) \<rparr>, session))"

definition poll_get_or_create_session ::
  "(rd_error \<Rightarrow> string) \<Rightarrow> (string + socket_addr rd) poll \<Rightarrow> address \<Rightarrow> hy2_udp_state
   \<Rightarrow> hy2_udp_state \<times> hy2_session io poll" where
  "poll_get_or_create_session display poll_join target st =
     (case hm_get (c_sessions st) target of
        Some (SReady s) \<Rightarrow> (st, Ready (Inr s))
      | Some (SResolving address_str) \<Rightarrow>
          (case poll_join of
             Pending \<Rightarrow> (st, Pending)
           | Ready (Inr (Inr peer)) \<Rightarrow>
               (case new_session target address_str peer st of (st, s) \<Rightarrow> (st, Ready (Inr s)))
           | Ready (Inr (Inl e)) \<Rightarrow>
               (st\<lparr> c_sessions := hm_remove target (c_sessions st) \<rparr>, Ready (Inl (IoError OtherKind (display e))))
           | Ready (Inl e) \<Rightarrow>
               (st\<lparr> c_sessions := hm_remove target (c_sessions st) \<rparr>, Ready (Inl (IoError OtherKind e))))
      | None \<Rightarrow>
          (case target of
             SocketAddr sa \<Rightarrow>
               (case new_session target (show_socket_addr sa) sa st of (st, s) \<Rightarrow> (st, Ready (Inr s)))
           | Domain d p \<Rightarrow>
               (st\<lparr> c_sessions := hm_insert target (SResolving (d @ '':'' @ show_nat (unat p))) (c_sessions st) \<rparr>,
                Pending)))"

text \<open>\<open>poll_send_to\<close>: the new state, the datagrams handed to QUIC and the result. The \<open>expect\<close> on
  the session is the panic branch.\<close>

definition take_packet_id :: "address \<Rightarrow> hy2_udp_state \<Rightarrow> (hy2_udp_state \<times> u32 \<times> u16) may_panic" where
  "take_packet_id target st = (case hm_get (c_sessions st) target of
     Some (SReady s) \<Rightarrow>
       Inr (st\<lparr> c_sessions := hm_insert target (SReady (s\<lparr> s_next_packet_id := s_next_packet_id s + 1 \<rparr>)) (c_sessions st) \<rparr>,
            s_session_id s, s_next_packet_id s)
   | _ \<Rightarrow> Inl (Panic ''session ready''))"

definition poll_send_to ::
  "(rd_error \<Rightarrow> string) \<Rightarrow> (string + socket_addr rd) poll \<Rightarrow> (bytes \<Rightarrow> string option) \<Rightarrow> nat option
   \<Rightarrow> bytes \<Rightarrow> address \<Rightarrow> hy2_udp_state \<Rightarrow> hy2_udp_state \<times> bytes list \<times> nat io poll may_panic" where
  "poll_send_to display poll_join send max_datagram_size buf target st =
     (case max_datagram_size of
        None \<Rightarrow> (st, [], Inr (Ready (Inl (IoError Unsupported ''datagram not supported''))))
      | Some mx \<Rightarrow>
        (case poll_get_or_create_session display poll_join target st of
           (st, Pending) \<Rightarrow> (st, [], Inr Pending)
         | (st, Ready (Inl e)) \<Rightarrow> (st, [], Inr (Ready (Inl e)))
         | (st, Ready (Inr session)) \<Rightarrow>
             let addr_bytes = as_bytes (s_address_str session) in
             if header_len addr_bytes \<ge> mx
             then (st, [], Inr (Ready (Inl (IoError InvalidInput ''datagram size too small''))))
             else
               let per_frag = mx - header_len addr_bytes in
               if frag_count_for per_frag (length buf) > 255
               then (st, [], Inr (Ready (Inl (IoError InvalidInput ''udp payload too large''))))
               else (case take_packet_id target st of
                   Inl p \<Rightarrow> (st, [], Inl p)
                 | Inr (st, session_id, packet_id) \<Rightarrow>
                     (case send_datagrams send (udp_fragments session_id packet_id addr_bytes per_frag buf) of
                        (sent, Some e) \<Rightarrow> (st, sent, Inr (Ready (Inl (IoError OtherKind e))))
                      | (sent, None) \<Rightarrow> (st, sent, Inr (Ready (Inr (length buf))))))))"


text \<open>The receive side of a socket drains its broadcast queue; a lag notice is skipped, a packet
  is cut to the capacity of the buffer.\<close>

datatype broadcast_item = Packet socket_addr bytes | Lagged nat

fun poll_recv_from :: "nat \<Rightarrow> bool \<Rightarrow> broadcast_item list \<Rightarrow> (socket_addr \<times> bytes) io poll \<times> broadcast_item list" where
  "poll_recv_from remaining closed [] =
     (if closed then Ready (Inl (IoError BrokenPipe ''udp closed'')) else Pending, [])"
| "poll_recv_from remaining closed (Packet peer payload # q) = (Ready (Inr (peer, take remaining payload)), q)"
| "poll_recv_from remaining closed (Lagged _ # q) = poll_recv_from remaining closed q"

subsection \<open>Server\<close>

text \<open>A session of the server is the sender half of the channel to its task: \<open>u_open\<close> says that the
  task, and with it the receiver, is alive; the task sends what it receives to \<open>u_target\<close>. The
  tasks are numbered as they are spawned (\<open>u_task\<close>), which stands for the identity of the \<open>Arc\<close>.\<close>

record udp_session =
  u_task :: nat
  u_target :: address
  u_addr_str :: string
  u_open :: bool

record udp_state =
  u_sessions :: "(u32, udp_session) hmap"
  u_id_to_addr :: "(u32, string) hmap"
  u_reassembly :: frag_table
  u_last_prune :: nat
  u_next_task :: nat

definition udp_state_default :: "nat \<Rightarrow> udp_state" where
  "udp_state_default now = \<lparr> u_sessions = [], u_id_to_addr = [], u_reassembly = [], u_last_prune = now,
     u_next_task = 0 \<rparr>"

definition srv_prune_reassembly :: "nat \<Rightarrow> udp_state \<Rightarrow> udp_state" where
  "srv_prune_reassembly now st =
     (case prune_table now (u_last_prune st, u_reassembly st) of (l, tbl) \<Rightarrow>
        st\<lparr> u_last_prune := l, u_reassembly := tbl \<rparr>)"

definition note_addr :: "u32 \<Rightarrow> string \<Rightarrow> udp_state \<Rightarrow> udp_state" where
  "note_addr session_id addr_str st = (case hm_get (u_id_to_addr st) session_id of
     Some old \<Rightarrow>
       if old \<noteq> addr_str
       then st\<lparr> u_sessions := hm_remove session_id (u_sessions st),
                u_id_to_addr := hm_insert session_id addr_str (u_id_to_addr st) \<rparr>
       else st
   | None \<Rightarrow> st\<lparr> u_id_to_addr := hm_insert session_id addr_str (u_id_to_addr st) \<rparr>)"

text \<open>One round of \<open>hy2_udp_loop\<close>: the new state and the complete packet to be forwarded.\<close>

definition hy2_udp_step :: "nat \<Rightarrow> bytes \<Rightarrow> udp_state \<Rightarrow> udp_state \<times> (u32 \<times> bytes) option" where
  "hy2_udp_step now datagram st = (case parse_datagram datagram of
     None \<Rightarrow> (st, None)
   | Some m \<Rightarrow> (case from_utf8 (m_addr m) of
       None \<Rightarrow> (st, None)
     | Some addr_str \<Rightarrow>
         let st = note_addr (m_session m) addr_str (srv_prune_reassembly now st) in
         if m_frag_count m \<le> 1 then (st, Some (m_session m, m_payload m))
         else (case server_reassemble now (m_session m, m_packet m) (m_frag_id m) (m_frag_count m)
                      (m_payload m) (u_reassembly st) of
                 (tbl, out) \<Rightarrow> (st\<lparr> u_reassembly := tbl \<rparr>, map_option (\<lambda>p. (m_session m, p)) out))))"

fun hy2_udp_loop :: "(nat \<times> bytes) list \<Rightarrow> udp_state \<Rightarrow> udp_state \<times> (u32 \<times> bytes) list" where
  "hy2_udp_loop [] st = (st, [])"
| "hy2_udp_loop ((now, d) # ds) st = (case hy2_udp_step now d st of (st, out) \<Rightarrow>
     case hy2_udp_loop ds st of (st, outs) \<Rightarrow> (st, (case out of Some p \<Rightarrow> [p] | None \<Rightarrow> []) @ outs))"

text \<open>\<open>udp_send_to_target\<close>: \<open>bind\<close> is the answer of \<open>Net::udp_bind\<close>. The result carries where the
  session task will send the payload.\<close>

definition udp_send_to_target ::
  "unit rd \<Rightarrow> u32 \<Rightarrow> bytes \<Rightarrow> udp_state \<Rightarrow> udp_state \<times> (address \<times> bytes) rd" where
  "udp_send_to_target bind session_id payload st =
     (case
        (case hm_get (u_sessions st) session_id of
           Some s \<Rightarrow> Inr (st, s)
         | None \<Rightarrow>
             rbind (ok_or (OtherError ''missing udp addr'') (hm_get (u_id_to_addr st) session_id)) (\<lambda>addr_str.
             rbind (map_err IO (str_into_address addr_str)) (\<lambda>target.
             rbind bind (\<lambda>_.
             let created = \<lparr> u_task = u_next_task st, u_target = target, u_addr_str = addr_str, u_open = True \<rparr>
             in Inr (st\<lparr> u_sessions := hm_insert session_id created (u_sessions st),
                         u_next_task := Suc (u_next_task st) \<rparr>, created)))))
      of
        Inl e \<Rightarrow> (st, Inl e)
      | Inr (st, s) \<Rightarrow>
          (st, if u_open s then Inr (u_target s, payload) else Inl (OtherError ''udp session closed'')))"

text \<open>The ways out of \<open>udp_session_loop\<close>: a failed receive or a failed \<open>send_datagram\<close> returns at
  once and drops the receiver; the idle timeout breaks the loop and cleans the tables, by the
  session number and not by the task.\<close>

definition session_return :: "nat \<Rightarrow> u32 \<Rightarrow> udp_state \<Rightarrow> udp_state" where
  "session_return task session_id st = (case hm_get (u_sessions st) session_id of
     None \<Rightarrow> st
   | Some s \<Rightarrow>
       if u_task s = task
       then st\<lparr> u_sessions := hm_insert session_id (s\<lparr> u_open := False \<rparr>) (u_sessions st) \<rparr>
       else st)"

definition session_idle :: "u32 \<Rightarrow> udp_state \<Rightarrow> udp_state" where
  "session_idle session_id st =
     st\<lparr> u_sessions := hm_remove session_id (u_sessions st),
         u_id_to_addr := hm_remove session_id (u_id_to_addr st) \<rparr>"

text \<open>What the session task sends back for one packet of the target: the datagrams handed to QUIC,
  the next packet number, and whether the task goes on.\<close>

definition session_reply ::
  "(bytes \<Rightarrow> string option) \<Rightarrow> nat option \<Rightarrow> u32 \<Rightarrow> string \<Rightarrow> u16 \<Rightarrow> bytes \<Rightarrow> bytes list \<times> u16 \<times> bool" where
  "session_reply send max_datagram_size session_id address_str next_packet_id data =
     (let mx = (case max_datagram_size of Some m \<Rightarrow> m | None \<Rightarrow> 1200);
          addr_bytes = as_bytes address_str;
          per_frag = max (mx - header_len addr_bytes) 1;
          packet_id = next_packet_id
      in if frag_count_for per_frag (length data) > 255 then ([], next_packet_id + 1, True)
         else (case send_datagrams send (udp_fragments session_id packet_id addr_bytes per_frag data) of
                 (sent, r) \<Rightarrow> (sent, next_packet_id + 1, r = None)))"

subsection \<open>Fragmentation\<close>

lemma frag_range:
  assumes "0 < per" and "i < frag_count_for per len"
  shows "i * per \<le> min ((i + 1) * per) len"
proof -
  have "i * per \<le> len"
  proof (cases "i = 0")
    case False
    with assms(2) have "i < (len + per - 1) div per" by (auto simp: frag_count_for_def)
    then have "Suc i * per \<le> len + per - 1"
      using assms(1) by (simp add: less_eq_div_iff_mult_less_eq Suc_le_eq [symmetric] del: mult_Suc)
    then show ?thesis using assms(1) by simp
  qed simp
  then show ?thesis by simp
qed

lemma frag_count_covers: "0 < per \<Longrightarrow> len \<le> frag_count_for per len * per"
proof -
  assume per: "0 < per"
  have "len + per - 1 < ((len + per - 1) div per) * per + per"
    using per by (metis add.commute dividend_less_times_div mult.commute mult_Suc)
  then have "len \<le> ((len + per - 1) div per) * per" using per by simp
  also have "\<dots> \<le> frag_count_for per len * per"
    by (intro mult_right_mono) (simp_all add: frag_count_for_def)
  finally show ?thesis .
qed

lemma frag_payload_take:
  "concat (map (frag_payload per buf) [0..<n]) = take (n * per) buf"
proof (induction n)
  case (Suc n)
  have "take (Suc n * per) buf = take (n * per) buf @ take per (drop (n * per) buf)"
    using take_add [of "n * per" per buf] by (simp add: add.commute)
  moreover have "frag_payload per buf n = take per (drop (n * per) buf)"
    by (simp add: frag_payload_def Let_def min_def)
  ultimately show ?case using Suc by simp
qed simp

lemma fragments_cover:
  "0 < per \<Longrightarrow> concat (map (frag_payload per buf) [0..<frag_count_for per (length buf)]) = buf"
  using frag_count_covers [of per "length buf"] by (simp add: frag_payload_take)

lemma length_frag_payload: "length (frag_payload per buf i) \<le> per"
proof -
  have "min ((i + 1) * per) (length buf) - i * per \<le> per" by simp
  then show ?thesis by (simp add: frag_payload_def Let_def)
qed

lemma parse_build_datagram [simp]:
  assumes "length addr < 2 ^ 62"
  shows "parse_datagram (build_datagram sid pid i n addr payload) =
    Some \<lparr> m_session = sid, m_packet = pid, m_frag_id = word_of_nat i, m_frag_count = word_of_nat n,
           m_addr = addr, m_payload = payload \<rparr>"
proof -
  have "length (u32_to_be sid @ u16_to_be pid) = 6" by simp
  then have "(u32_to_be sid @ u16_to_be pid @ a # b # r) ! 6 = a"
      and "(u32_to_be sid @ u16_to_be pid @ a # b # r) ! 7 = b" for a b r
    by (simp_all add: nth_append)
  with assms show ?thesis
    by (simp add: parse_datagram_def build_datagram_def Let_def)
qed


subsection \<open>The interface of the two reassemblers\<close>



text \<open>The partial packet with the fragments \<open>S\<close> of the packet \<open>P\<close>.\<close>

definition partial :: "bytes list \<Rightarrow> nat set \<Rightarrow> nat \<Rightarrow> reassembly" where
  "partial P S c =
     \<lparr> r_frag_count = word_of_nat (length P),
       r_frags = map (\<lambda>i. if i \<in> S then Some (P ! i) else None) [0..<length P],
       r_received = word_of_nat (card S), r_created_at = c \<rparr>"

lemma new_entry_partial: "length P \<le> 255 \<Longrightarrow> new_entry now (word_of_nat (length P)) = partial P {} now"
  by (simp add: new_entry_def partial_def unat_of_nat map_replicate_const)

lemma small_byte_inj:
  assumes "a \<le> 255" and "b \<le> 255"
  shows "(word_of_nat a :: byte) = word_of_nat b \<longleftrightarrow> a = b"
proof -
  have "unat (word_of_nat a :: byte) = a" and "unat (word_of_nat b :: byte) = b"
    using assms by (simp_all add: unat_of_nat)
  then show ?thesis by metis
qed

lemma fill_slot_partial:
  assumes "length P \<le> 255" and "S \<subset> {0..<length P}" and "i < length P"
  shows "fill_slot key (word_of_nat i) (word_of_nat (length P)) (P ! i) (partial P S c) tbl =
    (if insert i S = {0..<length P}
     then (hm_remove key (hm_insert key (partial P (insert i S) c) tbl), Some (concat P))
     else (hm_insert key (partial P (insert i S) c) tbl, None))"
proof -
  have card: "card S < length P" "finite S"
    using psubset_card_mono [OF _ assms(2)] assms(2) by (auto intro: finite_subset)
  have i: "unat (word_of_nat i :: byte) = i" using assms by (simp add: unat_of_nat)
  have slot: "r_frags (partial P S c) ! i = (if i \<in> S then Some (P ! i) else None)"
    using assms by (simp add: partial_def)
  have full: "r_received (partial P T c) = word_of_nat (length P) \<longleftrightarrow> T = {0..<length P}"
    if "T \<subseteq> {0..<length P}" for T
  proof -
    have "card T \<le> length P" using card_mono [OF _ that] by simp
    then show ?thesis
      using assms(1) that card_subset_eq [OF _ that] by (auto simp: partial_def small_byte_inj)
  qed
  have out: "concat (map (\<lambda>f. case f of Some b \<Rightarrow> b | None \<Rightarrow> []) (r_frags (partial P {0..<length P} c))) = concat P"
  proof -
    have "map (\<lambda>f. case f of Some b \<Rightarrow> b | None \<Rightarrow> []) (r_frags (partial P {0..<length P} c)) = P"
      by (rule nth_equalityI) (simp_all add: partial_def)
    then show ?thesis by simp
  qed
  have upd: "(partial P S c)\<lparr> r_frags := (r_frags (partial P S c))[i := Some (P ! i)],
      r_received := saturating_inc (r_received (partial P S c)) \<rparr> = partial P (insert i S) c" if "i \<notin> S"
  proof -
    have "word_of_nat (card S) \<noteq> (255 :: byte)"
      using small_byte_inj [of "card S" 255] card assms(1) by simp
    moreover have "(map (\<lambda>i. if i \<in> S then Some (P ! i) else None) [0..<length P])[i := Some (P ! i)]
      = map (\<lambda>j. if j \<in> insert i S then Some (P ! j) else None) [0..<length P]"
      by (rule nth_equalityI) (use assms(3) in \<open>auto simp: nth_list_update\<close>)
    ultimately show ?thesis
      using that card by (simp add: partial_def saturating_inc_def)
  qed
  show ?thesis
    using assms full [of "insert i S"] out
    by (cases "i \<in> S") (auto simp: fill_slot_def i slot upd Let_def insert_absorb)
qed

lemma prune_table_ok: "hm_ok tbl \<Longrightarrow> hm_ok (snd (prune_table now (l, tbl)))"
  by (simp add: prune_table_def Let_def)

lemma prune_table_length: "length (snd (prune_table now (l, tbl))) \<le> length tbl"
  by (simp add: prune_table_def Let_def length_hm_retain_le)

lemma prune_table_get:
  assumes "hm_ok tbl" and "length tbl \<le> REASSEMBLY_MAX_ENTRIES"
    and "\<And>e. hm_get tbl key = Some e \<Longrightarrow> now - r_created_at e \<le> REASSEMBLY_TTL"
  shows "hm_get (snd (prune_table now (l, tbl))) key = hm_get tbl key"
proof -
  have "\<not> length (hm_retain P tbl) > REASSEMBLY_MAX_ENTRIES" for P
    using assms(2) length_hm_retain_le [of P tbl] by simp
  then show ?thesis
    using assms by (simp add: prune_table_def Let_def split: option.split)
qed

text \<open>What one round does to the table: nothing, a prune, or a prune and a fragment.\<close>

datatype table_event = Skip | Prune nat | Frag nat frag_key byte byte bytes

definition progress :: "frag_key \<Rightarrow> bytes list \<Rightarrow> nat \<Rightarrow> nat set \<Rightarrow> frag_table \<Rightarrow> bool" where
  "progress key P t0 S tbl \<longleftrightarrow> hm_ok tbl
     \<and> (if S = {} then hm_get tbl key = None else \<exists>c \<ge> t0. hm_get tbl key = Some (partial P S c))"

fun event_ok :: "frag_key \<Rightarrow> bytes list \<Rightarrow> nat \<Rightarrow> table_event \<Rightarrow> bool" where
  "event_ok key P t0 Skip \<longleftrightarrow> True"
| "event_ok key P t0 (Prune now) \<longleftrightarrow> now \<le> t0 + REASSEMBLY_TTL"
| "event_ok key P t0 (Frag now k i n p) \<longleftrightarrow> t0 \<le> now \<and> now \<le> t0 + REASSEMBLY_TTL
     \<and> (k = key \<longrightarrow> (\<exists>j < length P. i = word_of_nat j \<and> n = word_of_nat (length P) \<and> p = P ! j))"

fun own_index :: "frag_key \<Rightarrow> table_event \<Rightarrow> nat set" where
  "own_index key (Frag _ k i _ _) = (if k = key then {unat i} else {})"
| "own_index key _ = {}"

lemma progress_prune:
  assumes "progress key P t0 S tbl" and "length tbl \<le> REASSEMBLY_MAX_ENTRIES"
    and "now \<le> t0 + REASSEMBLY_TTL"
  shows "progress key P t0 S (snd (prune_table now (l, tbl)))"
proof -
  have "hm_get (snd (prune_table now (l, tbl))) key = hm_get tbl key"
    using assms by (intro prune_table_get) (auto simp: progress_def partial_def split: if_splits)
  then show ?thesis
    using assms(1) prune_table_ok by (auto simp: progress_def)
qed

definition foreign :: "frag_key \<Rightarrow> bytes \<Rightarrow> bool" where
  "foreign key d = (case parse_datagram d of
     None \<Rightarrow> True | Some m \<Rightarrow> (m_session m, m_packet m) \<noteq> key)"

locale reassembler =
  fixes reasm :: "nat \<Rightarrow> frag_key \<Rightarrow> byte \<Rightarrow> byte \<Rightarrow> bytes \<Rightarrow> frag_table \<Rightarrow> frag_table \<times> bytes option"
  assumes reasm_frame: "k \<noteq> key \<Longrightarrow> hm_get (fst (reasm now key i n p tbl)) k = hm_get tbl k"
    and reasm_ok: "hm_ok tbl \<Longrightarrow> hm_ok (fst (reasm now key i n p tbl))"
    and reasm_grows: "length (fst (reasm now key i n p tbl)) \<le> Suc (length tbl)"
    and reasm_fresh: "i < n \<Longrightarrow> hm_get tbl key = None \<Longrightarrow>
      reasm now key i n p tbl = fill_slot key i n p (new_entry now n) (hm_insert key (new_entry now n) tbl)"
    and reasm_known: "i < n \<Longrightarrow> hm_get tbl key = Some e \<Longrightarrow> r_frag_count e = n \<Longrightarrow>
      now - r_created_at e \<le> REASSEMBLY_TTL \<Longrightarrow> reasm now key i n p tbl = fill_slot key i n p e tbl"
begin

fun table_step :: "table_event \<Rightarrow> nat \<times> frag_table \<Rightarrow> (nat \<times> frag_table) \<times> bytes option" where
  "table_step Skip s = (s, None)"
| "table_step (Prune now) s = (prune_table now s, None)"
| "table_step (Frag now key i n p) s =
     (case prune_table now s of (l, tbl) \<Rightarrow> case reasm now key i n p tbl of (tbl, out) \<Rightarrow> ((l, tbl), out))"

definition table_run :: "table_event list \<Rightarrow> nat \<times> frag_table \<Rightarrow> nat \<times> frag_table" where
  "table_run evs s = fold (\<lambda>ev s. fst (table_step ev s)) evs s"

lemma reasm_own:
  assumes "progress key P t0 S tbl" and "S \<subset> {0..<length P}" and "length P \<le> 255" and "j < length P"
    and "t0 \<le> now" and "now \<le> t0 + REASSEMBLY_TTL"
  obtains c where "t0 \<le> c" and "reasm now key (word_of_nat j) (word_of_nat (length P)) (P ! j) tbl =
    (if insert j S = {0..<length P}
     then (hm_remove key (hm_insert key (partial P (insert j S) c) (if S = {} then hm_insert key (partial P {} c) tbl else tbl)), Some (concat P))
     else (hm_insert key (partial P (insert j S) c) (if S = {} then hm_insert key (partial P {} c) tbl else tbl), None))"
proof (cases "S = {}")
  case True
  have lt: "(word_of_nat j :: byte) < word_of_nat (length P)"
    using assms by (simp add: word_less_nat_alt unat_of_nat)
  have "hm_get tbl key = None" using assms(1) True by (simp add: progress_def)
  from reasm_fresh [OF lt this, of now "P ! j"] that [of now] True assms show ?thesis
    by (simp add: new_entry_partial fill_slot_partial)
next
  case False
  have lt: "(word_of_nat j :: byte) < word_of_nat (length P)"
    using assms by (simp add: word_less_nat_alt unat_of_nat)
  obtain c where c: "t0 \<le> c" and e: "hm_get tbl key = Some (partial P S c)"
    using assms(1) False by (auto simp: progress_def)
  have "reasm now key (word_of_nat j) (word_of_nat (length P)) (P ! j) tbl
      = fill_slot key (word_of_nat j) (word_of_nat (length P)) (P ! j) (partial P S c) tbl"
    by (rule reasm_known [OF lt e]) (use c assms in \<open>simp_all add: partial_def\<close>)
  with that [of c] c False assms show ?thesis by (simp add: fill_slot_partial)
qed

lemma table_step_progress:
  assumes "progress key P t0 S (snd s)" and "S \<subset> {0..<length P}" and "length P \<le> 255"
    and "length (snd s) \<le> REASSEMBLY_MAX_ENTRIES" and "event_ok key P t0 ev"
  shows "if S \<union> own_index key ev = {0..<length P} then snd (table_step ev s) = Some (concat P)
         else progress key P t0 (S \<union> own_index key ev) (snd (fst (table_step ev s)))"
proof (cases ev)
  case Skip
  then show ?thesis using assms by auto
next
  case (Prune now)
  then show ?thesis
    using assms progress_prune [of key P t0 S "snd s" now "fst s"] by auto
next
  case (Frag now k i n p)
  obtain l tbl where s: "prune_table now s = (l, tbl)" by (cases "prune_table now s")
  have pr: "progress key P t0 S tbl"
    using assms progress_prune [of key P t0 S "snd s" now "fst s"] s Frag by simp
  show ?thesis
  proof (cases "k = key")
    case False
    have "hm_get (fst (reasm now k i n p tbl)) key = hm_get tbl key"
      using False by (intro reasm_frame) simp
    then have "progress key P t0 S (fst (reasm now k i n p tbl))"
      using pr reasm_ok by (simp add: progress_def)
    then show ?thesis
      using assms(2) Frag False s by (auto simp: case_prod_beta)
  next
    case True
    with Frag assms(5) obtain j where j: "j < length P" "i = word_of_nat j"
      "n = word_of_nat (length P)" "p = P ! j" and now: "t0 \<le> now" "now \<le> t0 + REASSEMBLY_TTL"
      by auto
    have own: "own_index key ev = {j}"
      using Frag True j assms(3) by (simp add: unat_of_nat)
    have step: "snd (table_step ev s) = snd (reasm now key i n p tbl)"
      "snd (fst (table_step ev s)) = fst (reasm now key i n p tbl)"
      by (simp_all add: Frag True s case_prod_beta)
    obtain c where c: "t0 \<le> c" and r: "reasm now key i n p tbl =
      (let tb = hm_insert key (partial P (insert j S) c) (if S = {} then hm_insert key (partial P {} c) tbl else tbl)
       in if insert j S = {0..<length P} then (hm_remove key tb, Some (concat P)) else (tb, None))"
      unfolding j Let_def by (rule reasm_own [OF pr assms(2,3) j(1) now]) blast
    have "hm_ok tbl" using pr by (simp add: progress_def)
    then have "progress key P t0 (insert j S)
      (hm_insert key (partial P (insert j S) c) (if S = {} then hm_insert key (partial P {} c) tbl else tbl))"
      using c by (auto simp: progress_def)
    then show ?thesis
      by (cases "S = {}") (simp_all add: own step r Let_def)
  qed
qed

lemma table_step_length: "length (snd (fst (table_step ev s))) \<le> Suc (length (snd s))"
proof (cases ev)
  case (Frag now k i n p)
  obtain l tbl where s: "prune_table now s = (l, tbl)" by (cases "prune_table now s")
  have "length tbl \<le> length (snd s)"
    using prune_table_length [of now "fst s" "snd s"] s by simp
  with reasm_grows [of now k i n p tbl] show ?thesis
    by (simp add: Frag s case_prod_beta)
qed (use prune_table_length [of _ "fst s" "snd s"] in \<open>auto intro: le_SucI\<close>)

lemma table_run_progress:
  assumes "progress key P t0 S (snd s)" and "length P \<le> 255"
    and "length (snd s) + length evs \<le> REASSEMBLY_MAX_ENTRIES"
    and "\<And>ev. ev \<in> set evs \<Longrightarrow> event_ok key P t0 ev"
    and "S \<union> (\<Union>ev \<in> set evs. own_index key ev) \<subset> {0..<length P}"
  shows "progress key P t0 (S \<union> (\<Union>ev \<in> set evs. own_index key ev)) (snd (table_run evs s))
    \<and> length (snd (table_run evs s)) \<le> REASSEMBLY_MAX_ENTRIES"
  using assms
proof (induction evs arbitrary: S s)
  case Nil
  then show ?case by (simp add: table_run_def)
next
  case (Cons ev evs)
  have "S \<union> own_index key ev \<noteq> {0..<length P}" and "S \<subset> {0..<length P}"
    using Cons.prems(5) by auto
  with table_step_progress [of key P t0 S s ev] Cons.prems
  have "progress key P t0 (S \<union> own_index key ev) (snd (fst (table_step ev s)))"
    by simp
  from Cons.IH [OF this Cons.prems(2)] Cons.prems(3-5) table_step_length [of ev s]
  show ?case by (simp add: table_run_def Un_assoc)
qed

lemma table_complete:
  assumes "hm_ok tbl" and "hm_get tbl key = None" and "length P \<le> 255"
    and "length tbl + length evs \<le> REASSEMBLY_MAX_ENTRIES"
    and "\<And>ev. ev \<in> set (ev0 # evs) \<Longrightarrow> event_ok key P t0 ev"
    and "own_index key ev0 = {j}" and "(\<Union>ev \<in> set evs. own_index key ev) = {0..<length P} - {j}"
    and "j < length P"
  shows "snd (table_step ev0 (table_run evs (l, tbl))) = Some (concat P)"
proof -
  let ?S = "\<Union>ev \<in> set evs. own_index key ev"
  have sub: "?S \<subset> {0..<length P}" using assms(7,8) by auto
  have "progress key P t0 {} tbl" using assms(1,2) by (simp add: progress_def)
  with table_run_progress [of key P t0 "{}" "(l, tbl)" evs] assms(3-5) sub
  have run: "progress key P t0 ?S (snd (table_run evs (l, tbl)))"
      "length (snd (table_run evs (l, tbl))) \<le> REASSEMBLY_MAX_ENTRIES"
    by simp_all
  have "?S \<union> own_index key ev0 = {0..<length P}" using assms(6-8) by auto
  with table_step_progress [OF run(1) sub assms(3) run(2), of ev0] assms(5) show ?thesis
    by simp
qed

lemma datagrams_complete:
  assumes tbl: "hm_ok tbl" "hm_get tbl key = None" "length tbl + length evs \<le> REASSEMBLY_MAX_ENTRIES"
    and P: "length P \<le> 255" "length frags = length P"
    and own: "\<And>now i. i < length P \<Longrightarrow>
      ev_of (now, frags ! i) = Frag now key (word_of_nat i) (word_of_nat (length P)) (P ! i)"
    and other: "\<And>now d. foreign key d \<Longrightarrow> own_index key (ev_of (now, d)) = {}"
      "\<And>now d. foreign key d \<Longrightarrow> t0 \<le> now \<Longrightarrow> now \<le> t0 + REASSEMBLY_TTL \<Longrightarrow> event_ok key P t0 (ev_of (now, d))"
    and times: "\<And>now d. (now, d) \<in> set ((now0, frags ! j) # evs) \<Longrightarrow> t0 \<le> now \<and> now \<le> t0 + REASSEMBLY_TTL"
    and kinds: "\<And>now d. (now, d) \<in> set evs \<Longrightarrow> d \<in> set frags \<or> foreign key d"
    and got: "j < length P" "snd ` set evs \<inter> set frags = set frags - {frags ! j}"
  shows "snd (table_step (ev_of (now0, frags ! j)) (table_run (map ev_of evs) (l, tbl))) = Some (concat P)"
proof (rule table_complete [where key = key and P = P and j = j and ?t0.0 = t0])
  have idx: "own_index key (ev_of (now, frags ! i)) = {i}" if "i < length P" for now i
    using that P(1) by (simp add: own unat_of_nat)
  have inj: "i = i'" if "i < length P" "i' < length P" "frags ! i = frags ! i'" for i i'
    using idx [OF that(1)] idx [OF that(2)] that(3) by (metis singleton_inject)
  show "own_index key (ev_of (now0, frags ! j)) = {j}" using got(1) by (rule idx)
  show "(\<Union>ev \<in> set (map ev_of evs). own_index key ev) = {0..<length P} - {j}" (is "?U = _")
  proof (intro set_eqI iffI)
    fix i
    assume "i \<in> ?U"
    then obtain now d where d: "(now, d) \<in> set evs" "i \<in> own_index key (ev_of (now, d))" by auto
    with kinds [OF d(1)] other(1) have "d \<in> set frags" by auto
    then obtain i' where i': "i' < length P" "d = frags ! i'" using P(2) by (metis in_set_conv_nth)
    then have "i = i'" using d(2) idx by simp
    moreover have "d \<noteq> frags ! j" using got(2) \<open>d \<in> set frags\<close> d(1) by force
    ultimately show "i \<in> {0..<length P} - {j}" using i' by auto
  next
    fix i
    assume "i \<in> {0..<length P} - {j}"
    then have i: "i < length P" "i \<noteq> j" by auto
    with inj got(1) have "frags ! i \<in> set frags - {frags ! j}" using P(2) by (metis DiffI nth_mem singletonD)
    then have "frags ! i \<in> snd ` set evs" using got(2) by blast
    then obtain now where "(now, frags ! i) \<in> set evs" by auto
    then show "i \<in> ?U" using idx [OF i(1)] by force
  qed
  fix ev
  assume "ev \<in> set (ev_of (now0, frags ! j) # map ev_of evs)"
  then obtain now d where d: "(now, d) \<in> set ((now0, frags ! j) # evs)" "ev = ev_of (now, d)" by auto
  have "d \<in> set frags \<or> foreign key d"
    using d(1) kinds got(1) P(2) by auto
  then show "event_ok key P t0 ev"
  proof
    assume "d \<in> set frags"
    then obtain i where "i < length P" "d = frags ! i" using P(2) by (metis in_set_conv_nth)
    then show ?thesis using times [OF d(1)] d(2) by (auto simp: own)
  next
    assume "foreign key d"
    then show ?thesis using times [OF d(1)] d(2) other(2) by simp
  qed
qed (use tbl P got in simp_all)

end

interpretation cr: reassembler client_reassemble
  by unfold_locales
    (auto simp: client_reassemble_def entry_or_insert_def fill_slot_def Let_def new_entry_def
      length_hm_insert intro: le_SucI order_trans [OF length_hm_remove_le] split: option.splits)

interpretation sr: reassembler server_reassemble
  by unfold_locales
    (auto simp: server_reassemble_def entry_or_insert_def fill_slot_def Let_def new_entry_def
      length_hm_insert intro: le_SucI order_trans [OF length_hm_remove_le] split: option.splits)


subsection \<open>Reassembly on the client and on the server\<close>

fun client_event :: "(u32, socket_addr) hmap \<Rightarrow> nat \<times> bytes \<Rightarrow> table_event" where
  "client_event peers (now, d) = (case parse_datagram d of
     None \<Rightarrow> Skip
   | Some m \<Rightarrow> if hm_get peers (m_session m) = None \<or> m_frag_count m \<le> 1 then Prune now
       else Frag now (m_session m, m_packet m) (m_frag_id m) (m_frag_count m) (m_payload m))"

fun server_event :: "nat \<times> bytes \<Rightarrow> table_event" where
  "server_event (now, d) = (case parse_datagram d of
     None \<Rightarrow> Skip
   | Some m \<Rightarrow> if from_utf8 (m_addr m) = None then Skip else if m_frag_count m \<le> 1 then Prune now
       else Frag now (m_session m, m_packet m) (m_frag_id m) (m_frag_count m) (m_payload m))"

lemma recv_step_table:
  "c_id_to_peer (fst (recv_step now d st)) = c_id_to_peer st"
  "(c_last_prune (fst (recv_step now d st)), c_reassembly (fst (recv_step now d st))) =
     fst (cr.table_step (client_event (c_id_to_peer st) (now, d)) (c_last_prune st, c_reassembly st))"
  by (auto simp: recv_step_def prune_reassembly_def Let_def case_prod_beta split: option.splits)

lemma recv_loop_table:
  "c_id_to_peer (fst (recv_loop evs st)) = c_id_to_peer st
   \<and> (c_last_prune (fst (recv_loop evs st)), c_reassembly (fst (recv_loop evs st))) =
     cr.table_run (map (client_event (c_id_to_peer st)) evs) (c_last_prune st, c_reassembly st)"
proof (induction evs arbitrary: st)
  case (Cons ev evs)
  obtain now d where ev: "ev = (now, d)" by (cases ev)
  show ?case
    using Cons.IH [of "fst (recv_step now d st)"] recv_step_table [of now d st]
    by (simp add: ev case_prod_beta cr.table_run_def)
qed (simp add: cr.table_run_def)

lemma server_step_table:
  "(u_last_prune (fst (hy2_udp_step now d st)), u_reassembly (fst (hy2_udp_step now d st))) =
     fst (sr.table_step (server_event (now, d)) (u_last_prune st, u_reassembly st))"
  by (auto simp: hy2_udp_step_def srv_prune_reassembly_def note_addr_def Let_def case_prod_beta
      split: option.splits)

lemma server_loop_table:
  "(u_last_prune (fst (hy2_udp_loop evs st)), u_reassembly (fst (hy2_udp_loop evs st))) =
     sr.table_run (map server_event evs) (u_last_prune st, u_reassembly st)"
proof (induction evs arbitrary: st)
  case (Cons ev evs)
  obtain now d where ev: "ev = (now, d)" by (cases ev)
  show ?case
    using Cons.IH [of "fst (hy2_udp_step now d st)"] server_step_table [of now d st]
    by (simp add: ev case_prod_beta sr.table_run_def)
qed (simp add: sr.table_run_def)

definition frag_list :: "nat \<Rightarrow> bytes \<Rightarrow> bytes list" where
  "frag_list per buf = map (frag_payload per buf) [0..<frag_count_for per (length buf)]"

lemma frag_list_simps [simp]:
  "length (frag_list per buf) = frag_count_for per (length buf)"
  "0 < per \<Longrightarrow> concat (frag_list per buf) = buf"
  "length (udp_fragments sid pid addr per buf) = frag_count_for per (length buf)"
  by (simp_all add: frag_list_def udp_fragments_def Let_def fragments_cover)

lemma udp_fragments_nth:
  "i < frag_count_for per (length buf) \<Longrightarrow> udp_fragments sid pid addr per buf ! i =
     build_datagram sid pid i (frag_count_for per (length buf)) addr (frag_list per buf ! i)"
  by (simp add: udp_fragments_def frag_list_def Let_def)

lemma frag_count_pos: "0 < frag_count_for per len"
  by (simp add: frag_count_for_def)

lemma one_less_byte: "1 < n \<Longrightarrow> n \<le> 255 \<Longrightarrow> \<not> (word_of_nat n :: byte) \<le> 1"
  by (simp add: word_le_nat_alt unat_of_nat)

lemma client_event_fragment:
  assumes "length addr < 2 ^ 62" and "hm_get peers sid \<noteq> None"
    and "i < frag_count_for per (length buf)" and "1 < frag_count_for per (length buf)"
    and "frag_count_for per (length buf) \<le> 255"
  shows "client_event peers (now, udp_fragments sid pid addr per buf ! i) =
    Frag now (sid, pid) (word_of_nat i) (word_of_nat (length (frag_list per buf))) (frag_list per buf ! i)"
  using assms by (simp add: udp_fragments_nth one_less_byte)

lemma server_event_fragment:
  assumes "length addr < 2 ^ 62" and "utf8_valid addr"
    and "i < frag_count_for per (length buf)" and "1 < frag_count_for per (length buf)"
    and "frag_count_for per (length buf) \<le> 255"
  shows "server_event (now, udp_fragments sid pid addr per buf ! i) =
    Frag now (sid, pid) (word_of_nat i) (word_of_nat (length (frag_list per buf))) (frag_list per buf ! i)"
  using assms by (simp add: udp_fragments_nth one_less_byte from_utf8_def)

lemma foreign_events:
  "foreign key d \<Longrightarrow> own_index key (client_event peers (now, d)) = {}"
  "foreign key d \<Longrightarrow> t0 \<le> now \<Longrightarrow> now \<le> t0 + REASSEMBLY_TTL \<Longrightarrow> event_ok key P t0 (client_event peers (now, d))"
  "foreign key d \<Longrightarrow> own_index key (server_event (now, d)) = {}"
  "foreign key d \<Longrightarrow> t0 \<le> now \<Longrightarrow> now \<le> t0 + REASSEMBLY_TTL \<Longrightarrow> event_ok key P t0 (server_event (now, d))"
  by (auto simp: foreign_def split: option.splits)


text \<open>The arrival of all fragments of one packet but the \<open>j\<close>-th, in any order, with repetitions
  and with any datagrams of other packets in between, within the life time of a partial packet
  and without overflowing the table.\<close>

definition arrivals :: "frag_key \<Rightarrow> bytes list \<Rightarrow> nat \<Rightarrow> nat \<Rightarrow> (nat \<times> bytes) list \<Rightarrow> frag_table \<Rightarrow> bool" where
  "arrivals key frags j t0 evs tbl \<longleftrightarrow>
     hm_ok tbl \<and> hm_get tbl key = None \<and> length tbl + length evs \<le> REASSEMBLY_MAX_ENTRIES
     \<and> j < length frags
     \<and> list_all (\<lambda>(now, d). t0 \<le> now \<and> now \<le> t0 + REASSEMBLY_TTL
          \<and> (d \<in> set frags \<or> foreign key d)) evs
     \<and> snd ` set evs \<inter> set frags = set frags - {frags ! j}"

lemma single_fragment:
  assumes "frag_count_for per (length buf) = 1" and "0 < per"
  shows "udp_fragments sid pid addr per buf = [build_datagram sid pid 0 1 addr buf]"
proof -
  have "frag_payload per buf 0 = buf" using fragments_cover [OF assms(2), of buf] assms(1) by simp
  then show ?thesis using assms(1) by (simp add: udp_fragments_def)
qed

lemma client_last_fragment:
  assumes "arrivals (sid, pid) (udp_fragments sid pid addr per buf) j t0 evs (c_reassembly st)"
    and "hm_get (c_id_to_peer st) sid = Some peer" and "length addr < 2 ^ 62" and "0 < per"
    and "frag_count_for per (length buf) \<le> 255" and "t0 \<le> now" and "now \<le> t0 + REASSEMBLY_TTL"
  shows "snd (recv_step now (udp_fragments sid pid addr per buf ! j) (fst (recv_loop evs st))) = Some (peer, buf)"
proof (cases "frag_count_for per (length buf) = 1")
  case True
  have "j = 0" using assms(1) True by (simp add: arrivals_def)
  then show ?thesis
    using assms(2-4) recv_loop_table [of evs st] True
    by (simp add: recv_step_def single_fragment prune_reassembly_def case_prod_beta Let_def)
next
  case False
  then have fc: "1 < frag_count_for per (length buf)" using frag_count_pos [of per "length buf"] by simp
  let ?frags = "udp_fragments sid pid addr per buf" and ?P = "frag_list per buf"
    and ?ev = "client_event (c_id_to_peer st)"
  have j: "j < frag_count_for per (length buf)" using assms(1) by (simp add: arrivals_def)
  have "snd (cr.table_step (?ev (now, ?frags ! j))
      (cr.table_run (map ?ev evs) (c_last_prune st, c_reassembly st))) = Some (concat ?P)"
    by (rule cr.datagrams_complete [where key = "(sid, pid)" and ?t0.0 = t0])
      (use assms fc j in \<open>auto simp: arrivals_def list_all_iff foreign_events client_event_fragment
        simp del: client_event.simps\<close>)
  moreover have "snd (recv_step now (?frags ! j) st') =
      map_option (Pair peer) (snd (cr.table_step (?ev (now, ?frags ! j)) (c_last_prune st', c_reassembly st')))"
    if "c_id_to_peer st' = c_id_to_peer st" for st'
    using that assms(2,3,5) fc j
    by (simp add: recv_step_def prune_reassembly_def udp_fragments_nth one_less_byte Let_def case_prod_beta)
  ultimately show ?thesis
    using recv_loop_table [of evs st] assms(4) by simp
qed

lemma server_last_fragment:
  assumes "arrivals (sid, pid) (udp_fragments sid pid addr per buf) j t0 evs (u_reassembly st)"
    and "utf8_valid addr" and "length addr < 2 ^ 62" and "0 < per"
    and "frag_count_for per (length buf) \<le> 255" and "t0 \<le> now" and "now \<le> t0 + REASSEMBLY_TTL"
  shows "snd (hy2_udp_step now (udp_fragments sid pid addr per buf ! j) (fst (hy2_udp_loop evs st))) = Some (sid, buf)"
proof (cases "frag_count_for per (length buf) = 1")
  case True
  have "j = 0" using assms(1) True by (simp add: arrivals_def)
  then show ?thesis
    using assms(2-4) True by (simp add: hy2_udp_step_def single_fragment from_utf8_def Let_def)
next
  case False
  then have fc: "1 < frag_count_for per (length buf)" using frag_count_pos [of per "length buf"] by simp
  let ?frags = "udp_fragments sid pid addr per buf" and ?P = "frag_list per buf"
  have j: "j < frag_count_for per (length buf)" using assms(1) by (simp add: arrivals_def)
  have "snd (sr.table_step (server_event (now, ?frags ! j))
      (sr.table_run (map server_event evs) (u_last_prune st, u_reassembly st))) = Some (concat ?P)"
    by (rule sr.datagrams_complete [where key = "(sid, pid)" and ?t0.0 = t0])
      (use assms fc j in \<open>auto simp: arrivals_def list_all_iff foreign_events server_event_fragment
        simp del: server_event.simps\<close>)
  moreover have "snd (hy2_udp_step now (?frags ! j) st') =
      map_option (Pair sid) (snd (sr.table_step (server_event (now, ?frags ! j)) (u_last_prune st', u_reassembly st')))" for st'
    using assms(2,3,5) fc j
    by (simp add: hy2_udp_step_def srv_prune_reassembly_def note_addr_def udp_fragments_nth one_less_byte
        from_utf8_def Let_def case_prod_beta split: option.split)
  ultimately show ?thesis
    using server_loop_table [of evs st] assms(4) by simp
qed


subsection \<open>Delivery\<close>

lemma length_build_datagram:
  "length (build_datagram sid pid i n addr payload) = header_len addr + length payload"
  by (simp add: build_datagram_def header_len_def)

lemma udp_fragments_fit:
  "header_len addr + per \<le> mx \<Longrightarrow> list_all (\<lambda>d. length d \<le> mx) (udp_fragments sid pid addr per buf)"
  using length_frag_payload [of per buf]
  by (auto simp: udp_fragments_def list_all_iff length_build_datagram Let_def
      intro: order_trans add_left_mono)

lemma send_datagrams_complete: "send_datagrams send ds = (sent, None) \<Longrightarrow> sent = ds"
  by (induction ds arbitrary: sent) (auto split: option.splits prod.splits)

lemma poll_send_to_ready:
  assumes "hm_get (c_sessions st) target = Some (SReady s)"
    and "poll_send_to display poll_join send (Some mx) buf target st = (st', sent, Inr (Ready (Inr n)))"
  shows "n = length buf" and "header_len (as_bytes (s_address_str s)) < mx"
    and "sent = udp_fragments (s_session_id s) (s_next_packet_id s) (as_bytes (s_address_str s))
                  (mx - header_len (as_bytes (s_address_str s))) buf"
    and "frag_count_for (mx - header_len (as_bytes (s_address_str s))) (length buf) \<le> 255"
  using assms send_datagrams_complete
  by (auto simp: poll_send_to_def poll_get_or_create_session_def take_packet_id_def Let_def
      split: if_splits prod.splits option.splits)

text \<open>A small run for the two theorems: one session to \<open>a:1\<close>, datagrams of at most 14 bytes.\<close>

definition demo_session :: hy2_session where
  "demo_session = \<lparr> s_session_id = 7, s_address_str = ''a:1'', s_next_packet_id = 0 \<rparr>"

definition demo_client :: hy2_udp_state where
  "demo_client = (hy2_udp_new 8 0)\<lparr> c_sessions := [(Domain ''a'' 1, SReady demo_session)],
     c_id_to_peer := [(7, SockV4 0 1)] \<rparr>"

definition demo_frags :: "bytes list" where
  "demo_frags = udp_fragments 7 0 (as_bytes ''a:1'') 2 [1, 2, 3]"

lemma demo_facts:
  "header_len (as_bytes ''a:1'') = 12" "str_ok ''a:1''"
  "demo_frags = [[0, 0, 0, 7, 0, 0, 0, 2, 3, 97, 58, 49, 1, 2], [0, 0, 0, 7, 0, 0, 1, 2, 3, 97, 58, 49, 3]]"
  by code_simp+

lemma demo_send: "send_datagrams (\<lambda>_. None) ds = (ds, None)"
  by (induction ds) simp_all

lemma demo_arrivals: "arrivals (7, 0) demo_frags 1 5 [(5, demo_frags ! 0)] []"
  unfolding demo_facts by (auto simp: arrivals_def REASSEMBLY_MAX_ENTRIES_def)

lemma demo_poll_send:
  "poll_send_to (\<lambda>_. ''e'') Pending (\<lambda>_. None) (Some 14) [1, 2, 3] (Domain ''a'' 1) demo_client =
     (fst (poll_send_to (\<lambda>_. ''e'') Pending (\<lambda>_. None) (Some 14) [1, 2, 3] (Domain ''a'' 1) demo_client),
      demo_frags, Inr (Ready (Inr 3)))"
  by (simp add: poll_send_to_def demo_client_def demo_session_def poll_get_or_create_session_def hm_get_def
      take_packet_id_def demo_facts(1) frag_count_for_def demo_send demo_frags_def)

text \<open>C2: Upstream UDP. When \<open>poll_send_to\<close> of an established client session reports success, it
  reports the whole length, every datagram fits the QUIC limit, and the server that gets these
  datagrams in any order, repeated, and mixed with other traffic forwards exactly the bytes that
  were sent as soon as the last one arrives.\<close>

theorem udp_upstream_delivery:
  assumes "hm_get (c_sessions st) target = Some (SReady s)"
    and "poll_send_to display poll_join send (Some mx) buf target st = (st', sent, Inr (Ready (Inr n)))"
    and "str_ok (s_address_str s)" and "length (s_address_str s) < 2 ^ 62"
    and "arrivals (s_session_id s, s_next_packet_id s) sent j t0 evs (u_reassembly srv)"
    and "t0 \<le> now" and "now \<le> t0 + REASSEMBLY_TTL"
  shows "n = length buf \<and> list_all (\<lambda>d. length d \<le> mx) sent
    \<and> snd (hy2_udp_step now (sent ! j) (fst (hy2_udp_loop evs srv))) = Some (s_session_id s, buf)"
proof -
  note r = poll_send_to_ready [OF assms(1,2)]
  have addr: "utf8_valid (as_bytes (s_address_str s))" "length (as_bytes (s_address_str s)) < 2 ^ 62"
    using assms(3,4) by (simp_all add: str_ok_def)
  have "0 < mx - header_len (as_bytes (s_address_str s))" using r(2) by simp
  from server_last_fragment [OF assms(5) [unfolded r(3)] addr this r(4) assms(6,7)] r(1-3)
    udp_fragments_fit show ?thesis
    by (simp add: udp_fragments_fit)
qed

lemma udp_upstream_delivery_witness:
  "snd (hy2_udp_step 6 (demo_frags ! 1) (fst (hy2_udp_loop [(5, demo_frags ! 0)] (udp_state_default 0))))
     = Some (7, [1, 2, 3])"
proof -
  have s: "hm_get (c_sessions demo_client) (Domain ''a'' 1) = Some (SReady demo_session)"
    by (simp add: demo_client_def hm_get_def)
  show ?thesis
    using udp_upstream_delivery [OF s demo_poll_send, where ?t0.0 = 5 and now = 6 and j = 1
        and evs = "[(5, demo_frags ! 0)]" and srv = "udp_state_default 0"]
      demo_arrivals demo_facts(2)
    by (simp add: demo_session_def udp_state_default_def REASSEMBLY_TTL_def)
qed

text \<open>C16: Downstream UDP. What the session task of the server sends for a packet of the target is
  reassembled by the client, under the same conditions, to exactly that packet, attributed to the
  peer of the session.\<close>

theorem udp_downstream_delivery:
  assumes "session_reply send mdg sid addr_str pid data = (sent, pid', True)" and "sent \<noteq> []"
    and "str_ok addr_str" and "length addr_str < 2 ^ 62"
    and "hm_get (c_id_to_peer st) sid = Some peer"
    and "arrivals (sid, pid) sent j t0 evs (c_reassembly st)"
    and "t0 \<le> now" and "now \<le> t0 + REASSEMBLY_TTL"
  shows "snd (recv_step now (sent ! j) (fst (recv_loop evs st))) = Some (peer, data) \<and> pid' = pid + 1"
proof -
  define per where "per = max ((case mdg of Some m \<Rightarrow> m | None \<Rightarrow> 1200) - header_len (as_bytes addr_str)) 1"
  have r: "frag_count_for per (length data) \<le> 255" "sent = udp_fragments sid pid (as_bytes addr_str) per data"
      "pid' = pid + 1"
    using assms(1,2) send_datagrams_complete
    by (auto simp: session_reply_def Let_def per_def split: if_splits prod.splits)
  have "0 < per" by (simp add: per_def)
  then show ?thesis
    using client_last_fragment [of sid pid "as_bytes addr_str" per data j t0 evs st peer now] assms r
    by simp
qed

lemma udp_downstream_delivery_witness:
  "snd (recv_step 6 (demo_frags ! 1) (fst (recv_loop [(5, demo_frags ! 0)] demo_client))) = Some (SockV4 0 1, [1, 2, 3])"
proof -
  have r: "session_reply (\<lambda>_. None) (Some 14) 7 ''a:1'' 0 [1, 2, 3] = (demo_frags, 1, True)"
  proof -
    have "max (14 - 12) 1 = (2 :: nat)" and "\<not> frag_count_for 2 (length [1, 2, 3 :: byte]) > 255"
      by (simp_all add: frag_count_for_def)
    then show ?thesis
      unfolding session_reply_def Let_def option.case demo_facts(1) demo_send
      by (simp only: if_False prod.case demo_frags_def) simp
  qed
  have ne: "demo_frags \<noteq> []" by (simp add: demo_facts(3))
  show ?thesis
    using udp_downstream_delivery [OF r ne, where ?t0.0 = 5 and now = 6 and j = 1
        and evs = "[(5, demo_frags ! 0)]" and st = demo_client and peer = "SockV4 0 1"]
      demo_arrivals demo_facts(2)
    by (simp add: demo_client_def hy2_udp_new_def hm_get_def REASSEMBLY_TTL_def)
qed

subsection \<open>Safety\<close>

text \<open>The \<open>expect\<close> of \<open>poll_send_to\<close> never fires: in every state, and whatever the resolver and the
  QUIC connection answer, the call returns.\<close>

theorem poll_send_to_no_panic:
  "\<exists>r. snd (snd (poll_send_to display poll_join send mdg buf target st)) = Inr r"
  by (auto simp: poll_send_to_def poll_get_or_create_session_def new_session_def take_packet_id_def
      Let_def split: option.split poll.split sum.split session_entry.split address.split prod.split)














subsection \<open>Sessions of the server\<close>

text \<open>A session task that stops on an error leaves its closed channel in the table: from then on
  every packet of that session fails with ``udp session closed'', and failing does not repair the
  table, although the address is known and binding would succeed.\<close>

theorem session_error_exit_sticks:
  "hm_get (u_sessions st) sid = Some s \<Longrightarrow>
   udp_send_to_target (Inr ()) sid payload (session_return (u_task s) sid st) =
     (session_return (u_task s) sid st, Inl (OtherError ''udp session closed''))"
  by (simp add: udp_send_to_target_def session_return_def)

text \<open>Session 7 is opened to \<open>a:1\<close> and then moved by the client to \<open>b:2\<close>.\<close>

definition demo_moved :: udp_state where
  "demo_moved = fst (udp_send_to_target (Inr ()) 7 [2] (note_addr 7 ''b:2''
     (fst (udp_send_to_target (Inr ()) 7 [1] (note_addr 7 ''a:1'' (udp_state_default 0))))))"

lemma demo_targets:
  "str_into_address ''a:1'' = Inr (to_normalized (Domain ''a'' 1))"
  "str_into_address ''b:2'' = Inr (to_normalized (Domain ''b'' 2))"
proof -
  have "show_address (Domain ''a'' 1) = ''a:1''" "show_address (Domain ''b'' 2) = ''b:2''"
    by code_simp+
  then show "str_into_address ''a:1'' = Inr (to_normalized (Domain ''a'' 1))"
    and "str_into_address ''b:2'' = Inr (to_normalized (Domain ''b'' 2))"
    using str_into_address_show [of "Domain ''a'' 1"] str_into_address_show [of "Domain ''b'' 2"] by simp_all
qed

lemma send_creates_session:
  "hm_get (u_sessions st) sid = None \<Longrightarrow> hm_get (u_id_to_addr st) sid = Some a \<Longrightarrow>
   str_into_address a = Inr target \<Longrightarrow>
   udp_send_to_target (Inr ()) sid payload st =
     (st\<lparr> u_sessions := hm_insert sid \<lparr> u_task = u_next_task st, u_target = target, u_addr_str = a, u_open = True \<rparr> (u_sessions st),
          u_next_task := Suc (u_next_task st) \<rparr>, Inr (target, payload))"
  by (simp add: udp_send_to_target_def Let_def)

lemma demo_moved_session:
  "hm_get (u_sessions demo_moved) 7 =
     Some \<lparr> u_task = 1, u_target = to_normalized (Domain ''b'' 2), u_addr_str = ''b:2'', u_open = True \<rparr>"
proof -
  define st1 where "st1 = note_addr 7 ''a:1'' (udp_state_default 0)"
  define st2 where "st2 = note_addr 7 ''b:2'' (fst (udp_send_to_target (Inr ()) 7 [1] st1))"
  have st1: "hm_get (u_sessions st1) 7 = None" "hm_get (u_id_to_addr st1) 7 = Some ''a:1''" "u_next_task st1 = 0"
    by (simp_all add: st1_def note_addr_def udp_state_default_def)
  have st2: "hm_get (u_sessions st2) 7 = None" "hm_get (u_id_to_addr st2) 7 = Some ''b:2''" "u_next_task st2 = 1"
    using st1 by (simp_all add: st2_def note_addr_def send_creates_session [OF st1(1,2) demo_targets(1)])
  show ?thesis
    using st2 by (simp add: demo_moved_def st1_def [symmetric] st2_def [symmetric]
        send_creates_session [OF st2(1,2) demo_targets(2)])
qed

lemma session_error_exit_sticks_witness:
  "snd (udp_send_to_target (Inr ()) 7 [3] (session_return 1 7 demo_moved)) = Inl (OtherError ''udp session closed'')"
  using session_error_exit_sticks [OF demo_moved_session, of "[3]"] by simp

text \<open>A task that stops on the idle timeout removes whatever the table holds for its session
  number. After the client moved session 7 to another address the table holds the live session of
  task 1; the idle timeout of task 0 removes that session and the address, so that the next packet
  has nowhere to go.\<close>

theorem idle_exit_kills_successor:
  "map_option (\<lambda>s. (u_task s, u_open s)) (hm_get (u_sessions demo_moved) 7) = Some (1, True)
   \<and> hm_get (u_sessions (session_idle 7 demo_moved)) 7 = None
   \<and> snd (udp_send_to_target (Inr ()) 7 [3] (session_idle 7 demo_moved)) = Inl (OtherError ''missing udp addr'')"
  by (simp add: demo_moved_session session_idle_def udp_send_to_target_def)

end
