(* ===== verification/Vless_Header.thy ===== *)
theory Vless_Header
  imports Address
begin

section \<open>VLESS: flow, request header and addresses\<close>

text \<open>
  The header half of \<open>protocol/vless/src/common.rs\<close>: flow normalisation, the request header with its
  addons, and the address codec in its stream form (\<open>read_address\<close>) and its buffer form
  (\<open>read_address_buf\<close>). A stream is the list of the bytes still to come. \<open>display\<close> renders an error
  that is converted to \<open>io::Error\<close>; the text of a UTF-8 error is kept without its byte positions.
\<close>

definition VLESS_VERSION :: byte where "VLESS_VERSION = 0"
definition COMMAND_TCP :: byte where "COMMAND_TCP = 1"
definition COMMAND_MUX :: byte where "COMMAND_MUX = 3"
definition FLOW_VISION :: string where "FLOW_VISION = ''xtls-rprx-vision''"
definition MUX_DOMAIN :: string where "MUX_DOMAIN = ''v1.mux.cool''"
definition MUX_PORT :: u16 where "MUX_PORT = 666"
definition ADDRESS_TYPE_IPV4 :: byte where "ADDRESS_TYPE_IPV4 = 1"
definition ADDRESS_TYPE_DOMAIN :: byte where "ADDRESS_TYPE_DOMAIN = 2"
definition ADDRESS_TYPE_IPV6 :: byte where "ADDRESS_TYPE_IPV6 = 3"

lemmas vless_consts = VLESS_VERSION_def COMMAND_TCP_def COMMAND_MUX_def MUX_DOMAIN_def MUX_PORT_def
  ADDRESS_TYPE_IPV4_def ADDRESS_TYPE_DOMAIN_def ADDRESS_TYPE_IPV6_def

subsection \<open>Flow\<close>

datatype normalized_flow = NormalizedFlow (flow_as_deref: "string option")

definition flow_parse :: "string option \<Rightarrow> normalized_flow rd" where
  "flow_parse flow =
     (case Option.bind (map_option trim flow) (\<lambda>s. if s = [] then None else Some s) of
        None \<Rightarrow> Inr (NormalizedFlow None)
      | Some s \<Rightarrow>
          if s = FLOW_VISION then Inr (NormalizedFlow (Some FLOW_VISION))
          else Inl (OtherError (''unsupported vless flow: '' @ s)))"

definition is_vision :: "normalized_flow \<Rightarrow> bool" where
  "is_vision f \<longleftrightarrow> flow_as_deref f = Some FLOW_VISION"

definition write_addons :: "string option \<Rightarrow> bytes io" where
  "write_addons flow = (case flow of
     None \<Rightarrow> Inr [0]
   | Some f \<Rightarrow>
       if f \<noteq> FLOW_VISION then Inl (IoError InvalidInput ''unsupported flow'')
       else if length f > 127 then Inl (IoError InvalidInput ''flow too long'')
       else Inr ([word_of_nat (length f + 2), 0x0a, word_of_nat (length f)] @ as_bytes f))"

definition bad_utf8 :: io_error where
  "bad_utf8 = IoError InvalidData ''invalid utf-8''"

definition read_addons :: "(rd_error \<Rightarrow> string) \<Rightarrow> bytes \<Rightarrow> (normalized_flow \<times> bytes) io" where
  "read_addons display stream =
     rbind (read_exact 1 stream) (\<lambda>(len, stream).
     if len ! 0 = 0 then Inr (NormalizedFlow None, stream)
     else
       rbind (read_exact (unat (len ! 0)) stream) (\<lambda>(buf, stream).
       if length buf < 2 \<or> buf ! 0 \<noteq> 0x0a then Inl (IoError InvalidData ''unsupported vless addons'')
       else if length buf \<noteq> unat (buf ! 1) + 2 then Inl (IoError InvalidData ''invalid vless flow addons'')
       else
         rbind (ok_or bad_utf8 (from_utf8 (drop 2 buf))) (\<lambda>s.
         rbind (map_err (to_io_err display) (flow_parse (Some s))) (\<lambda>f. Inr (f, stream)))))"

subsection \<open>Addresses\<close>

definition write_address :: "address \<Rightarrow> bytes io" where
  "write_address addr = (case addr of
     SocketAddr socket \<Rightarrow> (case sock_ip socket of
       IpV4 ip \<Rightarrow> Inr (u16_to_be (sock_port socket) @ [ADDRESS_TYPE_IPV4] @ v4_octets ip)
     | IpV6 ip \<Rightarrow> Inr (u16_to_be (sock_port socket) @ [ADDRESS_TYPE_IPV6] @ v6_octets ip))
   | Domain domain p \<Rightarrow>
       if length domain > 255 then Inl (IoError InvalidInput ''domain too long'')
       else Inr (u16_to_be p @ [ADDRESS_TYPE_DOMAIN, word_of_nat (length domain)] @ as_bytes domain))"

definition sock_of_v4 :: "bytes \<Rightarrow> u16 \<Rightarrow> address" where
  "sock_of_v4 ip p = SocketAddr (sock_new (IpV4 (word_of_nat (from_be ip))) p)"

definition sock_of_v6 :: "bytes \<Rightarrow> u16 \<Rightarrow> address" where
  "sock_of_v6 ip p = SocketAddr (sock_new (IpV6 (word_of_nat (from_be ip))) p)"

definition read_address :: "bytes \<Rightarrow> (address \<times> bytes) io" where
  "read_address stream =
     rbind (read_exact 2 stream) (\<lambda>(port_bytes, stream).
     rbind (read_exact 1 stream) (\<lambda>(atyp, stream).
     let p = u16_from_be port_bytes in
     if atyp ! 0 = ADDRESS_TYPE_IPV4 then
       rbind (read_exact 4 stream) (\<lambda>(ip, stream). Inr (sock_of_v4 ip p, stream))
     else if atyp ! 0 = ADDRESS_TYPE_IPV6 then
       rbind (read_exact 16 stream) (\<lambda>(ip, stream). Inr (sock_of_v6 ip p, stream))
     else if atyp ! 0 = ADDRESS_TYPE_DOMAIN then
       rbind (read_exact 1 stream) (\<lambda>(len, stream).
       rbind (read_exact (unat (len ! 0)) stream) (\<lambda>(domain, stream).
       rbind (ok_or bad_utf8 (from_utf8 domain)) (\<lambda>d. Inr (Domain d p, stream))))
     else Inl (IoError InvalidData (''unsupported address type '' @ show_nat (unat (atyp ! 0))))))"

definition read_address_buf :: "bytes \<Rightarrow> (address \<times> bytes) io" where
  "read_address_buf buf =
     (if length buf < 3 then Inl (IoError UnexpectedEof ''short xudp address'')
      else
        let p = u16_from_be (take 2 buf); atyp = buf ! 2; buf = drop 3 buf in
        if atyp = ADDRESS_TYPE_IPV4 then
          (if length buf < 4 then Inl (IoError UnexpectedEof ''short ipv4'')
           else Inr (sock_of_v4 (take 4 buf) p, drop 4 buf))
        else if atyp = ADDRESS_TYPE_IPV6 then
          (if length buf < 16 then Inl (IoError UnexpectedEof ''short ipv6'')
           else Inr (sock_of_v6 (take 16 buf) p, drop 16 buf))
        else if atyp = ADDRESS_TYPE_DOMAIN then
          (case buf of
             [] \<Rightarrow> Inl (IoError UnexpectedEof ''short domain'')
           | len # buf \<Rightarrow>
               if length buf < unat len then Inl (IoError UnexpectedEof ''short domain'')
               else rbind (ok_or bad_utf8 (from_utf8 (take (unat len) buf)))
                      (\<lambda>d. Inr (Domain d p, drop (unat len) buf)))
        else Inl (IoError InvalidData (''unsupported xudp address type '' @ show_nat (unat atyp))))"

subsection \<open>Request header\<close>

record request_header =
  rh_command :: byte
  rh_addr :: address
  rh_flow :: normalized_flow

definition build_request_header :: "bytes \<Rightarrow> normalized_flow \<Rightarrow> byte \<Rightarrow> address \<Rightarrow> bytes io" where
  "build_request_header user_id flow command addr =
     rbind (write_addons (flow_as_deref flow)) (\<lambda>addons.
     rbind (if command \<noteq> COMMAND_MUX then write_address addr else Inr []) (\<lambda>a.
     Inr ([VLESS_VERSION] @ user_id @ addons @ [command] @ a)))"

definition read_request_header ::
  "(rd_error \<Rightarrow> string) \<Rightarrow> bytes \<Rightarrow> bytes \<Rightarrow> (request_header \<times> bytes) io" where
  "read_request_header display expected stream =
     rbind (read_exact 1 stream) (\<lambda>(version, stream).
     if version ! 0 \<noteq> VLESS_VERSION
     then Inl (IoError InvalidData (''unsupported vless version '' @ show_nat (unat (version ! 0))))
     else
       rbind (read_exact 16 stream) (\<lambda>(user, stream).
       if user \<noteq> expected then Inl (IoError PermissionDenied ''invalid vless user id'')
       else
         rbind (read_addons display stream) (\<lambda>(flow, stream).
         rbind (read_exact 1 stream) (\<lambda>(command, stream).
         rbind (if command ! 0 = COMMAND_MUX then Inr (Domain MUX_DOMAIN MUX_PORT, stream)
                else read_address stream) (\<lambda>(addr, stream).
         Inr (\<lparr> rh_command = command ! 0, rh_addr = addr, rh_flow = flow \<rparr>, stream))))))"

definition write_response_header :: bytes where
  "write_response_header = [VLESS_VERSION, 0]"

subsection \<open>Lemmas\<close>

lemma read_exact_byte [simp]: "read_exact (Suc 0) (b # s) = Inr ([b], s)"
  by (simp add: read_exact_def)

lemma from_utf8_vision: "from_utf8 (as_bytes FLOW_VISION) = Some FLOW_VISION"
  by (rule from_utf8_as_bytes) (unfold FLOW_VISION_def, code_simp)

lemma length_flow_vision [simp]: "length FLOW_VISION = 16"
  by (simp add: FLOW_VISION_def)

lemma trim_vision: "trim FLOW_VISION = FLOW_VISION"
  by (rule trim_graphic) (simp_all add: FLOW_VISION_def graphic_def)

lemma flow_parse_vision [simp]: "flow_parse (Some FLOW_VISION) = Inr (NormalizedFlow (Some FLOW_VISION))"
  by (simp add: flow_parse_def trim_vision) (simp add: FLOW_VISION_def)

definition flow_ok :: "normalized_flow \<Rightarrow> bool" where
  "flow_ok f \<longleftrightarrow> f = NormalizedFlow None \<or> f = NormalizedFlow (Some FLOW_VISION)"

lemma flow_parse_ok: "flow_parse s = Inr f \<Longrightarrow> flow_ok f"
  by (auto simp: flow_parse_def flow_ok_def split: option.splits if_splits)

lemma read_write_addons:
  assumes "flow_ok f"
  obtains a where "write_addons (flow_as_deref f) = Inr a"
    and "\<And>rest. read_addons display (a @ rest) = Inr (f, rest)"
proof (cases "f = NormalizedFlow None")
  case True
  then show ?thesis using that [of "[0]"] by (simp add: write_addons_def read_addons_def)
next
  case False
  with assms have f: "f = NormalizedFlow (Some FLOW_VISION)" by (simp add: flow_ok_def)
  show ?thesis
    by (rule that [of "[18, 0x0a, 16] @ as_bytes FLOW_VISION"])
      (simp_all add: f write_addons_def read_addons_def from_utf8_vision read_exact_def)
qed

definition addr_ok :: "address \<Rightarrow> bool" where
  "addr_ok a = (case a of Domain d _ \<Rightarrow> length d \<le> 255 \<and> str_ok d | SocketAddr _ \<Rightarrow> plain a)"

lemma address_head:
  "take 2 (u16_to_be p @ t # rest) = u16_to_be p"
  "(u16_to_be p @ t # rest) ! 2 = t"
  "drop 3 (u16_to_be p @ t # rest) = rest"
  "read_exact 2 (u16_to_be p @ t # rest) = Inr (u16_to_be p, t # rest)"
  "\<not> length (u16_to_be p @ t # rest) < 3"
  by (simp_all add: nth_append)

lemma write_address_ok:
  assumes "addr_ok a"
  obtains b where "write_address a = Inr b" and "\<And>rest. read_address (b @ rest) = Inr (a, rest)"
    and "\<And>rest. read_address_buf (b @ rest) = Inr (a, rest)" and "length b \<le> 259" and "7 \<le> length b \<or> is_domain a"
    and "3 < length b"
proof (cases a)
  case (SocketAddr s)
  show ?thesis
  proof (cases s)
    case (SockV4 ip p)
    show ?thesis
      by (rule that [of "u16_to_be p @ [ADDRESS_TYPE_IPV4] @ v4_octets ip"])
        (simp_all only: SocketAddr SockV4 write_address_def read_address_def read_address_buf_def
          append_Cons append_Nil append_assoc address_head Let_def,
          simp_all add: vless_consts sock_of_v4_def sock_new_def)
  next
    case (SockV6 ip p f sc)
    then have "f = 0" "sc = 0" using assms by (simp_all add: addr_ok_def SocketAddr)
    then show ?thesis
      by (intro that [of "u16_to_be p @ [ADDRESS_TYPE_IPV6] @ v6_octets ip"])
        (simp_all only: SocketAddr SockV6 write_address_def read_address_def read_address_buf_def
          append_Cons append_Nil append_assoc address_head Let_def,
          simp_all add: vless_consts sock_of_v6_def sock_new_def)
  qed
next
  case (Domain d p)
  then have d: "length d \<le> 255" "str_ok d" using assms by (simp_all add: addr_ok_def)
  have n: "unat (word_of_nat (length d) :: byte) = length d" using d by (simp add: unat_of_nat)
  show ?thesis
    by (rule that [of "u16_to_be p @ [ADDRESS_TYPE_DOMAIN, word_of_nat (length d)] @ as_bytes d"])
      (simp_all only: Domain write_address_def read_address_def read_address_buf_def
          append_Cons append_Nil append_assoc address_head Let_def,
        use d n in \<open>simp_all add: vless_consts\<close>)
qed

text \<open>A VLESS request header round trips. Whatever flow \<open>NormalizedFlow::parse\<close> accepted and whatever
  address the format can carry, the server that expects this user reads back command, flow and
  address and stops at the first payload byte; a mux request carries no address and is read as the
  fixed mux destination. A server that expects another user refuses with \<open>PermissionDenied\<close>.\<close>

theorem vless_header_roundtrip:
  assumes "flow_parse text = Inr flow" and "length user = 16" and "addr_ok addr"
  shows "\<exists>hdr. build_request_header user flow command addr = Inr hdr
    \<and> read_request_header display user (hdr @ rest) =
        Inr (\<lparr> rh_command = command,
               rh_addr = (if command = COMMAND_MUX then Domain MUX_DOMAIN MUX_PORT else addr),
               rh_flow = flow \<rparr>, rest)
    \<and> read_request_header display other (hdr @ rest) =
        (if other = user then read_request_header display user (hdr @ rest)
         else Inl (IoError PermissionDenied ''invalid vless user id''))"
proof -
  obtain ao where ao: "write_addons (flow_as_deref flow) = Inr ao"
    "\<And>rest. read_addons display (ao @ rest) = Inr (flow, rest)"
    by (rule read_write_addons [OF flow_parse_ok [OF assms(1)], of display]) (rule that)
  obtain b where b: "write_address addr = Inr b" "\<And>rest. read_address (b @ rest) = Inr (addr, rest)"
    by (rule write_address_ok [OF assms(3)]) (rule that)
  define a where "a = (if command \<noteq> COMMAND_MUX then b else [])"
  define hdr where "hdr = [VLESS_VERSION] @ user @ ao @ [command] @ a"
  have h: "build_request_header user flow command addr = Inr hdr"
    by (simp add: build_request_header_def ao b a_def hdr_def)
  have u: "read_exact 16 (user @ s) = Inr (user, s)" for s
    using assms(2) by simp
  have r: "read_request_header display expected (hdr @ rest) =
      (if user \<noteq> expected then Inl (IoError PermissionDenied ''invalid vless user id'')
       else Inr (\<lparr> rh_command = command,
               rh_addr = (if command = COMMAND_MUX then Domain MUX_DOMAIN MUX_PORT else addr),
               rh_flow = flow \<rparr>, rest))" for expected
    unfolding read_request_header_def hdr_def append_assoc append_Cons append_Nil One_nat_def
      read_exact_byte rbind_simps prod.case nth_Cons_0 u ao(2)
    by (simp add: a_def b(2))
  show ?thesis
    by (intro exI conjI, rule h) (auto simp only: r split: if_split)
qed

lemma vless_header_roundtrip_witness:
  "\<exists>hdr. build_request_header (replicate 16 7) (NormalizedFlow None) COMMAND_MUX (SocketAddr (SockV4 16909060 443)) = Inr hdr
    \<and> read_request_header (\<lambda>_. ''e'') (replicate 16 7) (hdr @ [9]) =
        Inr (\<lparr> rh_command = COMMAND_MUX, rh_addr = Domain MUX_DOMAIN MUX_PORT, rh_flow = NormalizedFlow None \<rparr>, [9])"
proof -
  have f: "flow_parse None = Inr (NormalizedFlow None)" by (simp add: flow_parse_def)
  have u: "length (replicate 16 (7 :: byte)) = 16" by simp
  have a: "addr_ok (SocketAddr (SockV4 16909060 443))" by (simp add: addr_ok_def)
  obtain hdr where "build_request_header (replicate 16 7) (NormalizedFlow None) COMMAND_MUX (SocketAddr (SockV4 16909060 443)) = Inr hdr"
    "read_request_header (\<lambda>_. ''e'') (replicate 16 7) (hdr @ [9]) =
        Inr (\<lparr> rh_command = COMMAND_MUX, rh_addr = (if COMMAND_MUX = COMMAND_MUX then Domain MUX_DOMAIN MUX_PORT else SocketAddr (SockV4 16909060 443)),
          rh_flow = NormalizedFlow None \<rparr>, [9])"
    using vless_header_roundtrip [OF f u a] by blast
  then show ?thesis by (simp only: if_True simp_thms) blast
qed

text \<open>The buffer form and the stream form of the address reader accept the same encodings: whenever
  \<open>read_address_buf\<close> reads an address, \<open>read_address\<close> reads the same address and leaves the same
  rest, and conversely. What \<open>write_address\<close> refuses is exactly a domain of more than 255 bytes.\<close>

theorem vless_address_readers_agree:
  "(read_address_buf bs = Inr (a, rest)) = (read_address bs = Inr (a, rest))
   \<and> (\<exists>b. write_address addr = Inr b) = (\<not> (is_domain addr \<and> length (host addr) > 255))"
proof
  show "(read_address_buf bs = Inr (a, rest)) = (read_address bs = Inr (a, rest))"
  proof (cases "length bs < 3")
    case True
    then show ?thesis
      by (auto simp: read_address_buf_def read_address_def read_exact_def rbind_eq_Inr split: if_splits)
  next
    case False
    then obtain x y t bs' where bs: "bs = x # y # t # bs'"
      by (cases bs; cases "tl bs"; cases "tl (tl bs)") auto
    have r2: "read_exact 2 bs = Inr ([x, y], t # bs')" by (simp add: bs read_exact_def)
    show ?thesis
      unfolding read_address_def r2
      by (simp add: bs read_address_buf_def read_exact_def rbind_eq_Inr Let_def split: list.split)
        (auto simp: read_exact_def vless_consts)
  qed
next
  show "(\<exists>b. write_address addr = Inr b) = (\<not> (is_domain addr \<and> length (host addr) > 255))"
    by (cases addr) (auto simp: write_address_def split: ip_addr.split)
qed

end
