(* ===== verification/Vless_Xudp.thy ===== *)
theory Vless_Xudp
  imports Vless_Header
begin

section \<open>VLESS: the XUDP packet codec\<close>

text \<open>
  \<open>XudpCodec\<close> of \<open>protocol/vless/src/common.rs\<close>. The codec remembers the last address; a packet to
  the same address is sent in a compact form. \<open>xudp_decode\<close> works on the receive buffer in place:
  it returns the new codec state, the new buffer and the result, so that bytes it consumes before
  giving up are visible. \<open>src[i]\<close> and \<open>get_u8\<close> are guarded by the length tests before them.
\<close>

record xudp_codec =
  last_addr :: "address option"

definition xudp_new :: xudp_codec where
  "xudp_new = \<lparr> last_addr = None \<rparr>"

definition put_u16 :: "nat \<Rightarrow> bytes" where
  "put_u16 n = u16_to_be (word_of_nat n)"

definition xudp_encode :: "xudp_codec \<Rightarrow> bytes \<times> address \<Rightarrow> xudp_codec \<times> bytes io" where
  "xudp_encode c = (\<lambda>(data, addr).
     if length data > 65535 then (c, Inl (IoError InvalidData ''xudp payload too large''))
     else
       let use_compact = (last_addr c = Some addr);
           meta = put_u16 0 @ [if use_compact then 2 else 1] @ [1] in
       if use_compact
       then (c, Inr (put_u16 (length meta) @ meta @ put_u16 (length data) @ data))
       else (case write_address addr of
               Inl e \<Rightarrow> (c, Inl e)
             | Inr a \<Rightarrow>
                 let meta = meta @ [2] @ a in
                 (c\<lparr> last_addr := Some addr \<rparr>, Inr (put_u16 (length meta) @ meta @ put_u16 (length data) @ data))))"

definition be16 :: "bytes \<Rightarrow> nat" where
  "be16 bs = unat (u16_from_be (take 2 bs))"

definition xudp_decode :: "xudp_codec \<Rightarrow> bytes \<Rightarrow> xudp_codec \<times> bytes \<times> (bytes \<times> address) option io" where
  "xudp_decode c src =
     (if length src < 2 then (c, src, Inr None)
      else
        let meta_len = be16 src in
        if meta_len < 4 then (c, src, Inl (IoError InvalidData ''invalid xudp metadata length''))
        else if length src < 2 + meta_len + 2 then (c, src, Inr None)
        else
          let packet_type = src ! 4 in
          if packet_type = 4 then
            (let src = drop (2 + meta_len) src;
                 payload_len = be16 src
             in if length src < 2 + payload_len then (c, src, Inr None)
                else (c, drop (2 + payload_len) src, Inr None))
          else if packet_type \<noteq> 1 \<and> packet_type \<noteq> 2 then
            (c, src, Inl (IoError InvalidData (''unsupported xudp packet type '' @ show_nat (unat packet_type))))
          else
            let meta = drop 2 (take (2 + meta_len) src);
                src = drop (2 + meta_len) src;
                meta = drop 4 meta;
                found = (case meta of
                    [] \<Rightarrow>
                      (c, ok_or (IoError InvalidData ''xudp compact packet missing prior address'') (last_addr c))
                  | network # meta \<Rightarrow>
                      if network \<noteq> 2 then (c, Inl (IoError InvalidData ''unsupported xudp network type''))
                      else (case read_address_buf meta of
                              Inl e \<Rightarrow> (c, Inl e)
                            | Inr (addr, _) \<Rightarrow> (c\<lparr> last_addr := Some addr \<rparr>, Inr addr)))
            in case found of
                 (c, Inl e) \<Rightarrow> (c, src, Inl e)
               | (c, Inr addr) \<Rightarrow>
                   if length src < 2 then (c, src, Inr None)
                   else
                     let payload_len = be16 src in
                     if length src < 2 + payload_len then (c, src, Inr None)
                     else (c, drop (2 + payload_len) src, Inr (Some (take payload_len (drop 2 src), addr))))"

text \<open>Sending a list of packets, and decoding a buffer until the codec asks for more or fails.\<close>

fun encode_all :: "xudp_codec \<Rightarrow> (bytes \<times> address) list \<Rightarrow> xudp_codec \<times> bytes list io" where
  "encode_all c [] = (c, Inr [])"
| "encode_all c (x # xs) = (case xudp_encode c x of
     (c, Inl e) \<Rightarrow> (c, Inl e)
   | (c, Inr b) \<Rightarrow> (case encode_all c xs of (c, Inl e) \<Rightarrow> (c, Inl e) | (c, Inr bs) \<Rightarrow> (c, Inr (b # bs))))"

text \<open>\<open>Framed\<close> calls the decoder on its buffer until it answers \<open>None\<close>; \<open>fuel\<close> bounds the number of
  calls, and one call per frame is enough.\<close>

fun decode_ready :: "nat \<Rightarrow> xudp_codec \<Rightarrow> bytes \<Rightarrow> xudp_codec \<times> bytes \<times> (bytes \<times> address) list io" where
  "decode_ready 0 c src = (c, src, Inr [])"
| "decode_ready (Suc n) c src = (case xudp_decode c src of
     (c, src, Inl e) \<Rightarrow> (c, src, Inl e)
   | (c, src, Inr None) \<Rightarrow> (c, src, Inr [])
   | (c, src, Inr (Some x)) \<Rightarrow> (case decode_ready n c src of
       (c, src, Inl e) \<Rightarrow> (c, src, Inl e) | (c, src, Inr xs) \<Rightarrow> (c, src, Inr (x # xs))))"

subsection \<open>One frame\<close>

lemma length_put_u16 [simp]: "length (put_u16 n) = 2"
  by (simp add: put_u16_def)

lemma be16_put_u16 [simp]: "n \<le> 65535 \<Longrightarrow> be16 (put_u16 n @ rest) = n"
  by (simp add: be16_def put_u16_def unat_of_nat)

text \<open>A frame: metadata after the session id, then the payload.\<close>

definition frame :: "bytes \<Rightarrow> bytes \<Rightarrow> bytes" where
  "frame meta data = put_u16 (length meta) @ meta @ put_u16 (length data) @ data"

lemma decode_frame:
  assumes "length meta \<le> 65535" and "meta = put_u16 0 @ [ty, 1] @ body" and "ty = 1 \<or> ty = 2"
    and "length got \<le> length data" and "length data \<le> 65535"
    and "(c', r) = (case body of
        [] \<Rightarrow> (c, ok_or (IoError InvalidData ''xudp compact packet missing prior address'') (last_addr c))
      | network # m \<Rightarrow>
          if network \<noteq> 2 then (c, Inl (IoError InvalidData ''unsupported xudp network type''))
          else (case read_address_buf m of
                  Inl e \<Rightarrow> (c, Inl e) | Inr (addr, _) \<Rightarrow> (c\<lparr> last_addr := Some addr \<rparr>, Inr addr)))"
    and "r = Inr addr"
  shows "xudp_decode c (put_u16 (length meta) @ meta @ put_u16 (length data) @ got @ rest) =
    (if length (got @ rest) < length data then (c', put_u16 (length data) @ got @ rest, Inr None)
     else (c', drop (length data) (got @ rest), Inr (Some (take (length data) (got @ rest), addr))))"
proof -
  let ?src = "put_u16 (length meta) @ meta @ put_u16 (length data) @ got @ rest"
  have m: "be16 ?src = length meta" using assms(1) by simp
  have len: "\<not> length meta < 4" using assms(2) by simp
  have ty: "?src ! 4 = ty"
  proof -
    have "?src = (put_u16 (length meta) @ put_u16 0) @ ty # ([1] @ body @ put_u16 (length data) @ got @ rest)"
      by (simp add: assms(2))
    then show ?thesis by (simp only: nth_append_length_plus [of _ _ 0] nth_append) simp
  qed
  have d: "drop (2 + length meta) ?src = put_u16 (length data) @ got @ rest" by simp
  have b: "drop 4 (drop 2 (take (2 + length meta) ?src)) = body" by (simp add: assms(2))
  have ne: "ty \<noteq> 4" "\<not> (ty \<noteq> 1 \<and> ty \<noteq> 2)" using assms(3) by auto
  show ?thesis
    unfolding xudp_decode_def Let_def m ty d b assms(6) [symmetric]
    using len ne assms(5,7) by simp
qed

lemma encode_frame:
  assumes "addr_ok addr" and "length data \<le> 65535"
  obtains c' ty body where "xudp_encode c (data, addr) = (c', Inr (frame (put_u16 0 @ [ty, 1] @ body) data))"
    and "length (put_u16 0 @ [ty, 1] @ body) \<le> 65535" and "ty = 1 \<or> ty = 2"
    and "(c', Inr addr) = (case body of
        [] \<Rightarrow> (c, ok_or (IoError InvalidData ''xudp compact packet missing prior address'') (last_addr c))
      | network # m \<Rightarrow>
          if network \<noteq> 2 then (c, Inl (IoError InvalidData ''unsupported xudp network type''))
          else (case read_address_buf m of
                  Inl e \<Rightarrow> (c, Inl e) | Inr (addr, _) \<Rightarrow> (c\<lparr> last_addr := Some addr \<rparr>, Inr addr)))"
proof (cases "last_addr c = Some addr")
  case True
  then show ?thesis
    using that [of c 2 "[]"] assms(2) by (simp add: xudp_encode_def frame_def Let_def)
next
  case False
  obtain b where b: "write_address addr = Inr b" "\<And>rest. read_address_buf (b @ rest) = Inr (addr, rest)"
      "length b \<le> 259"
    by (rule write_address_ok [OF assms(1)]) (rule that)
  show ?thesis
    using that [of "c\<lparr> last_addr := Some addr \<rparr>" 1 "2 # b"] False b b(2) [of "[]"] assms(2)
    by (simp add: xudp_encode_def frame_def Let_def)
qed

lemma decode_encode:
  assumes "addr_ok addr" and "length data \<le> 65535"
  obtains c' b where "xudp_encode c (data, addr) = (c', Inr b)"
    and "\<And>rest. xudp_decode c (b @ rest) = (c', rest, Inr (Some (data, addr)))"
proof -
  obtain c' ty body
    where e: "xudp_encode c (data, addr) = (c', Inr (frame (put_u16 0 @ [ty, 1] @ body) data))"
      and l: "length (put_u16 0 @ [ty, 1] @ body) \<le> 65535" and t: "ty = 1 \<or> ty = 2"
      and f: "(c', Inr addr) = (case body of
        [] \<Rightarrow> (c, ok_or (IoError InvalidData ''xudp compact packet missing prior address'') (last_addr c))
      | network # m \<Rightarrow>
          if network \<noteq> 2 then (c, Inl (IoError InvalidData ''unsupported xudp network type''))
          else (case read_address_buf m of
                  Inl e \<Rightarrow> (c, Inl e) | Inr (addr, _) \<Rightarrow> (c\<lparr> last_addr := Some addr \<rparr>, Inr addr)))"
    by (rule encode_frame [OF assms, of c]) (rule that)
  have "xudp_decode c (frame (put_u16 0 @ [ty, 1] @ body) data @ rest) = (c', rest, Inr (Some (data, addr)))" for rest
    using decode_frame [OF l refl t _ assms(2) f refl, of data rest] by (simp add: frame_def)
  with e that show ?thesis by blast
qed

definition xudp_item_ok :: "bytes \<times> address \<Rightarrow> bool" where
  "xudp_item_ok = (\<lambda>(data, addr). length data \<le> 65535 \<and> addr_ok addr)"

lemma encode_all_decode:
  assumes "list_all xudp_item_ok items"
  shows "\<exists>c' bs. encode_all c items = (c', Inr bs) \<and> length bs = length items
    \<and> decode_ready (Suc (length items)) c (concat bs) = (c', [], Inr items)"
  using assms
proof (induction items arbitrary: c)
  case Nil
  have "xudp_decode c [] = (c, [], Inr None)" by (simp add: xudp_decode_def)
  then show ?case by simp
next
  case (Cons x items)
  obtain data addr where x: "x = (data, addr)" by (cases x)
  then have ok: "addr_ok addr" "length data \<le> 65535" using Cons.prems by (auto simp: xudp_item_ok_def)
  obtain c1 b where e: "xudp_encode c (data, addr) = (c1, Inr b)"
    and d: "\<And>rest. xudp_decode c (b @ rest) = (c1, rest, Inr (Some (data, addr)))"
    by (rule decode_encode [OF ok, of c]) (rule that)
  from Cons.IH [of c1] Cons.prems obtain c' bs where "encode_all c1 items = (c', Inr bs)"
    "length bs = length items" "decode_ready (Suc (length items)) c1 (concat bs) = (c', [], Inr items)"
    by auto
  then show ?case
    by (simp add: x e d del: decode_ready.simps) (subst decode_ready.simps, simp add: d del: decode_ready.simps)
qed

text \<open>C22: XUDP packets round trip when every frame has arrived: for any sequence of packets of at most
  65535 bytes to addresses the format can carry, compact or not, the receiver whose codec started
  in the same state returns exactly these packets, in order, consumes the buffer and ends in the
  state of the sender.\<close>

theorem xudp_stream_roundtrip:
  assumes "list_all xudp_item_ok items"
  shows "\<exists>c' bs. encode_all c items = (c', Inr bs)
    \<and> decode_ready (Suc (length items)) c (concat bs) = (c', [], Inr items)"
  using encode_all_decode [OF assms] by blast

lemma xudp_stream_roundtrip_witness:
  "\<exists>c' bs. encode_all xudp_new [([1], SocketAddr (SockV4 1 53)), ([2], SocketAddr (SockV4 1 53))] = (c', Inr bs)
    \<and> decode_ready 3 xudp_new (concat bs) = (c', [], Inr [([1], SocketAddr (SockV4 1 53)), ([2], SocketAddr (SockV4 1 53))])"
  using xudp_stream_roundtrip [of "[([1], SocketAddr (SockV4 1 53)), ([2], SocketAddr (SockV4 1 53))]" xudp_new]
  by (simp add: xudp_item_ok_def addr_ok_def numeral_3_eq_3 del: encode_all.simps decode_ready.simps)

text \<open>The decoder is not safe for frames that arrive in pieces. When the buffer ends inside the
  payload it answers that it needs more, but it has already dropped the metadata. When the rest of
  the frame arrives it takes the payload length for a metadata length: every packet of less than
  four bytes is then a protocol error, although the frame as a whole is well formed.\<close>

theorem xudp_split_frame_breaks:
  assumes "addr_ok addr" and "length data < 4" and "0 < k" and "k \<le> length data"
    and "xudp_encode c (data, addr) = (c', Inr b)"
  shows "xudp_decode c b = (c', [], Inr (Some (data, addr)))
    \<and> (case xudp_decode c (take (length b - k) b) of
         (c1, src, r) \<Rightarrow> r = Inr None
           \<and> snd (snd (xudp_decode c1 (src @ drop (length b - k) b)))
              = Inl (IoError InvalidData ''invalid xudp metadata length''))"
proof -
  have d: "length data \<le> 65535" using assms(2) by simp
  obtain c2 ty body
    where e: "xudp_encode c (data, addr) = (c2, Inr (frame (put_u16 0 @ [ty, 1] @ body) data))"
      and l: "length (put_u16 0 @ [ty, 1] @ body) \<le> 65535" and t: "ty = 1 \<or> ty = 2"
      and f: "(c2, Inr addr) = (case body of
        [] \<Rightarrow> (c, ok_or (IoError InvalidData ''xudp compact packet missing prior address'') (last_addr c))
      | network # m \<Rightarrow>
          if network \<noteq> 2 then (c, Inl (IoError InvalidData ''unsupported xudp network type''))
          else (case read_address_buf m of
                  Inl e \<Rightarrow> (c, Inl e) | Inr (addr, _) \<Rightarrow> (c\<lparr> last_addr := Some addr \<rparr>, Inr addr)))"
    by (rule encode_frame [OF assms(1) d, of c]) (rule that)
  let ?meta = "put_u16 0 @ [ty, 1] @ body"
  have b: "b = frame ?meta data" and c2: "c2 = c'" using e assms(5) by auto
  define got where "got = take (length data - k) data"
  define pre where "pre = put_u16 (length ?meta) @ ?meta @ put_u16 (length data)"
  have "b = pre @ data" by (simp add: b frame_def pre_def)
  moreover from this have "length b - k = length pre + (length data - k)" using assms(4) by simp
  ultimately have cut: "take (length b - k) b = put_u16 (length ?meta) @ ?meta @ put_u16 (length data) @ got @ []"
    by (simp add: got_def pre_def [symmetric]) (simp add: pre_def)
  have "length got < length data" using assms(3,4) by (simp add: got_def)
  then have part: "xudp_decode c (take (length b - k) b) = (c', put_u16 (length data) @ got, Inr None)"
    unfolding cut using decode_frame [OF l refl t _ d f refl, of got "[]"] c2 by simp
  have "xudp_decode c b = (c', [], Inr (Some (data, addr)))"
    using decode_frame [OF l refl t _ d f refl, of data "[]"] c2 by (simp add: b frame_def)
  moreover have "snd (snd (xudp_decode c' ((put_u16 (length data) @ got) @ drop (length b - k) b)))
      = Inl (IoError InvalidData ''invalid xudp metadata length'')"
    unfolding xudp_decode_def append_assoc using assms(2) d by (simp add: Let_def)
  ultimately show ?thesis by (simp add: part)
qed

lemma xudp_split_frame_breaks_witness:
  "\<exists>c' b. xudp_encode xudp_new ([1, 2, 3], SocketAddr (SockV4 1 53)) = (c', Inr b)
     \<and> (case xudp_decode xudp_new (take (length b - 1) b) of (c1, src, r) \<Rightarrow> r = Inr None
         \<and> snd (snd (xudp_decode c1 (src @ drop (length b - 1) b))) = Inl (IoError InvalidData ''invalid xudp metadata length''))"
proof -
  have ok: "addr_ok (SocketAddr (SockV4 1 53))" by (simp add: addr_ok_def)
  obtain c' b where e: "xudp_encode xudp_new ([1, 2, 3], SocketAddr (SockV4 1 53)) = (c', Inr b)"
    using decode_encode [OF ok, of "[1, 2, 3]" xudp_new] by force
  from xudp_split_frame_breaks [OF ok _ _ _ e, of 1] e show ?thesis by simp
qed

end
