(* ===== verification/Poll_Stream.thy ===== *)
theory Poll_Stream
  imports Prelude
begin

section \<open>Wrapped byte streams\<close>

text \<open>
  The stream adapters of the protocols wrap another stream. The wrapped stream is given by the answers it
  will give: \<open>i_writes\<close> to successive \<open>poll_write\<close>s (a number of bytes, cut to the buffer as the
  \<open>AsyncWrite\<close> contract demands, an error, or pending) and \<open>i_reads\<close> to successive \<open>poll_read\<close>s (a chunk,
  of which at most the capacity is delivered and the rest kept; the empty chunk is the end of the stream).
  \<open>i_out\<close> are the bytes it has accepted. When its answers run out it is pending.
\<close>

record inner =
  i_out :: bytes
  i_writes :: "nat io poll list"
  i_reads :: "bytes io poll list"

definition inner_write :: "bytes \<Rightarrow> inner \<Rightarrow> inner \<times> nat io poll" where
  "inner_write buf i = (case i_writes i of
     [] \<Rightarrow> (i, Pending)
   | Pending # ws \<Rightarrow> (i\<lparr> i_writes := ws \<rparr>, Pending)
   | Ready (Inl e) # ws \<Rightarrow> (i\<lparr> i_writes := ws \<rparr>, Ready (Inl e))
   | Ready (Inr n) # ws \<Rightarrow>
       (i\<lparr> i_writes := ws, i_out := i_out i @ take n buf \<rparr>, Ready (Inr (min n (length buf)))))"

definition inner_read :: "nat \<Rightarrow> inner \<Rightarrow> inner \<times> bytes io poll" where
  "inner_read cap i = (case i_reads i of
     [] \<Rightarrow> (i, Pending)
   | Pending # rs \<Rightarrow> (i\<lparr> i_reads := rs \<rparr>, Pending)
   | Ready (Inl e) # rs \<Rightarrow> (i\<lparr> i_reads := rs \<rparr>, Ready (Inl e))
   | Ready (Inr c) # rs \<Rightarrow>
       (i\<lparr> i_reads := (if length c \<le> cap then rs else Ready (Inr (drop cap c)) # rs) \<rparr>, Ready (Inr (take cap c))))"

lemma inner_write_length: "i_writes i \<noteq> [] \<Longrightarrow> length (i_writes (fst (inner_write buf i))) < length (i_writes i)"
  by (auto simp: inner_write_def split: list.splits poll.splits sum.splits)

definition read_size :: "bytes io poll \<Rightarrow> nat" where
  "read_size r = (case r of Ready (Inr c) \<Rightarrow> Suc (length c) | _ \<Rightarrow> 1)"

definition reads_left :: "inner \<Rightarrow> nat" where
  "reads_left i = sum_list (map read_size (i_reads i))"

lemma inner_read_decreases:
  "inner_read cap i = (i', Ready (Inr c)) \<Longrightarrow> c \<noteq> [] \<Longrightarrow> reads_left i' < reads_left i"
  by (auto simp: inner_read_def reads_left_def read_size_def split: list.splits poll.splits sum.splits if_splits)

text \<open>The bytes the stream still has to give.\<close>

definition all_input :: "inner \<Rightarrow> bytes" where
  "all_input i = concat (map (\<lambda>r. case r of Ready (Inr c) \<Rightarrow> c | _ \<Rightarrow> []) (i_reads i))"

lemma inner_read_input:
  "inner_read cap i = (i', r) \<Longrightarrow> all_input i = (case r of Ready (Inr c) \<Rightarrow> c | _ \<Rightarrow> []) @ all_input i'"
  by (auto simp: inner_read_def all_input_def split: list.splits poll.splits sum.splits if_splits)

lemma inner_write_sent:
  "inner_write buf i = (i', r) \<Longrightarrow>
   i_out i' @ drop (case r of Ready (Inr n) \<Rightarrow> n | _ \<Rightarrow> 0) buf = i_out i @ buf"
  by (auto simp: inner_write_def min_def split: list.splits poll.splits sum.splits)

end
