(* ===== verification/Vless_Streams.thy ===== *)
theory Vless_Streams
  imports Vless_Header Poll_Stream
begin

section \<open>VLESS: stream adapters\<close>

text \<open>
  \<open>PrefixWriteStream\<close>, \<open>ResponseHeaderStream\<close> and \<open>VisionStream\<close> of \<open>protocol/vless/src/common.rs\<close>. The
  wrapped stream is an \<open>inner\<close> stream of \<open>Poll_Stream\<close>.
\<close>

subsection \<open>\<open>PrefixWriteStream\<close>\<close>

record prefix_stream =
  p_inner :: inner
  p_pending :: bytes
  p_payload_len :: nat
  p_prefix_sent :: bool

definition prefix_new :: "inner \<Rightarrow> bytes \<Rightarrow> prefix_stream" where
  "prefix_new i prefix = \<lparr> p_inner = i, p_pending = prefix, p_payload_len = 0, p_prefix_sent = False \<rparr>"

text \<open>The loop of \<open>poll_drain_pending\<close> makes at most one round: a partial write returns pending.\<close>

definition poll_drain_pending :: "prefix_stream \<Rightarrow> prefix_stream \<times> unit io poll" where
  "poll_drain_pending s =
     (if p_pending s = [] then (s\<lparr> p_prefix_sent := True \<rparr>, Ready (Inr ()))
      else (case inner_write (p_pending s) (p_inner s) of
          (i, Pending) \<Rightarrow> (s\<lparr> p_inner := i \<rparr>, Pending)
        | (i, Ready (Inl e)) \<Rightarrow> (s\<lparr> p_inner := i \<rparr>, Ready (Inl e))
        | (i, Ready (Inr n)) \<Rightarrow>
            let s = s\<lparr> p_inner := i, p_pending := drop n (p_pending s) \<rparr> in
            if p_pending s \<noteq> [] then (s, Pending) else (s\<lparr> p_prefix_sent := True \<rparr>, Ready (Inr ()))))"

definition prefix_poll_write :: "bytes \<Rightarrow> prefix_stream \<Rightarrow> prefix_stream \<times> nat io poll" where
  "prefix_poll_write buf s =
     (if \<not> p_prefix_sent s then
        let s = (if p_payload_len s = 0 \<and> buf \<noteq> []
                 then s\<lparr> p_pending := p_pending s @ buf, p_payload_len := length buf \<rparr> else s)
        in case poll_drain_pending s of
             (s, Ready (Inr _)) \<Rightarrow> (s\<lparr> p_payload_len := 0 \<rparr>, Ready (Inr (p_payload_len s)))
           | (s, Ready (Inl e)) \<Rightarrow> (s, Ready (Inl e))
           | (s, Pending) \<Rightarrow> (s, Pending)
      else (case inner_write buf (p_inner s) of (i, r) \<Rightarrow> (s\<lparr> p_inner := i \<rparr>, r)))"

definition drain_before :: "prefix_stream \<Rightarrow> prefix_stream \<times> unit io poll" where
  "drain_before s = (if p_pending s \<noteq> [] then poll_drain_pending s else (s, Ready (Inr ())))"

definition prefix_poll_read :: "nat \<Rightarrow> prefix_stream \<Rightarrow> prefix_stream \<times> bytes io poll" where
  "prefix_poll_read cap s = (case drain_before s of
     (s, Ready (Inr _)) \<Rightarrow> (case inner_read cap (p_inner s) of (i, r) \<Rightarrow> (s\<lparr> p_inner := i \<rparr>, r))
   | (s, Ready (Inl e)) \<Rightarrow> (s, Ready (Inl e))
   | (s, Pending) \<Rightarrow> (s, Pending))"

text \<open>\<open>fl\<close> is the answer of the wrapped stream to \<open>poll_flush\<close> (or \<open>poll_shutdown\<close>).\<close>

definition prefix_poll_flush :: "unit io poll \<Rightarrow> prefix_stream \<Rightarrow> prefix_stream \<times> unit io poll" where
  "prefix_poll_flush fl s = (case drain_before s of
     (s, Ready (Inr _)) \<Rightarrow> (s, fl)
   | (s, Ready (Inl e)) \<Rightarrow> (s, Ready (Inl e))
   | (s, Pending) \<Rightarrow> (s, Pending))"

definition prefix_poll_shutdown :: "unit io poll \<Rightarrow> prefix_stream \<Rightarrow> prefix_stream \<times> unit io poll" where
  "prefix_poll_shutdown sd s = prefix_poll_flush sd s"

subsection \<open>\<open>ResponseHeaderStream\<close>\<close>

record response_stream =
  h_inner :: inner
  h_header :: "bytes"
  h_skipped :: "nat option"
  h_skipped_read :: nat
  h_ready :: bool

text \<open>\<open>h_header\<close> are the header bytes read so far; \<open>h_skipped\<close> is the length of the skip buffer once it
  has been sized, of which only the length matters.\<close>

definition response_new :: "inner \<Rightarrow> response_stream" where
  "response_new i = \<lparr> h_inner = i, h_header = [], h_skipped = None, h_skipped_read = 0, h_ready = False \<rparr>"

function poll_ready_header :: "response_stream \<Rightarrow> response_stream \<times> unit io poll" where
  "poll_ready_header s =
     (if h_ready s then (s, Ready (Inr ()))
      else if length (h_header s) < 2 then
        (case inner_read (2 - length (h_header s)) (h_inner s) of
           (i, Ready (Inr c)) \<Rightarrow>
             if c = [] then (s\<lparr> h_inner := i \<rparr>, Ready (Inl early_eof))
             else poll_ready_header (s\<lparr> h_inner := i, h_header := h_header s @ c \<rparr>)
         | (i, Ready (Inl e)) \<Rightarrow> (s\<lparr> h_inner := i \<rparr>, Ready (Inl e))
         | (i, Pending) \<Rightarrow> (s\<lparr> h_inner := i \<rparr>, Pending))
      else if h_header s ! 0 \<noteq> VLESS_VERSION then
        (s, Ready (Inl (IoError InvalidData (''unexpected vless response version '' @ show_nat (unat (h_header s ! 0))))))
      else
        let s = (if h_skipped s = None \<and> h_header s ! 1 \<noteq> 0 then s\<lparr> h_skipped := Some (unat (h_header s ! 1)) \<rparr> else s) in
        (case h_skipped s of
           None \<Rightarrow> (s\<lparr> h_ready := True \<rparr>, Ready (Inr ()))
         | Some n \<Rightarrow>
             if h_skipped_read s < n then
               (case inner_read (n - h_skipped_read s) (h_inner s) of
                  (i, Ready (Inr c)) \<Rightarrow>
                    if c = [] then (s\<lparr> h_inner := i \<rparr>, Ready (Inl early_eof))
                    else poll_ready_header (s\<lparr> h_inner := i, h_skipped_read := h_skipped_read s + length c \<rparr>)
                | (i, Ready (Inl e)) \<Rightarrow> (s\<lparr> h_inner := i \<rparr>, Ready (Inl e))
                | (i, Pending) \<Rightarrow> (s\<lparr> h_inner := i \<rparr>, Pending))
             else (s\<lparr> h_ready := True \<rparr>, Ready (Inr ()))))"
  by pat_completeness auto
termination
  by (relation "measure (\<lambda>s. reads_left (h_inner s))")
    (auto dest: sym [THEN inner_read_decreases] simp: Let_def split: if_splits)

declare poll_ready_header.simps [simp del]

definition response_poll_read :: "nat \<Rightarrow> response_stream \<Rightarrow> response_stream \<times> bytes io poll" where
  "response_poll_read cap s = (case poll_ready_header s of
     (s, Ready (Inr _)) \<Rightarrow> (case inner_read cap (h_inner s) of (i, r) \<Rightarrow> (s\<lparr> h_inner := i \<rparr>, r))
   | (s, Ready (Inl e)) \<Rightarrow> (s, Ready (Inl e))
   | (s, Pending) \<Rightarrow> (s, Pending))"

definition response_poll_write :: "bytes \<Rightarrow> response_stream \<Rightarrow> response_stream \<times> nat io poll" where
  "response_poll_write buf s = (case inner_write buf (h_inner s) of (i, r) \<Rightarrow> (s\<lparr> h_inner := i \<rparr>, r))"

end
