(* ===== verification/Vless_Vision.thy ===== *)
theory Vless_Vision
  imports Vless_Streams
begin

unbundle bit_operations_syntax

section \<open>VLESS: the Vision stream\<close>

text \<open>
  \<open>VisionStream\<close> of \<open>protocol/vless/src/common.rs\<close>. The fields of the struct are grouped: \<open>vision_rd\<close>
  holds the decoder (with the flag shared with the TLS layer), \<open>vision_wr\<close> the encoder, and
  \<open>vision\<close> joins them with the wrapped stream and the user id.
\<close>

record vision_rd =
  v_read_buf :: bytes
  v_read_pending :: bytes
  v_expect_uuid :: bool
  v_remaining_header :: nat
  v_current_command :: byte
  v_remaining_content :: nat
  v_remaining_padding :: nat
  v_direct_mode :: bool
  v_shared_read_raw :: "bool option"

record vision_wr =
  w_wrote_uuid :: bool
  w_pending :: bytes
  w_payload_len :: nat

record vision =
  vs_inner :: inner
  vs_user_id :: bytes
  vs_rd :: vision_rd
  vs_wr :: vision_wr

definition vision_rd_new :: "bool option \<Rightarrow> vision_rd" where
  "vision_rd_new shared =
     \<lparr> v_read_buf = [], v_read_pending = [], v_expect_uuid = True, v_remaining_header = 0,
       v_current_command = 0, v_remaining_content = 0, v_remaining_padding = 0, v_direct_mode = False,
       v_shared_read_raw = shared \<rparr>"

definition vision_new :: "inner \<Rightarrow> bytes \<Rightarrow> bool option \<Rightarrow> vision" where
  "vision_new i user shared =
     \<lparr> vs_inner = i, vs_user_id = user, vs_rd = vision_rd_new shared,
       vs_wr = \<lparr> w_wrote_uuid = False, w_pending = [], w_payload_len = 0 \<rparr> \<rparr>"

subsection \<open>Writing\<close>

definition MAX_VISION_CONTENT :: nat where
  "MAX_VISION_CONTENT = 65535"

definition enqueue_write :: "bytes \<Rightarrow> bytes \<Rightarrow> vision_wr \<Rightarrow> vision_wr \<times> nat" where
  "enqueue_write user buf w =
     (let payload_len = min (length buf) MAX_VISION_CONTENT;
          w = (if \<not> w_wrote_uuid w then w\<lparr> w_pending := w_pending w @ user, w_wrote_uuid := True \<rparr> else w)
      in (w\<lparr> w_pending := w_pending w @ [0] @ u16_to_be (word_of_nat payload_len) @ u16_to_be 0 @ take payload_len buf,
             w_payload_len := payload_len \<rparr>, payload_len))"

definition vision_poll_write :: "bytes \<Rightarrow> vision \<Rightarrow> vision \<times> nat io poll" where
  "vision_poll_write buf s =
     (if w_pending (vs_wr s) \<noteq> [] then
        (case inner_write (w_pending (vs_wr s)) (vs_inner s) of
           (i, Pending) \<Rightarrow> (s\<lparr> vs_inner := i \<rparr>, Pending)
         | (i, Ready (Inl e)) \<Rightarrow> (s\<lparr> vs_inner := i \<rparr>, Ready (Inl e))
         | (i, Ready (Inr n)) \<Rightarrow>
             let w = (vs_wr s)\<lparr> w_pending := drop n (w_pending (vs_wr s)) \<rparr> in
             if w_pending w \<noteq> [] then (s\<lparr> vs_inner := i, vs_wr := w \<rparr>, Pending)
             else (s\<lparr> vs_inner := i, vs_wr := w\<lparr> w_payload_len := 0 \<rparr> \<rparr>, Ready (Inr (w_payload_len w))))
      else if buf = [] then (s, Ready (Inr 0))
      else
        (case enqueue_write (vs_user_id s) buf (vs_wr s) of (w, payload_len) \<Rightarrow>
         case inner_write (w_pending w) (vs_inner s) of
           (i, Pending) \<Rightarrow> (s\<lparr> vs_inner := i, vs_wr := w \<rparr>, Pending)
         | (i, Ready (Inl e)) \<Rightarrow> (s\<lparr> vs_inner := i, vs_wr := w \<rparr>, Ready (Inl e))
         | (i, Ready (Inr n)) \<Rightarrow>
             let w = w\<lparr> w_pending := drop n (w_pending w) \<rparr> in
             if w_pending w \<noteq> [] then (s\<lparr> vs_inner := i, vs_wr := w \<rparr>, Pending)
             else (s\<lparr> vs_inner := i, vs_wr := w\<lparr> w_payload_len := 0 \<rparr> \<rparr>, Ready (Inr payload_len))))"

function vision_drain :: "vision \<Rightarrow> vision \<times> unit io poll" where
  "vision_drain s =
     (if w_pending (vs_wr s) = [] then (s, Ready (Inr ()))
      else if i_writes (vs_inner s) = [] then (s, Pending)
      else (case inner_write (w_pending (vs_wr s)) (vs_inner s) of
           (i, Pending) \<Rightarrow> (s\<lparr> vs_inner := i \<rparr>, Pending)
         | (i, Ready (Inl e)) \<Rightarrow> (s\<lparr> vs_inner := i \<rparr>, Ready (Inl e))
         | (i, Ready (Inr n)) \<Rightarrow>
             vision_drain (s\<lparr> vs_inner := i, vs_wr := (vs_wr s)\<lparr> w_pending := drop n (w_pending (vs_wr s)) \<rparr> \<rparr>)))"
  by pat_completeness auto
termination
  by (relation "measure (\<lambda>s. length (i_writes (vs_inner s)))") (simp, metis fst_conv in_measure inner_write_length vision.select_convs(1) vision.surjective vision.update_convs(1,4))

text \<open>\<open>poll_flush\<close> and \<open>poll_shutdown\<close> drain and then ask the wrapped stream, which answers \<open>fl\<close>. A wrapped
  stream whose answers have run out is pending, which ends the loop.\<close>

definition vision_poll_flush :: "unit io poll \<Rightarrow> vision \<Rightarrow> vision \<times> unit io poll" where
  "vision_poll_flush fl s = (case vision_drain s of
     (s, Ready (Inr _)) \<Rightarrow> (s, fl)
   | (s, Ready (Inl e)) \<Rightarrow> (s, Ready (Inl e))
   | (s, Pending) \<Rightarrow> (s, Pending))"

definition vision_poll_shutdown :: "unit io poll \<Rightarrow> vision \<Rightarrow> vision \<times> unit io poll" where
  "vision_poll_shutdown sd s = vision_poll_flush sd s"

subsection \<open>Decoding\<close>

text \<open>The rounds of \<open>try_decode_frames\<close>: \<open>Inl s\<close> is a \<open>return\<close>, \<open>Inr s\<close> goes on.\<close>

definition take_all :: "vision_rd \<Rightarrow> vision_rd" where
  "take_all s = s\<lparr> v_read_pending := v_read_pending s @ v_read_buf s, v_read_buf := [] \<rparr>"

definition round_uuid :: "bytes \<Rightarrow> vision_rd \<Rightarrow> vision_rd + vision_rd" where
  "round_uuid user s =
     (if v_expect_uuid s then
        let prefix_len = min (length (v_read_buf s)) (length user) in
        if prefix_len > 0 \<and> take prefix_len (v_read_buf s) \<noteq> take prefix_len user
        then Inl (take_all (s\<lparr> v_direct_mode := True \<rparr>))
        else if length (v_read_buf s) < 21 then Inl s
        else Inr (s\<lparr> v_read_buf := drop 16 (v_read_buf s), v_expect_uuid := False, v_remaining_header := 5 \<rparr>)
      else Inr s)"

definition header_step :: "nat \<Rightarrow> vision_rd \<Rightarrow> vision_rd" where
  "header_step n s =
     (let b = hd (v_read_buf s);
          s = s\<lparr> v_read_buf := tl (v_read_buf s) \<rparr>;
          s = (if n = 5 then s\<lparr> v_current_command := b \<rparr>
               else if n = 4 then s\<lparr> v_remaining_content := push_bit 8 (unat b) \<rparr>
               else if n = 3 then s\<lparr> v_remaining_content := v_remaining_content s OR unat b \<rparr>
               else if n = 2 then s\<lparr> v_remaining_padding := push_bit 8 (unat b) \<rparr>
               else if n = 1 then s\<lparr> v_remaining_padding := v_remaining_padding s OR unat b \<rparr>
               else s)
      in s\<lparr> v_remaining_header := n - 1 \<rparr>)"

fun header_loop :: "nat \<Rightarrow> vision_rd \<Rightarrow> vision_rd" where
  "header_loop 0 s = s"
| "header_loop (Suc n) s = header_loop n (header_step (Suc n) s)"

definition round_header :: "vision_rd \<Rightarrow> vision_rd + vision_rd" where
  "round_header s =
     (if v_remaining_header s > 0 then
        if length (v_read_buf s) < v_remaining_header s then Inl s
        else Inr (header_loop (v_remaining_header s) s)
      else Inr s)"

definition round_body :: "vision_rd \<Rightarrow> vision_rd + vision_rd" where
  "round_body s =
     (let need = v_remaining_content s + v_remaining_padding s in
      if length (v_read_buf s) < need then Inl s
      else
        let s = s\<lparr> v_read_pending := v_read_pending s @ take (v_remaining_content s) (v_read_buf s),
                   v_read_buf := drop (v_remaining_content s) (v_read_buf s), v_remaining_content := 0 \<rparr>;
            s = s\<lparr> v_read_buf := drop (v_remaining_padding s) (v_read_buf s), v_remaining_padding := 0 \<rparr>
        in if v_current_command s = 0 then Inr (s\<lparr> v_remaining_header := 5 \<rparr>)
           else Inl (take_all (s\<lparr> v_direct_mode := True,
                  v_shared_read_raw := (if v_current_command s = 2 then map_option (\<lambda>_. True) (v_shared_read_raw s)
                                        else v_shared_read_raw s) \<rparr>)))"

definition vision_round :: "bytes \<Rightarrow> vision_rd \<Rightarrow> vision_rd + vision_rd" where
  "vision_round user s =
     (if v_direct_mode s then Inl (take_all s)
      else rbind (round_uuid user s) (\<lambda>s. rbind (round_header s) round_body))"

definition round_measure :: "vision_rd \<Rightarrow> nat" where
  "round_measure s = 2 * length (v_read_buf s) + (if v_remaining_header s = 0 then 1 else 0)"

lemma header_step_simps [simp]:
  "v_read_buf (header_step n s) = tl (v_read_buf s)"
  "v_remaining_header (header_step n s) = n - 1"
  "v_expect_uuid (header_step n s) = v_expect_uuid s"
  "v_direct_mode (header_step n s) = v_direct_mode s"
  "v_read_pending (header_step n s) = v_read_pending s"
  "v_shared_read_raw (header_step n s) = v_shared_read_raw s"
  by (simp_all add: header_step_def Let_def)

lemma header_loop_buf [simp]: "v_read_buf (header_loop n s) = drop n (v_read_buf s)"
  by (induction n arbitrary: s) (simp_all add: drop_Suc)

lemma round_uuid_measure:
  "round_uuid user s = Inr s' \<Longrightarrow> s' = s \<or> (length (v_read_buf s') < length (v_read_buf s) \<and> 0 < v_remaining_header s')"
  by (auto simp: round_uuid_def Let_def split: if_splits)

lemma vision_round_decreases: "vision_round user s = Inr s' \<Longrightarrow> round_measure s' < round_measure s"
proof -
  assume "vision_round user s = Inr s'"
  then obtain s1 s2 where u: "round_uuid user s = Inr s1" and h: "round_header s1 = Inr s2" and b: "round_body s2 = Inr s'"
    by (auto simp: vision_round_def rbind_eq_Inr split: if_splits)
  have b': "length (v_read_buf s') \<le> length (v_read_buf s2)" "v_remaining_header s' = 5"
    using b by (auto simp: round_body_def Let_def split: if_splits)
  have h': "if v_remaining_header s1 = 0 then s2 = s1 else length (v_read_buf s2) < length (v_read_buf s1)"
    using h by (auto simp: round_header_def split: if_splits)
  from round_uuid_measure [OF u] b' h' show ?thesis
    by (auto simp: round_measure_def split: if_splits)
qed

function try_decode_frames :: "bytes \<Rightarrow> vision_rd \<Rightarrow> vision_rd" where
  "try_decode_frames user s = (case vision_round user s of Inl s \<Rightarrow> s | Inr s \<Rightarrow> try_decode_frames user s)"
  by pat_completeness auto
termination
  by (relation "measure (\<lambda>(_, s). round_measure s)") (auto dest: sym [THEN vision_round_decreases] vision_round_decreases)

declare try_decode_frames.simps [simp del] vision_drain.simps [simp del]

subsection \<open>Reading\<close>

definition feed :: "vision_rd \<Rightarrow> bytes \<Rightarrow> vision_rd" where
  "feed s c = s\<lparr> v_read_buf := v_read_buf s @ c \<rparr>"

definition deliver :: "nat \<Rightarrow> vision_rd \<Rightarrow> vision_rd \<times> bytes" where
  "deliver cap s =
     (let n = min (length (v_read_pending s)) cap
      in (s\<lparr> v_read_pending := drop n (v_read_pending s) \<rparr>, take n (v_read_pending s)))"

text \<open>The loop of \<open>poll_read\<close>; a delivered empty slice is the end of the stream.\<close>

function vision_read_loop :: "nat \<Rightarrow> vision \<Rightarrow> vision \<times> bytes io poll" where
  "vision_read_loop cap s =
     (let r = try_decode_frames (vs_user_id s) (vs_rd s) in
      if v_read_pending r \<noteq> [] then
        (case deliver cap r of (r, out) \<Rightarrow> (s\<lparr> vs_rd := r \<rparr>, Ready (Inr out)))
      else (case inner_read 4096 (vs_inner s) of
          (i, Pending) \<Rightarrow> (s\<lparr> vs_rd := r, vs_inner := i \<rparr>, Pending)
        | (i, Ready (Inl e)) \<Rightarrow> (s\<lparr> vs_rd := r, vs_inner := i \<rparr>, Ready (Inl e))
        | (i, Ready (Inr c)) \<Rightarrow>
            if c = [] then (s\<lparr> vs_rd := r, vs_inner := i \<rparr>, Ready (Inr []))
            else vision_read_loop cap (s\<lparr> vs_rd := feed r c, vs_inner := i \<rparr>)))"
  by pat_completeness auto
termination
  by (relation "measure (\<lambda>(_, s). reads_left (vs_inner s))") (auto dest: sym [THEN inner_read_decreases])

declare vision_read_loop.simps [simp del]

definition vision_poll_read :: "nat \<Rightarrow> vision \<Rightarrow> vision \<times> bytes io poll" where
  "vision_poll_read cap s =
     (if v_read_pending (vs_rd s) \<noteq> [] then
        (case deliver cap (vs_rd s) of (r, out) \<Rightarrow> (s\<lparr> vs_rd := r \<rparr>, Ready (Inr out)))
      else if v_direct_mode (vs_rd s) then
        (case inner_read cap (vs_inner s) of (i, r) \<Rightarrow> (s\<lparr> vs_inner := i \<rparr>, r))
      else vision_read_loop cap s)"

subsection \<open>Decoding does not depend on the chunks\<close>

lemma feed_simps [simp]:
  "v_read_buf (feed s c) = v_read_buf s @ c"
  "v_read_pending (feed s c) = v_read_pending s"
  "v_expect_uuid (feed s c) = v_expect_uuid s"
  "v_remaining_header (feed s c) = v_remaining_header s"
  "v_current_command (feed s c) = v_current_command s"
  "v_remaining_content (feed s c) = v_remaining_content s"
  "v_remaining_padding (feed s c) = v_remaining_padding s"
  "v_direct_mode (feed s c) = v_direct_mode s"
  "v_shared_read_raw (feed s c) = v_shared_read_raw s"
  "feed (feed s c) d = feed s (c @ d)"
  "feed s [] = s"
  by (simp_all add: feed_def)

lemma header_step_feed: "v_read_buf s \<noteq> [] \<Longrightarrow> header_step n (feed s c) = feed (header_step n s) c"
  by (simp add: header_step_def Let_def feed_def)

lemma header_loop_feed:
  "n \<le> length (v_read_buf s) \<Longrightarrow> header_loop n (feed s c) = feed (header_loop n s) c"
proof (induction n arbitrary: s)
  case (Suc n)
  then have "v_read_buf s \<noteq> []" by auto
  with Suc show ?case by (simp add: header_step_feed)
qed simp

lemma round_uuid_feed: "round_uuid user s = Inr s' \<Longrightarrow> round_uuid user (feed s c) = Inr (feed s' c)"
  if "length user = 16"
  using that by (auto simp: round_uuid_def Let_def feed_def min_def split: if_splits)

lemma round_header_feed: "round_header s = Inr s' \<Longrightarrow> round_header (feed s c) = Inr (feed s' c)"
  by (auto simp: round_header_def header_loop_feed split: if_splits)

lemma round_body_feed: "round_body s = Inr s' \<Longrightarrow> round_body (feed s c) = Inr (feed s' c)"
  by (auto simp: round_body_def Let_def feed_def split: if_splits)

lemma vision_round_feed:
  "length user = 16 \<Longrightarrow> vision_round user s = Inr s' \<Longrightarrow> vision_round user (feed s c) = Inr (feed s' c)"
  by (auto simp: vision_round_def rbind_eq_Inr round_uuid_feed round_header_feed round_body_feed split: if_splits)

lemma decode_direct: "v_direct_mode s \<Longrightarrow> try_decode_frames user s = take_all s"
  by (subst try_decode_frames.simps) (simp add: vision_round_def)

lemma decode_cong: "vision_round user s = vision_round user s' \<Longrightarrow> try_decode_frames user s = try_decode_frames user s'"
  by (subst (1 2) try_decode_frames.simps) simp

lemma mismatch_stays:
  assumes "take (min (length bs) (length user)) bs \<noteq> take (min (length bs) (length user)) user"
  shows "take (min (length (bs @ c)) (length user)) (bs @ c) \<noteq> take (min (length (bs @ c)) (length user)) user"
proof
  let ?n = "min (length bs) (length user)" and ?m = "min (length (bs @ c)) (length user)"
  assume "take ?m (bs @ c) = take ?m user"
  then have "take ?n (take ?m (bs @ c)) = take ?n (take ?m user)" by simp
  moreover have "min ?n ?m = ?n" by simp
  ultimately show False using assms by (simp add: min_def split: if_splits)
qed

lemma round_uuid_stop:
  assumes "round_uuid user s = Inl s'" and "\<not> v_direct_mode s"
  shows "try_decode_frames user (feed s' c) = try_decode_frames user (feed s c)"
proof -
  consider "s' = s" | "s' = take_all (s\<lparr> v_direct_mode := True \<rparr>)" "v_expect_uuid s"
      "take (min (length (v_read_buf s)) (length user)) (v_read_buf s) \<noteq> take (min (length (v_read_buf s)) (length user)) user"
      "0 < min (length (v_read_buf s)) (length user)"
    using assms(1) by (auto simp: round_uuid_def Let_def split: if_splits)
  then show ?thesis
  proof cases
    case 2
    have "round_uuid user (feed s c) = Inl (take_all ((feed s c)\<lparr> v_direct_mode := True \<rparr>))"
      using 2 mismatch_stays [OF 2(3), of c] by (simp add: round_uuid_def Let_def)
    then have "try_decode_frames user (feed s c) = take_all ((feed s c)\<lparr> v_direct_mode := True \<rparr>)"
      using assms(2) by (subst try_decode_frames.simps) (simp add: vision_round_def)
    then show ?thesis
      using 2(1) by (simp add: decode_direct take_all_def feed_def)
  qed simp
qed

lemma header_loop_done: "v_remaining_header (header_loop n s) = (if n = 0 then v_remaining_header s else 0)"
  by (induction n arbitrary: s) simp_all

lemma header_loop_keeps [simp]:
  "v_expect_uuid (header_loop n s) = v_expect_uuid s"
  "v_direct_mode (header_loop n s) = v_direct_mode s"
  "v_read_pending (header_loop n s) = v_read_pending s"
  "v_shared_read_raw (header_loop n s) = v_shared_read_raw s"
  by (induction n arbitrary: s) simp_all

lemma decode_stop_feed:
  assumes "vision_round user s = Inl s'" and "length user = 16"
  shows "try_decode_frames user (feed s' c) = try_decode_frames user (feed s c)"
proof (cases "v_direct_mode s")
  case True
  then have "s' = take_all s" using assms(1) by (simp add: vision_round_def)
  with True show ?thesis by (simp add: decode_direct take_all_def feed_def)
next
  case False
  note nd = False
  show ?thesis
  proof (cases "round_uuid user s")
    case (Inl t)
    with assms(1) nd have "s' = t" by (simp add: vision_round_def)
    with round_uuid_stop [OF Inl nd] show ?thesis by simp
  next
    case (Inr s1)
    have s1: "\<not> v_direct_mode s1" "\<not> v_expect_uuid s1" "s1 = s \<or> 5 \<le> length (v_read_buf s1) \<and> v_remaining_header s1 = 5"
      using Inr nd by (auto simp: round_uuid_def Let_def split: if_splits)
    have same: "vision_round user (feed s c) = rbind (round_header (feed s1 c)) round_body"
      using round_uuid_feed [OF assms(2) Inr] nd by (simp add: vision_round_def)
    show ?thesis
    proof (cases "round_header s1")
      case (Inl t)
      then have "t = s1" "s1 = s" using s1(3) by (auto simp: round_header_def split: if_splits)
      with assms(1) nd Inr Inl have "s' = s" by (simp add: vision_round_def)
      then show ?thesis by simp
    next
      case (Inr s2)
      have s2: "\<not> v_direct_mode s2" "\<not> v_expect_uuid s2" "v_remaining_header s2 = 0"
        using Inr s1 by (auto simp: round_header_def header_loop_done split: if_splits)
      have body: "round_body s2 = Inl s'"
        using assms(1) nd \<open>round_uuid user s = Inr s1\<close> Inr by (simp add: vision_round_def)
      have r: "vision_round user (feed s c) = round_body (feed s2 c)"
        using same round_header_feed [OF Inr] by simp
      show ?thesis
      proof (cases "length (v_read_buf s2) < v_remaining_content s2 + v_remaining_padding s2")
        case True
        then have "s' = s2" using body by (simp add: round_body_def)
        then have "vision_round user (feed s' c) = round_body (feed s2 c)"
          using s2 by (simp add: vision_round_def round_uuid_def round_header_def)
        then show ?thesis using r by (intro decode_cong) simp
      next
        case False
        then have "round_body (feed s2 c) = Inl (take_all (feed s' c)) \<and> v_direct_mode s'"
          using body by (auto simp: round_body_def Let_def feed_def take_all_def split: if_splits)
        then show ?thesis
          using r by (subst (2) try_decode_frames.simps) (simp add: decode_direct)
      qed
    qed
  qed
qed

lemma decode_feed:
  "length user = 16 \<Longrightarrow>
   try_decode_frames user (feed (try_decode_frames user s) c) = try_decode_frames user (feed s c)"
proof (induction user s rule: try_decode_frames.induct)
  case (1 user s)
  show ?case
  proof (cases "vision_round user s")
    case (Inl s')
    then have "try_decode_frames user s = s'" by (subst try_decode_frames.simps) simp
    with decode_stop_feed [OF Inl "1.prems"] show ?thesis by simp
  next
    case (Inr s')
    then have "try_decode_frames user s = try_decode_frames user s'"
      by (subst try_decode_frames.simps) simp
    moreover have "try_decode_frames user (feed s c) = try_decode_frames user (feed s' c)"
      using vision_round_feed [OF "1.prems" Inr] by (subst try_decode_frames.simps) simp
    ultimately show ?thesis using "1.IH" [OF Inr "1.prems"] by simp
  qed
qed

lemma decode_chunks:
  assumes "length user = 16"
  shows "fold (\<lambda>c s. try_decode_frames user (feed s c)) cs (try_decode_frames user s)
    = try_decode_frames user (feed s (concat cs))"
proof (induction cs arbitrary: s)
  case (Cons c cs)
  show ?case
    using Cons.IH [of "feed s c"] by (simp add: decode_feed [OF assms])
qed simp

subsection \<open>What the reader delivers\<close>

definition prefixed :: "bytes \<Rightarrow> vision_rd \<Rightarrow> vision_rd" where
  "prefixed d s = s\<lparr> v_read_pending := d @ v_read_pending s \<rparr>"

lemma prefixed_simps [simp]:
  "v_read_buf (prefixed d s) = v_read_buf s"
  "v_read_pending (prefixed d s) = d @ v_read_pending s"
  "v_direct_mode (prefixed d s) = v_direct_mode s"
  "prefixed d (prefixed e s) = prefixed (d @ e) s"
  "prefixed [] s = s"
  "prefixed d (feed s c) = feed (prefixed d s) c"
  "take_all (prefixed d s) = prefixed d (take_all s)"
  by (simp_all add: prefixed_def feed_def take_all_def)

lemma header_step_prefixed [simp]: "header_step n (prefixed d s) = prefixed d (header_step n s)"
  by (simp add: header_step_def prefixed_def Let_def)

lemma header_loop_prefixed [simp]: "header_loop n (prefixed d s) = prefixed d (header_loop n s)"
  by (induction n arbitrary: s) simp_all

lemma round_prefixed:
  "round_uuid user (prefixed d s) = map_sum (prefixed d) (prefixed d) (round_uuid user s)"
  "round_header (prefixed d s) = map_sum (prefixed d) (prefixed d) (round_header s)"
  "round_body (prefixed d s) = map_sum (prefixed d) (prefixed d) (round_body s)"
  subgoal by (simp add: round_uuid_def Let_def prefixed_def take_all_def)
  subgoal by (simp add: round_header_def) (simp add: prefixed_def)
  subgoal by (simp add: round_body_def Let_def prefixed_def take_all_def)
  done

lemma vision_round_prefixed:
  "vision_round user (prefixed d s) = map_sum (prefixed d) (prefixed d) (vision_round user s)"
proof (cases "round_uuid user s")
  case (Inr s1)
  then show ?thesis by (cases "round_header s1") (simp_all add: vision_round_def round_prefixed)
qed (simp add: vision_round_def round_prefixed)

lemma decode_prefixed: "try_decode_frames user (prefixed d s) = prefixed d (try_decode_frames user s)"
proof (induction user s rule: try_decode_frames.induct)
  case (1 user s)
  show ?case
  proof (cases "vision_round user s")
    case (Inl s')
    then show ?thesis by (subst (1 2) try_decode_frames.simps) (simp add: vision_round_prefixed)
  next
    case (Inr s')
    from "1.IH" [OF this] show ?thesis
      by (subst (1 2) try_decode_frames.simps) (simp add: Inr vision_round_prefixed)
  qed
qed

text \<open>The plaintext of a wire stream.\<close>

definition vision_plain :: "bytes \<Rightarrow> bytes \<Rightarrow> bytes" where
  "vision_plain user wire = v_read_pending (try_decode_frames user (feed (vision_rd_new None) wire))"

fun vision_reads :: "nat list \<Rightarrow> vision \<Rightarrow> vision \<times> bytes" where
  "vision_reads [] s = (s, [])"
| "vision_reads (cap # caps) s = (case vision_poll_read cap s of (s, r) \<Rightarrow>
     case vision_reads caps s of (s, out) \<Rightarrow> (s, (case r of Ready (Inr c) \<Rightarrow> c | _ \<Rightarrow> []) @ out))"

text \<open>The state of the reader determines the final plaintext: what it has delivered, what it holds
  and what the wrapped stream will give.\<close>

definition reader_total :: "bytes \<Rightarrow> vision \<Rightarrow> vision_rd" where
  "reader_total d s =
     try_decode_frames (vs_user_id s) (feed (prefixed d (vs_rd s)) (all_input (vs_inner s)))"

definition reader_ok :: "vision \<Rightarrow> bool" where
  "reader_ok s \<longleftrightarrow> length (vs_user_id s) = 16 \<and> (v_direct_mode (vs_rd s) \<longrightarrow> v_read_buf (vs_rd s) = [])"

lemma decode_direct_empty: "v_direct_mode (try_decode_frames user s) \<Longrightarrow> v_read_buf (try_decode_frames user s) = []"
proof (induction user s rule: try_decode_frames.induct)
  case (1 user s)
  show ?case
  proof (cases "vision_round user s")
    case (Inr s')
    with "1.IH" [OF this] "1.prems" show ?thesis by (simp add: try_decode_frames.simps [of user s])
  next
    case (Inl s')
    have "v_direct_mode s' \<longrightarrow> v_read_buf s' = []"
      using Inl unfolding vision_round_def
      by (auto simp: round_uuid_def round_header_def round_body_def rbind_def take_all_def Let_def
          split: if_splits sum.splits)
    with Inl "1.prems" show ?thesis by (simp add: try_decode_frames.simps [of user s])
  qed
qed

lemma deliver_total:
  assumes "deliver cap r = (r', out)"
  shows "prefixed (d @ out) r' = prefixed d r" "v_direct_mode r' = v_direct_mode r" "v_read_buf r' = v_read_buf r"
  using assms by (auto simp: deliver_def prefixed_def Let_def)

definition got :: "bytes io poll \<Rightarrow> bytes" where
  "got r = (case r of Ready (Inr c) \<Rightarrow> c | _ \<Rightarrow> [])"

lemma decode_settle:
  "length user = 16 \<Longrightarrow>
   try_decode_frames user (feed (prefixed d (try_decode_frames user r)) c) = try_decode_frames user (feed (prefixed d r) c)"
  by (simp only: decode_prefixed [symmetric] decode_feed)

lemma read_loop_total:
  "length (vs_user_id s) = 16 \<Longrightarrow>
   (case vision_read_loop cap s of (s', r) \<Rightarrow>
      reader_ok s' \<and> vs_user_id s' = vs_user_id s \<and> reader_total (d @ got r) s' = reader_total d s)"
proof (induction cap s arbitrary: d rule: vision_read_loop.induct)
  case (1 cap s)
  define r where "r = try_decode_frames (vs_user_id s) (vs_rd s)"
  have dir: "v_direct_mode r \<longrightarrow> v_read_buf r = []" by (simp add: r_def decode_direct_empty)
  have settle: "reader_total d (s\<lparr> vs_rd := r \<rparr>) = reader_total d s" for d
    using decode_settle [OF "1.prems"] by (simp add: reader_total_def r_def)
  show ?case
  proof (cases "v_read_pending r = []")
    case False
    obtain r' out where del: "deliver cap r = (r', out)" by (cases "deliver cap r")
    have "vision_read_loop cap s = (s\<lparr> vs_rd := r' \<rparr>, Ready (Inr out))"
      using False del by (subst vision_read_loop.simps) (simp add: r_def [symmetric])
    then show ?thesis
      using settle [of d] deliver_total(1) [OF del, where d = d] deliver_total(2,3) [OF del] dir "1.prems"
      by (simp add: reader_ok_def got_def reader_total_def)
  next
    case True
    note empty = True
    obtain i q where q: "inner_read 4096 (vs_inner s) = (i, q)" by (cases "inner_read 4096 (vs_inner s)")
    have inp: "all_input (vs_inner s) = got q @ all_input i"
      using inner_read_input [OF q] by (simp add: got_def)
    consider (p) "q = Pending" | (e) e where "q = Ready (Inl e)" | (eof) "q = Ready (Inr [])"
      | (c) c where "q = Ready (Inr c)" "c \<noteq> []"
      by (cases q) (metis old.sum.exhaust)+
    then show ?thesis
    proof cases
      case c
      let ?s = "s\<lparr> vs_rd := feed r c, vs_inner := i \<rparr>"
      have step: "vision_read_loop cap s = vision_read_loop cap ?s"
        using empty q c by (subst vision_read_loop.simps) (simp add: r_def [symmetric])
      have "reader_total d ?s = reader_total d (s\<lparr> vs_rd := r \<rparr>)"
        using inp c by (simp add: reader_total_def got_def)
      moreover have "case vision_read_loop cap ?s of (s', r) \<Rightarrow>
          reader_ok s' \<and> vs_user_id s' = vs_user_id ?s \<and> reader_total (d @ got r) s' = reader_total d ?s"
        by (rule "1.IH" [OF r_def _ q [symmetric] c(1) refl c(2)])
          (use empty "1.prems" in simp_all)
      ultimately show ?thesis using settle [of d] step by simp
    qed (use empty q inp settle [of d] dir "1.prems" in
        \<open>subst vision_read_loop.simps, simp add: r_def [symmetric] reader_ok_def got_def reader_total_def\<close>)+
  qed
qed

lemma poll_read_total:
  assumes "reader_ok s"
  shows "case vision_poll_read cap s of (s', r) \<Rightarrow>
      reader_ok s' \<and> vs_user_id s' = vs_user_id s \<and> reader_total (d @ got r) s' = reader_total d s"
proof -
  consider (pend) "v_read_pending (vs_rd s) \<noteq> []" | (direct) "v_read_pending (vs_rd s) = []" "v_direct_mode (vs_rd s)"
    | (loop) "v_read_pending (vs_rd s) = []" "\<not> v_direct_mode (vs_rd s)" by blast
  then show ?thesis
  proof cases
    case pend
    obtain r' out where del: "deliver cap (vs_rd s) = (r', out)" by (cases "deliver cap (vs_rd s)")
    then show ?thesis
      using pend assms deliver_total(1) [OF del, where d = d] deliver_total(2,3) [OF del]
      by (simp add: vision_poll_read_def reader_ok_def got_def reader_total_def)
  next
    case direct
    obtain i q where q: "inner_read cap (vs_inner s) = (i, q)" by (cases "inner_read cap (vs_inner s)")
    have inp: "all_input (vs_inner s) = got q @ all_input i"
      using inner_read_input [OF q] by (simp add: got_def)
    have buf: "v_read_buf (vs_rd s) = []" using direct assms by (simp add: reader_ok_def)
    have "reader_total (d @ got q) (s\<lparr> vs_inner := i \<rparr>) = reader_total d s"
      using direct buf by (simp add: reader_total_def decode_direct inp take_all_def feed_def prefixed_def)
    then show ?thesis
      using direct q assms by (simp add: vision_poll_read_def reader_ok_def)
  next
    case loop
    then show ?thesis
      using read_loop_total [where s = s and cap = cap and d = d] assms by (simp add: vision_poll_read_def reader_ok_def)
  qed
qed

lemma reads_total:
  "reader_ok s \<Longrightarrow> case vision_reads caps s of (s', out) \<Rightarrow>
     reader_ok s' \<and> vs_user_id s' = vs_user_id s \<and> reader_total (d @ out) s' = reader_total d s"
proof (induction caps arbitrary: s d)
  case (Cons cap caps)
  obtain s1 r where s1: "vision_poll_read cap s = (s1, r)" by (cases "vision_poll_read cap s")
  with poll_read_total [OF Cons.prems, where cap = cap and d = d]
  have "reader_ok s1" "vs_user_id s1 = vs_user_id s" "reader_total (d @ got r) s1 = reader_total d s" by simp_all
  with Cons.IH [of s1 "d @ got r"] s1 show ?case
    by (simp add: case_prod_beta got_def [symmetric])
qed simp

lemma decode_extends: "\<exists>x. v_read_pending (try_decode_frames user s) = v_read_pending s @ x"
proof -
  have "s = prefixed (v_read_pending s) (s\<lparr> v_read_pending := [] \<rparr>)" by (simp add: prefixed_def)
  then show ?thesis by (metis decode_prefixed prefixed_simps(2))
qed

subsection \<open>Frames\<close>

definition vision_frame :: "bytes \<Rightarrow> bytes" where
  "vision_frame p = [0] @ u16_to_be (word_of_nat (length p)) @ u16_to_be 0 @ p"

lemma or_bytes: "push_bit 8 (unat (a :: byte)) OR unat (b :: byte) = from_be [a, b]"
proof -
  have "unat b OR push_bit 8 (unat a) = unat b + unat a * 2 ^ 8"
    by (rule nat_or_push_bit) simp
  then show ?thesis by (simp add: or.commute from_be_Cons)
qed

lemma two_bytes: obtains a b where "u16_to_be w = [a, b]" and "push_bit 8 (unat a) OR unat b = unat w"
proof -
  obtain a b where ab: "u16_to_be w = [a, b]" using list2_of_length [of "u16_to_be w"] by auto
  then have "unat w = from_be [a, b]"
    using unat_u16_from_be [of "[a, b]"] u16_from_to_be [of w] by simp
  with ab show ?thesis using that or_bytes [of a b] by simp
qed

definition awaiting :: "vision_rd \<Rightarrow> bool" where
  "awaiting s \<longleftrightarrow> \<not> v_direct_mode s \<and> \<not> v_expect_uuid s \<and> v_remaining_header s = 5"

lemma header_loop_five:
  assumes "v_read_buf s = c # a # b # e # f # rest"
  shows "header_loop 5 s = s\<lparr> v_read_buf := rest, v_remaining_header := 0, v_current_command := c,
    v_remaining_content := push_bit 8 (unat a) OR unat b, v_remaining_padding := push_bit 8 (unat e) OR unat f \<rparr>"
proof -
  have five: "(5 :: nat) = Suc (Suc (Suc (Suc (Suc 0))))" by simp
  show ?thesis unfolding five header_loop.simps by (simp add: header_step_def Let_def assms)
qed

lemma decode_frame_step:
  assumes "awaiting s" and "v_read_buf s = vision_frame p @ rest" and "length p \<le> 65535"
  obtains s' where "try_decode_frames user s = try_decode_frames user s'" and "awaiting s'"
    and "v_read_buf s' = rest" and "v_read_pending s' = v_read_pending s @ p"
proof -
  define n where "n = (word_of_nat (length p) :: u16)"
  have n: "unat n = length p" using assms(3) by (simp add: n_def unat_of_nat)
  obtain a b where ab: "u16_to_be n = [a, b]" "push_bit 8 (unat a) OR unat b = unat n" by (rule two_bytes)
  obtain e f where ef: "u16_to_be 0 = [e, f]" "push_bit 8 (unat e) OR unat f = unat (0 :: u16)" by (rule two_bytes)
  have buf: "v_read_buf s = 0 # a # b # e # f # p @ rest"
    using assms(2) ab(1) ef(1) by (simp add: vision_frame_def n_def [symmetric])
  let ?s1 = "s\<lparr> v_read_buf := p @ rest, v_remaining_header := 0, v_current_command := 0,
    v_remaining_content := length p, v_remaining_padding := 0 \<rparr>"
  have h: "round_header s = Inr ?s1"
    using assms(1) header_loop_five [OF buf] ab(2) ef(2) n
    by (simp add: round_header_def awaiting_def buf)
  define s' where "s' = s\<lparr> v_read_buf := rest, v_remaining_header := 5, v_current_command := 0,
    v_remaining_content := 0, v_remaining_padding := 0, v_read_pending := v_read_pending s @ p \<rparr>"
  have "vision_round user s = Inr s'"
    using assms(1) h by (simp add: vision_round_def round_uuid_def awaiting_def round_body_def Let_def s'_def)
  then have "try_decode_frames user s = try_decode_frames user s'"
    by (subst try_decode_frames.simps) simp
  with assms(1) show ?thesis by (intro that [of s']) (simp_all add: s'_def awaiting_def)
qed

lemma decode_frames:
  assumes "awaiting s" and "v_read_buf s = concat (map vision_frame ps)" and "list_all (\<lambda>p. length p \<le> 65535) ps"
  shows "v_read_pending (try_decode_frames user s) = v_read_pending s @ concat ps
    \<and> v_read_buf (try_decode_frames user s) = []"
  using assms
proof (induction ps arbitrary: s)
  case Nil
  then show ?case
    by (subst (1 2) try_decode_frames.simps) (simp add: vision_round_def round_uuid_def round_header_def awaiting_def)
next
  case (Cons p ps)
  obtain s' where "try_decode_frames user s = try_decode_frames user s'" "awaiting s'"
    "v_read_buf s' = concat (map vision_frame ps)" "v_read_pending s' = v_read_pending s @ p"
    by (rule decode_frame_step [of s p "concat (map vision_frame ps)" user])
      (use Cons.prems in simp_all)
  with Cons.IH [of s'] Cons.prems show ?case by simp
qed

lemma length_vision_frame: "length (vision_frame p) = 5 + length p"
  by (simp add: vision_frame_def)

lemma vision_plain_frames:
  assumes "length user = 16" and "ps \<noteq> []" and "list_all (\<lambda>p. length p \<le> 65535) ps"
  shows "vision_plain user (user @ concat (map vision_frame ps)) = concat ps"
proof -
  obtain p qs where ps: "ps = p # qs" using assms(2) by (cases ps) auto
  let ?s = "feed (vision_rd_new None) (user @ concat (map vision_frame ps))"
  let ?s1 = "(vision_rd_new None)\<lparr> v_read_buf := concat (map vision_frame ps), v_expect_uuid := False, v_remaining_header := 5 \<rparr>"
  have u: "round_uuid user ?s = Inr ?s1"
    using assms(1) by (simp add: round_uuid_def vision_rd_new_def feed_def Let_def ps length_vision_frame)
  have "vision_round user ?s = vision_round user ?s1"
    using u by (simp add: vision_round_def round_uuid_def vision_rd_new_def feed_def)
  then have "try_decode_frames user ?s = try_decode_frames user ?s1" by (rule decode_cong)
  moreover have "v_read_pending (try_decode_frames user ?s1) = v_read_pending ?s1 @ concat ps"
    using decode_frames [of ?s1 ps user] assms(3) by (simp add: awaiting_def vision_rd_new_def)
  ultimately show ?thesis by (simp add: vision_plain_def vision_rd_new_def)
qed

subsection \<open>The wire format\<close>

text \<open>What the wire bytes mean: a user id, then frames of a command, two lengths, content and padding; after
  a frame whose command is not to continue, the rest is plain. Bytes that do not start with the user id are
  plain altogether.\<close>

function frames_plain :: "bytes \<Rightarrow> bytes" where
  "frames_plain bs =
     (if length bs < 5 then []
      else let n = from_be [bs ! 1, bs ! 2]; m = from_be [bs ! 3, bs ! 4]; rest = drop 5 bs in
        if length rest < n + m then []
        else take n rest @ (if hd bs = 0 then frames_plain (drop (n + m) rest) else drop (n + m) rest))"
  by pat_completeness auto
termination
  by (relation "measure length") (auto simp del: length_drop, auto)

declare frames_plain.simps [simp del]

definition wire_plain :: "bytes \<Rightarrow> bytes \<Rightarrow> bytes" where
  "wire_plain user bs =
     (if bs \<noteq> [] \<and> take (min (length bs) 16) bs \<noteq> take (min (length bs) 16) user then bs
      else if length bs < 21 then [] else frames_plain (drop 16 bs))"

lemma list5_of_length:
  assumes "5 \<le> length bs"
  obtains c a b e f rest where "bs = c # a # b # e # f # rest"
  using assms by (auto simp: Suc_le_length_iff eval_nat_numeral)

lemma decode_plain:
  assumes "awaiting s"
  shows "v_read_pending (try_decode_frames user s) = v_read_pending s @ frames_plain (v_read_buf s)"
  using assms
proof (induction "v_read_buf s" arbitrary: s rule: frames_plain.induct)
  case 1
  have run: "try_decode_frames user s = (case rbind (round_header s) round_body of Inl s \<Rightarrow> s | Inr s \<Rightarrow> try_decode_frames user s)"
    using "1.prems" by (subst try_decode_frames.simps) (simp add: vision_round_def round_uuid_def awaiting_def)
  show ?case
  proof (cases "length (v_read_buf s) < 5")
    case True
    with "1.prems" show ?thesis
      by (simp add: run round_header_def awaiting_def frames_plain.simps [of "v_read_buf s"])
  next
    case False
    then have "5 \<le> length (v_read_buf s)" by simp
    then obtain c a b e f rest where buf: "v_read_buf s = c # a # b # e # f # rest" by (rule list5_of_length)
    let ?n = "from_be [a, b]" and ?m = "from_be [e, f]"
    have spec: "frames_plain (v_read_buf s) = (if length rest < ?n + ?m then []
        else take ?n rest @ (if c = 0 then frames_plain (drop (?n + ?m) rest) else drop (?n + ?m) rest))"
      by (subst frames_plain.simps) (simp add: buf Let_def eval_nat_numeral)
    have h: "round_header s = Inr (s\<lparr> v_read_buf := rest, v_remaining_header := 0, v_current_command := c,
        v_remaining_content := ?n, v_remaining_padding := ?m \<rparr>)"
      using "1.prems" header_loop_five [OF buf] by (simp add: round_header_def awaiting_def buf or_bytes)
    define s' where "s' = s\<lparr> v_read_buf := drop (?n + ?m) rest, v_remaining_header := 5, v_current_command := 0,
        v_remaining_content := 0, v_remaining_padding := 0, v_read_pending := v_read_pending s @ take ?n rest \<rparr>"
    have aw: "awaiting s'" using "1.prems" by (simp add: s'_def awaiting_def)
    have IH: "v_read_pending (try_decode_frames user s') = v_read_pending s' @ frames_plain (v_read_buf s')"
      if "\<not> length rest < ?n + ?m" "c = 0"
      by (rule "1.hyps" [OF False refl refl refl _ _ _ aw]) (use that in \<open>simp_all add: buf s'_def eval_nat_numeral\<close>)
    consider "length rest < ?n + ?m" | "\<not> length rest < ?n + ?m" "c = 0" | "\<not> length rest < ?n + ?m" "c \<noteq> 0" by blast
    then show ?thesis
    proof cases
      case 1
      then show ?thesis by (simp add: run h round_body_def spec Let_def)
    next
      case 2
      then have "rbind (round_header s) round_body = Inr s'" by (simp add: h round_body_def Let_def s'_def ac_simps)
      with 2 IH show ?thesis by (simp add: run spec) (simp add: s'_def)
    next
      case 3
      then show ?thesis by (simp add: run h round_body_def spec Let_def take_all_def ac_simps)
    qed
  qed
qed

lemma vision_plain_wire:
  assumes "length user = 16"
  shows "vision_plain user bs = wire_plain user bs"
proof -
  let ?s = "feed (vision_rd_new None) bs"
  let ?s1 = "(vision_rd_new None)\<lparr> v_read_buf := drop 16 bs, v_expect_uuid := False, v_remaining_header := 5 \<rparr>"
  have stop: "try_decode_frames user ?s = s'" if "round_uuid user ?s = Inl s'" for s'
    using that by (subst try_decode_frames.simps) (simp add: vision_round_def vision_rd_new_def)
  consider (plain) "bs \<noteq> []" "take (min (length bs) 16) bs \<noteq> take (min (length bs) 16) user"
    | (short) "bs = [] \<or> take (min (length bs) 16) bs = take (min (length bs) 16) user" "length bs < 21"
    | (frames) "take (min (length bs) 16) bs = take (min (length bs) 16) user" "\<not> length bs < 21" by fastforce
  then show ?thesis
  proof cases
    case plain
    then have "round_uuid user ?s = Inl (take_all (?s\<lparr> v_direct_mode := True \<rparr>))" using assms
      by (simp add: round_uuid_def vision_rd_new_def Let_def)
    from stop [OF this] plain show ?thesis by (simp add: vision_plain_def wire_plain_def take_all_def vision_rd_new_def)
  next
    case short
    then have "round_uuid user ?s = Inl ?s" using assms by (auto simp: round_uuid_def vision_rd_new_def Let_def)
    from stop [OF this] short show ?thesis by (auto simp: vision_plain_def wire_plain_def vision_rd_new_def)
  next
    case frames
    have "vision_round user ?s = vision_round user ?s1"
      using frames assms by (simp add: vision_round_def round_uuid_def vision_rd_new_def feed_def Let_def)
    then have "try_decode_frames user ?s = try_decode_frames user ?s1" by (rule decode_cong)
    with decode_plain [of ?s1 user] frames show ?thesis
      by (auto simp: vision_plain_def awaiting_def vision_rd_new_def wire_plain_def)
  qed
qed

subsection \<open>Reading makes progress\<close>

text \<open>A poll with room for a byte hands out bytes, or uses up an answer of the wrapped stream, or there is nothing left
  to hand out.\<close>

definition read_progress :: "vision \<Rightarrow> vision \<times> bytes io poll \<Rightarrow> bool" where
  "read_progress s p \<longleftrightarrow>
     length (i_reads (vs_inner (fst p))) \<le> length (i_reads (vs_inner s))
   \<and> (got (snd p) \<noteq> [] \<or> length (i_reads (vs_inner (fst p))) < length (i_reads (vs_inner s))
      \<or> i_reads (vs_inner s) = [] \<and> v_read_pending (try_decode_frames (vs_user_id s) (vs_rd s)) = [])"

lemma inner_read_uses:
  assumes "inner_read cap i = (i', q)" and "0 < cap"
  shows "length (i_reads i') \<le> length (i_reads i)"
    and "i_reads i = [] \<and> q = Pending \<or> got q \<noteq> [] \<or> length (i_reads i') < length (i_reads i)"
  using assms by (auto simp: inner_read_def got_def split: list.splits poll.splits sum.splits if_splits)

lemma deliver_some: "0 < cap \<Longrightarrow> v_read_pending r \<noteq> [] \<Longrightarrow> deliver cap r = (r', out) \<Longrightarrow> out \<noteq> []"
  by (cases "v_read_pending r"; cases cap) (auto simp: deliver_def Let_def)

lemma read_loop_progress: "0 < cap \<Longrightarrow> read_progress s (vision_read_loop cap s)"
proof (induction cap s rule: vision_read_loop.induct)
  case (1 cap s)
  define r where "r = try_decode_frames (vs_user_id s) (vs_rd s)"
  show ?case
  proof (cases "v_read_pending r = []")
    case False
    obtain r' out where del: "deliver cap r = (r', out)" by (cases "deliver cap r")
    then have "vision_read_loop cap s = (s\<lparr> vs_rd := r' \<rparr>, Ready (Inr out))"
      using False by (subst vision_read_loop.simps) (simp add: r_def [symmetric])
    with deliver_some [OF "1.prems" False del] show ?thesis by (simp add: read_progress_def got_def)
  next
    case True
    obtain i q where q: "inner_read 4096 (vs_inner s) = (i, q)" by (cases "inner_read 4096 (vs_inner s)")
    have less: "length (i_reads i) \<le> length (i_reads (vs_inner s))"
      and uses: "i_reads (vs_inner s) = [] \<and> q = Pending \<or> got q \<noteq> [] \<or> length (i_reads i) < length (i_reads (vs_inner s))"
      using inner_read_uses [OF q] by simp_all
    show ?thesis
    proof (cases "got q = []")
      case False
      then obtain c where c: "q = Ready (Inr c)" "c \<noteq> []" by (auto simp: got_def split: poll.splits sum.splits)
      let ?s = "s\<lparr> vs_rd := feed r c, vs_inner := i \<rparr>"
      have step: "vision_read_loop cap s = vision_read_loop cap ?s"
        using True q c by (subst vision_read_loop.simps) (simp add: r_def [symmetric])
      have "read_progress ?s (vision_read_loop cap ?s)"
        by (rule "1.IH" [OF r_def _ q [symmetric] c(1) refl c(2) "1.prems"]) (use True in simp)
      then have "read_progress ?s (vision_read_loop cap s)" by (simp add: step)
      moreover have "0 < length (i_reads (vs_inner s))"
        using q c by (auto simp: inner_read_def split: list.splits)
      ultimately show ?thesis
        using less by (auto simp: read_progress_def)
    next
      case empty: True
      then have "vision_read_loop cap s = (s\<lparr> vs_rd := r, vs_inner := i \<rparr>, q)"
        using True q by (subst vision_read_loop.simps) (auto simp: r_def [symmetric] got_def split: poll.splits sum.splits)
      with empty uses less True show ?thesis by (auto simp: read_progress_def r_def)
    qed
  qed
qed

lemma poll_read_progress: "reader_ok s \<Longrightarrow> 0 < cap \<Longrightarrow> read_progress s (vision_poll_read cap s)"
proof -
  assume ok: "reader_ok s" and cap: "0 < cap"
  consider (pend) "v_read_pending (vs_rd s) \<noteq> []" | (direct) "v_read_pending (vs_rd s) = []" "v_direct_mode (vs_rd s)"
    | (loop) "v_read_pending (vs_rd s) = []" "\<not> v_direct_mode (vs_rd s)" by blast
  then show ?thesis
  proof cases
    case pend
    obtain r' out where del: "deliver cap (vs_rd s) = (r', out)" by (cases "deliver cap (vs_rd s)")
    with pend deliver_some [OF cap pend del] show ?thesis by (simp add: vision_poll_read_def read_progress_def got_def)
  next
    case direct
    obtain i q where q: "inner_read cap (vs_inner s) = (i, q)" by (cases "inner_read cap (vs_inner s)")
    with inner_read_uses [OF q cap] direct ok show ?thesis
      by (auto simp: vision_poll_read_def read_progress_def reader_ok_def decode_direct take_all_def)
  next
    case loop
    with read_loop_progress [OF cap] show ?thesis by (simp add: vision_poll_read_def)
  qed
qed

text \<open>Enough polls, each with room for a byte, hand out all of the plaintext.\<close>

lemma reads_complete:
  assumes "reader_ok s" and "list_all (\<lambda>cap. 0 < cap) caps"
    and "length (v_read_pending (reader_total [] s)) + length (i_reads (vs_inner s)) \<le> length caps"
  shows "snd (vision_reads caps s) = v_read_pending (reader_total [] s)"
  using assms
proof (induction caps arbitrary: s)
  case (Cons cap caps)
  obtain s1 r where s1: "vision_poll_read cap s = (s1, r)" by (cases "vision_poll_read cap s")
  with poll_read_total [OF Cons.prems(1), where cap = cap and d = "[]"]
  have ok: "reader_ok s1" "reader_total (got r) s1 = reader_total [] s" by simp_all
  have pre: "reader_total d s' = prefixed d (reader_total [] s')" for d s'
    by (simp add: reader_total_def decode_prefixed flip: prefixed_simps(6))
  have T: "v_read_pending (reader_total [] s) = got r @ v_read_pending (reader_total [] s1)"
    using pre [of "got r" s1] ok(2) by (metis prefixed_simps(2))
  have out: "snd (vision_reads (cap # caps) s) = got r @ snd (vision_reads caps s1)"
    by (simp add: s1 case_prod_beta got_def)
  have "read_progress s (s1, r)" using poll_read_progress [OF Cons.prems(1), of cap] Cons.prems(2) s1 by simp
  then consider (some) "got r \<noteq> []" "length (i_reads (vs_inner s1)) \<le> length (i_reads (vs_inner s))"
    | (used) "length (i_reads (vs_inner s1)) < length (i_reads (vs_inner s))"
    | (nothing) "i_reads (vs_inner s) = []" "v_read_pending (try_decode_frames (vs_user_id s) (vs_rd s)) = []"
    by (auto simp: read_progress_def)
  then show ?case
  proof cases
    case some
    then have "0 < length (got r)" by simp
    then have "length (v_read_pending (reader_total [] s1)) + length (i_reads (vs_inner s1)) \<le> length caps"
      using some(2) Cons.prems(3) unfolding T length_append length_Cons by linarith
    with Cons.IH [OF ok(1)] Cons.prems(2) out T show ?thesis by simp
  next
    case used
    then have "length (v_read_pending (reader_total [] s1)) + length (i_reads (vs_inner s1)) \<le> length caps"
      using Cons.prems(3) T by simp
    with Cons.IH [OF ok(1)] Cons.prems(2) out T show ?thesis by simp
  next
    case nothing
    then have none: "v_read_pending (reader_total [] s) = []" by (simp add: reader_total_def all_input_def)
    obtain s' o' where f: "vision_reads (cap # caps) s = (s', o')" by (cases "vision_reads (cap # caps) s")
    with reads_total [OF Cons.prems(1), where caps = "cap # caps" and d = "[]"]
    have "reader_total o' s' = reader_total [] s" by (simp del: vision_reads.simps)
    with pre [of o' s'] none have "o' = []" by (metis append_is_Nil_conv prefixed_simps(2))
    with f none show ?thesis by simp
  qed
qed simp

lemma reader_start:
  assumes "length user = 16"
  shows "reader_ok (vision_new i user None)"
    and "v_read_pending (reader_total [] (vision_new i user None)) = wire_plain user (all_input i)"
  using assms
  by (simp_all add: reader_ok_def vision_new_def vision_rd_new_def reader_total_def flip: vision_plain_wire [OF assms])
    (simp add: vision_plain_def vision_rd_new_def)

text \<open>A reader that is given the wire bytes in any chunks delivers their plaintext.\<close>

lemma vision_reader_delivers:
  assumes "length user = 16" and "list_all (\<lambda>cap. 0 < cap) caps"
    and "length (wire_plain user (all_input i)) + length (i_reads i) \<le> length caps"
  shows "snd (vision_reads caps (vision_new i user None)) = wire_plain user (all_input i)"
  using reads_complete [OF reader_start(1) [OF assms(1)] assms(2)] assms(3)
  by (simp add: reader_start(2) [OF assms(1)]) (simp add: vision_new_def)

text \<open>C3: Reading a Vision stream. However the wrapped stream cuts the wire bytes into chunks, with
  pending answers and errors in between, and whatever buffer sizes the caller uses, what the
  \<open>poll_read\<close>s deliver is always a prefix of one and the same plaintext, that which
  the format gives the whole wire stream; once the wire is used up, what was delivered and what the reader still holds is
  exactly that plaintext; and a caller whose buffers have room has received all of it after as many polls as there are bytes of
  plaintext and answers of the wrapped stream.\<close>

theorem vision_read_correct:
  assumes "length user = 16"
  shows "case vision_reads caps (vision_new i user None) of (s, out) \<Rightarrow>
     take (length out) (wire_plain user (all_input i)) = out
     \<and> (if all_input (vs_inner s) = []
        then out @ v_read_pending (try_decode_frames user (vs_rd s)) = wire_plain user (all_input i) else True)
     \<and> (if list_all (\<lambda>cap. 0 < cap) caps \<and> length (wire_plain user (all_input i)) + length (i_reads i) \<le> length caps
        then out = wire_plain user (all_input i) else True)"
proof -
  let ?s0 = "vision_new i user None"
  obtain s out where s: "vision_reads caps ?s0 = (s, out)" by (cases "vision_reads caps ?s0")
  from reads_total [OF reader_start(1) [OF assms, of i], where caps = caps and d = "[]"] s
  have u: "vs_user_id s = user" and t: "reader_total out s = reader_total [] ?s0"
    by (simp_all add: vision_new_def)
  have tot: "reader_total out s = prefixed out (try_decode_frames user (feed (vs_rd s) (all_input (vs_inner s))))"
    by (simp add: reader_total_def u decode_prefixed flip: prefixed_simps(6))
  then have p: "wire_plain user (all_input i) =
      out @ v_read_pending (try_decode_frames user (feed (vs_rd s) (all_input (vs_inner s))))"
    using t reader_start(2) [OF assms, of i] by (metis prefixed_simps(2))
  have "out = wire_plain user (all_input i)"
    if "list_all (\<lambda>cap. 0 < cap) caps" "length (wire_plain user (all_input i)) + length (i_reads i) \<le> length caps"
    using vision_reader_delivers [OF assms that] s by simp
  with p show ?thesis by (simp add: s)
qed

definition frame_wire :: inner where
  "frame_wire = \<lparr> i_out = [], i_writes = [], i_reads = [Ready (Inr (replicate 16 7 @ [0, 0])), Ready (Inr [1, 0, 2, 9, 4, 4])] \<rparr>"

lemma vision_read_correct_witness:
  "snd (vision_reads [10, 10, 10] (vision_new frame_wire (replicate 16 7) None)) = [9]"
proof -
  have "length (replicate 16 (7 :: byte)) = 16" by simp
  moreover have "wire_plain (replicate 16 7) (all_input frame_wire) = [9]"
    by (simp add: wire_plain_def frames_plain.simps all_input_def frame_wire_def from_be_Cons Let_def)
  moreover have "length (i_reads frame_wire) = 2" by (simp add: frame_wire_def)
  ultimately show ?thesis
    using vision_read_correct [of "replicate 16 7", where caps = "[10, 10, 10]" and i = frame_wire]
    by (simp add: case_prod_beta del: vision_reads.simps)
qed

subsection \<open>What the writer sends\<close>

text \<open>A caller that polls the same write until it is ready, as \<open>write_all\<close> does; \<open>fuel\<close> is the number
  of polls.\<close>

fun write_until :: "nat \<Rightarrow> bytes \<Rightarrow> vision \<Rightarrow> vision \<times> nat io poll" where
  "write_until 0 buf s = (s, Pending)"
| "write_until (Suc n) buf s = (case vision_poll_write buf s of
     (s, Pending) \<Rightarrow> write_until n buf s
   | (s, Ready r) \<Rightarrow> (s, Ready r))"

fun write_bufs :: "nat \<Rightarrow> bytes list \<Rightarrow> vision \<Rightarrow> vision option" where
  "write_bufs n [] s = Some s"
| "write_bufs n (b # bs) s = (case write_until n b s of
     (s, Ready (Inr k)) \<Rightarrow> if k = length b then write_bufs n bs s else None
   | _ \<Rightarrow> None)"

definition sent :: "vision \<Rightarrow> bytes" where
  "sent s = i_out (vs_inner s) @ w_pending (vs_wr s)"

lemma write_until_midway:
  "w_pending (vs_wr s) \<noteq> [] \<Longrightarrow> write_until n buf s = (s', Ready (Inr k)) \<Longrightarrow>
   k = w_payload_len (vs_wr s) \<and> sent s' = sent s \<and> w_pending (vs_wr s') = []
   \<and> w_wrote_uuid (vs_wr s') = w_wrote_uuid (vs_wr s) \<and> vs_user_id s' = vs_user_id s"
proof (induction n arbitrary: s)
  case (Suc n)
  obtain i r where ir: "inner_write (w_pending (vs_wr s)) (vs_inner s) = (i, r)"
    by (cases "inner_write (w_pending (vs_wr s)) (vs_inner s)")
  note o = inner_write_sent [OF ir]
  consider (p) "r = Pending" | (e) e where "r = Ready (Inl e)"
    | (part) m where "r = Ready (Inr m)" "drop m (w_pending (vs_wr s)) \<noteq> []"
    | (all) m where "r = Ready (Inr m)" "drop m (w_pending (vs_wr s)) = []"
    by (cases r) (metis old.sum.exhaust)+
  then show ?case
  proof cases
    case p
    then show ?thesis
      using Suc.prems ir o Suc.IH [of "s\<lparr> vs_inner := i \<rparr>"] by (auto simp: vision_poll_write_def sent_def)
  next
    case e
    then show ?thesis using Suc.prems ir by (simp add: vision_poll_write_def)
  next
    case part
    then show ?thesis
      using Suc.prems ir o Suc.IH [of "s\<lparr> vs_inner := i, vs_wr := (vs_wr s)\<lparr> w_pending := drop m (w_pending (vs_wr s)) \<rparr> \<rparr>"]
      by (auto simp: vision_poll_write_def sent_def Let_def)
  next
    case all
    then show ?thesis
      using Suc.prems ir o by (auto simp: vision_poll_write_def sent_def Let_def)
  qed
qed simp

lemma write_until_start:
  assumes "w_pending (vs_wr s) = []" and "buf \<noteq> []" and "write_until n buf s = (s', Ready (Inr k))"
    and "length buf \<le> 65535"
  shows "k = length buf \<and> w_pending (vs_wr s') = [] \<and> w_wrote_uuid (vs_wr s') \<and> vs_user_id s' = vs_user_id s
    \<and> i_out (vs_inner s') = i_out (vs_inner s) @ (if w_wrote_uuid (vs_wr s) then [] else vs_user_id s) @ vision_frame buf"
proof -
  obtain m where n: "n = Suc m" using assms(3) by (cases n) auto
  define w where "w = fst (enqueue_write (vs_user_id s) buf (vs_wr s))"
  define F where "F = (if w_wrote_uuid (vs_wr s) then [] else vs_user_id s) @ vision_frame buf"
  have w: "enqueue_write (vs_user_id s) buf (vs_wr s) = (w, length buf)" "w_payload_len w = length buf"
      "w_wrote_uuid w" "w_pending w = F"
    using assms(1,4)
    by (simp_all add: w_def F_def enqueue_write_def Let_def vision_frame_def MAX_VISION_CONTENT_def min_def)
  have ne: "F \<noteq> []" by (simp add: F_def vision_frame_def)
  obtain i r where ir: "inner_write (w_pending w) (vs_inner s) = (i, r)"
    by (cases "inner_write (w_pending w) (vs_inner s)")
  note o = inner_write_sent [OF ir]
  consider (p) "r = Pending" | (e) e where "r = Ready (Inl e)"
    | (part) j where "r = Ready (Inr j)" "drop j (w_pending w) \<noteq> []"
    | (all) j where "r = Ready (Inr j)" "drop j (w_pending w) = []"
    by (cases r) (metis old.sum.exhaust)+
  then have "k = length buf \<and> w_pending (vs_wr s') = [] \<and> w_wrote_uuid (vs_wr s') \<and> vs_user_id s' = vs_user_id s
    \<and> i_out (vs_inner s') = i_out (vs_inner s) @ F"
  proof cases
    case p
    then show ?thesis
      using assms w ir o n ne write_until_midway [of "s\<lparr> vs_inner := i, vs_wr := w \<rparr>" m buf s' k]
      by (auto simp: vision_poll_write_def sent_def)
  next
    case e
    then show ?thesis using assms w ir n by (simp add: vision_poll_write_def)
  next
    case part
    then show ?thesis
      using assms w ir o n write_until_midway [of "s\<lparr> vs_inner := i, vs_wr := w\<lparr> w_pending := drop j (w_pending w) \<rparr> \<rparr>" m buf s' k]
      by (auto simp: vision_poll_write_def sent_def Let_def)
  next
    case all
    then show ?thesis
      using assms w ir o n by (auto simp: vision_poll_write_def Let_def)
  qed
  then show ?thesis by (simp add: F_def)
qed

lemma write_bufs_out:
  "write_bufs n bs s = Some s' \<Longrightarrow> w_pending (vs_wr s) = [] \<Longrightarrow> list_all (\<lambda>b. b \<noteq> [] \<and> length b \<le> 65535) bs \<Longrightarrow>
   i_out (vs_inner s') = i_out (vs_inner s)
     @ (if w_wrote_uuid (vs_wr s) \<or> bs = [] then [] else vs_user_id s) @ concat (map vision_frame bs)"
proof (induction bs arbitrary: s)
  case (Cons b bs)
  then obtain s1 where w: "write_until n b s = (s1, Ready (Inr (length b)))" and r: "write_bufs n bs s1 = Some s'"
    by (auto split: prod.splits poll.splits sum.splits if_splits)
  from write_until_start [OF Cons.prems(2) _ w] Cons.prems(3) Cons.IH [OF r]
  show ?case by simp
qed simp

text \<open>C18: Vision end to end. Whatever the wrapped stream of the writer does with partial writes and
  pending answers, when every buffer has been accepted the wire carries the user id once and one
  frame per buffer; and a \<open>VisionStream\<close> at the receiver, whose wrapped stream gives it these bytes in any chunks, has delivered exactly
  the concatenation of the buffers after enough polls with room.\<close>

theorem vision_end_to_end:
  assumes "length user = 16" and "bufs \<noteq> []" and "list_all (\<lambda>b. b \<noteq> [] \<and> length b \<le> 65535) bufs"
    and "write_bufs fuel bufs (vision_new i user shared) = Some s" and "i_out i = []"
    and "all_input j = i_out (vs_inner s)" and "list_all (\<lambda>cap. 0 < cap) caps"
    and "length (concat bufs) + length (i_reads j) \<le> length caps"
  shows "i_out (vs_inner s) = user @ concat (map vision_frame bufs)
    \<and> snd (vision_reads caps (vision_new j user None)) = concat bufs"
proof -
  have wire: "i_out (vs_inner s) = user @ concat (map vision_frame bufs)"
    using write_bufs_out [OF assms(4) _ assms(3)] assms(2,5) by (simp add: vision_new_def)
  have "list_all (\<lambda>p. length p \<le> 65535) bufs" using assms(3) by (simp add: list_all_iff)
  then have "wire_plain user (all_input j) = concat bufs"
    using vision_plain_frames [OF assms(1,2)] vision_plain_wire [OF assms(1)] wire assms(6) by simp
  with vision_reader_delivers [OF assms(1,7), of j] assms(8) wire show ?thesis by simp
qed

definition demo_inner :: inner where
  "demo_inner = \<lparr> i_out = [], i_writes = [Ready (Inr 3), Ready (Inr 99), Ready (Inr 99)], i_reads = [] \<rparr>"

definition demo_user :: bytes where
  "demo_user = replicate 16 7"

lemma demo_first_poll:
  "vision_poll_write [1, 2] (vision_new demo_inner demo_user None) =
     ((vision_new demo_inner demo_user None)\<lparr>
        vs_inner := \<lparr> i_out = take 3 (demo_user @ vision_frame [1, 2]), i_writes = [Ready (Inr 99), Ready (Inr 99)], i_reads = [] \<rparr>,
        vs_wr := \<lparr> w_wrote_uuid = True, w_pending = drop 3 (demo_user @ vision_frame [1, 2]), w_payload_len = 2 \<rparr> \<rparr>, Pending)"
  by (simp add: vision_poll_write_def vision_new_def demo_inner_def enqueue_write_def inner_write_def
      MAX_VISION_CONTENT_def vision_frame_def demo_user_def Let_def)

lemma vision_end_to_end_witness:
  "\<exists>s. write_bufs 2 [[1, 2]] (vision_new demo_inner demo_user None) = Some s
     \<and> snd (vision_reads [1, 8, 8] (vision_new \<lparr> i_out = [], i_writes = [], i_reads = [Ready (Inr (i_out (vs_inner s)))] \<rparr> demo_user None)) = [1, 2]"
proof -
  have u: "length demo_user = 16" by (simp add: demo_user_def)
  obtain s where s: "write_bufs 2 [[1, 2]] (vision_new demo_inner demo_user None) = Some s"
    using u by (auto simp: numeral_2_eq_2 demo_first_poll)
      (simp add: vision_poll_write_def inner_write_def vision_new_def vision_frame_def Let_def)
  let ?j = "\<lparr> i_out = [], i_writes = [], i_reads = [Ready (Inr (i_out (vs_inner s)))] \<rparr>"
  have "snd (vision_reads [1, 8, 8] (vision_new ?j demo_user None)) = concat [[1, 2]]"
    by (rule vision_end_to_end [OF u _ _ s, THEN conjunct2]) (simp_all add: demo_inner_def all_input_def)
  with s show ?thesis by (intro exI [of _ s]) (simp del: write_bufs.simps vision_reads.simps)
qed

text \<open>A flush between two polls of the same write duplicates the data: the first poll accepts the
  buffer and stays pending on a partial write, the flush sends the rest of the frame, and the
  repeated poll, which by the contract of \<open>AsyncWrite\<close> still has to send the buffer, encodes it
  again. One acknowledged write of two bytes reaches the receiver as four.\<close>

theorem vision_flush_duplicates:
  "case vision_poll_write [1, 2] (vision_new demo_inner demo_user None) of
     (s1, r1) \<Rightarrow> (case vision_poll_flush (Ready (Inr ())) s1 of
       (s2, r2) \<Rightarrow> (case vision_poll_write [1, 2] s2 of
         (s3, r3) \<Rightarrow> r1 = Pending \<and> r2 = Ready (Inr ()) \<and> r3 = Ready (Inr 2)
           \<and> i_out (vs_inner s3) = demo_user @ vision_frame [1, 2] @ vision_frame [1, 2]))"
proof -
  define F where "F = demo_user @ vision_frame [1, 2]"
  have len: "length F = 23" by (simp add: F_def demo_user_def length_vision_frame)
  let ?s1 = "fst (vision_poll_write [1, 2] (vision_new demo_inner demo_user None))"
  have f: "vision_poll_flush (Ready (Inr ())) ?s1 =
      ((vision_new demo_inner demo_user None)\<lparr>
        vs_inner := \<lparr> i_out = F, i_writes = [Ready (Inr 99)], i_reads = [] \<rparr>,
        vs_wr := \<lparr> w_wrote_uuid = True, w_pending = [], w_payload_len = 2 \<rparr> \<rparr>, Ready (Inr ()))"
    unfolding demo_first_poll fst_conv F_def [symmetric] using len
    by (simp add: vision_poll_flush_def vision_drain.simps inner_write_def vision_new_def)
  show ?thesis
    using f by (simp add: demo_first_poll) (simp add: F_def vision_poll_write_def enqueue_write_def inner_write_def
        MAX_VISION_CONTENT_def vision_new_def Let_def vision_frame_def)
qed

end
