(* ===== verification/Json.thy ===== *)
theory Json
  imports Errors Hash_Map
begin

section \<open>JSON values\<close>

text \<open>
  The values of \<open>serde_json::Value\<close> that the sources build, inspect and store. An object is the list of
  its members, one per key; \<open>as_str\<close>, \<open>as_object\<close> and the index assignment \<open>v["k"] = w\<close> are the
  accessors the sources call. Parsing and printing JSON text and converting typed values are code of
  the \<open>serde\<close> crates and stay arguments of the definitions that use them.
\<close>

datatype json = JNull | JBool bool | JNum int | JStr string | JArr "json list" | JObj "(string \<times> json) list"

fun as_str :: "json \<Rightarrow> string option" where
  "as_str (JStr s) = Some s"
| "as_str _ = None"

fun as_object :: "json \<Rightarrow> (string \<times> json) list option" where
  "as_object (JObj m) = Some m"
| "as_object _ = None"

text \<open>\<open>v["k"] = w\<close> inserts into an object, turns \<open>null\<close> into an object and panics otherwise.\<close>

fun index_set :: "string \<Rightarrow> json \<Rightarrow> json \<Rightarrow> json may_panic" where
  "index_set k w (JObj m) = Inr (JObj (hm_insert k w m))"
| "index_set k w JNull = Inr (JObj [(k, w)])"
| "index_set k w _ = Inl (Panic ''cannot access key in JSON value'')"

fun jopt_str :: "string option \<Rightarrow> json" where
  "jopt_str None = JNull"
| "jopt_str (Some s) = JStr s"

fun json_get :: "json \<Rightarrow> string \<Rightarrow> json option" where
  "json_get (JObj m) k = hm_get m k"
| "json_get _ k = None"

lemma index_set_get: "index_set k w v = Inr v' \<Longrightarrow> json_get v' j = (if j = k then Some w else json_get v j)"
  by (cases v) (auto simp: hm_get_def [of "[(k, w)]"])

end
