(* ===== verification/Config_Values.thy ===== *)
theory Config_Values
  imports Compact_Vec_String Json
begin

section \<open>Configuration values\<close>

text \<open>
  \<open>rd-interface/src/config.rs\<close>, \<open>config/resolvable.rs\<close>, \<open>config/single_or_vec.rs\<close>, the derive macro
  \<open>rd-derive/src/lib.rs\<close> and \<open>resolve_net\<close> of \<open>rd-interface/src/registry.rs\<close>. A configuration is
  visited field by field; the visitor context records the path of field names, and the visitor
  replaces every reference to a net by a resolved one. The theorems say that a visit leaves the path
  as it found it and that after \<open>resolve_net\<close> no reference is left without a value, so that the
  accessors that panic on a missing value never do.
\<close>

record ('r, 'v) resolvable =
  represent :: 'r
  res_value :: "'v option"

definition res_new :: "'r \<Rightarrow> ('r, 'v) resolvable" where
  "res_new r = \<lparr> represent = r, res_value = None \<rparr>"

definition res_new_with_value :: "'r \<Rightarrow> 'v \<Rightarrow> ('r, 'v) resolvable" where
  "res_new_with_value r v = \<lparr> represent = r, res_value = Some v \<rparr>"

definition set_value :: "'v \<Rightarrow> ('r, 'v) resolvable \<Rightarrow> ('r, 'v) resolvable" where
  "set_value v r = r\<lparr> res_value := Some v \<rparr>"

definition value_cloned :: "('r, 'v) resolvable \<Rightarrow> 'v may_panic" where
  "value_cloned r = ok_or (Panic ''value not set'') (res_value r)"

definition res_deref :: "('r, 'v) resolvable \<Rightarrow> 'v may_panic" where
  "res_deref r = ok_or (Panic ''Resolvable must be resolved before Deref'') (res_value r)"

type_synonym 'n net_ref = "(json, 'n) resolvable"

definition net_ref_default :: "'n net_ref" where
  "net_ref_default = res_new (JStr ''local'')"

subsection \<open>Fields that are left out\<close>

text \<open>The thread-local list of the field kinds a serialization includes; \<open>serialize_with_fields\<close> runs
  its argument with another list and puts the old one back.\<close>

datatype config_field = CommonField | DetailField | SensitiveField

definition ALL_SERIALIZE_FIELDS :: "config_field list" where
  "ALL_SERIALIZE_FIELDS = [CommonField, DetailField, SensitiveField]"

definition detailed_field :: "config_field list \<Rightarrow> bool" where
  "detailed_field fs \<longleftrightarrow> DetailField \<notin> set fs"

definition sensitive_field :: "config_field list \<Rightarrow> bool" where
  "sensitive_field fs \<longleftrightarrow> SensitiveField \<notin> set fs"

definition serialize_with_fields ::
  "config_field list \<Rightarrow> (config_field list \<Rightarrow> 'a \<times> config_field list) \<Rightarrow> config_field list \<Rightarrow> 'a \<times> config_field list" where
  "serialize_with_fields fs f old_fields = (let (ret, _) = f fs in (ret, old_fields))"

subsection \<open>One value or a vector\<close>

datatype 'a single_or_vec = Single 'a | Vec "'a list"

fun sov_into_vec :: "'a single_or_vec \<Rightarrow> 'a list" where
  "sov_into_vec (Single t) = [t]"
| "sov_into_vec (Vec v) = v"

text \<open>The iterator yields \<open>Single\<close>'s value once and a vector's elements in order.\<close>

fun sov_iter :: "'a single_or_vec \<Rightarrow> 'a list" where
  "sov_iter (Single t) = [t]"
| "sov_iter (Vec v) = v"

fun sov_extend :: "'a single_or_vec \<Rightarrow> 'a list \<Rightarrow> 'a single_or_vec" where
  "sov_extend (Single i) xs = Vec (i # xs)"
| "sov_extend (Vec v) xs = Vec (v @ xs)"

lemma sov_iter_extend [simp]: "sov_iter (sov_extend s xs) = sov_iter s @ xs"
  by (cases s) simp_all

lemma sov_into_vec_iter: "sov_into_vec s = sov_iter s"
  by (cases s) simp_all

subsection \<open>Visiting a configuration\<close>

text \<open>
  The shapes the \<open>Config\<close> trait is implemented for: values without references (strings, numbers,
  addresses, JSON values and pairs, \<open>impl_empty_config\<close>), references to nets, indexed containers
  (\<open>Vec\<close>, \<open>Option\<close>, \<open>VecDeque\<close>, \<open>Result\<close>, \<open>LinkedList\<close>), keyed ones (\<open>HashMap\<close>, \<open>BTreeMap\<close>), what
  the derive macro generates for a struct or an enum variant (a tuple variant names its fields
  \<open>i0\<close>, \<open>i1\<close>, ...), and \<open>SingleOrVec\<close>, which adds nothing to the path.
\<close>

datatype 'n config_val =
    CfgEmpty
  | CfgNetRef "'n net_ref"
  | CfgSeq "'n config_val list"
  | CfgFields "(string \<times> 'n config_val) list"
  | CfgSingleOrVec "'n config_val list"

definition ctx_push :: "cvs \<Rightarrow> string \<Rightarrow> cvs" where
  "ctx_push path field = cvs_push path field"

definition ctx_pop :: "cvs \<Rightarrow> cvs" where
  "ctx_pop path = cvs_pop path"

text \<open>The visitor may change the reference, and a state of its own; an error ends the visit.\<close>

type_synonym ('n, 's, 'e) visitor = "'n net_ref \<Rightarrow> cvs \<Rightarrow> 's \<Rightarrow> 'e + ('n net_ref \<times> 's)"

fun visit :: "('n, 's, 'e) visitor \<Rightarrow> 'n config_val \<Rightarrow> cvs \<Rightarrow> 's \<Rightarrow> 'e + ('n config_val \<times> cvs \<times> 's)"
and visit_seq :: "('n, 's, 'e) visitor \<Rightarrow> nat \<Rightarrow> 'n config_val list \<Rightarrow> cvs \<Rightarrow> 's \<Rightarrow> 'e + ('n config_val list \<times> cvs \<times> 's)"
and visit_fields :: "('n, 's, 'e) visitor \<Rightarrow> (string \<times> 'n config_val) list \<Rightarrow> cvs \<Rightarrow> 's
    \<Rightarrow> 'e + ((string \<times> 'n config_val) list \<times> cvs \<times> 's)"
and visit_each :: "('n, 's, 'e) visitor \<Rightarrow> 'n config_val list \<Rightarrow> cvs \<Rightarrow> 's \<Rightarrow> 'e + ('n config_val list \<times> cvs \<times> 's)"
where
  "visit f CfgEmpty p s = Inr (CfgEmpty, p, s)"
| "visit f (CfgNetRef r) p s = rbind (f r p s) (\<lambda>(r', s'). Inr (CfgNetRef r', p, s'))"
| "visit f (CfgSeq cs) p s = rbind (visit_seq f 0 cs p s) (\<lambda>(cs', p', s'). Inr (CfgSeq cs', p', s'))"
| "visit f (CfgFields fs) p s = rbind (visit_fields f fs p s) (\<lambda>(fs', p', s'). Inr (CfgFields fs', p', s'))"
| "visit f (CfgSingleOrVec cs) p s = rbind (visit_each f cs p s) (\<lambda>(cs', p', s'). Inr (CfgSingleOrVec cs', p', s'))"
| "visit_seq f i [] p s = Inr ([], p, s)"
| "visit_seq f i (c # cs) p s =
     rbind (visit f c (ctx_push p (show_nat i)) s) (\<lambda>(c', p', s').
     rbind (visit_seq f (Suc i) cs (ctx_pop p') s') (\<lambda>(cs', p'', s'').
     Inr (c' # cs', p'', s'')))"
| "visit_fields f [] p s = Inr ([], p, s)"
| "visit_fields f ((k, c) # fs) p s =
     rbind (visit f c (ctx_push p k) s) (\<lambda>(c', p', s').
     rbind (visit_fields f fs (ctx_pop p') s') (\<lambda>(fs', p'', s'').
     Inr ((k, c') # fs', p'', s'')))"
| "visit_each f [] p s = Inr ([], p, s)"
| "visit_each f (c # cs) p s =
     rbind (visit f c p s) (\<lambda>(c', p', s').
     rbind (visit_each f cs p' s') (\<lambda>(cs', p'', s'').
     Inr (c' # cs', p'', s'')))"

text \<open>The getter of \<open>resolve_net\<close> finds the net of a reference and may rewrite the reference.\<close>

type_synonym ('n, 's, 'e) net_getter = "'n net_ref \<Rightarrow> cvs \<Rightarrow> 's \<Rightarrow> 'e + ('n net_ref \<times> 'n \<times> 's)"

definition resolve_visitor :: "('n, 's, 'e) net_getter \<Rightarrow> ('n, 's, 'e) visitor" where
  "resolve_visitor getter r p s =
     rbind (getter r p s) (\<lambda>(r', net, s'). Inr (set_value net r', s'))"

definition resolve_net :: "('n, 's, 'e) net_getter \<Rightarrow> 'n config_val \<Rightarrow> 's \<Rightarrow> 'e + ('n config_val \<times> 's)" where
  "resolve_net getter c s =
     rbind (visit (resolve_visitor getter) c cvs_new s) (\<lambda>(c', _, s'). Inr (c', s'))"

text \<open>The references of a configuration, in the order a visit meets them.\<close>

fun net_refs :: "'n config_val \<Rightarrow> 'n net_ref list" where
  "net_refs CfgEmpty = []"
| "net_refs (CfgNetRef r) = [r]"
| "net_refs (CfgSeq cs) = concat (map net_refs cs)"
| "net_refs (CfgFields fs) = concat (map (\<lambda>(k, c). net_refs c) fs)"
| "net_refs (CfgSingleOrVec cs) = concat (map net_refs cs)"

lemma ctx_pop_push [simp]: "ctx_pop (ctx_push (cvs_of ss) s) = cvs_of ss"
  by (simp add: ctx_pop_def ctx_push_def)

lemma ctx_push_of: "ctx_push (cvs_of ss) k = cvs_of (ss @ [k])"
  by (simp add: ctx_push_def)

lemma ctx_pop_of: "ctx_pop (cvs_of ss) = cvs_of (butlast ss)"
  by (simp add: ctx_pop_def)

lemma visit_path:
  "visit f c p s = Inr (c', p', s') \<Longrightarrow> p = cvs_of ss \<Longrightarrow> p' = p"
  "visit_seq f i cs p s = Inr (cs', p', s') \<Longrightarrow> p = cvs_of ss \<Longrightarrow> p' = p"
  "visit_fields f fs p s = Inr (fs', p', s') \<Longrightarrow> p = cvs_of ss \<Longrightarrow> p' = p"
  "visit_each f cs p s = Inr (cs', p', s') \<Longrightarrow> p = cvs_of ss \<Longrightarrow> p' = p"
proof (induction f c p s and f i cs p s and f fs p s and f cs p s
    arbitrary: ss c' p' s' and ss cs' p' s' and ss fs' p' s' and ss cs' p' s'
    rule: visit_visit_seq_visit_fields_visit_each.induct)
  case (7 f i c cs p s)
  from "7.prems"(1) obtain c1 p1 s1 cs1 s2 where a: "visit f c (ctx_push p (show_nat i)) s = Inr (c1, p1, s1)"
    and b: "visit_seq f (Suc i) cs (ctx_pop p1) s1 = Inr (cs1, p', s2)"
    by (auto elim!: rbind_InrE)
  have "p1 = cvs_of (ss @ [show_nat i])"
    using "7.IH"(1) [OF a] by (simp add: "7.prems"(2) ctx_push_of)
  then have "ctx_pop p1 = p" by (simp add: ctx_pop_of "7.prems"(2))
  with "7.IH"(2) [OF b] show ?case using "7.prems"(2) by simp
next
  case (9 f k c fs p s)
  from "9.prems"(1) obtain c1 p1 s1 cs1 s2 where a: "visit f c (ctx_push p k) s = Inr (c1, p1, s1)"
    and b: "visit_fields f fs (ctx_pop p1) s1 = Inr (cs1, p', s2)"
    by (auto elim!: rbind_InrE)
  have "p1 = cvs_of (ss @ [k])"
    using "9.IH"(1) [OF a] by (simp add: "9.prems"(2) ctx_push_of)
  then have "ctx_pop p1 = p" by (simp add: ctx_pop_of "9.prems"(2))
  with "9.IH"(2) [OF b] show ?case using "9.prems"(2) by simp
next
  case (11 f c cs p s)
  from "11.prems"(1) obtain c1 p1 s1 cs1 s2 where a: "visit f c p s = Inr (c1, p1, s1)"
    and b: "visit_each f cs p1 s1 = Inr (cs1, p', s2)"
    by (auto elim!: rbind_InrE)
  have "p1 = p" using "11.IH"(1) [OF a "11.prems"(2)] .
  with "11.IH"(2) [OF b] show ?case using "11.prems"(2) by simp
next
  case (3 f cs p s)
  then show ?case by (auto elim!: rbind_InrE)
next
  case (4 f fs p s)
  then show ?case by (auto elim!: rbind_InrE)
next
  case (5 f cs p s)
  then show ?case by (auto elim!: rbind_InrE)
qed (auto elim!: rbind_InrE)

text \<open>A visit relates the references before and after by whatever the visitor guarantees, and keeps
  the shape of the configuration.\<close>

fun shape :: "'n config_val \<Rightarrow> unit config_val" where
  "shape CfgEmpty = CfgEmpty"
| "shape (CfgNetRef r) = CfgNetRef (res_new JNull)"
| "shape (CfgSeq cs) = CfgSeq (map shape cs)"
| "shape (CfgFields fs) = CfgFields (map (\<lambda>(k, c). (k, shape c)) fs)"
| "shape (CfgSingleOrVec cs) = CfgSingleOrVec (map shape cs)"

lemma visit_refs:
  "visit f c p s = Inr (c', p', s') \<Longrightarrow> \<forall>r p s r' s'. f r p s = Inr (r', s') \<longrightarrow> Q r r' \<Longrightarrow> list_all2 Q (net_refs c) (net_refs c') \<and> shape c' = shape c"
  "visit_seq f i cs p s = Inr (cs', p', s') \<Longrightarrow> \<forall>r p s r' s'. f r p s = Inr (r', s') \<longrightarrow> Q r r' \<Longrightarrow>
     list_all2 Q (concat (map net_refs cs)) (concat (map net_refs cs')) \<and> map shape cs' = map shape cs"
  "visit_fields f fs p s = Inr (fs', p', s') \<Longrightarrow> \<forall>r p s r' s'. f r p s = Inr (r', s') \<longrightarrow> Q r r' \<Longrightarrow>
     list_all2 Q (concat (map (\<lambda>(k, c). net_refs c) fs)) (concat (map (\<lambda>(k, c). net_refs c) fs'))
     \<and> map (\<lambda>(k, c). (k, shape c)) fs' = map (\<lambda>(k, c). (k, shape c)) fs"
  "visit_each f cs p s = Inr (cs', p', s') \<Longrightarrow> \<forall>r p s r' s'. f r p s = Inr (r', s') \<longrightarrow> Q r r' \<Longrightarrow>
     list_all2 Q (concat (map net_refs cs)) (concat (map net_refs cs')) \<and> map shape cs' = map shape cs"
proof (induction f c p s and f i cs p s and f fs p s and f cs p s
    arbitrary: c' p' s' and cs' p' s' and fs' p' s' and cs' p' s'
    rule: visit_visit_seq_visit_fields_visit_each.induct)
  case (7 f i c cs p s)
  from "7.prems"(1) obtain c1 p1 s1 cs1 where a: "visit f c (ctx_push p (show_nat i)) s = Inr (c1, p1, s1)"
    and b: "visit_seq f (Suc i) cs (ctx_pop p1) s1 = Inr (cs1, p', s')" and c: "cs' = c1 # cs1"
    by (auto elim!: rbind_InrE)
  show ?case using "7.IH"(1) [OF a "7.prems"(2)] "7.IH"(2) [OF b "7.prems"(2)] by (simp add: c list_all2_appendI)
next
  case (9 f k c fs p s)
  from "9.prems"(1) obtain c1 p1 s1 cs1 where a: "visit f c (ctx_push p k) s = Inr (c1, p1, s1)"
    and b: "visit_fields f fs (ctx_pop p1) s1 = Inr (cs1, p', s')" and c: "fs' = (k, c1) # cs1"
    by (auto elim!: rbind_InrE)
  show ?case using "9.IH"(1) [OF a "9.prems"(2)] "9.IH"(2) [OF b "9.prems"(2)] by (simp add: c list_all2_appendI)
next
  case (11 f c cs p s)
  from "11.prems"(1) obtain c1 p1 s1 cs1 where a: "visit f c p s = Inr (c1, p1, s1)"
    and b: "visit_each f cs p1 s1 = Inr (cs1, p', s')" and c: "cs' = c1 # cs1"
    by (auto elim!: rbind_InrE)
  show ?case using "11.IH"(1) [OF a "11.prems"(2)] "11.IH"(2) [OF b "11.prems"(2)] by (simp add: c list_all2_appendI)
next
  case (2 f r p s)
  from "2.prems"(1) obtain r' where r: "f r p s = Inr (r', s')" and "c' = CfgNetRef r'"
    by (auto elim!: rbind_InrE)
  moreover from "2.prems"(2) r have "Q r r'" by blast
  ultimately show ?case by simp
qed (auto elim!: rbind_InrE)

text \<open>An invariant of the state that the visitor keeps holds after a visit, and every reference has passed the visitor in a
  state with the invariant.\<close>

lemma visit_invariant:
  assumes f: "\<And>r p s r' s'. I s \<Longrightarrow> f r p s = Inr (r', s') \<Longrightarrow> I s' \<and> Q r"
  shows "visit f c p s = Inr (c', p', s') \<Longrightarrow> I s \<Longrightarrow> I s' \<and> list_all Q (net_refs c)"
    "visit_seq f i cs p s = Inr (cs', p', s') \<Longrightarrow> I s \<Longrightarrow> I s' \<and> list_all Q (concat (map net_refs cs))"
    "visit_fields f fs p s = Inr (fs', p', s') \<Longrightarrow> I s \<Longrightarrow> I s' \<and> list_all Q (concat (map (\<lambda>(k, c). net_refs c) fs))"
    "visit_each f cs p s = Inr (cs', p', s') \<Longrightarrow> I s \<Longrightarrow> I s' \<and> list_all Q (concat (map net_refs cs))"
  using f
proof (induction f c p s and f i cs p s and f fs p s and f cs p s
    arbitrary: c' p' s' and cs' p' s' and fs' p' s' and cs' p' s'
    rule: visit_visit_seq_visit_fields_visit_each.induct)
  case (2 f r p s)
  from "2.prems"(1) obtain r' where "f r p s = Inr (r', s')" by (auto elim!: rbind_InrE)
  with "2.prems"(2,3) show ?case by simp
next
  case (7 f i c cs p s)
  from "7.prems"(1) obtain c1 p1 s1 cs1 where a: "visit f c (ctx_push p (show_nat i)) s = Inr (c1, p1, s1)"
    and b: "visit_seq f (Suc i) cs (ctx_pop p1) s1 = Inr (cs1, p', s')"
    by (auto elim!: rbind_InrE)
  from "7.IH"(1) [OF a "7.prems"(2,3)] "7.IH"(2) [OF b _ "7.prems"(3)] show ?case by simp
next
  case (9 f k c fs p s)
  from "9.prems"(1) obtain c1 p1 s1 cs1 where a: "visit f c (ctx_push p k) s = Inr (c1, p1, s1)"
    and b: "visit_fields f fs (ctx_pop p1) s1 = Inr (cs1, p', s')"
    by (auto elim!: rbind_InrE)
  from "9.IH"(1) [OF a "9.prems"(2,3)] "9.IH"(2) [OF b _ "9.prems"(3)] show ?case by simp
next
  case (11 f c cs p s)
  from "11.prems"(1) obtain c1 p1 s1 cs1 where a: "visit f c p s = Inr (c1, p1, s1)"
    and b: "visit_each f cs p1 s1 = Inr (cs1, p', s')"
    by (auto elim!: rbind_InrE)
  from "11.IH"(1) [OF a "11.prems"(2,3)] "11.IH"(2) [OF b _ "11.prems"(3)] show ?case by simp
qed (fastforce elim!: rbind_InrE)+

lemma resolve_net_invariant:
  assumes "resolve_net g c s = Inr (c', s')" "I s"
    and "\<And>r p s r' h s'. I s \<Longrightarrow> g r p s = Inr (r', h, s') \<Longrightarrow> I s' \<and> Q r"
  shows "I s' \<and> list_all Q (net_refs c)"
proof -
  from assms(1) obtain p' where v: "visit (resolve_visitor g) c cvs_new s = Inr (c', p', s')"
    by (auto simp: resolve_net_def elim!: rbind_InrE)
  show ?thesis
    by (rule visit_invariant(1) [where I = I and Q = Q, OF _ v assms(2)]) (use assms(3) in \<open>fastforce simp: resolve_visitor_def elim!: rbind_InrE\<close>)
qed

text \<open>A bound on the state carries through a visit: each reference may raise it by its weight, and as
  long as the bound is kept the visitor does not fail with a \<open>bad\<close> error. The paths it is called with
  are those of lists of names.\<close>

definition visitor_bound :: "('n, 's, 'e) visitor \<Rightarrow> ('s \<Rightarrow> nat) \<Rightarrow> ('n net_ref \<Rightarrow> nat) \<Rightarrow> ('e \<Rightarrow> bool) \<Rightarrow> nat \<Rightarrow> bool" where
  "visitor_bound f M w bad B \<longleftrightarrow> (\<forall>r ss s. M s + w r < B \<longrightarrow>
     (case f r (cvs_of ss) s of Inl e \<Rightarrow> \<not> bad e | Inr (r', s') \<Rightarrow> M s' \<le> M s + w r))"

lemma visitor_boundD:
  "visitor_bound f M w bad B \<Longrightarrow> M s + w r < B \<Longrightarrow>
     (case f r (cvs_of ss) s of Inl e \<Rightarrow> \<not> bad e | Inr (r', s') \<Rightarrow> M s' \<le> M s + w r)"
  by (simp add: visitor_bound_def)

lemma visit_bound:
  "visitor_bound f M w bad B \<Longrightarrow> p = cvs_of ss \<Longrightarrow> M s + sum_list (map w (net_refs c)) < B \<Longrightarrow>
     (case visit f c p s of Inl e \<Rightarrow> \<not> bad e | Inr (c', p', s') \<Rightarrow> M s' \<le> M s + sum_list (map w (net_refs c)))"
  "visitor_bound f M w bad B \<Longrightarrow> p = cvs_of ss \<Longrightarrow> M s + sum_list (map w (concat (map net_refs cs))) < B \<Longrightarrow>
     (case visit_seq f i cs p s of Inl e \<Rightarrow> \<not> bad e
      | Inr (c', p', s') \<Rightarrow> M s' \<le> M s + sum_list (map w (concat (map net_refs cs))))"
  "visitor_bound f M w bad B \<Longrightarrow> p = cvs_of ss \<Longrightarrow> M s + sum_list (map w (concat (map (\<lambda>(k, c). net_refs c) fs))) < B \<Longrightarrow>
     (case visit_fields f fs p s of Inl e \<Rightarrow> \<not> bad e
      | Inr (c', p', s') \<Rightarrow> M s' \<le> M s + sum_list (map w (concat (map (\<lambda>(k, c). net_refs c) fs))))"
  "visitor_bound f M w bad B \<Longrightarrow> p = cvs_of ss \<Longrightarrow> M s + sum_list (map w (concat (map net_refs cs))) < B \<Longrightarrow>
     (case visit_each f cs p s of Inl e \<Rightarrow> \<not> bad e
      | Inr (c', p', s') \<Rightarrow> M s' \<le> M s + sum_list (map w (concat (map net_refs cs))))"
proof (induction f c p s and f i cs p s and f fs p s and f cs p s
    arbitrary: ss and ss and ss and ss
    rule: visit_visit_seq_visit_fields_visit_each.induct)
  case (2 f r p s)
  from visitor_boundD [OF "2.prems"(1), of s r ss] "2.prems"(2,3) show ?case
    by (auto simp: rbind_def split: sum.splits prod.splits)
next
  case (3 f cs p s)
  then show ?case by (auto simp: rbind_def split: sum.splits prod.splits)
next
  case (4 f fs p s)
  then show ?case by (auto simp: rbind_def split: sum.splits prod.splits)
next
  case (5 f cs p s)
  then show ?case by (auto simp: rbind_def split: sum.splits prod.splits)
next
  case (7 f i c cs p s)
  have p: "ctx_push p (show_nat i) = cvs_of (ss @ [show_nat i])" using "7.prems"(2) by (simp add: ctx_push_of)
  show ?case
  proof (cases "visit f c (ctx_push p (show_nat i)) s")
    case (Inl e)
    with "7.IH"(1) [OF "7.prems"(1) p] "7.prems"(3) show ?thesis by simp
  next
    case (Inr x)
    obtain c1 p1 s1 where x: "x = (c1, p1, s1)" by (cases x)
    have "ctx_pop p1 = cvs_of ss" using visit_path(1) [OF Inr [unfolded x] p] p by (simp add: ctx_pop_of)
    moreover have "M s1 \<le> M s + sum_list (map w (net_refs c))"
      using "7.IH"(1) [OF "7.prems"(1) p] "7.prems"(3) Inr x by simp
    ultimately show ?thesis
      using "7.IH"(2) [OF "7.prems"(1), of p1 ss s1] "7.prems"(3) Inr x
      by (auto simp: rbind_def split: sum.splits prod.splits)
  qed
next
  case (9 f k c fs p s)
  have p: "ctx_push p k = cvs_of (ss @ [k])" using "9.prems"(2) by (simp add: ctx_push_of)
  show ?case
  proof (cases "visit f c (ctx_push p k) s")
    case (Inl e)
    with "9.IH"(1) [OF "9.prems"(1) p] "9.prems"(3) show ?thesis by simp
  next
    case (Inr x)
    obtain c1 p1 s1 where x: "x = (c1, p1, s1)" by (cases x)
    have "ctx_pop p1 = cvs_of ss" using visit_path(1) [OF Inr [unfolded x] p] p by (simp add: ctx_pop_of)
    moreover have "M s1 \<le> M s + sum_list (map w (net_refs c))"
      using "9.IH"(1) [OF "9.prems"(1) p] "9.prems"(3) Inr x by simp
    ultimately show ?thesis
      using "9.IH"(2) [OF "9.prems"(1), of p1 ss s1] "9.prems"(3) Inr x
      by (auto simp: rbind_def split: sum.splits prod.splits)
  qed
next
  case (11 f c cs p s)
  show ?case
  proof (cases "visit f c p s")
    case (Inl e)
    with "11.IH"(1) [OF "11.prems"(1,2)] "11.prems"(3) show ?thesis by simp
  next
    case (Inr x)
    obtain c1 p1 s1 where x: "x = (c1, p1, s1)" by (cases x)
    have "p1 = cvs_of ss" using visit_path(1) [OF Inr [unfolded x] "11.prems"(2)] "11.prems"(2) by simp
    moreover have "M s1 \<le> M s + sum_list (map w (net_refs c))"
      using "11.IH"(1) [OF "11.prems"(1,2)] "11.prems"(3) Inr x by simp
    ultimately show ?thesis
      using "11.IH"(2) [OF "11.prems"(1), of p1 ss s1] "11.prems"(3) Inr x
      by (auto simp: rbind_def split: sum.splits prod.splits)
  qed
qed simp_all

text \<open>The same for \<open>resolve_net\<close> and its getter.\<close>

definition getter_bound :: "('n, 's, 'e) net_getter \<Rightarrow> ('s \<Rightarrow> nat) \<Rightarrow> ('n net_ref \<Rightarrow> nat) \<Rightarrow> ('e \<Rightarrow> bool) \<Rightarrow> nat \<Rightarrow> bool" where
  "getter_bound g M w bad B \<longleftrightarrow> (\<forall>r ss s. M s + w r < B \<longrightarrow>
     (case g r (cvs_of ss) s of Inl e \<Rightarrow> \<not> bad e | Inr (r', net, s') \<Rightarrow> M s' \<le> M s + w r))"

lemma resolve_net_bound:
  assumes "getter_bound g M w bad B" "M s + sum_list (map w (net_refs c)) < B"
  shows "case resolve_net g c s of Inl e \<Rightarrow> \<not> bad e | Inr (c', s') \<Rightarrow> M s' \<le> M s + sum_list (map w (net_refs c))"
proof -
  have "visitor_bound (resolve_visitor g) M w bad B"
    using assms(1) unfolding visitor_bound_def getter_bound_def resolve_visitor_def
    by (fastforce simp: rbind_def split: sum.splits prod.splits)
  from visit_bound(1) [OF this, of cvs_new "[]" s c] assms(2) show ?thesis
    by (auto simp: resolve_net_def rbind_def cvs_of_Nil split: sum.splits prod.splits)
qed

text \<open>When \<open>resolve_net\<close> returns a configuration, every reference in it holds the net its getter
  returned, so neither \<open>value_cloned\<close> nor the dereference of a \<open>NetRef\<close> panics; apart from the
  references the configuration is unchanged.\<close>

theorem resolve_net_resolves:
  assumes "resolve_net getter c s = Inr (c', s')"
  shows "list_all (\<lambda>r. is_ok (value_cloned r) \<and> is_ok (res_deref r)) (net_refs c') \<and> shape c' = shape c
    \<and> list_all2 (\<lambda>r r'. \<exists>p t r1 net t'. getter r p t = Inr (r1, net, t') \<and> r' = set_value net r1)
        (net_refs c) (net_refs c')"
proof -
  let ?Q = "\<lambda>r r'. \<exists>p t r1 net t'. getter r p t = Inr (r1, net, t') \<and> r' = set_value net r1"
  from assms obtain p' where v: "visit (resolve_visitor getter) c cvs_new s = Inr (c', p', s')"
    by (auto simp: resolve_net_def elim!: rbind_InrE)
  have "\<forall>r p s r' s'. resolve_visitor getter r p s = Inr (r', s') \<longrightarrow> ?Q r r'"
    by (fastforce simp: resolve_visitor_def elim!: rbind_InrE)
  from visit_refs(1) [OF v this] have r: "list_all2 ?Q (net_refs c) (net_refs c')" and "shape c' = shape c"
    by blast+
  moreover have "is_ok (value_cloned r') \<and> is_ok (res_deref r')" if "?Q r r'" for r r'
    using that by (auto simp: value_cloned_def res_deref_def set_value_def)
  then have "list_all (\<lambda>r. is_ok (value_cloned r) \<and> is_ok (res_deref r)) (net_refs c')"
    using r unfolding list_all_length list_all2_conv_all_nth by (metis (no_types, lifting))
  ultimately show ?thesis by blast
qed

lemma resolve_net_resolves_witness:
  "list_all (\<lambda>r. is_ok (value_cloned r)) (net_refs
     (fst (projr (resolve_net (\<lambda>r p s. Inr (r, length (underlying p), s) :: (nat net_ref \<times> nat \<times> nat) rd)
       (CfgFields [(''net'', CfgNetRef net_ref_default), (''list'', CfgSeq [CfgNetRef net_ref_default])]) (0 :: nat)))))"
proof -
  let ?g = "\<lambda>(r :: nat net_ref) p (s :: nat). Inr (r, length (underlying p), s) :: (nat net_ref \<times> nat \<times> nat) rd"
  let ?c = "CfgFields [(''net'', CfgNetRef net_ref_default), (''list'', CfgSeq [CfgNetRef net_ref_default])]"
  have "\<exists>c' s'. resolve_net ?g ?c (0 :: nat) = Inr (c', s')"
    by (simp add: resolve_net_def resolve_visitor_def)
  then obtain c' s' where r: "resolve_net ?g ?c (0 :: nat) = Inr (c', s')" by blast
  from resolve_net_resolves [OF r] show ?thesis
    unfolding r by (simp add: list_all_length)
qed

end
