(* ===== verification/Conn_Context.thy ===== *)
theory Conn_Context
  imports Compact_Vec_String Json Address
begin

section \<open>Connection context\<close>

text \<open>
  \<open>rd-interface/src/context.rs\<close>: the key/value store that travels with a connection and the list of
  the nets it passed. A stored value is a JSON value (\<open>serde_json::Value\<close>); turning a typed value
  into JSON and back is derived code and an argument (\<open>to_json\<close>, \<open>of_json\<close>, with the error text of
  \<open>serde_json\<close> on the left).
\<close>

record conn_context =
  ctx_data :: "(string, json) hmap"
  ctx_net_list :: cvs

definition ctx_new :: conn_context where
  "ctx_new = \<lparr> ctx_data = [], ctx_net_list = cvs_new \<rparr>"

definition ctx_insert :: "('a \<Rightarrow> string + json) \<Rightarrow> string \<Rightarrow> 'a \<Rightarrow> conn_context \<Rightarrow> ctx_error + conn_context" where
  "ctx_insert to_json key x ctx =
     rbind (map_err Serde (to_json x)) (\<lambda>v. Inr (ctx\<lparr> ctx_data := hm_insert key v (ctx_data ctx) \<rparr>))"

definition ctx_remove :: "string \<Rightarrow> conn_context \<Rightarrow> ctx_error + conn_context" where
  "ctx_remove key ctx =
     rbind (ok_or NonExist (hm_get (ctx_data ctx) key)) (\<lambda>_. Inr (ctx\<lparr> ctx_data := hm_remove key (ctx_data ctx) \<rparr>))"

definition ctx_get :: "(json \<Rightarrow> string + 'a) \<Rightarrow> string \<Rightarrow> conn_context \<Rightarrow> ctx_error + 'a option" where
  "ctx_get of_json key ctx = (case hm_get (ctx_data ctx) key of
     None \<Rightarrow> Inr None
   | Some v \<Rightarrow> rbind (map_err Serde (of_json v)) (\<lambda>x. Inr (Some x)))"

definition ctx_insert_value :: "string \<Rightarrow> json \<Rightarrow> conn_context \<Rightarrow> conn_context" where
  "ctx_insert_value key v ctx = ctx\<lparr> ctx_data := hm_insert key v (ctx_data ctx) \<rparr>"

definition ctx_remove_value :: "string \<Rightarrow> conn_context \<Rightarrow> ctx_error + conn_context" where
  "ctx_remove_value key ctx = Inr (ctx\<lparr> ctx_data := hm_remove key (ctx_data ctx) \<rparr>)"

definition ctx_get_value :: "string \<Rightarrow> conn_context \<Rightarrow> ctx_error + json" where
  "ctx_get_value key ctx = ok_or NonExist (hm_get (ctx_data ctx) key)"

text \<open>The common fields: their keys, and insertion and lookup under them. \<open>SocketAddr\<close> and
  \<open>AddressDomain\<close> serialize as their text.\<close>

definition KEY_process_info :: string where "KEY_process_info = ''process_info''"
definition KEY_dest_domain :: string where "KEY_dest_domain = ''dest_domain''"
definition KEY_dest_socket_addr :: string where "KEY_dest_socket_addr = ''dest_socket_addr''"
definition KEY_src_socket_addr :: string where "KEY_src_socket_addr = ''src_socket_addr''"

definition ctx_from_socketaddr :: "(socket_addr \<Rightarrow> string + json) \<Rightarrow> socket_addr \<Rightarrow> conn_context may_panic" where
  "ctx_from_socketaddr to_json addr =
     map_err (\<lambda>_. Panic ''Failed to insert src_socket_addr'') (ctx_insert to_json KEY_src_socket_addr addr ctx_new)"

definition append_net :: "string \<Rightarrow> conn_context \<Rightarrow> conn_context" where
  "append_net net_name ctx = ctx\<lparr> ctx_net_list := cvs_push (ctx_net_list ctx) net_name \<rparr>"

definition take_net_list :: "conn_context \<Rightarrow> conn_context \<times> cvs" where
  "take_net_list ctx = (ctx\<lparr> ctx_net_list := cvs_new \<rparr>, ctx_net_list ctx)"

fun wire_to_json :: "strings_wire \<Rightarrow> json" where
  "wire_to_json (WireSeq ss) = JArr (map JStr ss)"
| "wire_to_json (WireStr s) = JStr s"

fun json_strings :: "json list \<Rightarrow> string list option" where
  "json_strings [] = Some []"
| "json_strings (JStr s # js) = map_option ((#) s) (json_strings js)"
| "json_strings _ = None"

text \<open>Deserializing a \<open>CompactVecString\<close> from JSON: its visitor accepts a string or a sequence of
  strings.\<close>

definition json_to_cvs :: "json \<Rightarrow> string + cvs" where
  "json_to_cvs j = (case j of
     JStr s \<Rightarrow> Inr (cvs_deserialize (WireStr s))
   | JArr js \<Rightarrow> (case json_strings js of
       Some ss \<Rightarrow> Inr (cvs_deserialize (WireSeq ss))
     | None \<Rightarrow> Inl ''invalid type'')
   | _ \<Rightarrow> Inl ''invalid type'')"

definition ctx_to_value :: "conn_context \<Rightarrow> json may_panic" where
  "ctx_to_value ctx =
     rbind (cvs_serialize (ctx_net_list ctx)) (\<lambda>w.
     Inr (JObj (hm_insert ''net_list'' (wire_to_json w) (ctx_data ctx))))"

definition ctx_from_value :: "json \<Rightarrow> ctx_error + conn_context" where
  "ctx_from_value j = (case j of
     JObj m \<Rightarrow>
       rbind (case hm_get m ''net_list'' of
                Some net_list \<Rightarrow> map_err Serde (json_to_cvs net_list)
              | None \<Rightarrow> Inr cvs_new) (\<lambda>nl.
       Inr \<lparr> ctx_data = hm_remove ''net_list'' m, ctx_net_list = nl \<rparr>)
   | _ \<Rightarrow> Inl BadFormat)"

subsection \<open>Round trip\<close>

lemma json_strings_map [simp]: "json_strings (map JStr ss) = Some ss"
  by (induction ss) simp_all

lemma json_to_cvs_wire: "json_to_cvs (wire_to_json w) = Inr (cvs_deserialize w)"
  by (cases w) (simp_all add: json_to_cvs_def)

lemma serialize_wire: "\<exists>w. cvs_serialize (cvs_of ss) = Inr w \<and> json_to_cvs (wire_to_json w) = Inr (cvs_of ss)"
proof (cases "length ss = 1")
  case True
  then obtain s where "ss = [s]" by (auto simp: length_Suc_conv)
  then show ?thesis
    using cvs_push_of [of "[]" s] by (simp add: cvs_serialize_def json_to_cvs_wire cvs_of_Nil)
next
  case False
  then show ?thesis
    using cvs_extend_of [of "[]" ss] by (simp add: cvs_serialize_def json_to_cvs_wire cvs_of_Nil)
qed

text \<open>A context survives \<open>to_value\<close> and \<open>from_value\<close>: serializing never panics, the net list and
  every stored value are recovered, except a value stored under the key \<open>net_list\<close>, which the net
  list replaces.\<close>

theorem context_value_roundtrip:
  assumes "cvs_reach (ctx_net_list ctx)"
  shows "\<exists>v ctx'. ctx_to_value ctx = Inr v \<and> ctx_from_value v = Inr ctx'
    \<and> ctx_net_list ctx' = ctx_net_list ctx
    \<and> (\<forall>k. hm_get (ctx_data ctx') k = (if k = ''net_list'' then None else hm_get (ctx_data ctx) k))"
proof -
  obtain ss where ss: "ctx_net_list ctx = cvs_of ss" using cvs_reach_repr [OF assms] by blast
  obtain w where "cvs_serialize (cvs_of ss) = Inr w" "json_to_cvs (wire_to_json w) = Inr (cvs_of ss)"
    using serialize_wire [of ss] by blast
  then show ?thesis by (simp add: ss ctx_to_value_def ctx_from_value_def)
qed

lemma context_value_roundtrip_witness:
  "\<exists>v ctx'. ctx_to_value (append_net ''a'' (ctx_insert_value ''k'' JNull ctx_new)) = Inr v
     \<and> ctx_from_value v = Inr ctx' \<and> hm_get (ctx_data ctx') ''k'' = Some JNull"
proof -
  have "cvs_reach (ctx_net_list (append_net ''a'' (ctx_insert_value ''k'' JNull ctx_new)))"
    by (simp add: append_net_def ctx_insert_value_def ctx_new_def cvs_reach.new cvs_reach.push str_ok_def as_bytes_def)
  from context_value_roundtrip [OF this] show ?thesis
    by (auto simp: append_net_def ctx_insert_value_def)
qed

text \<open>Lookups after updates.\<close>

lemma ctx_get_insert:
  "ctx_insert to_json k x ctx = Inr ctx' \<Longrightarrow> to_json x = Inr v \<Longrightarrow>
   ctx_get of_json j ctx' = (if j = k then rbind (map_err Serde (of_json v)) (\<lambda>y. Inr (Some y)) else ctx_get of_json j ctx)"
  by (auto simp: ctx_insert_def ctx_get_def)

lemma ctx_remove_total:
  "ctx_remove k ctx = (if hm_get (ctx_data ctx) k = None then Inl NonExist else ctx_remove_value k ctx)"
  by (auto simp: ctx_remove_def ctx_remove_value_def split: option.split)

end
