(* ===== verification/Rule_Matcher.thy ===== *)
theory Rule_Matcher
  imports Config_Values Conn_Context
begin

section \<open>Rule matchers\<close>

text \<open>
  \<open>rd-std/src/rule/config.rs\<close>, \<open>domain.rs\<close>, \<open>ipcidr.rs\<close>, \<open>geoip.rs\<close>, \<open>any.rs\<close> and \<open>matcher.rs\<close>: what a
  rule of the rule net tests. A CIDR block is a value of \<open>smoltcp\<close> (the type variable \<open>'c\<close>); its
  membership test, its two parsers, the country database and the deserializers of the context fields
  are the fields of \<open>rule_env\<close>. The theorems give every matcher's meaning as a predicate over the
  strings or blocks it lists, and what merging two rules does to it.
\<close>

datatype domain_matcher_method = Keyword | Suffix | Match

record domain_matcher =
  dm_method :: domain_matcher_method
  dm_domain :: cvs

datatype 'c config_matcher =
    DomainM domain_matcher
  | IpCidrM "'c single_or_vec"
  | SrcIpCidrM "'c single_or_vec"
  | GeoIpM string
  | AnyM

text \<open>A country lookup fails, or yields a record that fails to decode, is absent, has no ISO code or
  has one.\<close>

record 'c rule_env =
  contains_addr :: "'c \<Rightarrow> ip_addr \<Rightarrow> bool"
  parse_v4_cidr :: "string \<Rightarrow> 'c option"
  parse_v6_cidr :: "string \<Rightarrow> 'c option"
  geo_lookup :: "ip_addr \<Rightarrow> string + (string + string option option)"
  de_socket_addr :: "json \<Rightarrow> string + socket_addr"
  de_address_domain :: "json \<Rightarrow> string + address_domain"

definition method_try_from :: "string \<Rightarrow> string + domain_matcher_method" where
  "method_try_from s =
     (if s = ''keyword'' then Inr Keyword
      else if s = ''suffix'' then Inr Suffix
      else if s = ''match'' then Inr Match
      else Inl (''Unsupported method: '' @ s))"

definition ip_cidr_from_str :: "'c rule_env \<Rightarrow> string \<Rightarrow> 'c rd" where
  "ip_cidr_from_str env s = (case parse_v4_cidr env s of
     Some c \<Rightarrow> Inr c
   | None \<Rightarrow> (case parse_v6_cidr env s of
       Some c \<Rightarrow> Inr c
     | None \<Rightarrow> Inl (OtherError (''Failed to parse ip_cidr: '' @ s))))"

subsection \<open>The context a rule is matched against\<close>

record match_context =
  mc_address :: address
  mc_src_ip_addr :: "ip_addr option"
  mc_dest_socket_addr :: "socket_addr option"
  mc_dest_domain :: "address_domain option"

definition from_context_address :: "'c rule_env \<Rightarrow> conn_context \<Rightarrow> address \<Rightarrow> match_context rd" where
  "from_context_address env ctx addr =
     rbind (map_err ContextError (ctx_get (de_socket_addr env) KEY_src_socket_addr ctx)) (\<lambda>src.
     rbind (map_err ContextError (ctx_get (de_socket_addr env) KEY_dest_socket_addr ctx)) (\<lambda>dest.
     rbind (map_err ContextError (ctx_get (de_address_domain env) KEY_dest_domain ctx)) (\<lambda>q.
     Inr \<lparr> mc_address = to_normalized addr, mc_src_ip_addr = map_option sock_ip src,
           mc_dest_socket_addr = dest, mc_dest_domain = q \<rparr>)))"

definition mc_get_domain :: "match_context \<Rightarrow> (string \<times> u16) option" where
  "mc_get_domain mc = (case mc_address mc of
     Domain d p \<Rightarrow> Some (d, p)
   | SocketAddr _ \<Rightarrow> (case mc_dest_domain mc of
       Some d \<Rightarrow> Some (ad_domain d, ad_port d)
     | None \<Rightarrow> None))"

definition mc_get_socket_addr :: "match_context \<Rightarrow> socket_addr option" where
  "mc_get_socket_addr mc = (case mc_address mc of
     SocketAddr addr \<Rightarrow> Some addr
   | Domain _ _ \<Rightarrow> (case to_socket_addr (mc_address mc) of
       Inr addr \<Rightarrow> Some addr
     | Inl _ \<Rightarrow> mc_dest_socket_addr mc))"

subsection \<open>Tests\<close>

text \<open>One entry of a domain rule. An entry \<open>+.x\<close> of the \<open>match\<close> method stands for \<open>x\<close> and its
  subdomains.\<close>

definition domain_entry_test :: "domain_matcher_method \<Rightarrow> string \<Rightarrow> string \<Rightarrow> bool" where
  "domain_entry_test m q d = (case m of
     Keyword \<Rightarrow> contains d q
   | Match \<Rightarrow>
       (if starts_with ''+.'' d then
          (case strip_prefix ''+'' d of Some i \<Rightarrow> ends_with i q | None \<Rightarrow> False)
          \<or> (case strip_prefix ''+.'' d of Some d' \<Rightarrow> q = d' | None \<Rightarrow> False)
        else q = d)
   | Suffix \<Rightarrow> ends_with d q)"

text \<open>The iterator over the domains stops at the first entry that matches, so a later panic of the
  iterator is not reached.\<close>

function domain_test_from :: "domain_matcher \<Rightarrow> string \<Rightarrow> nat \<Rightarrow> bool may_panic" where
  "domain_test_from m q i =
     (case cvs_get (dm_domain m) i of
        Inl p \<Rightarrow> Inl p
      | Inr None \<Rightarrow> Inr False
      | Inr (Some d) \<Rightarrow> if domain_entry_test (dm_method m) q d then Inr True else domain_test_from m q (Suc i))"
  by pat_completeness auto
termination
  by (relation "measure (\<lambda>(m, _, i). length (offsets (dm_domain m)) - i)")
    (auto simp: cvs_get_def cvs_get_bytes_def split: if_splits)

declare domain_test_from.simps [simp del]

definition domain_test :: "domain_matcher \<Rightarrow> string \<Rightarrow> bool may_panic" where
  "domain_test m q = domain_test_from m q 0"

definition ipcidr_test :: "'c rule_env \<Rightarrow> 'c single_or_vec \<Rightarrow> ip_addr \<Rightarrow> bool" where
  "ipcidr_test env cs ip \<longleftrightarrow> list_ex (\<lambda>c. contains_addr env c ip) (sov_iter cs)"

definition geoip_test :: "'c rule_env \<Rightarrow> string \<Rightarrow> ip_addr \<Rightarrow> bool" where
  "geoip_test env country ip = (case geo_lookup env ip of
     Inr decoded \<Rightarrow> (case decoded of
         Inr (Some (Some code)) \<Rightarrow> code = country
       | _ \<Rightarrow> country = [])
   | Inl _ \<Rightarrow> False)"

definition match_rule :: "'c rule_env \<Rightarrow> 'c config_matcher \<Rightarrow> match_context \<Rightarrow> bool may_panic" where
  "match_rule env m mc = (case m of
     DomainM i \<Rightarrow> (case mc_get_domain mc of
         Some (d, _) \<Rightarrow> domain_test i d
       | None \<Rightarrow> Inr False)
   | IpCidrM cs \<Rightarrow> (case mc_get_socket_addr mc of
         Some addr \<Rightarrow> Inr (ipcidr_test env cs (sock_ip addr))
       | None \<Rightarrow> Inr False)
   | SrcIpCidrM cs \<Rightarrow> (case mc_src_ip_addr mc of
         Some ip \<Rightarrow> Inr (ipcidr_test env cs ip)
       | None \<Rightarrow> Inr False)
   | GeoIpM country \<Rightarrow> (case mc_get_socket_addr mc of
         Some addr \<Rightarrow> Inr (geoip_test env country (sock_ip addr))
       | None \<Rightarrow> Inr False)
   | AnyM \<Rightarrow> Inr True)"

subsection \<open>Merging\<close>

text \<open>\<open>extend\<close> over another vector runs its iterator.\<close>

definition matcher_merge :: "'c config_matcher \<Rightarrow> 'c config_matcher \<Rightarrow> ('c config_matcher \<times> bool) may_panic" where
  "matcher_merge m other = (case (m, other) of
     (DomainM a, DomainM b) \<Rightarrow>
       rbind (cvs_iter (dm_domain b) 0) (\<lambda>ss.
       Inr (DomainM (a\<lparr> dm_domain := cvs_extend (dm_domain a) ss \<rparr>), True))
   | (IpCidrM a, IpCidrM b) \<Rightarrow> Inr (IpCidrM (sov_extend a (sov_iter b)), True)
   | (SrcIpCidrM a, SrcIpCidrM b) \<Rightarrow> Inr (SrcIpCidrM (sov_extend a (sov_iter b)), True)
   | (AnyM, AnyM) \<Rightarrow> Inr (m, True)
   | _ \<Rightarrow> Inr (m, False))"

record ('c, 'n) config_rule_item =
  ri_target :: "'n net_ref"
  ri_matcher :: "'c config_matcher"

definition rule_item_merge ::
  "('c, 'n) config_rule_item \<Rightarrow> ('c, 'n) config_rule_item \<Rightarrow> (('c, 'n) config_rule_item \<times> bool) may_panic" where
  "rule_item_merge i other =
     (if represent (ri_target i) = represent (ri_target other) then
        rbind (matcher_merge (ri_matcher i) (ri_matcher other)) (\<lambda>(m, b). Inr (i\<lparr> ri_matcher := m \<rparr>, b))
      else Inr (i, False))"

subsection \<open>What the tests mean\<close>

lemma domain_test_from_of:
  "i \<le> length ds \<Longrightarrow> domain_test_from \<lparr> dm_method = m, dm_domain = cvs_of ds \<rparr> q i
     = Inr (list_ex (domain_entry_test m q) (drop i ds))"
proof (induction "length ds - i" arbitrary: i)
  case 0
  then show ?case by (subst domain_test_from.simps) simp
next
  case (Suc n)
  then have i: "i < length ds" by simp
  with Suc.hyps(1) [of "Suc i"] Suc.hyps(2) show ?case
    by (subst domain_test_from.simps) (simp add: Cons_nth_drop_Suc [OF i, symmetric])
qed

lemma domain_test_of [simp]:
  "domain_test \<lparr> dm_method = m, dm_domain = cvs_of ds \<rparr> q = Inr (list_ex (domain_entry_test m q) ds)"
  by (simp add: domain_test_def domain_test_from_of)

text \<open>A matcher built by the program lists its domains in a vector the vector's operations built.\<close>

fun matcher_ok :: "'c config_matcher \<Rightarrow> bool" where
  "matcher_ok (DomainM m) \<longleftrightarrow> cvs_reach (dm_domain m)"
| "matcher_ok _ \<longleftrightarrow> True"

text \<open>The reference meaning of a matcher.\<close>

fun matcher_domains :: "domain_matcher \<Rightarrow> string list" where
  "matcher_domains m = (case cvs_iter (dm_domain m) 0 of Inr ds \<Rightarrow> ds | Inl _ \<Rightarrow> [])"

definition matches :: "'c rule_env \<Rightarrow> 'c config_matcher \<Rightarrow> match_context \<Rightarrow> bool" where
  "matches env m mc \<longleftrightarrow> (case m of
     DomainM i \<Rightarrow> (\<exists>d \<in> set (matcher_domains i). pred_option (\<lambda>(q, _). domain_entry_test (dm_method i) q d) (mc_get_domain mc))
        \<and> mc_get_domain mc \<noteq> None
   | IpCidrM cs \<Rightarrow> (\<exists>c \<in> set (sov_iter cs). \<exists>a. mc_get_socket_addr mc = Some a \<and> contains_addr env c (sock_ip a))
   | SrcIpCidrM cs \<Rightarrow> (\<exists>c \<in> set (sov_iter cs). \<exists>ip. mc_src_ip_addr mc = Some ip \<and> contains_addr env c ip)
   | GeoIpM country \<Rightarrow> (\<exists>a. mc_get_socket_addr mc = Some a \<and> geoip_test env country (sock_ip a))
   | AnyM \<Rightarrow> True)"

lemma domain_matcher_repr:
  assumes "cvs_reach (dm_domain m)"
  obtains ds where "m = \<lparr> dm_method = dm_method m, dm_domain = cvs_of ds \<rparr>" "list_all str_ok ds"
  using cvs_reach_repr [OF assms] by (metis domain_matcher.surjective old.unit.exhaust)

lemma match_rule_matches:
  assumes "matcher_ok m"
  shows "match_rule env m mc = Inr (matches env m mc)"
proof (cases m)
  case (DomainM i)
  with assms obtain ds where i: "i = \<lparr> dm_method = dm_method i, dm_domain = cvs_of ds \<rparr>"
    using domain_matcher_repr [of i] by auto
  have "match_rule env (DomainM \<lparr> dm_method = k, dm_domain = cvs_of ds \<rparr>) mc
      = Inr (matches env (DomainM \<lparr> dm_method = k, dm_domain = cvs_of ds \<rparr>) mc)" for k
    by (auto simp: match_rule_def matches_def list_ex_iff split: option.split)
  with i DomainM show ?thesis by metis
qed (auto simp: match_rule_def matches_def ipcidr_test_def list_ex_iff split: option.split)

subsection \<open>What merging does\<close>

fun same_method :: "'c config_matcher \<Rightarrow> 'c config_matcher \<Rightarrow> bool" where
  "same_method (DomainM a) (DomainM b) \<longleftrightarrow> dm_method a = dm_method b"
| "same_method _ _ \<longleftrightarrow> True"

fun mergeable :: "'c config_matcher \<Rightarrow> 'c config_matcher \<Rightarrow> bool" where
  "mergeable (DomainM _) (DomainM _) = True"
| "mergeable (IpCidrM _) (IpCidrM _) = True"
| "mergeable (SrcIpCidrM _) (SrcIpCidrM _) = True"
| "mergeable AnyM AnyM = True"
| "mergeable _ _ = False"

lemma cvs_reach_of: "list_all str_ok ss \<Longrightarrow> cvs_reach (cvs_of ss)"
proof (induction ss rule: rev_induct)
  case Nil
  then show ?case by (simp add: cvs_of_Nil cvs_reach.new)
next
  case (snoc s ss)
  then show ?case using cvs_reach.push [of "cvs_of ss" s] by simp
qed

lemma merge_domain_of:
  "matcher_merge (DomainM \<lparr> dm_method = k, dm_domain = cvs_of ds \<rparr>) (DomainM \<lparr> dm_method = k', dm_domain = cvs_of es \<rparr>)
     = Inr (DomainM \<lparr> dm_method = k, dm_domain = cvs_of (ds @ es) \<rparr>, True)"
  by (simp add: matcher_merge_def)

lemma merge_refuses: "\<not> mergeable a b \<Longrightarrow> matcher_merge a b = Inr (a, False)"
  by (cases a; cases b) (simp_all add: matcher_merge_def)

lemma merge_domain_exact:
  assumes "matcher_ok (DomainM a)" "matcher_ok (DomainM b)" "dm_method a = dm_method b"
  shows "\<exists>m. matcher_merge (DomainM a) (DomainM b) = Inr (m, True) \<and> matcher_ok m
    \<and> (\<forall>env mc. matches env m mc = (matches env (DomainM a) mc \<or> matches env (DomainM b) mc))"
proof -
  obtain ds es where a: "a = \<lparr> dm_method = dm_method a, dm_domain = cvs_of ds \<rparr>" and ds: "list_all str_ok ds"
    and b: "b = \<lparr> dm_method = dm_method b, dm_domain = cvs_of es \<rparr>" and es: "list_all str_ok es"
    using assms(1,2) domain_matcher_repr [of a] domain_matcher_repr [of b] by (metis matcher_ok.simps(1))
  have "cvs_reach (cvs_of (ds @ es))" using ds es by (intro cvs_reach_of) simp
  moreover have "matches env (DomainM \<lparr> dm_method = k, dm_domain = cvs_of (ds @ es) \<rparr>) mc
      = (matches env (DomainM \<lparr> dm_method = k, dm_domain = cvs_of ds \<rparr>) mc
         \<or> matches env (DomainM \<lparr> dm_method = k, dm_domain = cvs_of es \<rparr>) mc)" for k env mc
    by (auto simp: matches_def)
  ultimately show ?thesis
    using merge_domain_of [of "dm_method a" ds "dm_method b" es] a b assms(3)
    by (metis domain_matcher.select_convs(2) matcher_ok.simps(1))
qed

lemma merge_exact:
  assumes "matcher_ok a" "matcher_ok b" "same_method a b" "mergeable a b"
  shows "\<exists>m. matcher_merge a b = Inr (m, True) \<and> matcher_ok m
    \<and> (\<forall>env mc. matches env m mc = (matches env a mc \<or> matches env b mc))"
proof (cases "(a, b)" rule: mergeable.cases)
  case (1 x y)
  with assms merge_domain_exact [of x y] show ?thesis by simp
qed (use assms(4) in \<open>auto simp: matcher_merge_def matches_def\<close>)

lemma merge_any_exact:
  assumes "matcher_ok a" "matcher_ok b" "same_method a b"
  shows "\<exists>m. matcher_merge a b = Inr (m, mergeable a b) \<and> matcher_ok m
    \<and> (\<forall>env mc. matches env m mc = (matches env a mc \<or> mergeable a b \<and> matches env b mc))"
proof (cases "mergeable a b")
  case True
  show ?thesis using merge_exact [OF assms True] True by simp
next
  case False
  then show ?thesis using merge_refuses [OF False] assms(1) by simp
qed

text \<open>Merging two rules: matchers of different kinds, and two country matchers, are left alone; two
  mergeable ones that agree on the matching method become one that matches exactly what either
  matched, and nothing panics.\<close>

theorem matcher_merge_correct:
  assumes "matcher_ok a" "matcher_ok b" "same_method a b"
  shows "\<exists>m. matcher_merge a b = Inr (m, mergeable a b) \<and> matcher_ok m
    \<and> (\<forall>env mc. matches env m mc = (matches env a mc \<or> mergeable a b \<and> matches env b mc))"
  using merge_any_exact [OF assms] .

lemma matcher_merge_correct_witness:
  "\<exists>m. matcher_merge (IpCidrM (Single (7 :: nat))) (IpCidrM (Vec [8])) = Inr (m, True) \<and> matcher_ok m"
  using matcher_merge_correct [of "IpCidrM (Single (7 :: nat))" "IpCidrM (Vec [8])"] by auto

text \<open>Merging ignores the matching method: a keyword rule and a suffix rule with the same target
  become one keyword rule, which sends a name to the target that neither rule matched.\<close>

theorem merge_ignores_method:
  "\<exists>(a :: (nat, nat) config_rule_item) b m mc.
     represent (ri_target a) = represent (ri_target b)
     \<and> matcher_ok (ri_matcher a) \<and> matcher_ok (ri_matcher b)
     \<and> rule_item_merge a b = Inr (m, True)
     \<and> match_rule env (ri_matcher m) mc = Inr True
     \<and> match_rule env (ri_matcher a) mc = Inr False \<and> match_rule env (ri_matcher b) mc = Inr False"
proof -
  let ?item = "\<lambda>k ds. \<lparr> ri_target = net_ref_default, ri_matcher = DomainM \<lparr> dm_method = k, dm_domain = cvs_of ds \<rparr> \<rparr>
    :: (nat, nat) config_rule_item"
  let ?a = "?item Keyword [''ads'']" and ?b = "?item Suffix [''t.co'']"
  let ?mc = "\<lparr> mc_address = Domain ''t.com'' 443, mc_src_ip_addr = None, mc_dest_socket_addr = None,
    mc_dest_domain = None \<rparr>"
  have "rule_item_merge ?a ?b = Inr (?item Keyword [''ads'', ''t.co''], True)"
    by (simp add: rule_item_merge_def merge_domain_of)
  moreover have "match_rule env (ri_matcher (?item Keyword [''ads'', ''t.co''])) ?mc = Inr True"
    by (simp add: match_rule_def mc_get_domain_def domain_entry_test_def starts_with_def)
  moreover have "match_rule env (ri_matcher ?a) ?mc = Inr False" "match_rule env (ri_matcher ?b) ?mc = Inr False"
    by (simp_all add: match_rule_def mc_get_domain_def domain_entry_test_def starts_with_def ends_with_def)
  moreover have "matcher_ok (ri_matcher ?a)" "matcher_ok (ri_matcher ?b)"
    by (simp_all add: cvs_reach_of str_ok_def as_bytes_def)
  ultimately show ?thesis
    by (intro exI [of _ ?a] exI [of _ ?b] exI [of _ "?item Keyword [''ads'', ''t.co'']"] exI [of _ ?mc]) simp
qed

end
