(* ===== verification/Udp_Connector.thy ===== *)
theory Udp_Connector
  imports Address Errors
begin

section \<open>The lazily bound UDP socket\<close>

text \<open>
  \<open>rd-std/src/util/udp_connector.rs\<close>: a UDP socket that binds when the first packet is sent. The
  connector makes a future from the first packet; the future and the socket it yields are arguments:
  \<open>fut_poll\<close> polls the future, \<open>send\<close> and \<open>recv\<close> are the polls of the socket. A future that has
  completed must not be polled again, so the state keeps \<open>None\<close> in its place; polling it panics.
\<close>

datatype ('conn, 'fut, 'u) uc_state =
    UcIdle "'conn option"
  | UcBinding "'fut option"
  | UcBinded 'u

record ('conn, 'fut, 'u) udp_connector =
  uc_permits :: nat
  uc_state :: "('conn, 'fut, 'u) uc_state"

record ('conn, 'fut, 'u) uc_env =
  uc_connect :: "'conn \<Rightarrow> bytes \<Rightarrow> address \<Rightarrow> 'fut"
  uc_fut_poll :: "'fut \<Rightarrow> 'fut \<times> 'u rd poll"
  uc_send :: "'u \<Rightarrow> bytes \<Rightarrow> address \<Rightarrow> 'u \<times> nat io poll"
  uc_recv :: "'u \<Rightarrow> 'u \<times> (bytes \<times> socket_addr) io poll"
  uc_local_addr :: "'u \<Rightarrow> socket_addr rd"
  uc_display :: "rd_error \<Rightarrow> string"

definition uc_new :: "'conn \<Rightarrow> ('conn, 'fut, 'u) udp_connector" where
  "uc_new connector = \<lparr> uc_permits = 0, uc_state = UcIdle (Some connector) \<rparr>"

definition connector_local_addr :: "('conn, 'fut, 'u) uc_env \<Rightarrow> ('conn, 'fut, 'u) udp_connector \<Rightarrow> socket_addr rd" where
  "connector_local_addr env c = (case uc_state c of
     UcBinded udp \<Rightarrow> uc_local_addr env udp
   | _ \<Rightarrow> Inl (NotFound ''UdpConnector is not connected''))"

text \<open>One poll of \<open>poll_recv_from\<close>. A permit is acquired and dropped at once, so an unbound connector
  with a permit runs the loop again in the same state.\<close>

partial_function (option) connector_recv_from ::
  "('conn, 'fut, 'u) uc_env \<Rightarrow> ('conn, 'fut, 'u) udp_connector
    \<Rightarrow> (('conn, 'fut, 'u) udp_connector \<times> (bytes \<times> socket_addr) io poll) option" where
  "connector_recv_from env c = (case uc_state c of
     UcBinded udp \<Rightarrow> (let (udp', r) = uc_recv env udp in Some (c\<lparr> uc_state := UcBinded udp' \<rparr>, r))
   | _ \<Rightarrow> if uc_permits c = 0 then Some (c, Pending) else connector_recv_from env c)"

declare connector_recv_from.simps [code]

fun uc_rank :: "('conn, 'fut, 'u) uc_state \<Rightarrow> nat" where
  "uc_rank (UcIdle _) = 2"
| "uc_rank (UcBinding _) = 1"
| "uc_rank (UcBinded _) = 0"

text \<open>One poll of \<open>poll_send_to\<close>: the loop makes the future, drives it and then sends on the bound
  socket. A bind that fails returns before the state is changed.\<close>

function connector_send_to ::
  "('conn, 'fut, 'u) uc_env \<Rightarrow> ('conn, 'fut, 'u) udp_connector \<Rightarrow> bytes \<Rightarrow> address
    \<Rightarrow> (('conn, 'fut, 'u) udp_connector \<times> nat io poll) may_panic" where
  "connector_send_to env c buf target = (case uc_state c of
     UcBinded udp \<Rightarrow>
       (let (udp', r) = uc_send env udp buf target in Inr (c\<lparr> uc_state := UcBinded udp' \<rparr>, r))
   | UcBinding None \<Rightarrow> Inl (Panic ''`async` block resumed after completion'')
   | UcBinding (Some fut) \<Rightarrow>
       (case uc_fut_poll env fut of
          (fut', Pending) \<Rightarrow> Inr (c\<lparr> uc_state := UcBinding (Some fut') \<rparr>, Pending)
        | (_, Ready (Inl e)) \<Rightarrow>
            Inr (c\<lparr> uc_permits := uc_permits c + 1, uc_state := UcBinding None \<rparr>, Ready (Inl (to_io_err (uc_display env) e)))
        | (_, Ready (Inr udp)) \<Rightarrow>
            connector_send_to env (c\<lparr> uc_permits := uc_permits c + 1, uc_state := UcBinded udp \<rparr>) buf target)
   | UcIdle None \<Rightarrow> Inl (Panic ''connector shouldn't be None'')
   | UcIdle (Some connector) \<Rightarrow>
       connector_send_to env (c\<lparr> uc_state := UcBinding (Some (uc_connect env connector buf target)) \<rparr>) buf target)"
  by pat_completeness auto
termination
  by (relation "measure (\<lambda>(env, c, _, _). uc_rank (uc_state c))") auto

declare connector_send_to.simps [simp del]

text \<open>The states a connector goes through: \<open>UcIdle\<close> always holds its connector, so the first
  \<open>expect\<close> never fails.\<close>

inductive uc_reach :: "('conn, 'fut, 'u) uc_env \<Rightarrow> ('conn, 'fut, 'u) udp_connector \<Rightarrow> bool"
  for env where
  new: "uc_reach env (uc_new connector)"
| send: "uc_reach env c \<Longrightarrow> connector_send_to env c buf target = Inr (c', r) \<Longrightarrow> uc_reach env c'"
| recv: "uc_reach env c \<Longrightarrow> connector_recv_from env c = Some (c', r) \<Longrightarrow> uc_reach env c'"

definition uc_failed :: "('conn, 'fut, 'u) udp_connector \<Rightarrow> bool" where
  "uc_failed c \<longleftrightarrow> uc_state c = UcBinding None"

definition uc_ok :: "('conn, 'fut, 'u) udp_connector \<Rightarrow> bool" where
  "uc_ok c \<longleftrightarrow> uc_state c \<noteq> UcIdle None \<and> (uc_failed c \<longrightarrow> uc_permits c > 0)
     \<and> (uc_permits c > 0 \<longrightarrow> uc_failed c \<or> (\<exists>u. uc_state c = UcBinded u))"

lemma send_binded:
  "uc_state c = UcBinded u \<Longrightarrow> connector_send_to env c buf target
     = Inr (c\<lparr> uc_state := UcBinded (fst (uc_send env u buf target)) \<rparr>, snd (uc_send env u buf target))"
  by (subst connector_send_to.simps) (simp split: prod.split)

lemma send_binding:
  "uc_state c = UcBinding (Some fut) \<Longrightarrow> connector_send_to env c buf target =
     (case uc_fut_poll env fut of
          (fut', Pending) \<Rightarrow> Inr (c\<lparr> uc_state := UcBinding (Some fut') \<rparr>, Pending)
        | (_, Ready (Inl e)) \<Rightarrow>
            Inr (c\<lparr> uc_permits := uc_permits c + 1, uc_state := UcBinding None \<rparr>, Ready (Inl (to_io_err (uc_display env) e)))
        | (_, Ready (Inr udp)) \<Rightarrow>
            connector_send_to env (c\<lparr> uc_permits := uc_permits c + 1, uc_state := UcBinded udp \<rparr>) buf target)"
  by (subst connector_send_to.simps) simp

lemma send_idle:
  "uc_state c = UcIdle (Some k) \<Longrightarrow> connector_send_to env c buf target
     = connector_send_to env (c\<lparr> uc_state := UcBinding (Some (uc_connect env k buf target)) \<rparr>) buf target"
  by (subst connector_send_to.simps) simp

lemma send_failed:
  "uc_failed c \<Longrightarrow> connector_send_to env c buf target = Inl (Panic ''`async` block resumed after completion'')"
  by (subst connector_send_to.simps) (simp add: uc_failed_def)

lemma uc_ok_send_binding:
  assumes "uc_state c = UcBinding (Some fut)" "uc_ok c" "connector_send_to env c buf target = Inr (c', r)"
  shows "uc_ok c'"
  using assms(2,3) unfolding send_binding [OF assms(1)]
  by (auto simp: uc_ok_def uc_failed_def send_binded assms(1) split: prod.splits poll.splits sum.splits)

lemma uc_ok_send:
  assumes "uc_ok c" "connector_send_to env c buf target = Inr (c', r)"
  shows "uc_ok c'"
proof (cases "uc_state c")
  case (UcIdle k)
  with assms(1) obtain k' where k: "uc_state c = UcIdle (Some k')" by (cases k) (auto simp: uc_ok_def)
  with assms(1) have "uc_permits c = 0" by (auto simp: uc_ok_def uc_failed_def)
  then have "uc_ok (c\<lparr> uc_state := UcBinding (Some (uc_connect env k' buf target)) \<rparr>)"
    by (simp add: uc_ok_def uc_failed_def)
  from uc_ok_send_binding [OF _ this] assms(2) show ?thesis
    by (simp add: send_idle [OF k])
next
  case (UcBinding f)
  then show ?thesis
    using assms uc_ok_send_binding send_failed [of c env buf target] by (cases f) (auto simp: uc_failed_def)
next
  case (UcBinded u)
  then show ?thesis using assms by (auto simp: send_binded uc_ok_def uc_failed_def)
qed

lemma recv_same_state:
  "connector_recv_from env c = Some y \<Longrightarrow>
     (\<exists>u. uc_state c = UcBinded u \<and> y = (c\<lparr> uc_state := UcBinded (fst (uc_recv env u)) \<rparr>, snd (uc_recv env u)))
     \<or> y = (c, Pending) \<and> uc_permits c = 0"
proof (induction env c y rule: connector_recv_from.raw_induct [rotated, consumes 1, case_names step])
  case (step f env c y)
  from step(2) show ?case
    by (auto split: uc_state.splits prod.splits if_splits dest!: step(1))
qed

lemma uc_ok_reach: "uc_reach env c \<Longrightarrow> uc_ok c"
proof (induction rule: uc_reach.induct)
  case (new connector)
  then show ?case by (simp add: uc_new_def uc_ok_def uc_failed_def)
next
  case (send c buf target c' r)
  then show ?case by (blast intro: uc_ok_send)
next
  case (recv c c' r)
  from recv_same_state [OF recv.hyps(2)] recv.IH show ?case
    by (auto simp: uc_ok_def uc_failed_def)
qed

lemma send_binding_total:
  "uc_state c = UcBinding (Some fut) \<Longrightarrow> \<exists>c' r. connector_send_to env c buf target = Inr (c', r)"
  by (auto simp: send_binding send_binded split: prod.split poll.split sum.split)

lemma send_total: "uc_ok c \<Longrightarrow> \<not> uc_failed c \<Longrightarrow> \<exists>c' r. connector_send_to env c buf target = Inr (c', r)"
proof (cases "uc_state c")
  case (UcIdle k)
  moreover assume "uc_ok c"
  ultimately obtain k' where k: "uc_state c = UcIdle (Some k')" by (cases k) (auto simp: uc_ok_def)
  show ?thesis unfolding send_idle [OF k] by (rule send_binding_total) simp
next
  case (UcBinding f)
  moreover assume "\<not> uc_failed c"
  ultimately obtain fut where "uc_state c = UcBinding (Some fut)" by (cases f) (auto simp: uc_failed_def)
  then show ?thesis by (rule send_binding_total)
qed (simp add: send_binded)

text \<open>A connector whose bind has not failed never panics and every poll of it returns: both polls
  have a result in every state it can reach, and \<open>poll_recv_from\<close> waits exactly until the socket is
  bound.\<close>

theorem udp_connector_live:
  assumes "uc_reach env c" "\<not> uc_failed c"
  shows "\<exists>c1 r1 c2 r2. connector_send_to env c buf target = Inr (c1, r1)
    \<and> connector_recv_from env c = Some (c2, r2)
    \<and> (case uc_state c of UcBinded u \<Rightarrow> r2 = snd (uc_recv env u) | _ \<Rightarrow> r2 = Pending \<and> c2 = c)"
proof -
  have ok: "uc_ok c" by (rule uc_ok_reach [OF assms(1)])
  obtain c1 r1 where s: "connector_send_to env c buf target = Inr (c1, r1)"
    using send_total [OF ok assms(2)] by blast
  have "\<exists>c2 r2. connector_recv_from env c = Some (c2, r2)
    \<and> (case uc_state c of UcBinded u \<Rightarrow> r2 = snd (uc_recv env u) | _ \<Rightarrow> r2 = Pending \<and> c2 = c)"
    using ok assms(2)
    by (subst connector_recv_from.simps) (auto simp: uc_ok_def split: uc_state.split prod.split)
  with s show ?thesis by blast
qed

lemma udp_connector_live_witness:
  "\<exists>c1 r1. connector_send_to \<lparr> uc_connect = \<lambda>k b t. k, uc_fut_poll = \<lambda>f. (f, Ready (Inr f)),
      uc_send = \<lambda>u b t. (u, Ready (Inr (length b))), uc_recv = \<lambda>u. (u, Pending),
      uc_local_addr = \<lambda>u. Inl NotImplemented, uc_display = \<lambda>e. [] \<rparr> (uc_new (0 :: nat)) [1] (Domain ''a'' 1) = Inr (c1, r1)"
proof -
  let ?env = "\<lparr> uc_connect = \<lambda>k b t. k, uc_fut_poll = \<lambda>f. (f, Ready (Inr f)),
      uc_send = \<lambda>u b t. (u, Ready (Inr (length b))), uc_recv = \<lambda>u. (u, Pending),
      uc_local_addr = \<lambda>u. Inl NotImplemented, uc_display = \<lambda>e. [] \<rparr> :: (nat, nat, nat) uc_env"
  have "uc_reach ?env (uc_new 0)" "\<not> uc_failed (uc_new 0 :: (nat, nat, nat) udp_connector)"
    by (rule uc_reach.new) (simp add: uc_failed_def uc_new_def)
  from udp_connector_live [OF this, of "[1]" "Domain ''a'' 1"] show ?thesis by blast
qed

text \<open>After a bind that failed, the connector is stuck for good: the next \<open>poll_send_to\<close> panics
  because it polls the completed future again, and \<open>poll_recv_from\<close> spins without ever returning.\<close>

theorem udp_connector_failed_bind:
  assumes "uc_reach env c" "uc_failed c"
  shows "\<not> is_ok (connector_send_to env c buf target) \<and> connector_recv_from env c = None"
proof -
  have "uc_permits c > 0" using uc_ok_reach [OF assms(1)] assms(2) by (simp add: uc_ok_def)
  then have "connector_recv_from env c = None"
    using recv_same_state [of env c] assms(2) by (cases "connector_recv_from env c") (auto simp: uc_failed_def)
  then show ?thesis by (simp add: send_failed [OF assms(2)])
qed

lemma udp_connector_failed_bind_witness:
  "\<exists>c. connector_recv_from \<lparr> uc_connect = \<lambda>k b t. k, uc_fut_poll = \<lambda>f. (f, Ready (Inl NotMatched)),
      uc_send = \<lambda>u b t. (u, Ready (Inr (length b))), uc_recv = \<lambda>u. (u, Pending),
      uc_local_addr = \<lambda>u. Inl NotImplemented, uc_display = \<lambda>e. [] \<rparr> (c :: (nat, nat, nat) udp_connector) = None"
proof -
  let ?env = "\<lparr> uc_connect = \<lambda>k b t. k, uc_fut_poll = \<lambda>f. (f, Ready (Inl NotMatched)),
      uc_send = \<lambda>u b t. (u, Ready (Inr (length b))), uc_recv = \<lambda>u. (u, Pending),
      uc_local_addr = \<lambda>u. Inl NotImplemented, uc_display = \<lambda>e. [] \<rparr> :: (nat, nat, nat) uc_env"
  let ?c = "\<lparr> uc_permits = 1, uc_state = UcBinding None \<rparr> :: (nat, nat, nat) udp_connector"
  have "connector_send_to ?env (uc_new 0) [1] (Domain ''a'' 1)
      = Inr (?c, Ready (Inl (to_io_err (\<lambda>e. []) NotMatched)))"
    by (simp add: send_idle send_binding uc_new_def)
  then have "uc_reach ?env ?c" by (rule uc_reach.send [OF uc_reach.new])
  moreover have "uc_failed ?c" by (simp add: uc_failed_def)
  ultimately show ?thesis using udp_connector_failed_bind [of ?env ?c] by blast
qed

end
