(* ===== verification/Rule_Net.thy ===== *)
theory Rule_Net
  imports Rule_Matcher Udp_Connector
begin

section \<open>The rule net\<close>

text \<open>
  \<open>rd-std/src/rule/rule_net.rs\<close>: the first rule whose matcher accepts the destination decides the
  net, and an LRU cache remembers the index for a match context. The cache is the \<open>LruCache\<close> of the
  \<open>lru_time_cache\<close> crate: its \<open>get\<close> and \<open>insert\<close> are arguments, and the locale \<open>rule_cache\<close> states what the
  rule net relies on: a lookup returns what is stored, and an operation adds nothing but the inserted
  pair (entries may be evicted). The interpretation is a bounded list in order of use.
\<close>

record ('c, 'n) rule_item =
  rl_target_name :: string
  rl_target :: 'n
  rl_matcher :: "'c config_matcher"

record ('c, 'n, 'k) rule =
  rule_items :: "('c, 'n) rule_item list"
  rule_cache :: 'k

text \<open>\<open>Rule::new\<close>: the targets must have been resolved; \<open>to_string\<close> renders their JSON reference.\<close>

fun rule_items_of :: "(json \<Rightarrow> string) \<Rightarrow> ('c, 'n) config_rule_item list \<Rightarrow> ('c, 'n) rule_item list may_panic" where
  "rule_items_of to_string [] = Inr []"
| "rule_items_of to_string (i # is) =
     rbind (value_cloned (ri_target i)) (\<lambda>net.
     rbind (rule_items_of to_string is) (\<lambda>rs.
     Inr (\<lparr> rl_target_name = to_string (represent (ri_target i)), rl_target = net, rl_matcher = ri_matcher i \<rparr> # rs)))"

definition rule_new :: "(json \<Rightarrow> string) \<Rightarrow> (nat \<Rightarrow> 'k) \<Rightarrow> nat \<Rightarrow> ('c, 'n) config_rule_item list \<Rightarrow> ('c, 'n, 'k) rule may_panic" where
  "rule_new to_string with_capacity lru_cache_size items =
     rbind (rule_items_of to_string items) (\<lambda>rs.
     Inr \<lparr> rule_items = rs, rule_cache = with_capacity lru_cache_size \<rparr>)"

definition default_lru_cache_size :: nat where
  "default_lru_cache_size = 32"

text \<open>The loop over the rules: the index and the rule of the first match.\<close>

fun scan_rules ::
  "'c rule_env \<Rightarrow> nat \<Rightarrow> ('c, 'n) rule_item list \<Rightarrow> match_context \<Rightarrow> (nat \<times> ('c, 'n) rule_item) option may_panic" where
  "scan_rules env i [] mc = Inr None"
| "scan_rules env i (r # rs) mc =
     rbind (match_rule env (rl_matcher r) mc) (\<lambda>b.
     if b then Inr (Some (i, r)) else scan_rules env (Suc i) rs mc)"

type_synonym ('k) cache_get = "match_context \<Rightarrow> 'k \<Rightarrow> 'k \<times> nat option"
type_synonym ('k) cache_insert = "match_context \<Rightarrow> nat \<Rightarrow> 'k \<Rightarrow> 'k"

definition get_rule ::
  "'c rule_env \<Rightarrow> 'k cache_get \<Rightarrow> 'k cache_insert \<Rightarrow> ('c, 'n, 'k) rule \<Rightarrow> conn_context \<Rightarrow> address
    \<Rightarrow> (('c, 'n, 'k) rule \<times> ('c, 'n) rule_item rd) may_panic" where
  "get_rule env cget cins r ctx target =
     (case from_context_address env ctx target of
        Inl e \<Rightarrow> Inr (r, Inl e)
      | Inr mc \<Rightarrow>
          (case cget mc (rule_cache r) of
             (k, Some i) \<Rightarrow>
               if i < length (rule_items r) then Inr (r\<lparr> rule_cache := k \<rparr>, Inr (rule_items r ! i))
               else Inl (Panic ''index out of bounds'')
           | (k, None) \<Rightarrow>
               rbind (scan_rules env 0 (rule_items r) mc) (\<lambda>found.
               case found of
                 Some (i, item) \<Rightarrow> Inr (r\<lparr> rule_cache := cins mc i k \<rparr>, Inr item)
               | None \<Rightarrow> Inr (r\<lparr> rule_cache := k \<rparr>, Inl NotMatched))))"

text \<open>The two operations of the net. A net of the model connects and binds through the functions
  given; a context travels along.\<close>

definition rule_tcp_connect ::
  "'c rule_env \<Rightarrow> 'k cache_get \<Rightarrow> 'k cache_insert \<Rightarrow> ('n \<Rightarrow> conn_context \<Rightarrow> address \<Rightarrow> conn_context \<times> 't rd)
    \<Rightarrow> ('c, 'n, 'k) rule \<Rightarrow> conn_context \<Rightarrow> address \<Rightarrow> (('c, 'n, 'k) rule \<times> conn_context \<times> 't rd) may_panic" where
  "rule_tcp_connect env cget cins connect r ctx addr =
     rbind (get_rule env cget cins r ctx addr) (\<lambda>(r', res).
     case res of
       Inl e \<Rightarrow> Inr (r', ctx, Inl e)
     | Inr item \<Rightarrow> (let (ctx', t) = connect (rl_target item) ctx addr in Inr (r', ctx', t)))"

text \<open>The future the connector of \<open>udp_bind\<close> makes: choose the rule for the first packet, bind on its
  net, send the packet there.\<close>

definition rule_udp_connect ::
  "'c rule_env \<Rightarrow> 'k cache_get \<Rightarrow> 'k cache_insert \<Rightarrow> ('n \<Rightarrow> conn_context \<Rightarrow> address \<Rightarrow> 'u rd)
    \<Rightarrow> ('u \<Rightarrow> bytes \<Rightarrow> address \<Rightarrow> 'u \<times> nat io) \<Rightarrow> ('c, 'n, 'k) rule \<Rightarrow> conn_context \<Rightarrow> address
    \<Rightarrow> bytes \<Rightarrow> address \<Rightarrow> 'u rd may_panic" where
  "rule_udp_connect env cget cins bind send r ctx bind_addr buf target =
     rbind (get_rule env cget cins r ctx target) (\<lambda>(r', res).
     Inr (rbind res (\<lambda>item.
       rbind (bind (rl_target item) ctx bind_addr) (\<lambda>u.
       case send u buf target of (u', s) \<Rightarrow> rbind (map_err IO s) (\<lambda>_. Inr u')))))"

subsection \<open>The cache interface\<close>

text \<open>The rule that decides, without a cache.\<close>

definition first_match :: "'c rule_env \<Rightarrow> ('c, 'n) rule_item list \<Rightarrow> match_context \<Rightarrow> nat option" where
  "first_match env rs mc = (case filter (\<lambda>i. matches env (rl_matcher (rs ! i)) mc) [0..<length rs] of
     [] \<Rightarrow> None | i # _ \<Rightarrow> Some i)"

definition rules_ok :: "('c, 'n) rule_item list \<Rightarrow> bool" where
  "rules_ok rs \<longleftrightarrow> list_all (\<lambda>r. matcher_ok (rl_matcher r)) rs"

lemma first_match_Nil [simp]: "first_match env [] mc = None"
  by (simp add: first_match_def)

lemma first_match_Cons:
  "first_match env (r # rs) mc =
     (if matches env (rl_matcher r) mc then Some 0 else map_option Suc (first_match env rs mc))"
proof -
  have *: "[0..<Suc (length rs)] = 0 # map Suc [0..<length rs]" by (simp add: map_Suc_upt upt_conv_Cons del: upt_Suc)
  show ?thesis
    by (simp add: first_match_def * filter_map comp_def del: upt_Suc split: list.split)
qed

lemma first_match_bound: "first_match env rs mc = Some i \<Longrightarrow> i < length rs"
  by (induction rs arbitrary: i) (auto simp: first_match_Cons split: if_splits)

lemma scan_rules_first:
  "rules_ok rs \<Longrightarrow> scan_rules env n rs mc
     = Inr (map_option (\<lambda>i. (n + i, rs ! i)) (first_match env rs mc))"
proof (induction rs arbitrary: n)
  case (Cons r rs)
  then have "matcher_ok (rl_matcher r)" "rules_ok rs" by (simp_all add: rules_ok_def)
  with Cons.IH [of "Suc n"] show ?case
    by (auto simp: first_match_Cons match_rule_matches option.map_comp comp_def
        intro!: arg_cong [where f = Inr] option.map_cong)
qed simp

locale rule_cache_laws =
  fixes cget :: "'k cache_get" and cins :: "'k cache_insert" and content :: "'k \<Rightarrow> match_context \<Rightarrow> nat option"
    and k0 :: 'k
  assumes content_empty: "content k0 mc = None"
    and get_content: "snd (cget mc k) = content k mc"
    and get_keeps: "content (fst (cget mc k)) mc' = Some i \<Longrightarrow> content k mc' = Some i"
    and insert_keeps: "content (cins mc i k) mc' = Some j \<Longrightarrow> (if mc' = mc then j = i else content k mc' = Some j)"
begin

text \<open>Every stored index is the decision for its context.\<close>

definition cache_ok :: "'c rule_env \<Rightarrow> ('c, 'n) rule_item list \<Rightarrow> 'k \<Rightarrow> bool" where
  "cache_ok env rs k \<longleftrightarrow> (\<forall>mc i. content k mc = Some i \<longrightarrow> first_match env rs mc = Some i)"

lemma cache_ok_empty: "cache_ok env rs k0"
  by (simp add: cache_ok_def content_empty)

lemma cache_ok_get: "cache_ok env rs k \<Longrightarrow> cache_ok env rs (fst (cget mc k))"
  by (auto simp: cache_ok_def dest: get_keeps)

lemma cache_ok_insert:
  "cache_ok env rs k \<Longrightarrow> first_match env rs mc = Some i \<Longrightarrow> cache_ok env rs (cins mc i k)"
  unfolding cache_ok_def by (metis insert_keeps option.inject)

lemma get_rule_sound:
  assumes "rules_ok (rule_items r)" "cache_ok env (rule_items r) (rule_cache r)"
    "from_context_address env ctx target = Inr mc"
  shows "\<exists>k. get_rule env cget cins r ctx target
      = Inr (r\<lparr> rule_cache := k \<rparr>, case first_match env (rule_items r) mc of
          Some i \<Rightarrow> Inr (rule_items r ! i) | None \<Rightarrow> Inl NotMatched)
    \<and> cache_ok env (rule_items r) k"
proof -
  obtain k hit where g: "cget mc (rule_cache r) = (k, hit)" by fastforce
  have k: "cache_ok env (rule_items r) k" using cache_ok_get [OF assms(2), of mc] g by simp
  have hit: "content (rule_cache r) mc = hit" using get_content [of mc "rule_cache r"] g by simp
  show ?thesis
  proof (cases hit)
    case (Some i)
    with hit assms(2) have "first_match env (rule_items r) mc = Some i" by (simp add: cache_ok_def)
    with Some k first_match_bound [OF this] show ?thesis
      by (auto simp: get_rule_def assms(3) g)
  next
    case None
    with k show ?thesis
      using cache_ok_insert [OF k, of mc]
      by (auto simp: get_rule_def assms(3) g scan_rules_first [OF assms(1)] split: option.split)
  qed
qed

end

subsection \<open>An LRU list\<close>

text \<open>The documented behaviour of \<open>LruCache::with_capacity\<close>: the entries in order of use, a lookup
  moves its entry to the front, an insertion that exceeds the capacity drops the last.\<close>

record lru =
  lru_cap :: nat
  lru_entries :: "(match_context \<times> nat) list"

definition lru_new :: "nat \<Rightarrow> lru" where
  "lru_new n = \<lparr> lru_cap = n, lru_entries = [] \<rparr>"

definition lru_content :: "lru \<Rightarrow> match_context \<Rightarrow> nat option" where
  "lru_content c k = map_of (lru_entries c) k"

definition lru_get :: "lru cache_get" where
  "lru_get k c = (case map_of (lru_entries c) k of
     None \<Rightarrow> (c, None)
   | Some v \<Rightarrow> (c\<lparr> lru_entries := (k, v) # filter (\<lambda>e. fst e \<noteq> k) (lru_entries c) \<rparr>, Some v))"

definition lru_insert :: "lru cache_insert" where
  "lru_insert k v c = c\<lparr> lru_entries := take (lru_cap c) ((k, v) # filter (\<lambda>e. fst e \<noteq> k) (lru_entries c)) \<rparr>"

interpretation lruc: rule_cache_laws lru_get lru_insert lru_content "lru_new n" for n
proof unfold_locales
  fix mc mc' :: match_context and i j :: nat and k :: lru
  show "lru_content (lru_new n) mc = None" by (simp add: lru_content_def lru_new_def)
  show "snd (lru_get mc k) = lru_content k mc"
    by (simp add: lru_get_def lru_content_def split: option.split)
  show "lru_content (fst (lru_get mc k)) mc' = Some i \<Longrightarrow> lru_content k mc' = Some i"
    by (auto simp: lru_get_def lru_content_def map_of_filter_ne split: option.splits if_splits)
  assume "lru_content (lru_insert mc i k) mc' = Some j"
  then have "map_of ((mc, i) # filter (\<lambda>e. fst e \<noteq> mc) (lru_entries k)) mc' = Some j"
    unfolding lru_content_def lru_insert_def by (metis lru.select_convs(2) lru.surjective lru.update_convs(2) map_of_take)
  then show "if mc' = mc then j = i else lru_content k mc' = Some j"
    by (auto simp: lru_content_def map_of_filter_ne split: if_splits)
qed

subsection \<open>The rule that decides\<close>

text \<open>The caches that concurrent lookups produce: each takes the lock once to look its context up and,
  after a scan that found a rule, once more to store the index, with other lookups in between.\<close>

inductive cache_reach ::
  "'c rule_env \<Rightarrow> 'k cache_get \<Rightarrow> 'k cache_insert \<Rightarrow> 'k \<Rightarrow> ('c, 'n) rule_item list \<Rightarrow> 'k \<Rightarrow> bool"
  for env cget cins k0 rs where
  start: "cache_reach env cget cins k0 rs k0"
| probe: "cache_reach env cget cins k0 rs k \<Longrightarrow> cache_reach env cget cins k0 rs (fst (cget mc k))"
| store: "cache_reach env cget cins k0 rs k \<Longrightarrow> scan_rules env 0 rs mc = Inr (Some (i, item))
    \<Longrightarrow> cache_reach env cget cins k0 rs (cins mc i k)"

lemma cache_reach_ok:
  assumes "rule_cache_laws cget cins content k0" "rules_ok rs" "cache_reach env cget cins k0 rs k"
  shows "rule_cache_laws.cache_ok content env rs k"
  using assms(3)
proof (induction rule: cache_reach.induct)
  case start
  show ?case by (rule rule_cache_laws.cache_ok_empty [OF assms(1)])
next
  case (probe k mc)
  show ?case by (rule rule_cache_laws.cache_ok_get [OF assms(1) probe.IH])
next
  case (store k mc i item)
  then have "first_match env rs mc = Some i" by (auto simp: scan_rules_first [OF assms(2)])
  then show ?case by (rule rule_cache_laws.cache_ok_insert [OF assms(1) store.IH])
qed

lemma find_first_match:
  "find (\<lambda>i. matches env (rl_matcher i) mc) rs = map_option ((!) rs) (first_match env rs mc)"
  by (induction rs) (auto simp: first_match_Cons option.map_comp comp_def intro: option.map_cong)

text \<open>C4: Whatever lookups ran before, also interleaved with others, \<open>get_rule\<close> does not panic and
  returns the first rule of the list whose matcher accepts the destination, or \<open>NotMatched\<close>: the
  cache never changes the decision.\<close>

theorem get_rule_first_match:
  assumes "rule_cache_laws cget cins content k0" "rules_ok (rule_items r)"
    "cache_reach env cget cins k0 (rule_items r) (rule_cache r)"
    "from_context_address env ctx target = Inr mc"
  shows "\<exists>r'. get_rule env cget cins r ctx target
      = Inr (r', case find (\<lambda>i. matches env (rl_matcher i) mc) (rule_items r) of
          Some item \<Rightarrow> Inr item | None \<Rightarrow> Inl NotMatched)
    \<and> rule_items r' = rule_items r"
  using rule_cache_laws.get_rule_sound [OF assms(1,2) cache_reach_ok [OF assms(1-3)] assms(4)]
  by (auto simp: find_first_match split: option.split)

definition env0 :: "nat rule_env" where
  "env0 = \<lparr> contains_addr = \<lambda>c ip. False, parse_v4_cidr = \<lambda>s. None, parse_v6_cidr = \<lambda>s. None,
     geo_lookup = \<lambda>ip. Inl [], de_socket_addr = \<lambda>j. Inl [], de_address_domain = \<lambda>j. Inl [] \<rparr>"

definition rule0 :: "(nat, nat, lru) rule" where
  "rule0 = \<lparr> rule_items = [\<lparr> rl_target_name = ''a'', rl_target = 1, rl_matcher = GeoIpM ''CN'' \<rparr>,
     \<lparr> rl_target_name = ''b'', rl_target = 2, rl_matcher = AnyM \<rparr>], rule_cache = lru_new 1 \<rparr>"

lemma from_context_new:
  "from_context_address env ctx_new addr = Inr \<lparr> mc_address = to_normalized addr, mc_src_ip_addr = None,
     mc_dest_socket_addr = None, mc_dest_domain = None \<rparr>"
  by (simp add: from_context_address_def ctx_get_def ctx_new_def)

lemma rules_ok_rule0: "rules_ok (rule_items rule0)"
  by (simp add: rules_ok_def rule0_def)

lemma matches_rule0:
  "find (\<lambda>i. matches env0 (rl_matcher i) mc) (rule_items rule0)
     = Some \<lparr> rl_target_name = ''b'', rl_target = 2, rl_matcher = AnyM \<rparr>"
  by (simp add: rule0_def matches_def env0_def geoip_test_def)

lemma get_rule_first_match_witness:
  "\<exists>r' item. get_rule env0 lru_get lru_insert rule0 ctx_new (Domain ''example.com'' 80) = Inr (r', Inr item)
    \<and> rl_target item = 2"
proof -
  have c: "cache_reach env0 lru_get lru_insert (lru_new 1) (rule_items rule0) (rule_cache rule0)"
    using cache_reach.start [of env0 lru_get lru_insert "lru_new 1"] by (simp add: rule0_def)
  from get_rule_first_match [OF lruc.rule_cache_laws_axioms rules_ok_rule0 c from_context_new,
      of "Domain ''example.com'' 80"]
  show ?thesis by (auto simp: matches_rule0)
qed

subsection \<open>Datagrams\<close>

text \<open>A socket that records what it sends.\<close>

type_synonym sent_log = "(bytes \<times> address) list"

definition log_send :: "sent_log \<Rightarrow> bytes \<Rightarrow> address \<Rightarrow> sent_log \<times> nat io" where
  "log_send u buf target = (u @ [(buf, target)], Inr (length buf))"

text \<open>\<open>udp_bind\<close> of the rule net: a connector whose future is \<open>rule_udp_connect\<close>, here over nets that
  bind a recording socket at once.\<close>

definition rule_udp_env ::
  "'c rule_env \<Rightarrow> 'k cache_get \<Rightarrow> 'k cache_insert \<Rightarrow> ('c, 'n, 'k) rule \<Rightarrow> conn_context \<Rightarrow> address
    \<Rightarrow> (unit, sent_log rd may_panic, sent_log) uc_env" where
  "rule_udp_env env cget cins r ctx bind_addr =
     \<lparr> uc_connect = \<lambda>_ buf target. rule_udp_connect env cget cins (\<lambda>_ _ _. Inr []) log_send r ctx bind_addr buf target,
       uc_fut_poll = \<lambda>f. (f, Ready (case f of Inr x \<Rightarrow> x | Inl _ \<Rightarrow> Inl Timeout)),
       uc_send = \<lambda>u buf target. (case log_send u buf target of (u', s) \<Rightarrow> (u', Ready s)),
       uc_recv = \<lambda>u. (u, Pending), uc_local_addr = \<lambda>u. Inl NotImplemented, uc_display = \<lambda>e. [] \<rparr>"

text \<open>The first datagram sent through a UDP socket of the rule net is sent twice: the future of the
  connector sends it, and \<open>poll_send_to\<close> then sends it again on the socket it has just bound.\<close>

theorem rule_udp_first_packet_twice:
  assumes "get_rule env cget cins r ctx target = Inr (r', Inr item)"
  shows "\<exists>c. connector_send_to (rule_udp_env env cget cins r ctx bind_addr) (uc_new ()) buf target
      = Inr (c, Ready (Inr (length buf)))
    \<and> uc_state c = UcBinded [(buf, target), (buf, target)]"
  by (simp add: send_idle send_binding send_binded uc_new_def rule_udp_env_def rule_udp_connect_def
      assms log_send_def)

lemma rule_udp_first_packet_twice_witness:
  "\<exists>c. connector_send_to (rule_udp_env env0 lru_get lru_insert rule0 ctx_new (Domain ''0.0.0.0'' 0)) (uc_new ())
        [1, 2] (Domain ''example.com'' 53) = Inr (c, Ready (Inr 2))
    \<and> uc_state c = UcBinded [([1, 2], Domain ''example.com'' 53), ([1, 2], Domain ''example.com'' 53)]"
proof -
  have "\<exists>k item. get_rule env0 lru_get lru_insert rule0 ctx_new (Domain ''example.com'' 53) = Inr (k, Inr item)"
    by (simp add: get_rule_def from_context_new rule0_def lru_get_def lru_new_def match_rule_def env0_def
        mc_get_socket_addr_def geoip_test_def split: address.split option.split sum.split)
  then obtain r' item where "get_rule env0 lru_get lru_insert rule0 ctx_new (Domain ''example.com'' 53) = Inr (r', Inr item)"
    by blast
  from rule_udp_first_packet_twice [OF this, of "Domain ''0.0.0.0'' 0" "[1, 2]"] show ?thesis
    by (simp add: eval_nat_numeral)
qed

end
