(* ===== verification/Engine_Config.thy ===== *)
theory Engine_Config
  imports Config_Values
begin

section \<open>The engine's configuration\<close>

text \<open>
  \<open>rabbit-digger/src/config.rs\<close>, the merge importer \<open>src/config/importer/merge.rs\<close> and the record of the
  user's choices \<open>src/config/select_map.rs\<close>. An \<open>IndexMap\<close> keeps the position of a key that is inserted
  again, which is what \<open>hm_insert\<close> does.
\<close>

record cfg_net =
  net_type :: string
  net_opt :: json

record cfg_server =
  srv_type :: string
  srv_opt :: json

record config =
  cfg_id :: string
  cfg_nets :: "(string, cfg_net) hmap"
  cfg_servers :: "(string, cfg_server) hmap"

definition net_new :: "string \<Rightarrow> json \<Rightarrow> cfg_net" where
  "net_new t opt = \<lparr> net_type = t, net_opt = opt \<rparr>"

definition server_new :: "string \<Rightarrow> json \<Rightarrow> cfg_server" where
  "server_new t opt = \<lparr> srv_type = t, srv_opt = opt \<rparr>"

fun hm_extend :: "('k, 'v) hmap \<Rightarrow> ('k \<times> 'v) list \<Rightarrow> ('k, 'v) hmap" where
  "hm_extend m [] = m"
| "hm_extend m ((k, v) # kvs) = hm_extend (hm_insert k v m) kvs"

definition config_merge :: "config \<Rightarrow> config \<Rightarrow> config" where
  "config_merge c other = c\<lparr> cfg_nets := hm_extend (cfg_nets c) (cfg_nets other),
     cfg_servers := hm_extend (cfg_servers c) (cfg_servers other) \<rparr>"

text \<open>\<open>local_opt\<close> is the serialized default configuration of the local net.\<close>

definition init_default_net :: "json \<Rightarrow> (string, cfg_net) hmap \<Rightarrow> (string, cfg_net) hmap" where
  "init_default_net local_opt m =
     (let add = (\<lambda>k n m. if hm_get m k = None then hm_insert k n m else m) in
      add ''local'' (net_new ''local'' local_opt)
       (add ''blackhole'' (net_new ''blackhole'' JNull)
         (add ''noop'' (net_new ''noop'' JNull) m)))"

text \<open>Serializing a net: the type and the members of its options in one object.\<close>

definition net_to_value :: "cfg_net \<Rightarrow> json" where
  "net_to_value n = (case net_opt n of
     JObj m \<Rightarrow> JObj (hm_extend [(''type'', JStr (net_type n))] m)
   | _ \<Rightarrow> JObj [(''type'', JStr (net_type n))])"

lemma hm_get_extend:
  "hm_get (hm_extend m kvs) k = (case hm_get (rev kvs) k of Some v \<Rightarrow> Some v | None \<Rightarrow> hm_get m k)"
proof (induction m kvs rule: hm_extend.induct)
  case (1 m)
  then show ?case by simp
next
  case (2 m j v kvs)
  then show ?case by (auto simp: hm_get_def [of "rev _ @ _"] hm_get_def [of "rev _"] map_add_def split: option.split)
qed

lemma hm_ok_extend [simp]: "hm_ok m \<Longrightarrow> hm_ok (hm_extend m kvs)"
  by (induction m kvs rule: hm_extend.induct) simp_all

lemma hm_get_rev: "hm_ok kvs \<Longrightarrow> hm_get (rev kvs) k = hm_get kvs k"
  unfolding hm_get_def hm_ok_def by (rule map_of_inject_set [THEN iffD2, THEN fun_cong]) (simp_all add: rev_map [symmetric])

lemma config_merge_get:
  assumes "hm_ok (cfg_nets other)"
  shows "hm_get (cfg_nets (config_merge c other)) k
    = (case hm_get (cfg_nets other) k of Some n \<Rightarrow> Some n | None \<Rightarrow> hm_get (cfg_nets c) k)"
  by (simp add: config_merge_def hm_get_extend hm_get_rev [OF assms])

lemma init_default_net_get:
  "hm_get (init_default_net opt m) k =
     (case hm_get m k of Some n \<Rightarrow> Some n
      | None \<Rightarrow> if k = ''noop'' then Some (net_new ''noop'' JNull)
          else if k = ''blackhole'' then Some (net_new ''blackhole'' JNull)
          else if k = ''local'' then Some (net_new ''local'' opt) else None)"
  by (auto simp: init_default_net_def Let_def split: option.split)

subsection \<open>Remembered selections\<close>

fun json_strs :: "json \<Rightarrow> string list" where
  "json_strs (JArr js) = List.map_filter as_str js"
| "json_strs _ = []"

definition apply_selection :: "string \<Rightarrow> cfg_net \<Rightarrow> cfg_net" where
  "apply_selection selected n =
     (if net_type n = ''select'' then
        (case as_object (net_opt n) of
           Some m \<Rightarrow>
             (case hm_get m ''list'' of
                Some l \<Rightarrow> if selected \<in> set (json_strs l) then n\<lparr> net_opt := JObj (hm_insert ''selected'' (JStr selected) m) \<rparr> else n
              | None \<Rightarrow> n)
         | None \<Rightarrow> n)
      else n)"

fun select_map_apply :: "(string, string) hmap \<Rightarrow> config \<Rightarrow> config" where
  "select_map_apply [] c = c"
| "select_map_apply ((net, selected) # m) c =
     select_map_apply m (case hm_get (cfg_nets c) net of
         Some n \<Rightarrow> c\<lparr> cfg_nets := hm_insert net (apply_selection selected n) (cfg_nets c) \<rparr>
       | None \<Rightarrow> c)"

lemma select_map_apply_get:
  "hm_ok m \<Longrightarrow> hm_get (cfg_nets (select_map_apply m c)) k =
     (case hm_get (cfg_nets c) k of
        None \<Rightarrow> None
      | Some n \<Rightarrow> Some (case hm_get m k of Some s \<Rightarrow> apply_selection s n | None \<Rightarrow> n))"
proof (induction m c rule: select_map_apply.induct)
  case (2 net sel m c)
  then have "hm_ok m" "hm_get m net = None"
    by (auto simp: hm_ok_def hm_get_def map_of_eq_None_iff)
  with "2.IH" show ?case
    by (auto simp: hm_get_def [of "_ # _"] hm_get_def [of m] split: option.split)
qed (simp split: option.split)

end
