(* ===== verification/Clash_Importer.thy ===== *)
theory Clash_Importer
  imports Engine_Config Rule_Matcher
begin

section \<open>The Clash importer\<close>

text \<open>
  \<open>src/config/importer/clash.rs\<close>: proxies, proxy groups and rules of a Clash configuration become nets
  of the engine's configuration. Deserializing YAML and JSON into the parameter structs is derived code:
  the functions of \<open>clash_env\<close> stand for it, and \<open>get_content\<close> for fetching a rule provider. Every
  \<open>anyhow!\<close> of the file is a constructor of \<open>clash_error\<close>.
\<close>

datatype clash_error =
    Deserialize string
  | InvalidPort string
  | UnsupportedPlugin string
  | UnsupportedVlessNetwork string
  | VlessWithoutTls
  | UnsupportedProxyType string
  | NameNotFound string
  | ProxyNotInGroup string string
  | UnsupportedGroupType string
  | BadRule
  | UnsupportedRulePrefix string
  | BadCidr rd_error
  | FetchError string

record clash =
  rule_name :: "string option"
  clash_prefix :: "string option"
  direct :: "string option"
  reject :: "string option"
  clash_net :: "string option"
  disable_proxy_group :: bool
  select :: "string option"
  name_map :: "(string, string) hmap"

record proxy =
  proxy_name :: string
  proxy_type :: string
  proxy_opt :: json

datatype port_value = PortNumber u16 | PortString string

record proxy_group =
  group_name :: string
  proxy_group_type :: string
  group_proxies :: "string list"

record rule_provider =
  provider_type :: string
  behavior :: string
  provider_url :: string
  provider_path :: string
  provider_interval :: u64

record clash_config =
  proxies :: "proxy list"
  proxy_groups :: "proxy_group list"
  rules :: "string list"
  rule_providers :: "(string, rule_provider) hmap"

record ss_param =
  ss_server :: string
  ss_port :: port_value
  ss_cipher :: string
  ss_password :: string
  ss_udp :: "bool option"
  ss_plugin :: "string option"
  ss_plugin_opts :: "(string, string) hmap option"

record tls_param =
  tls_server :: string
  tls_port :: port_value
  tls_password :: string
  tls_sni :: "string option"
  tls_skip_cert_verify :: "bool option"

record vless_param =
  vl_server :: string
  vl_port :: port_value
  vl_uuid :: string
  vl_udp :: "bool option"
  vl_network :: "string option"
  vl_flow :: "string option"
  vl_tls :: "bool option"
  vl_servername :: "string option"
  vl_sni :: "string option"
  vl_skip_cert_verify :: "bool option"
  vl_client_fingerprint :: "string option"
  vl_reality_opts :: "(string \<times> string option) option"

record host_param =
  hp_server :: string
  hp_port :: port_value

datatype import_source = SrcPath string | SrcPoll string "u64 option"

record 'c clash_env =
  de_ss :: "json \<Rightarrow> string + ss_param"
  de_trojan :: "json \<Rightarrow> string + tls_param"
  de_vless :: "json \<Rightarrow> string + vless_param"
  de_anytls :: "json \<Rightarrow> string + tls_param"
  de_host :: "json \<Rightarrow> string + host_param"
  de_clash_config :: "string \<Rightarrow> string + clash_config"
  de_rule_set :: "string \<Rightarrow> string + string list"
  get_content :: "import_source \<Rightarrow> string + string"
  ser_rules :: "('c, unit) config_rule_item list \<Rightarrow> json"
  clash_rule_env :: "'c rule_env"

fun into_u16 :: "port_value \<Rightarrow> clash_error + u16" where
  "into_u16 (PortNumber p) = Inr p"
| "into_u16 (PortString s) = (case parse_uint 65536 s of None \<Rightarrow> Inl (InvalidPort s) | Some n \<Rightarrow> Inr (word_of_nat n))"

definition ghost_net :: cfg_net where
  "ghost_net = net_new ''alias'' (JObj [(''net'', JStr ''noop'')])"

definition with_net :: "cfg_net \<Rightarrow> json option \<Rightarrow> cfg_net" where
  "with_net n target_net = (case (as_object (net_opt n), target_net) of
     (Some m, Some t) \<Rightarrow> n\<lparr> net_opt := JObj (hm_insert ''net'' t m) \<rparr>
   | _ \<Rightarrow> n)"

definition proxy_target_net :: "clash \<Rightarrow> json option" where
  "proxy_target_net c = map_option JStr (clash_net c)"

definition unwrap_or :: "'a \<Rightarrow> 'a option \<Rightarrow> 'a" where
  "unwrap_or d x = (case x of Some v \<Rightarrow> v | None \<Rightarrow> d)"

definition base_proxy_net :: "clash \<Rightarrow> cfg_net" where
  "base_proxy_net c = net_new ''alias'' (JObj [(''net'', JStr (unwrap_or ''local'' (clash_net c)))])"

definition host_port :: "string \<Rightarrow> u16 \<Rightarrow> string" where
  "host_port server p = server @ '':'' @ show_nat (unat p)"

subsection \<open>Proxies\<close>

definition ss_to_net :: "'c clash_env \<Rightarrow> json \<Rightarrow> json option \<Rightarrow> clash_error + cfg_net" where
  "ss_to_net env opt target_net =
     rbind (map_err Deserialize (de_ss env opt)) (\<lambda>params.
     rbind (into_u16 (ss_port params)) (\<lambda>p.
     let fields = [(''server'', JStr (host_port (ss_server params) p)), (''cipher'', JStr (ss_cipher params)),
                   (''password'', JStr (ss_password params)), (''udp'', JBool (unwrap_or False (ss_udp params)))] in
     case (ss_plugin params, ss_plugin_opts params) of
       (Some plugin, Some plugin_opts) \<Rightarrow>
         if plugin = ''obfs'' then
           let obfs_mode = unwrap_or [] (hm_get plugin_opts ''mode'');
               obfs_net = with_net (net_new ''obfs'' (JObj [(''obfs_mode'', JStr obfs_mode)])) target_net
           in Inr (net_new ''shadowsocks'' (JObj (fields @ [(''net'', net_to_value obfs_net)])))
         else Inl (UnsupportedPlugin plugin)
     | _ \<Rightarrow> Inr (with_net (net_new ''shadowsocks'' (JObj fields)) target_net)))"

definition tls_to_net :: "string \<Rightarrow> (json \<Rightarrow> string + tls_param) \<Rightarrow> json \<Rightarrow> json option \<Rightarrow> clash_error + cfg_net" where
  "tls_to_net kind de opt target_net =
     rbind (map_err Deserialize (de opt)) (\<lambda>params.
     rbind (into_u16 (tls_port params)) (\<lambda>p.
     Inr (with_net (net_new kind (JObj
       [(''server'', JStr (host_port (tls_server params) p)), (''password'', JStr (tls_password params)),
        (''sni'', JStr (unwrap_or (tls_server params) (tls_sni params))),
        (''skip_cert_verify'', JBool (unwrap_or False (tls_skip_cert_verify params)))])) target_net)))"

definition vless_to_net :: "'c clash_env \<Rightarrow> json \<Rightarrow> json option \<Rightarrow> clash_error + cfg_net" where
  "vless_to_net env opt target_net =
     rbind (map_err Deserialize (de_vless env opt)) (\<lambda>params.
     rbind (into_u16 (vl_port params)) (\<lambda>p.
     rbind (case vl_network params of
              Some network \<Rightarrow> if eq_ignore_ascii_case network ''tcp'' then Inr () else Inl (UnsupportedVlessNetwork network)
            | None \<Rightarrow> Inr ()) (\<lambda>_.
     if vl_tls params = Some False then Inl VlessWithoutTls
     else
       let sni = (case vl_servername params of Some s \<Rightarrow> s | None \<Rightarrow> unwrap_or (vl_server params) (vl_sni params));
           m0 = [(''server'', JStr (host_port (vl_server params) p)), (''id'', JStr (vl_uuid params)),
                 (''flow'', jopt_str (vl_flow params)), (''sni'', JStr sni),
                 (''skip_cert_verify'', JBool (unwrap_or False (vl_skip_cert_verify params))),
                 (''udp'', JBool (unwrap_or False (vl_udp params)))];
           m1 = (case vl_client_fingerprint params of
                   Some f \<Rightarrow> hm_insert ''client_fingerprint'' (JStr f) m0 | None \<Rightarrow> m0);
           m2 = (case vl_reality_opts params of
                   Some (public_key, short_id) \<Rightarrow>
                     hm_insert ''reality_short_id'' (jopt_str short_id) (hm_insert ''reality_public_key'' (JStr public_key) m1)
                 | None \<Rightarrow> m1)
       in Inr (with_net (net_new ''vless'' (JObj m2)) target_net))))"

definition host_to_net :: "string \<Rightarrow> 'c clash_env \<Rightarrow> json \<Rightarrow> json option \<Rightarrow> clash_error + cfg_net" where
  "host_to_net kind env opt target_net =
     rbind (map_err Deserialize (de_host env opt)) (\<lambda>params.
     rbind (into_u16 (hp_port params)) (\<lambda>p.
     Inr (with_net (net_new kind (JObj [(''server'', JStr (host_port (hp_server params) p))])) target_net)))"

definition proxy_to_net :: "'c clash_env \<Rightarrow> proxy \<Rightarrow> json option \<Rightarrow> clash_error + cfg_net" where
  "proxy_to_net env p target_net =
     (let t = proxy_type p; opt = proxy_opt p in
      if t = ''ss'' then ss_to_net env opt target_net
      else if t = ''trojan'' then tls_to_net ''trojan'' (de_trojan env) opt target_net
      else if t = ''vless'' then vless_to_net env opt target_net
      else if t = ''anytls'' then tls_to_net ''anytls'' (de_anytls env) opt target_net
      else if t = ''http'' then host_to_net ''http'' env opt target_net
      else if t = ''socks5'' then host_to_net ''socks5'' env opt target_net
      else Inl (UnsupportedProxyType t))"

subsection \<open>Names and groups\<close>

definition get_target :: "clash \<Rightarrow> string \<Rightarrow> clash_error + string" where
  "get_target c target =
     (if target = ''DIRECT'' then Inr (unwrap_or ''local'' (direct c))
      else if target = ''REJECT'' then Inr (unwrap_or ''blackhole'' (reject c))
      else ok_or (NameNotFound target) (hm_get (name_map c) target))"

definition prefix_name :: "clash \<Rightarrow> string \<Rightarrow> string" where
  "prefix_name c s = (case clash_prefix c of Some p \<Rightarrow> p @ ''.'' @ s | None \<Rightarrow> s)"

definition proxy_group_name :: "clash \<Rightarrow> string \<Rightarrow> string" where
  "proxy_group_name c pg = prefix_name c pg"

fun map_result :: "('a \<Rightarrow> 'e + 'b) \<Rightarrow> 'a list \<Rightarrow> 'e + 'b list" where
  "map_result f [] = Inr []"
| "map_result f (x # xs) = rbind (f x) (\<lambda>y. rbind (map_result f xs) (\<lambda>ys. Inr (y # ys)))"

definition select_net :: "string list \<Rightarrow> cfg_net" where
  "select_net net_list = net_new ''select'' (JObj
     [(''selected'', JStr (case net_list of [] \<Rightarrow> ''noop'' | n # _ \<Rightarrow> n)), (''list'', JArr (map JStr net_list))])"

text \<open>A relay group nests its proxies, each using the one before as its net.\<close>

fun relay_fold :: "'c clash_env \<Rightarrow> string \<Rightarrow> (string, proxy) hmap \<Rightarrow> cfg_net \<Rightarrow> string list \<Rightarrow> clash_error + cfg_net" where
  "relay_fold env grp proxy_map acc [] = Inr acc"
| "relay_fold env grp proxy_map acc (x # xs) =
     rbind (ok_or (ProxyNotInGroup x grp) (hm_get proxy_map x)) (\<lambda>p.
     rbind (proxy_to_net env p (Some (net_to_value acc))) (\<lambda>acc'.
     relay_fold env grp proxy_map acc' xs))"

definition proxy_group_to_net ::
  "'c clash_env \<Rightarrow> clash \<Rightarrow> proxy_group \<Rightarrow> (string, proxy) hmap \<Rightarrow> clash_error + cfg_net" where
  "proxy_group_to_net env c p proxy_map =
     rbind (map_result (get_target c) (group_proxies p)) (\<lambda>net_list.
     let t = proxy_group_type p in
     if t = ''select'' then Inr (select_net net_list)
     else if t = ''url-test'' \<or> t = ''fallback'' then Inr (select_net net_list)
     else if t = ''relay'' then relay_fold env (group_name p) proxy_map (base_proxy_net c) net_list
     else Inl (UnsupportedGroupType t))"

subsection \<open>Rules\<close>

type_synonym 'c clash_rule = "('c, unit) config_rule_item"

definition clash_item :: "string \<Rightarrow> 'c config_matcher \<Rightarrow> 'c clash_rule" where
  "clash_item target m = \<lparr> ri_target = res_new (JStr target), ri_matcher = m \<rparr>"

text \<open>\<open>ps_next\<close>: the next comma-separated part.\<close>

fun ps_next :: "string list \<Rightarrow> clash_error + (string \<times> string list)" where
  "ps_next [] = Inl BadRule"
| "ps_next (p # ps) = Inr (p, ps)"

definition next_target :: "clash \<Rightarrow> string list \<Rightarrow> clash_error + string" where
  "next_target c ps = rbind (ps_next ps) (\<lambda>(t, _). get_target c t)"

definition provider_source :: "rule_provider \<Rightarrow> clash_error + import_source" where
  "provider_source rp =
     (if provider_type rp = ''http'' then Inr (SrcPoll (provider_url rp) (Some (provider_interval rp)))
      else if provider_type rp = ''file'' then Inr (SrcPath (provider_path rp))
      else Inl BadRule)"

definition rule_set_matcher :: "'c clash_env \<Rightarrow> rule_provider \<Rightarrow> clash_error + 'c config_matcher" where
  "rule_set_matcher env rp =
     rbind (provider_source rp) (\<lambda>source.
     rbind (map_err FetchError (get_content env source)) (\<lambda>source_str.
     rbind (map_err Deserialize (de_rule_set env source_str)) (\<lambda>payload.
     if behavior rp = ''domain'' then Inr (DomainM \<lparr> dm_method = Match, dm_domain = cvs_from_iter payload \<rparr>)
     else if behavior rp = ''ipcidr'' then
       rbind (map_result (\<lambda>i. map_err BadCidr (ip_cidr_from_str (clash_rule_env env) i)) payload) (\<lambda>cs.
       Inr (IpCidrM (Vec cs)))
     else Inl BadRule)))"

definition domain_method :: "string \<Rightarrow> domain_matcher_method option" where
  "domain_method rule_type =
     (if rule_type = ''DOMAIN-SUFFIX'' then Some Suffix
      else if rule_type = ''DOMAIN-KEYWORD'' then Some Keyword
      else if rule_type = ''DOMAIN'' then Some Match else None)"

definition rule_to_rule :: "'c clash_env \<Rightarrow> clash \<Rightarrow> (string, rule_provider) hmap \<Rightarrow> string \<Rightarrow> clash_error + 'c clash_rule" where
  "rule_to_rule env c providers r =
     rbind (ps_next (split (CHR '','') r)) (\<lambda>(rule_type, ps).
     case domain_method rule_type of
       Some meth \<Rightarrow>
         rbind (ps_next ps) (\<lambda>(d, ps).
         rbind (next_target c ps) (\<lambda>target.
         Inr (clash_item target (DomainM \<lparr> dm_method = meth, dm_domain = cvs_push cvs_new d \<rparr>))))
     | None \<Rightarrow>
       if rule_type = ''IP-CIDR'' \<or> rule_type = ''IP-CIDR6'' then
         rbind (ps_next ps) (\<lambda>(ip_cidr, ps).
         rbind (next_target c ps) (\<lambda>target.
         rbind (map_err BadCidr (ip_cidr_from_str (clash_rule_env env) ip_cidr)) (\<lambda>cidr.
         Inr (clash_item target (IpCidrM (Single cidr))))))
       else if rule_type = ''SRC-IP-CIDR'' then
         rbind (ps_next ps) (\<lambda>(ip_cidr, ps).
         rbind (next_target c ps) (\<lambda>target.
         rbind (map_err BadCidr (ip_cidr_from_str (clash_rule_env env) ip_cidr)) (\<lambda>cidr.
         Inr (clash_item target (SrcIpCidrM (Single cidr))))))
       else if rule_type = ''MATCH'' then
         rbind (next_target c ps) (\<lambda>target. Inr (clash_item target AnyM))
       else if rule_type = ''GEOIP'' then
         rbind (ps_next ps) (\<lambda>(region, ps).
         rbind (next_target c ps) (\<lambda>target.
         Inr (clash_item target (GeoIpM region))))
       else if rule_type = ''RULE-SET'' then
         rbind (ps_next ps) (\<lambda>(set_name, ps).
         rbind (next_target c ps) (\<lambda>target.
         rbind (ok_or BadRule (hm_get providers set_name)) (\<lambda>rp.
         rbind (rule_set_matcher env rp) (\<lambda>m. Inr (clash_item target m)))))
       else Inl (UnsupportedRulePrefix rule_type))"

text \<open>The stream over the rules keeps those that translate, in order; the fold merges a rule into the
  last one where \<open>merge\<close> agrees.\<close>

fun fold_step :: "'c clash_rule list \<Rightarrow> 'c clash_rule \<Rightarrow> 'c clash_rule list may_panic" where
  "fold_step [] item = Inr [item]"
| "fold_step state item =
     rbind (rule_item_merge (last state) item) (\<lambda>(l, merged).
     Inr (if merged then butlast state @ [l] else butlast state @ [l, item]))"

fun fold_rules :: "'c clash_rule list \<Rightarrow> 'c clash_rule list \<Rightarrow> 'c clash_rule list may_panic" where
  "fold_rules state [] = Inr state"
| "fold_rules state (i # is) = rbind (fold_step state i) (\<lambda>s. fold_rules s is)"

fun oks :: "('e + 'a) list \<Rightarrow> 'a list" where
  "oks [] = []"
| "oks (Inr x # rs) = x # oks rs"
| "oks (Inl e # rs) = oks rs"

subsection \<open>The import\<close>

text \<open>The loop over the proxies extends the name map, the proxies by their Clash name, the list of
  added nets and the configuration; a proxy that does not translate becomes a net that goes nowhere.\<close>

record import_state =
  is_clash :: clash
  is_added :: "string list"
  is_proxy_map :: "(string, proxy) hmap"
  is_config :: config

definition import_proxy :: "'c clash_env \<Rightarrow> import_state \<Rightarrow> proxy \<Rightarrow> import_state" where
  "import_proxy env s p =
     (let c = is_clash s; old_name = proxy_name p; name = prefix_name c old_name;
          net = (case proxy_to_net env p (proxy_target_net c) of Inr n \<Rightarrow> n | Inl _ \<Rightarrow> ghost_net)
      in \<lparr> is_clash = c\<lparr> name_map := hm_insert old_name name (name_map c) \<rparr>,
           is_added = is_added s @ [name],
           is_proxy_map = hm_insert old_name p (is_proxy_map s),
           is_config = (is_config s)\<lparr> cfg_nets := hm_insert name net (cfg_nets (is_config s)) \<rparr> \<rparr>)"

definition name_group :: "clash \<Rightarrow> proxy_group \<Rightarrow> clash" where
  "name_group c pg = c\<lparr> name_map := hm_insert (group_name pg) (proxy_group_name c (group_name pg)) (name_map c) \<rparr>"

definition import_group :: "'c clash_env \<Rightarrow> clash \<Rightarrow> (string, proxy) hmap \<Rightarrow> config \<Rightarrow> proxy_group \<Rightarrow> config" where
  "import_group env c proxy_map cfg pg =
     (case proxy_group_to_net env c pg proxy_map of
        Inr n \<Rightarrow> cfg\<lparr> cfg_nets := hm_insert (proxy_group_name c (group_name pg)) n (cfg_nets cfg) \<rparr>
      | Inl _ \<Rightarrow> cfg)"

definition import_groups :: "'c clash_env \<Rightarrow> proxy_group list \<Rightarrow> import_state \<Rightarrow> import_state" where
  "import_groups env pgs s =
     (if disable_proxy_group (is_clash s) then s
      else let c = foldl name_group (is_clash s) pgs
           in s\<lparr> is_clash := c, is_config := foldl (import_group env c (is_proxy_map s)) (is_config s) pgs \<rparr>)"

definition import_rules :: "'c clash_env \<Rightarrow> clash_config \<Rightarrow> clash \<Rightarrow> config \<Rightarrow> config may_panic" where
  "import_rules env cc c cfg = (case rule_name c of
     None \<Rightarrow> Inr cfg
   | Some name \<Rightarrow>
       rbind (fold_rules [] (oks (map (rule_to_rule env c (rule_providers cc)) (rules cc)))) (\<lambda>rule.
       Inr (cfg\<lparr> cfg_nets := hm_insert name (net_new ''rule'' (JObj [(''rule'', ser_rules env rule)])) (cfg_nets cfg) \<rparr>)))"

definition import_select :: "clash \<Rightarrow> string list \<Rightarrow> config \<Rightarrow> config" where
  "import_select c added cfg = (case select c of
     None \<Rightarrow> cfg
   | Some name \<Rightarrow> cfg\<lparr> cfg_nets := hm_insert name (select_net added) (cfg_nets cfg) \<rparr>)"

definition clash_process ::
  "'c clash_env \<Rightarrow> clash \<Rightarrow> config \<Rightarrow> string \<Rightarrow> (clash_error + (clash \<times> config)) may_panic" where
  "clash_process env c cfg text =
     (case de_clash_config env text of
        Inl e \<Rightarrow> Inr (Inl (Deserialize e))
      | Inr cc \<Rightarrow>
          let s0 = \<lparr> is_clash = c, is_added = [], is_proxy_map = [], is_config = cfg \<rparr>;
              s1 = foldl (import_proxy env) s0 (proxies cc);
              s2 = import_groups env (proxy_groups cc) s1
          in rbind (import_rules env cc (is_clash s2) (is_config s2)) (\<lambda>cfg'.
             Inr (Inr (is_clash s2, import_select (is_clash s2) (is_added s2) cfg'))))"

subsection \<open>Merging the rules keeps the decision\<close>

definition decision :: "'c rule_env \<Rightarrow> 'c clash_rule list \<Rightarrow> match_context \<Rightarrow> json option" where
  "decision env items mc = map_option (\<lambda>i. represent (ri_target i)) (find (\<lambda>i. matches env (ri_matcher i) mc) items)"

text \<open>Domain rules with the same target use the same method.\<close>

definition uniform :: "'c clash_rule list \<Rightarrow> bool" where
  "uniform items \<longleftrightarrow> (\<forall>i\<in>set items. \<forall>j\<in>set items.
     represent (ri_target i) = represent (ri_target j) \<longrightarrow> same_method (ri_matcher i) (ri_matcher j))"

definition items_ok :: "'c clash_rule list \<Rightarrow> bool" where
  "items_ok items \<longleftrightarrow> list_all (\<lambda>i. matcher_ok (ri_matcher i)) items"

lemma decision_append:
  "decision env (xs @ ys) mc = (case decision env xs mc of Some t \<Rightarrow> Some t | None \<Rightarrow> decision env ys mc)"
  by (induction xs) (auto simp: decision_def)

lemma decision_Nil [simp]: "decision env [] mc = None"
  by (simp add: decision_def)

lemma decision_Cons:
  "decision env (x # xs) mc =
     (if matches env (ri_matcher x) mc then Some (represent (ri_target x)) else decision env xs mc)"
  by (simp add: decision_def)

lemma matcher_merge_method:
  "matcher_merge a b = Inr (m, f) \<Longrightarrow> same_method m x = same_method a x"
  "matcher_merge a b = Inr (m, f) \<Longrightarrow> same_method x m = same_method x a"
  by (cases a; cases b; cases x; auto simp: matcher_merge_def elim!: rbind_InrE)+

lemma item_merge:
  assumes "matcher_ok (ri_matcher i)" "matcher_ok (ri_matcher j)"
    "represent (ri_target i) = represent (ri_target j) \<Longrightarrow> same_method (ri_matcher i) (ri_matcher j)"
  shows "\<exists>l f. rule_item_merge i j = Inr (l, f) \<and> matcher_ok (ri_matcher l) \<and> represent (ri_target l) = represent (ri_target i)
    \<and> (\<forall>x. same_method (ri_matcher l) x = same_method (ri_matcher i) x \<and> same_method x (ri_matcher l) = same_method x (ri_matcher i))
    \<and> (\<forall>env mc. decision env (if f then [l] else [l, j]) mc = decision env [i, j] mc)"
proof (cases "represent (ri_target i) = represent (ri_target j)")
  case False
  then show ?thesis using assms(1) by (auto simp: rule_item_merge_def)
next
  case True
  then have sm: "same_method (ri_matcher i) (ri_matcher j)" by (rule assms(3))
  obtain m where m: "matcher_merge (ri_matcher i) (ri_matcher j) = Inr (m, mergeable (ri_matcher i) (ri_matcher j))"
    "matcher_ok m" and mm: "\<And>env mc. matches env m mc
       = (matches env (ri_matcher i) mc \<or> mergeable (ri_matcher i) (ri_matcher j) \<and> matches env (ri_matcher j) mc)"
    using merge_any_exact [OF assms(1,2) sm] by blast
  show ?thesis
    using True m matcher_merge_method [OF m(1)]
    by (auto simp: rule_item_merge_def decision_Cons mm)
qed

lemma fold_step_snoc:
  "fold_step (ys @ [y]) item = rbind (rule_item_merge y item) (\<lambda>(l, merged).
     Inr (if merged then ys @ [l] else ys @ [l, item]))"
proof -
  obtain z zs where z: "ys @ [y] = z # zs" by (cases "ys @ [y]") auto
  have l: "last (z # zs) = y" and b: "butlast (z # zs) = ys" by (simp_all flip: z)
  show ?thesis unfolding z fold_step.simps l b ..
qed

lemma fold_step_decision:
  assumes "items_ok (state @ [i])" "uniform (state @ i # is)"
  shows "\<exists>s. fold_step state i = Inr s \<and> items_ok s \<and> uniform (s @ is)
    \<and> (\<forall>env mc. decision env s mc = decision env (state @ [i]) mc)"
proof (cases state rule: rev_cases)
  case Nil
  then show ?thesis using assms by simp
next
  case (snoc ys y)
  have ok: "matcher_ok (ri_matcher y)" "matcher_ok (ri_matcher i)" "items_ok ys"
    using assms(1) by (simp_all add: snoc items_ok_def)
  have sm: "represent (ri_target y) = represent (ri_target i) \<Longrightarrow> same_method (ri_matcher y) (ri_matcher i)"
    using assms(2) by (simp add: snoc uniform_def)
  obtain l f where l: "rule_item_merge y i = Inr (l, f)" "matcher_ok (ri_matcher l)" "represent (ri_target l) = represent (ri_target y)"
    and same: "\<And>x. same_method (ri_matcher l) x = same_method (ri_matcher y) x"
      "\<And>x. same_method x (ri_matcher l) = same_method x (ri_matcher y)"
    and dec: "\<And>env mc. decision env (if f then [l] else [l, i]) mc = decision env [y, i] mc"
    using item_merge [OF ok(1,2) sm] by blast
  define s where "s = (if f then ys @ [l] else ys @ [l, i])"
  have "fold_step state i = Inr s" by (simp add: snoc fold_step_snoc l(1) s_def)
  moreover have "items_ok s" using ok l(2) by (auto simp: s_def items_ok_def)
  moreover have "uniform (s @ is)"
    using assms(2) by (auto simp: s_def snoc uniform_def l(3) same)
  moreover have "decision env s mc = decision env (state @ [i]) mc" for env mc
  proof -
    have "decision env s mc = decision env (ys @ (if f then [l] else [l, i])) mc" by (simp add: s_def)
    also have "\<dots> = decision env (ys @ [y, i]) mc" unfolding decision_append dec ..
    finally show ?thesis by (simp add: snoc)
  qed
  ultimately show ?thesis by blast
qed

lemma fold_rules_decision:
  assumes "items_ok (state @ is)" "uniform (state @ is)"
  shows "\<exists>rs. fold_rules state is = Inr rs \<and> items_ok rs
    \<and> (\<forall>env mc. decision env rs mc = decision env (state @ is) mc)"
  using assms
proof (induction "is" arbitrary: state)
  case Nil
  then show ?case by simp
next
  case (Cons i "is")
  from Cons.prems(1) have ok: "items_ok (state @ [i])" "items_ok is" by (simp_all add: items_ok_def)
  obtain s where s: "fold_step state i = Inr s" "items_ok s" "uniform (s @ is)"
    "\<And>env mc. decision env s mc = decision env (state @ [i]) mc"
    using fold_step_decision [OF ok(1) Cons.prems(2)] by blast
  have "items_ok (s @ is)" using s(2) ok(2) by (simp add: items_ok_def)
  from Cons.IH [OF this s(3)] obtain rs where "fold_rules s is = Inr rs" "items_ok rs"
    "\<And>env mc. decision env rs mc = decision env (s @ is) mc" by blast
  moreover have "decision env (s @ is) mc = decision env (state @ i # is) mc" for env mc
    using decision_append [of env "state @ [i]" "is" mc] by (simp add: decision_append s(4))
  ultimately show ?case using s(1) by auto
qed

text \<open>C33: Where the domain rules of each target use one method, merging adjacent rules does not change
  where any connection goes: the merged list sends every destination to the target the rules of the
  Clash file, in their order, send it to, and the fold does not panic.\<close>

theorem clash_rules_decide:
  assumes "items_ok is" "uniform is"
  shows "\<exists>rs. fold_rules [] is = Inr rs \<and> (\<forall>env mc. decision env rs mc = decision env is mc)"
  using fold_rules_decision [of "[]" "is"] assms by auto

lemma clash_rules_decide_witness:
  "\<exists>rs. fold_rules [] [clash_item ''a'' (IpCidrM (Single (1 :: nat))), clash_item ''a'' (IpCidrM (Single 2)), clash_item ''b'' AnyM]
     = Inr rs \<and> (\<forall>env mc. decision env rs mc = decision env
       [clash_item ''a'' (IpCidrM (Single (1 :: nat))), clash_item ''a'' (IpCidrM (Single 2)), clash_item ''b'' AnyM] mc)"
  by (rule clash_rules_decide) (auto simp: items_ok_def uniform_def clash_item_def)

subsection \<open>What the import leaves in the configuration\<close>

definition import_start :: "clash \<Rightarrow> config \<Rightarrow> import_state" where
  "import_start c cfg = \<lparr> is_clash = c, is_added = [], is_proxy_map = [], is_config = cfg \<rparr>"

lemma foldl_import_clash:
  "clash_prefix (is_clash (foldl (import_proxy env) s ps)) = clash_prefix (is_clash s)"
  "clash_prefix (foldl name_group c pgs) = clash_prefix c"
proof -
  show "clash_prefix (is_clash (foldl (import_proxy env) s ps)) = clash_prefix (is_clash s)"
    by (induction ps arbitrary: s) (simp_all add: import_proxy_def Let_def)
  show "clash_prefix (foldl name_group c pgs) = clash_prefix c"
    by (induction pgs arbitrary: c) (simp_all add: name_group_def)
qed

lemma import_proxy_nets:
  "hm_get (cfg_nets (is_config (import_proxy env s p))) k \<noteq> None \<longleftrightarrow>
     k = prefix_name (is_clash s) (proxy_name p) \<or> hm_get (cfg_nets (is_config s)) k \<noteq> None"
  by (simp add: import_proxy_def Let_def)

lemma import_group_nets:
  "hm_get (cfg_nets cfg) k \<noteq> None \<Longrightarrow> hm_get (cfg_nets (import_group env c pm cfg pg)) k \<noteq> None"
  by (auto simp: import_group_def split: sum.split)

lemma has_net_proxy:
  "hm_get (cfg_nets (is_config s)) k \<noteq> None \<Longrightarrow> hm_get (cfg_nets (is_config (foldl (import_proxy env) s ps))) k \<noteq> None"
proof (induction ps arbitrary: s)
  case (Cons p ps)
  then have "hm_get (cfg_nets (is_config (import_proxy env s p))) k \<noteq> None" by (simp only: import_proxy_nets simp_thms)
  from Cons.IH [OF this] show ?case by simp
qed simp

lemma has_net_groups:
  "hm_get (cfg_nets cfg) k \<noteq> None \<Longrightarrow> hm_get (cfg_nets (foldl (import_group env c pm) cfg pgs)) k \<noteq> None"
proof (induction pgs arbitrary: cfg)
  case (Cons p pgs)
  from Cons.IH [OF import_group_nets [OF Cons.prems]] show ?case by simp
qed simp

lemma has_net_import_groups:
  assumes "hm_get (cfg_nets (is_config s)) k \<noteq> None"
  shows "hm_get (cfg_nets (is_config (import_groups env pgs s))) k \<noteq> None"
proof (cases "disable_proxy_group (is_clash s)")
  case True
  then show ?thesis using assms by (simp add: import_groups_def)
next
  case False
  then show ?thesis
    using has_net_groups [OF assms, of env "foldl name_group (is_clash s) pgs" "is_proxy_map s" pgs]
    by (simp add: import_groups_def Let_def)
qed

lemma imported_proxy:
  "q \<in> set ps \<Longrightarrow> hm_get (cfg_nets (is_config (foldl (import_proxy env) s ps))) (prefix_name (is_clash s) (proxy_name q)) \<noteq> None"
proof (induction ps arbitrary: s)
  case (Cons p ps)
  have pre: "prefix_name (is_clash (import_proxy env s p)) = prefix_name (is_clash s)"
    by (rule ext) (simp add: import_proxy_def Let_def prefix_name_def)
  show ?case
  proof (cases "q = p")
    case True
    have "hm_get (cfg_nets (is_config (import_proxy env s p))) (prefix_name (is_clash s) (proxy_name p)) \<noteq> None"
      by (simp only: import_proxy_nets simp_thms)
    from has_net_proxy [OF this] True show ?thesis by simp
  next
    case False
    with Cons.prems Cons.IH [of "import_proxy env s p"] show ?thesis by (simp add: pre)
  qed
qed simp

lemma has_net_rest:
  assumes "hm_get (cfg_nets cfg) k \<noteq> None" "import_rules env cc c cfg = Inr cfg'"
  shows "hm_get (cfg_nets (import_select c' added cfg')) k \<noteq> None"
proof -
  from assms have "hm_get (cfg_nets cfg') k \<noteq> None"
    by (auto simp: import_rules_def elim!: rbind_InrE split: option.splits)
  then show ?thesis by (simp add: import_select_def split: option.split)
qed

text \<open>Every proxy of the Clash file is a net of the resulting configuration under its prefixed name,
  also when its type or its parameters are not supported.\<close>

theorem clash_proxies_present:
  assumes "clash_process env c cfg text = Inr (Inr (c', cfg'))" "de_clash_config env text = Inr cc"
    "q \<in> set (proxies cc)"
  shows "hm_get (cfg_nets cfg') (prefix_name c (proxy_name q)) \<noteq> None"
proof -
  let ?s = "foldl (import_proxy env) (import_start c cfg) (proxies cc)"
  let ?s2 = "import_groups env (proxy_groups cc) ?s"
  from assms(1,2) obtain cfg1 where r: "import_rules env cc (is_clash ?s2) (is_config ?s2) = Inr cfg1"
    and cfg': "cfg' = import_select (is_clash ?s2) (is_added ?s2) cfg1"
    by (auto simp: clash_process_def Let_def import_start_def elim!: rbind_InrE)
  have "hm_get (cfg_nets (is_config ?s)) (prefix_name c (proxy_name q)) \<noteq> None"
    using imported_proxy [OF assms(3), of env "import_start c cfg"] by (simp add: import_start_def)
  then have "hm_get (cfg_nets (is_config ?s2)) (prefix_name c (proxy_name q)) \<noteq> None"
    by (rule has_net_import_groups)
  from has_net_rest [OF this r] show ?thesis unfolding cfg' .
qed

definition clash0 :: clash where
  "clash0 = \<lparr> rule_name = None, clash_prefix = Some ''p'', direct = None, reject = None, clash_net = None,
     disable_proxy_group = False, select = None, name_map = [] \<rparr>"

definition config0 :: config where
  "config0 = \<lparr> cfg_id = [], cfg_nets = [], cfg_servers = [] \<rparr>"

definition proxy0 :: proxy where
  "proxy0 = \<lparr> proxy_name = ''a'', proxy_type = ''tuic'', proxy_opt = JNull \<rparr>"

definition group0 :: proxy_group where
  "group0 = \<lparr> group_name = ''g'', proxy_group_type = ''relay'', group_proxies = [''a''] \<rparr>"

definition clash_env0 :: "nat clash_env" where
  "clash_env0 = \<lparr> de_ss = \<lambda>j. Inl [], de_trojan = \<lambda>j. Inl [], de_vless = \<lambda>j. Inl [], de_anytls = \<lambda>j. Inl [],
     de_host = \<lambda>j. Inl [], de_clash_config = \<lambda>s. Inr \<lparr> proxies = [proxy0], proxy_groups = [group0], rules = [], rule_providers = [] \<rparr>,
     de_rule_set = \<lambda>s. Inl [], get_content = \<lambda>s. Inl [], ser_rules = \<lambda>rs. JNull, clash_rule_env = undefined \<rparr>"

lemma clash_process0:
  "\<exists>c' cfg'. clash_process clash_env0 clash0 config0 [] = Inr (Inr (c', cfg'))"
  by (simp add: clash_process_def clash_env0_def import_rules_def import_groups_def Let_def clash0_def
      import_proxy_def name_group_def)

lemma clash_proxies_present_witness:
  "\<exists>c' cfg'. clash_process clash_env0 clash0 config0 [] = Inr (Inr (c', cfg')) \<and> hm_get (cfg_nets cfg') ''p.a'' \<noteq> None"
proof -
  obtain c' cfg' where p: "clash_process clash_env0 clash0 config0 [] = Inr (Inr (c', cfg'))"
    using clash_process0 by blast
  have "de_clash_config clash_env0 [] = Inr \<lparr> proxies = [proxy0], proxy_groups = [group0], rules = [], rule_providers = [] \<rparr>"
    by (simp add: clash_env0_def)
  from clash_proxies_present [OF p this, of proxy0] p show ?thesis
    by (auto simp: prefix_name_def clash0_def proxy0_def)
qed

subsection \<open>Relay groups\<close>

text \<open>The names a prefixed import hands out, and the names under which the proxies are kept.\<close>

definition names_prefixed :: "string \<Rightarrow> clash \<Rightarrow> bool" where
  "names_prefixed p c \<longleftrightarrow> (\<forall>x y. hm_get (name_map c) x = Some y \<longrightarrow> starts_with (p @ ''.'') y)"

lemma starts_with_self [simp]: "starts_with (p @ q) (p @ q @ s)"
  by (simp add: starts_with_def)

lemma names_prefixed_insert:
  "names_prefixed p c \<Longrightarrow> clash_prefix c = Some p \<Longrightarrow> names_prefixed p (c\<lparr> name_map := hm_insert x (prefix_name c x) (name_map c) \<rparr>)"
  by (simp add: names_prefixed_def prefix_name_def starts_with_def)

lemma names_prefixed_groups:
  "names_prefixed p c \<Longrightarrow> clash_prefix c = Some p \<Longrightarrow> names_prefixed p (foldl name_group c pgs)"
proof (induction pgs arbitrary: c)
  case (Cons pg pgs)
  then have "names_prefixed p (name_group c pg)" "clash_prefix (name_group c pg) = Some p"
    using names_prefixed_insert [of p c "group_name pg"] by (simp_all add: name_group_def proxy_group_name_def)
  from Cons.IH [OF this] show ?case by simp
qed simp

lemma import_proxies_names:
  assumes "names_prefixed p (is_clash s)" "clash_prefix (is_clash s) = Some p"
    "\<And>x. hm_get (is_proxy_map s) x \<noteq> None \<Longrightarrow> \<not> starts_with (p @ ''.'') x"
    "list_all (\<lambda>q. \<not> starts_with (p @ ''.'') (proxy_name q)) ps"
  shows "names_prefixed p (is_clash (foldl (import_proxy env) s ps))
    \<and> (\<forall>x. hm_get (is_proxy_map (foldl (import_proxy env) s ps)) x \<noteq> None \<longrightarrow> \<not> starts_with (p @ ''.'') x)"
  using assms
proof (induction ps arbitrary: s)
  case (Cons q ps)
  let ?s = "import_proxy env s q"
  have "names_prefixed p (is_clash ?s)"
    using names_prefixed_insert [OF Cons.prems(1,2), of "proxy_name q"] by (simp add: import_proxy_def Let_def)
  moreover have "clash_prefix (is_clash ?s) = Some p"
    using Cons.prems(2) by (simp add: import_proxy_def Let_def)
  moreover have "\<not> starts_with (p @ ''.'') x" if "hm_get (is_proxy_map ?s) x \<noteq> None" for x
    using that Cons.prems(3,4) by (auto simp: import_proxy_def Let_def split: if_splits)
  ultimately have "names_prefixed p (is_clash (foldl (import_proxy env) ?s ps))
    \<and> (\<forall>x. hm_get (is_proxy_map (foldl (import_proxy env) ?s ps)) x \<noteq> None \<longrightarrow> \<not> starts_with (p @ ''.'') x)"
    using Cons.prems(4) by (intro Cons.IH) simp_all
  then show ?case by simp
qed (auto simp: names_prefixed_def)

text \<open>With a prefix set, no relay group over proxies is imported: the members are looked up among
  the proxies by their prefixed net names, but the proxies are stored under their Clash names.\<close>

theorem relay_with_prefix_fails:
  assumes "clash_prefix c = Some p" "name_map c = []"
    "list_all (\<lambda>q. \<not> starts_with (p @ ''.'') (proxy_name q)) ps"
    "proxy_group_type pg = ''relay''" "group_proxies pg = x # xs" "x \<noteq> ''DIRECT''" "x \<noteq> ''REJECT''"
  shows "\<exists>e. proxy_group_to_net env
     (foldl name_group (is_clash (foldl (import_proxy env) (import_start c cfg) ps)) pgs) pg
     (is_proxy_map (foldl (import_proxy env) (import_start c cfg) ps)) = Inl e"
proof -
  define s where "s = foldl (import_proxy env) (import_start c cfg) ps"
  define c' where "c' = foldl name_group (is_clash s) pgs"
  have names: "names_prefixed p (is_clash s)"
    and keys: "\<And>y. hm_get (is_proxy_map s) y \<noteq> None \<Longrightarrow> \<not> starts_with (p @ ''.'') y"
    using import_proxies_names [of p "import_start c cfg" ps env] assms(1-3)
    by (auto simp: s_def import_start_def names_prefixed_def)
  have "clash_prefix (is_clash s) = Some p"
    using assms(1) by (simp add: s_def foldl_import_clash import_start_def)
  then have names': "names_prefixed p c'" unfolding c'_def by (rule names_prefixed_groups [OF names])
  have "\<exists>e. proxy_group_to_net env c' pg (is_proxy_map s) = Inl e"
  proof (cases "map_result (get_target c') (x # xs)")
    case (Inl e)
    then show ?thesis by (simp add: proxy_group_to_net_def assms(5))
  next
    case (Inr ys)
    then obtain y zs where y: "ys = y # zs" "hm_get (name_map c') x = Some y"
      using assms(6,7) by (auto simp: get_target_def elim!: rbind_InrE)
    then have "starts_with (p @ ''.'') y" using names' by (simp add: names_prefixed_def)
    then have "hm_get (is_proxy_map s) y = None" using keys by blast
    with Inr y(1) show ?thesis by (simp add: proxy_group_to_net_def assms(4,5))
  qed
  then show ?thesis by (simp add: s_def c'_def)
qed

lemma relay_with_prefix_fails_witness:
  "\<exists>e. proxy_group_to_net clash_env0
     (foldl name_group (is_clash (foldl (import_proxy clash_env0) (import_start clash0 config0) [proxy0])) [group0]) group0
     (is_proxy_map (foldl (import_proxy clash_env0) (import_start clash0 config0) [proxy0])) = Inl e"
  by (rule relay_with_prefix_fails [where p = "''p''" and x = "''a''" and xs = "[]"])
    (simp_all add: clash0_def proxy0_def group0_def starts_with_def)

end
