(* ===== verification/Engine_Build.thy ===== *)
theory Engine_Build
  imports Engine_Config
begin

section \<open>Building nets and servers\<close>

text \<open>
  \<open>rd-interface/src/registry.rs\<close>, \<open>rabbit-digger/src/registry.rs\<close> and the \<open>Registry\<close> and \<open>BuildContext\<close>
  code of \<open>rabbit-digger/src/rabbit_digger.rs\<close>. Building a net deserializes its options, resolves the
  references in them by building the nets they name, and calls the plugin. A net under construction is
  replaced in the configuration by a placeholder, so that a reference back to it fails; a net given in
  place gets a generated name and is added to the configuration. A plugin (type variables \<open>'p\<close>, \<open>'q\<close>) is
  a resolver: its deserializer, its serializer and its build function.

  A \<open>RunningNet\<close> is shared, and its net can be replaced while the engine runs, so the nets that refer to
  it hold a handle with its name.
\<close>

datatype net_handle = RunningH string | ServerH string net_handle

record 'p resolver =
  rv_de :: "json \<Rightarrow> string + net_handle config_val"
  rv_ser :: "net_handle config_val \<Rightarrow> string + json"
  rv_build :: "net_handle config_val \<Rightarrow> 'p rd"

subsection \<open>Registries\<close>

record ('p, 'q) plugin_registry =
  pr_net :: "(string, 'p resolver) hmap"
  pr_server :: "(string, 'q resolver) hmap"

definition plugin_registry_new :: "('p, 'q) plugin_registry" where
  "plugin_registry_new = \<lparr> pr_net = [], pr_server = [] \<rparr>"

definition add_net :: "string \<Rightarrow> 'p resolver \<Rightarrow> ('p, 'q) plugin_registry \<Rightarrow> ('p, 'q) plugin_registry" where
  "add_net name r reg = reg\<lparr> pr_net := hm_insert name r (pr_net reg) \<rparr>"

definition add_server :: "string \<Rightarrow> 'q resolver \<Rightarrow> ('p, 'q) plugin_registry \<Rightarrow> ('p, 'q) plugin_registry" where
  "add_server name r reg = reg\<lparr> pr_server := hm_insert name r (pr_server reg) \<rparr>"

record 'p reg_item =
  it_id :: string
  it_plugin_name :: string
  it_resolver :: "'p resolver"

record ('p, 'q) registry =
  reg_net :: "(string, 'p reg_item) hmap"
  reg_server :: "(string, 'q reg_item) hmap"

definition registry_new :: "('p, 'q) registry" where
  "registry_new = \<lparr> reg_net = [], reg_server = [] \<rparr>"

definition reg_items :: "string \<Rightarrow> (string, 'p resolver) hmap \<Rightarrow> (string \<times> 'p reg_item) list" where
  "reg_items plugin_name m =
     map (\<lambda>(id, r). (id, \<lparr> it_id = id, it_plugin_name = plugin_name, it_resolver = r \<rparr>)) m"

definition add_registry :: "string \<Rightarrow> ('p, 'q) plugin_registry \<Rightarrow> ('p, 'q) registry \<Rightarrow> ('p, 'q) registry" where
  "add_registry plugin_name r reg = reg\<lparr> reg_net := hm_extend (reg_net reg) (reg_items plugin_name (pr_net r)),
     reg_server := hm_extend (reg_server reg) (reg_items plugin_name (pr_server r)) \<rparr>"

definition init_with_registry ::
  "string \<Rightarrow> (('p, 'q) plugin_registry \<Rightarrow> ('p, 'q) plugin_registry rd) \<Rightarrow> ('p, 'q) registry \<Rightarrow> ('p, 'q) registry rd" where
  "init_with_registry name init reg =
     rbind (init plugin_registry_new) (\<lambda>r. Inr (add_registry name r reg))"

definition reg_get_net :: "('p, 'q) registry \<Rightarrow> string \<Rightarrow> 'p reg_item rd" where
  "reg_get_net reg t = ok_or (OtherError (''Net type is not loaded: '' @ t)) (hm_get (reg_net reg) t)"

definition reg_get_server :: "('p, 'q) registry \<Rightarrow> string \<Rightarrow> 'q reg_item rd" where
  "reg_get_server reg t = ok_or (OtherError (''Server type is not loaded: '' @ t)) (hm_get (reg_server reg) t)"

subsection \<open>Building one item\<close>

text \<open>The recursion through the getter is run with fuel; \<open>OutOfFuel\<close> is not an error of the program
  and the termination theorem below shows that it does not happen.\<close>

datatype build_error = OutOfFuel | BuildPanic panic | BuildError rd_error

fun build_context :: "string \<Rightarrow> build_error \<Rightarrow> build_error" where
  "build_context c (BuildError e) = BuildError (WithContext c e)"
| "build_context c e = e"

text \<open>\<open>build_dyn\<close>: the options are rewritten with the references resolved to names.\<close>

definition build_dyn ::
  "'p resolver \<Rightarrow> (net_handle, 's, build_error) net_getter \<Rightarrow> json \<Rightarrow> 's \<Rightarrow> build_error + ('p \<times> json \<times> 's)" where
  "build_dyn r getter cfg s =
     rbind (map_err (\<lambda>e. BuildError (ConfigError e)) (rv_de r cfg)) (\<lambda>config.
     rbind (resolve_net getter config s) (\<lambda>(config', s').
     rbind (map_err (\<lambda>e. BuildError (ConfigError e)) (rv_ser r config')) (\<lambda>cfg'.
     rbind (map_err BuildError (rv_build r config')) (\<lambda>item.
     Inr (item, cfg', s')))))"

definition item_build ::
  "string \<Rightarrow> 'p reg_item \<Rightarrow> (net_handle, 's, build_error) net_getter \<Rightarrow> json \<Rightarrow> 's \<Rightarrow> build_error + ('p \<times> json \<times> 's)" where
  "item_build kind i getter cfg s =
     map_err (build_context (''Failed to build '' @ kind @ '': '' @ it_id i)) (build_dyn (it_resolver i) getter cfg s)"

text \<open>\<open>{:?}\<close> prints the name in quotes; escapes are left to the argument.\<close>

definition build_net ::
  "(string \<Rightarrow> string) \<Rightarrow> ('p, 'q) registry \<Rightarrow> string \<Rightarrow> cfg_net \<Rightarrow> (net_handle, 's, build_error) net_getter \<Rightarrow> 's
    \<Rightarrow> build_error + ('p \<times> cfg_net \<times> 's)" where
  "build_net debug reg name i getter s =
     rbind (map_err BuildError (reg_get_net reg (net_type i))) (\<lambda>item.
     rbind (map_err (build_context (''Failed to build net '' @ debug name @ ''. Please check your config.''))
              (item_build ''net'' item getter (net_opt i) s)) (\<lambda>(net, opt, s').
     Inr (net, i\<lparr> net_opt := opt \<rparr>, s')))"

definition build_server ::
  "(string \<Rightarrow> string) \<Rightarrow> ('p, 'q) registry \<Rightarrow> string \<Rightarrow> cfg_server \<Rightarrow> (net_handle, 's, build_error) net_getter \<Rightarrow> 's
    \<Rightarrow> build_error + ('q \<times> cfg_server \<times> 's)" where
  "build_server debug reg name i getter s =
     rbind (map_err BuildError (reg_get_server reg (srv_type i))) (\<lambda>item.
     rbind (map_err (build_context (''Failed to build server '' @ debug name @ ''. Please check your config.''))
              (item_build ''server'' item getter (srv_opt i) s)) (\<lambda>(server, opt, s').
     Inr (server, i\<lparr> srv_opt := opt \<rparr>, s')))"

subsection \<open>Resolving a reference\<close>

record 'p bctx =
  bc_config :: "(string, cfg_net) hmap"
  bc_cache :: "(string, 'p) hmap"

text \<open>Reading a net from JSON: the type is a member, the others are the options.\<close>

definition net_from_value :: "json \<Rightarrow> string + cfg_net" where
  "net_from_value j = (case j of
     JObj m \<Rightarrow> (case hm_get m ''type'' of
         Some (JStr t) \<Rightarrow> Inr (net_new t (JObj (hm_remove ''type'' m)))
       | Some _ \<Rightarrow> Inl ''invalid type: expected a string''
       | None \<Rightarrow> Inl ''missing field `type`'')
   | _ \<Rightarrow> Inl ''invalid type: expected a map'')"

definition placeholder :: cfg_net where
  "placeholder = net_new ''circular reference'' JNull"

text \<open>The name of a reference; a net given in place is inserted under a name made of the path to it.
  Reading the path vectors could panic; it does not, since they are built by pushes.\<close>

definition ref_name ::
  "net_handle net_ref \<Rightarrow> cvs \<Rightarrow> cvs \<Rightarrow> 'p bctx \<Rightarrow> build_error + (string \<times> net_handle net_ref \<times> 'p bctx)" where
  "ref_name r path prefix s = (case represent r of
     JStr name \<Rightarrow> Inr (name, r, s)
   | net_cfg \<Rightarrow>
       (case rbind (cvs_iter path 0) (\<lambda>ps. cvs_join (cvs_extend prefix ps) ''/'') of
          Inl p \<Rightarrow> Inl (BuildPanic p)
        | Inr generated_name \<Rightarrow>
            rbind (map_err (\<lambda>e. BuildError (ConfigError e)) (net_from_value net_cfg)) (\<lambda>n.
            Inr (generated_name, r\<lparr> represent := JStr generated_name \<rparr>,
                 s\<lparr> bc_config := hm_insert generated_name n (bc_config s) \<rparr>))))"

fun get_net ::
  "nat \<Rightarrow> (string \<Rightarrow> string) \<Rightarrow> ('p, 'q) registry \<Rightarrow> cvs \<Rightarrow> (net_handle, 'p bctx, build_error) net_getter" where
  "get_net 0 debug reg prefix r path s = Inl OutOfFuel"
| "get_net (Suc n) debug reg prefix r path s =
     rbind (ref_name r path prefix s) (\<lambda>(name, r', s1).
     case hm_get (bc_cache s1) name of
       Some _ \<Rightarrow> Inr (r', RunningH name, s1)
     | None \<Rightarrow>
         rbind (ok_or (BuildError (NotFound (''Failed to find net in config file: '' @ name))) (hm_get (bc_config s1) name)) (\<lambda>cfg.
         let s2 = s1\<lparr> bc_config := hm_insert name placeholder (bc_config s1) \<rparr> in
         rbind (build_net debug reg name cfg (get_net n debug reg (cvs_from_iter [''net'', name])) s2) (\<lambda>(net, cfg', s3).
         Inr (r', RunningH name, s3\<lparr> bc_config := hm_insert name cfg' (bc_config s3), bc_cache := hm_insert name net (bc_cache s3) \<rparr>))))"

definition get_server_net ::
  "nat \<Rightarrow> (string \<Rightarrow> string) \<Rightarrow> ('p, 'q) registry \<Rightarrow> string \<Rightarrow> (net_handle, 'p bctx, build_error) net_getter" where
  "get_server_net n debug reg server_name r path s =
     rbind (get_net n debug reg (cvs_from_iter [''server'', server_name]) r path s) (\<lambda>(r', h, s').
     Inr (r', ServerH server_name h, s'))"

subsection \<open>The whole configuration\<close>

record 'q server_entity =
  se_server :: 'q
  se_type :: string
  se_config :: json

record ('p, 'q) entities =
  ent_nets :: "(string, 'p) hmap"
  ent_servers :: "(string, 'q server_entity) hmap"

fun build_servers ::
  "nat \<Rightarrow> (string \<Rightarrow> string) \<Rightarrow> ('p, 'q) registry \<Rightarrow> (string \<times> cfg_server) list \<Rightarrow> 'p bctx
    \<Rightarrow> build_error + ((string \<times> cfg_server) list \<times> (string \<times> 'q server_entity) list \<times> 'p bctx)" where
  "build_servers n debug reg [] s = Inr ([], [], s)"
| "build_servers n debug reg ((name, i) # is) s =
     rbind (map_err (build_context (''Loading server '' @ name))
              (build_server debug reg name i (get_server_net n debug reg name) s)) (\<lambda>(server, i', s').
     rbind (build_servers n debug reg is s') (\<lambda>(is', ents, s'').
     Inr ((name, i') # is', (name, \<lparr> se_server = server, se_type = srv_type i', se_config = srv_opt i' \<rparr>) # ents, s'')))"

definition build_entities ::
  "nat \<Rightarrow> (string \<Rightarrow> string) \<Rightarrow> json \<Rightarrow> ('p, 'q) registry \<Rightarrow> config \<Rightarrow> build_error + (config \<times> ('p, 'q) entities)" where
  "build_entities n debug local_opt reg c =
     (let s = \<lparr> bc_config = init_default_net local_opt (cfg_nets c), bc_cache = [] \<rparr> in
      rbind (build_servers n debug reg (cfg_servers c) s) (\<lambda>(servers, ents, s').
      Inr (c\<lparr> cfg_nets := bc_config s', cfg_servers := servers \<rparr>,
           \<lparr> ent_nets = bc_cache s', ent_servers = hm_extend [] ents \<rparr>)))"

subsection \<open>Termination\<close>

text \<open>The size of a JSON value, the weight of a reference (only a net given in place adds to the
  configuration) and the weight of the nets that are still to be built.\<close>

fun jsize :: "json \<Rightarrow> nat" where
  "jsize (JArr js) = Suc (sum_list (map jsize js))"
| "jsize (JObj m) = Suc (sum_list (map (\<lambda>(k, v). Suc (jsize v)) m))"
| "jsize _ = 1"

fun ref_weight :: "json \<Rightarrow> nat" where
  "ref_weight (JStr _) = 0"
| "ref_weight j = jsize j"

abbreviation weight :: "'n net_ref \<Rightarrow> nat" where
  "weight r \<equiv> ref_weight (represent r)"

definition net_weight :: "cfg_net \<Rightarrow> nat" where
  "net_weight n = (if n = placeholder then 0 else Suc (jsize (net_opt n)))"

definition unbuilt :: "(string, 'p) hmap \<Rightarrow> string \<times> cfg_net \<Rightarrow> nat" where
  "unbuilt cache = (\<lambda>(k, n). if hm_get cache k = None then net_weight n else 0)"

definition pending_weight :: "'p bctx \<Rightarrow> nat" where
  "pending_weight s = sum_list (map (unbuilt (bc_cache s)) (bc_config s))"

lemma sum_list_insert:
  fixes f :: "'k \<times> 'v \<Rightarrow> nat"
  shows "sum_list (map f (hm_insert k v m)) + (case hm_get m k of Some u \<Rightarrow> f (k, u) | None \<Rightarrow> 0)
    = sum_list (map f m) + f (k, v)"
  by (induction m) (auto simp: hm_insert_def hm_get_def split: option.split)

lemma sum_list_remove:
  fixes f :: "'k \<times> 'v \<Rightarrow> nat"
  shows "hm_get m k = Some u \<Longrightarrow> sum_list (map f (hm_remove k m)) + f (k, u) \<le> sum_list (map f m)"
proof (induction m)
  case (Cons e m)
  obtain j v where e: "e = (j, v)" by (cases e)
  have le: "sum_list (map f (hm_remove k m)) \<le> sum_list (map f m)" for m
    by (induction m) (auto simp: hm_remove_def)
  show ?case
  proof (cases "j = k")
    case True
    with Cons.prems have "u = v" by (simp add: hm_get_def e)
    with True le [of m] show ?thesis by (simp add: hm_remove_def e)
  next
    case False
    with Cons.prems have "hm_get m k = Some u" by (simp add: hm_get_def e)
    with Cons.IH False show ?thesis by (simp add: hm_remove_def e)
  qed
qed simp

lemma net_from_value_size: "net_from_value j = Inr n \<Longrightarrow> Suc (jsize (net_opt n)) \<le> jsize j"
proof -
  assume "net_from_value j = Inr n"
  then obtain m t where j: "j = JObj m" "hm_get m ''type'' = Some (JStr t)" "n = net_new t (JObj (hm_remove ''type'' m))"
    by (auto simp: net_from_value_def split: json.splits option.splits)
  from sum_list_remove [OF j(2), of "\<lambda>(k, v). Suc (jsize v)"] show ?thesis
    by (simp add: j net_new_def)
qed

text \<open>What the code relies on in a deserializer: the references of a configuration read from JSON are
  either names or disjoint parts of that JSON, so together they are not larger.\<close>

definition de_sound :: "'p resolver \<Rightarrow> bool" where
  "de_sound r \<longleftrightarrow> (\<forall>j c. rv_de r j = Inr c \<longrightarrow> sum_list (map weight (net_refs c)) \<le> jsize j)"

definition registry_sound :: "('p, 'q) registry \<Rightarrow> bool" where
  "registry_sound reg \<longleftrightarrow> hm_get (reg_net reg) ''circular reference'' = None
     \<and> (\<forall>t i. hm_get (reg_net reg) t = Some i \<longrightarrow> de_sound (it_resolver i))
     \<and> (\<forall>t i. hm_get (reg_server reg) t = Some i \<longrightarrow> de_sound (it_resolver i))"

fun bad_error :: "build_error \<Rightarrow> bool" where
  "bad_error (BuildError _) = False"
| "bad_error _ = True"

lemma bad_build_context [simp]: "bad_error (build_context c e) = bad_error e"
  by (cases e) simp_all

lemma ref_name_bound:
  "case ref_name r (cvs_of ss) (cvs_of ps) s of Inl e \<Rightarrow> \<not> bad_error e
   | Inr (name, r', s') \<Rightarrow> pending_weight s' \<le> pending_weight s + weight r \<and> bc_cache s' = bc_cache s"
proof (cases "\<exists>name. represent r = JStr name")
  case True
  then show ?thesis by (auto simp: ref_name_def)
next
  case False
  let ?g = "join ''/'' (ps @ ss)"
  have "ref_name r (cvs_of ss) (cvs_of ps) s =
    rbind (map_err (\<lambda>e. BuildError (ConfigError e)) (net_from_value (represent r))) (\<lambda>n.
      Inr (?g, r\<lparr> represent := JStr ?g \<rparr>, s\<lparr> bc_config := hm_insert ?g n (bc_config s) \<rparr>))"
    using False by (cases "represent r") (simp_all add: ref_name_def cvs_join_def)
  moreover have "pending_weight (s\<lparr> bc_config := hm_insert ?g n (bc_config s) \<rparr>) \<le> pending_weight s + weight r"
    if n: "net_from_value (represent r) = Inr n" for n
  proof -
    have "weight r = jsize (represent r)" using False by (cases "represent r") simp_all
    with net_from_value_size [OF n] have "unbuilt (bc_cache s) (?g, n) \<le> weight r"
      by (simp add: unbuilt_def net_weight_def)
    then show ?thesis
      using sum_list_insert [of "unbuilt (bc_cache s)" ?g n "bc_config s"] by (simp add: pending_weight_def)
  qed
  ultimately show ?thesis by (cases "net_from_value (represent r)") auto
qed

lemma build_dyn_bound:
  assumes "de_sound rv" "getter_bound g M weight bad_error B" "M s + jsize cfg < B"
  shows "case build_dyn rv g cfg s of Inl e \<Rightarrow> \<not> bad_error e | Inr (net, cfg', s') \<Rightarrow> M s' \<le> M s + jsize cfg"
proof (cases "rv_de rv cfg")
  case (Inl e)
  then show ?thesis by (simp add: build_dyn_def)
next
  case (Inr c)
  then have c: "sum_list (map weight (net_refs c)) \<le> jsize cfg" using assms(1) by (simp add: de_sound_def)
  with resolve_net_bound [OF assms(2), of s c] assms(3) Inr show ?thesis
    by (auto simp: build_dyn_def rbind_def map_err_def split: sum.splits prod.splits)
qed

lemma build_net_bound:
  assumes "registry_sound reg" "getter_bound g M weight bad_error B" "M s + jsize (net_opt i) < B"
  shows "case build_net debug reg name i g s of Inl e \<Rightarrow> \<not> bad_error e
    | Inr (net, i', s') \<Rightarrow> M s' \<le> M s + jsize (net_opt i)"
proof (cases "hm_get (reg_net reg) (net_type i)")
  case None
  then show ?thesis by (simp add: build_net_def reg_get_net_def)
next
  case (Some item)
  then have "de_sound (it_resolver item)" using assms(1) by (simp add: registry_sound_def)
  from build_dyn_bound [OF this assms(2,3)] Some show ?thesis
    by (auto simp: build_net_def reg_get_net_def item_build_def rbind_def map_err_def split: sum.splits prod.splits)
qed

lemma build_server_bound:
  assumes "registry_sound reg" "getter_bound g M weight bad_error B" "M s + jsize (srv_opt i) < B"
  shows "case build_server debug reg name i g s of Inl e \<Rightarrow> \<not> bad_error e
    | Inr (server, i', s') \<Rightarrow> M s' \<le> M s + jsize (srv_opt i)"
proof (cases "hm_get (reg_server reg) (srv_type i)")
  case None
  then show ?thesis by (simp add: build_server_def reg_get_server_def)
next
  case (Some item)
  then have "de_sound (it_resolver item)" using assms(1) by (simp add: registry_sound_def)
  from build_dyn_bound [OF this assms(2,3)] Some show ?thesis
    by (auto simp: build_server_def reg_get_server_def item_build_def rbind_def map_err_def split: sum.splits prod.splits)
qed

text \<open>Taking a net out for building removes its weight; putting it back marks it as built.\<close>

lemma pending_take:
  assumes "hm_get (bc_config s) name = Some cfg" "hm_get (bc_cache s) name = None"
  shows "pending_weight (s\<lparr> bc_config := hm_insert name placeholder (bc_config s) \<rparr>) + net_weight cfg = pending_weight s"
  using sum_list_insert [of "unbuilt (bc_cache s)" name placeholder "bc_config s"] assms
  by (simp add: pending_weight_def unbuilt_def net_weight_def)

lemma pending_put:
  "pending_weight (s\<lparr> bc_config := hm_insert name cfg (bc_config s), bc_cache := hm_insert name net (bc_cache s) \<rparr>)
     \<le> pending_weight s"
proof -
  let ?f = "unbuilt (hm_insert name net (bc_cache s))"
  have "sum_list (map ?f (hm_insert name cfg (bc_config s))) \<le> sum_list (map ?f (bc_config s))"
    using sum_list_insert [of ?f name cfg "bc_config s"] by (simp add: unbuilt_def)
  also have "\<dots> \<le> sum_list (map (unbuilt (bc_cache s)) (bc_config s))"
    by (rule sum_list_mono) (auto simp: unbuilt_def)
  finally show ?thesis by (simp add: pending_weight_def)
qed

lemma get_net_step:
  assumes reg: "registry_sound reg"
    and IH: "\<And>ps. getter_bound (get_net n debug reg (cvs_of ps)) pending_weight weight bad_error n"
    and name: "hm_get (bc_config s) name = Some cfg" "hm_get (bc_cache s) name = None" and less: "pending_weight s \<le> n"
  shows "case build_net debug reg name cfg (get_net n debug reg (cvs_from_iter [''net'', name]))
        (s\<lparr> bc_config := hm_insert name placeholder (bc_config s) \<rparr>) of
      Inl e \<Rightarrow> \<not> bad_error e | Inr (net, cfg', s') \<Rightarrow> pending_weight s' \<le> pending_weight s"
proof (cases "cfg = placeholder")
  case True
  then show ?thesis
    using reg by (simp add: build_net_def reg_get_net_def placeholder_def net_new_def registry_sound_def)
next
  case False
  let ?s = "s\<lparr> bc_config := hm_insert name placeholder (bc_config s) \<rparr>"
  have w: "pending_weight ?s + Suc (jsize (net_opt cfg)) = pending_weight s"
    using pending_take [OF name] False by (simp add: net_weight_def)
  with less have "pending_weight ?s + jsize (net_opt cfg) < n" by linarith
  from build_net_bound [OF reg IH [of "[''net'', name]"] this, where debug = debug and name = name] show ?thesis
    using w by (auto split: sum.splits prod.splits)
qed

lemma get_net_bound:
  assumes "registry_sound reg"
  shows "getter_bound (get_net n debug reg (cvs_of ps)) pending_weight weight bad_error n"
proof (induction n arbitrary: ps)
  case 0
  show ?case by (simp add: getter_bound_def)
next
  case (Suc n)
  have "case get_net (Suc n) debug reg (cvs_of ps) r (cvs_of ss) s of Inl e \<Rightarrow> \<not> bad_error e
      | Inr (r', net, s') \<Rightarrow> pending_weight s' \<le> pending_weight s + weight r"
    if less: "pending_weight s + weight r < Suc n" for r ss and s :: "'a bctx"
  proof (cases "ref_name r (cvs_of ss) (cvs_of ps) s")
    case (Inl e)
    with ref_name_bound [where r = r and ss = ss and ps = ps and s = s] show ?thesis by simp
  next
    case (Inr x)
    obtain name r' s1 where x: "x = (name, r', s1)" by (cases x)
    have s1: "pending_weight s1 \<le> pending_weight s + weight r"
      using ref_name_bound [where r = r and ss = ss and ps = ps and s = s] Inr x by simp
    show ?thesis
    proof (cases "hm_get (bc_cache s1) name")
      case (Some net)
      with Inr x s1 show ?thesis by simp
    next
      case None
      show ?thesis
      proof (cases "hm_get (bc_config s1) name")
        case None
        with Inr x \<open>hm_get (bc_cache s1) name = None\<close> show ?thesis by simp
      next
        case (Some cfg)
        have "pending_weight s1 \<le> n" using s1 less by simp
        from get_net_step [OF assms Suc.IH Some None this] Inr x None Some s1 show ?thesis
          by (auto simp: rbind_def Let_def split: sum.splits prod.splits intro: le_trans [OF pending_put])
      qed
    qed
  qed
  then show ?case by (simp add: getter_bound_def)
qed

lemma get_server_net_bound:
  assumes "registry_sound reg"
  shows "getter_bound (get_server_net n debug reg name) pending_weight weight bad_error n"
  using get_net_bound [OF assms, of n debug "[''server'', name]"]
  unfolding getter_bound_def get_server_net_def
  by (fastforce simp: rbind_def split: sum.splits prod.splits)

lemma build_servers_bound:
  assumes "registry_sound reg"
  shows "pending_weight s + sum_list (map (\<lambda>(k, i). jsize (srv_opt i)) is) < n \<Longrightarrow>
    (case build_servers n debug reg is s of Inl e \<Rightarrow> \<not> bad_error e | Inr _ \<Rightarrow> True)"
proof (induction "is" arbitrary: s)
  case (Cons x "is")
  obtain name i where x: "x = (name, i)" by (cases x)
  have less: "pending_weight s + jsize (srv_opt i) < n" using Cons.prems by (simp add: x)
  note b = build_server_bound [OF assms get_server_net_bound [OF assms, of n debug name] less, where debug = debug and name = name]
  show ?case
  proof (cases "build_server debug reg name i (get_server_net n debug reg name) s")
    case (Inl e)
    with b show ?thesis by (simp add: x)
  next
    case (Inr y)
    obtain server i' s' where y: "y = (server, i', s')" by (cases y)
    have "pending_weight s' \<le> pending_weight s + jsize (srv_opt i)"
      using b Inr y by simp
    with Cons.prems have "pending_weight s' + sum_list (map (\<lambda>(k, i). jsize (srv_opt i)) is) < n" by (simp add: x)
    from Cons.IH [OF this] show ?thesis
      by (auto simp: x Inr y rbind_def map_err_def split: sum.splits prod.splits)
  qed
qed simp

subsection \<open>Circular references\<close>

text \<open>A set of nets each of which refers by name to one of the set. Names with a slash are left to nets given in place.\<close>

definition refers_to :: "string list \<Rightarrow> net_handle net_ref \<Rightarrow> bool" where
  "refers_to C r = list_ex (\<lambda>b. represent r = JStr b) C"

definition circular :: "('p, 'q) registry \<Rightarrow> (string, cfg_net) hmap \<Rightarrow> string list \<Rightarrow> bool" where
  "circular reg nets C = list_all (\<lambda>a. CHR ''/'' \<notin> set a \<and> (case hm_get nets a of None \<Rightarrow> True | Some cfg \<Rightarrow>
     (case hm_get (reg_net reg) (net_type cfg) of None \<Rightarrow> True | Some item \<Rightarrow>
     (case rv_de (it_resolver item) (net_opt cfg) of Inl _ \<Rightarrow> True | Inr conf \<Rightarrow> list_ex (refers_to C) (net_refs conf))))) C"

text \<open>None of the set is built, and each has its own configuration or is under construction.\<close>

definition none_built :: "(string, cfg_net) hmap \<Rightarrow> string list \<Rightarrow> 'p bctx \<Rightarrow> bool" where
  "none_built nets C s = list_all (\<lambda>a. hm_get (bc_cache s) a = None
     \<and> (hm_get (bc_config s) a = hm_get nets a \<or> hm_get (bc_config s) a = Some placeholder)) C"

definition getter_keeps :: "('s \<Rightarrow> bool) \<Rightarrow> ('n net_ref \<Rightarrow> bool) \<Rightarrow> ('n, 's, 'e) net_getter \<Rightarrow> bool" where
  "getter_keeps I Q g = (\<forall>r p s r' h s'. I s \<longrightarrow> g r p s = Inr (r', h, s') \<longrightarrow> I s' \<and> Q r)"

lemma build_dyn_refs:
  assumes "build_dyn rv g cfg s = Inr (x, cfg', s')" "I s" "getter_keeps I Q g"
  shows "I s' \<and> (\<exists>conf. rv_de rv cfg = Inr conf \<and> list_all Q (net_refs conf))"
proof -
  from assms(1) obtain conf conf' where c: "rv_de rv cfg = Inr conf" "resolve_net g conf s = Inr (conf', s')"
    by (auto simp: build_dyn_def map_err_def split: sum.splits elim!: rbind_InrE)
  from resolve_net_invariant [where I = I and Q = Q, OF c(2) assms(2)] assms(3) c(1) show ?thesis
    unfolding getter_keeps_def by blast
qed

lemma build_net_refs:
  assumes "build_net debug reg name i g s = Inr (x, i', s')" "I s" "getter_keeps I Q g"
  shows "I s' \<and> (\<exists>item conf. hm_get (reg_net reg) (net_type i) = Some item
    \<and> rv_de (it_resolver item) (net_opt i) = Inr conf \<and> list_all Q (net_refs conf))"
proof -
  from assms(1) obtain item opt where c: "hm_get (reg_net reg) (net_type i) = Some item"
    "build_dyn (it_resolver item) g (net_opt i) s = Inr (x, opt, s')"
    by (auto simp: build_net_def reg_get_net_def item_build_def ok_or_def rbind_def map_err_def split: sum.splits option.splits prod.splits)
  from build_dyn_refs [where I = I and Q = Q, OF c(2) assms(2,3)] c(1) show ?thesis by blast
qed

lemma build_server_refs:
  assumes "build_server debug reg name i g s = Inr (x, i', s')" "I s" "getter_keeps I Q g"
  shows "I s' \<and> (\<exists>item conf. hm_get (reg_server reg) (srv_type i) = Some item
    \<and> rv_de (it_resolver item) (srv_opt i) = Inr conf \<and> list_all Q (net_refs conf))"
proof -
  from assms(1) obtain item opt where c: "hm_get (reg_server reg) (srv_type i) = Some item"
    "build_dyn (it_resolver item) g (srv_opt i) s = Inr (x, opt, s')"
    by (auto simp: build_server_def reg_get_server_def item_build_def ok_or_def rbind_def map_err_def split: sum.splits option.splits prod.splits)
  from build_dyn_refs [where I = I and Q = Q, OF c(2) assms(2,3)] c(1) show ?thesis by blast
qed

lemma slash_in_join: "CHR ''/'' \<in> set (join ''/'' (a # b # ps))"
  by simp

text \<open>The name of a reference is its text, or it contains a slash.\<close>

lemma ref_name_cases:
  assumes "ref_name r path (cvs_of [a, b]) s = Inr (name, r', s')"
  shows "represent r = JStr name \<and> s' = s
    \<or> (\<forall>x. represent r \<noteq> JStr x) \<and> CHR ''/'' \<in> set name \<and> bc_cache s' = bc_cache s \<and> (\<exists>n. bc_config s' = hm_insert name n (bc_config s))"
proof (cases "\<exists>x. represent r = JStr x")
  case True
  with assms show ?thesis by (auto simp: ref_name_def)
next
  case False
  have j: "cvs_join (cvs_of (a # b # ps)) ''/'' = Inr g \<Longrightarrow> CHR ''/'' \<in> set g" for ps g
    using slash_in_join [of a b ps] by (simp add: cvs_join_def)
  from False assms show ?thesis
    by (cases "represent r") (auto simp: ref_name_def split: sum.splits elim!: rbind_InrE dest: j)
qed

lemma none_built_other:
  "none_built nets C s \<Longrightarrow> name \<notin> set C \<Longrightarrow> none_built nets C (s\<lparr> bc_config := hm_insert name cfg (bc_config s) \<rparr>)"
  "none_built nets C s \<Longrightarrow> name \<notin> set C \<Longrightarrow>
     none_built nets C (s\<lparr> bc_config := hm_insert name cfg (bc_config s), bc_cache := hm_insert name net (bc_cache s) \<rparr>)"
  by (auto simp: none_built_def list_all_iff)

lemma none_built_same: "bc_cache s' = bc_cache s \<Longrightarrow> bc_config s' = bc_config s \<Longrightarrow> none_built nets C s' = none_built nets C s"
  by (simp add: none_built_def)

lemma get_net_circular:
  assumes "circular reg nets C" "hm_get (reg_net reg) ''circular reference'' = None"
  shows "getter_keeps (none_built nets C) (\<lambda>r. \<not> refers_to C r) (get_net n debug reg (cvs_of [a, b]))"
proof (induction n arbitrary: a b)
  case (Suc n)
  show ?case unfolding getter_keeps_def
  proof (intro allI impI)
  fix r path s r' h s'
  assume prems: "none_built nets C s" "get_net (Suc n) debug reg (cvs_of [a, b]) r path s = Inr (r', h, s')"
  from prems(2) obtain name r1 s1 where ref: "ref_name r path (cvs_of [a, b]) s = Inr (name, r1, s1)"
    by (auto elim!: rbind_InrE)
  note cases = ref_name_cases [OF ref]
  have noslash: "CHR ''/'' \<notin> set x" if "x \<in> set C" for x using assms(1) that by (auto simp: circular_def list_all_iff)
  have refers: "refers_to C r \<longleftrightarrow> represent r = JStr name \<and> name \<in> set C"
    using cases noslash by (auto simp: refers_to_def list_ex_iff)
  have s1: "none_built nets C s1"
  proof (cases "represent r = JStr name \<and> s1 = s")
    case False
    with cases obtain m where m: "CHR ''/'' \<in> set name" "bc_cache s1 = bc_cache s" "bc_config s1 = hm_insert name m (bc_config s)" by blast
    then have "name \<notin> set C" using noslash by blast
    from none_built_other(1) [OF prems(1) this, of m] m none_built_same [of s1 "s\<lparr> bc_config := hm_insert name m (bc_config s) \<rparr>" nets C]
    show ?thesis by simp
  qed (use prems(1) in simp)
  show "none_built nets C s' \<and> \<not> refers_to C r"
  proof (cases "hm_get (bc_cache s1) name")
    case (Some net)
    with s1 have "name \<notin> set C" by (auto simp: none_built_def list_all_iff)
    with prems(2) ref Some s1 refers show ?thesis by simp
  next
    case None
    let ?s2 = "\<lambda>s. s\<lparr> bc_config := hm_insert name placeholder (bc_config s) \<rparr>"
    from prems(2) ref None obtain cfg net cfg' s3 where cfg: "hm_get (bc_config s1) name = Some cfg"
      and b: "build_net debug reg name cfg (get_net n debug reg (cvs_of [''net'', name])) (?s2 s1) = Inr (net, cfg', s3)"
      and s': "s' = s3\<lparr> bc_config := hm_insert name cfg' (bc_config s3), bc_cache := hm_insert name net (bc_cache s3) \<rparr>"
      by (auto simp: ok_or_def Let_def rbind_def split: sum.splits option.splits prod.splits)
    have s2: "none_built nets C (?s2 s1)" using s1 by (auto simp: none_built_def list_all_iff)
    from build_net_refs [where I = "none_built nets C" and Q = "\<lambda>r. \<not> refers_to C r", OF b s2 Suc.IH]
    obtain item conf where s3: "none_built nets C s3" and item: "hm_get (reg_net reg) (net_type cfg) = Some item"
      and conf: "rv_de (it_resolver item) (net_opt cfg) = Inr conf" "list_all (\<lambda>r. \<not> refers_to C r) (net_refs conf)" by blast
    have "name \<notin> set C"
    proof
      assume C: "name \<in> set C"
      have "net_type cfg \<noteq> ''circular reference''" using item assms(2) by auto
      then have "cfg \<noteq> placeholder" by (auto simp: placeholder_def net_new_def)
      with s1 C cfg have "hm_get nets name = Some cfg" by (auto simp: none_built_def list_all_iff)
      with assms(1) C item conf(1) have "list_ex (refers_to C) (net_refs conf)" by (auto simp: circular_def list_all_iff)
      with conf(2) show False by (auto simp: list_all_iff list_ex_iff)
    qed
    with none_built_other(2) [OF s3 this] s' refers show ?thesis by simp
  qed
  qed
qed (simp add: getter_keeps_def)

lemma build_servers_circular:
  assumes "circular reg nets C" "hm_get (reg_net reg) ''circular reference'' = None"
  shows "none_built nets C s \<Longrightarrow> build_servers n debug reg is s = Inr (is', ents, s') \<Longrightarrow>
    none_built nets C s' \<and> list_all (\<lambda>(name, i). \<exists>item conf. hm_get (reg_server reg) (srv_type i) = Some item
      \<and> rv_de (it_resolver item) (srv_opt i) = Inr conf \<and> list_all (\<lambda>r. \<not> refers_to C r) (net_refs conf)) is"
proof (induction "is" arbitrary: s is' ents s')
  case (Cons x "is")
  obtain name i where x: "x = (name, i)" by (cases x)
  from Cons.prems(2) obtain server i' s1 is1 ents1
    where b: "build_server debug reg name i (get_server_net n debug reg name) s = Inr (server, i', s1)"
      and r: "build_servers n debug reg is s1 = Inr (is1, ents1, s')"
    by (auto simp: x rbind_def map_err_def split: sum.splits prod.splits)
  have g: "getter_keeps (none_built nets C) (\<lambda>r. \<not> refers_to C r) (get_server_net n debug reg name)"
    using get_net_circular [OF assms, of n debug "''server''" name] unfolding getter_keeps_def get_server_net_def
    by (fastforce elim!: rbind_InrE)
  from build_server_refs [where I = "none_built nets C" and Q = "\<lambda>r. \<not> refers_to C r", OF b Cons.prems(1) g] Cons.IH [OF _ r]
  show ?case by (simp add: x)
qed simp

text \<open>The fuel that is enough: one more than the size of the configuration.\<close>

definition build_fuel :: "json \<Rightarrow> config \<Rightarrow> nat" where
  "build_fuel local_opt c = Suc (pending_weight \<lparr> bc_config = init_default_net local_opt (cfg_nets c), bc_cache = [] :: (string, unit) hmap \<rparr>
     + sum_list (map (\<lambda>(k, i). jsize (srv_opt i)) (cfg_servers c)))"

text \<open>C11: Building a configuration terminates, whatever its nets refer to: with fuel for the size of the
  configuration the build returns entities or an error, and reading the paths of nested nets never
  panics. And circular references are errors: when nets refer to each other in a circle, by names, none of them is built, and
  so the configuration is built only if no server refers to one of them.\<close>

theorem build_entities_terminates:
  assumes "registry_sound reg" "build_fuel local_opt c \<le> n"
  shows "case build_entities n debug local_opt reg c of
     Inl e \<Rightarrow> \<exists>e'. e = BuildError e'
   | Inr (c', ents) \<Rightarrow>
       (if circular reg (init_default_net local_opt (cfg_nets c)) C
        then list_all (\<lambda>a. hm_get (ent_nets ents) a = None) C
          \<and> list_all (\<lambda>(name, i). \<exists>item conf. hm_get (reg_server reg) (srv_type i) = Some item
              \<and> rv_de (it_resolver item) (srv_opt i) = Inr conf \<and> list_all (\<lambda>r. \<not> refers_to C r) (net_refs conf)) (cfg_servers c)
        else True)"
proof -
  let ?nets = "init_default_net local_opt (cfg_nets c)"
  let ?s = "\<lparr> bc_config = ?nets, bc_cache = [] \<rparr> :: 'a bctx"
  have "pending_weight ?s + sum_list (map (\<lambda>(k, i). jsize (srv_opt i)) (cfg_servers c)) < n"
    using assms(2) by (simp add: build_fuel_def pending_weight_def unbuilt_def)
  note bound = build_servers_bound [OF assms(1) this, of debug]
  show ?thesis
  proof (cases "build_servers n debug reg (cfg_servers c) ?s")
    case (Inl e)
    with bound show ?thesis by (simp add: build_entities_def Let_def) (auto elim: bad_error.elims)
  next
    case (Inr x)
    obtain servers ents s' where x: "x = (servers, ents, s')" by (cases x)
    have "hm_get (reg_net reg) ''circular reference'' = None" using assms(1) by (simp add: registry_sound_def)
    note circ = build_servers_circular [OF _ this _ Inr [unfolded x], of ?nets C]
    have "none_built ?nets C ?s" by (simp add: none_built_def list_all_iff)
    with circ Inr x show ?thesis by (auto simp: build_entities_def Let_def none_built_def list_all_iff)
  qed
qed

text \<open>The alias net of \<open>rd-std\<close> as a plugin, and a configuration in which two nets are aliases of each other.\<close>

definition alias_de :: "json \<Rightarrow> string + net_handle config_val" where
  "alias_de j = (case json_get j ''net'' of
     Some (JStr name) \<Rightarrow> Inr (CfgFields [(''net'', CfgNetRef (res_new (JStr name)))])
   | _ \<Rightarrow> Inl ''missing field `net`'')"

fun alias_ser :: "net_handle config_val \<Rightarrow> string + json" where
  "alias_ser (CfgFields [(k, CfgNetRef r)]) = Inr (JObj [(k, represent r)])"
| "alias_ser _ = Inl ''not an alias''"

fun alias_build :: "net_handle config_val \<Rightarrow> net_handle rd" where
  "alias_build (CfgFields [(k, CfgNetRef r)]) =
     (case value_cloned r of Inr h \<Rightarrow> Inr h | Inl (Panic m) \<Rightarrow> Inl (OtherError m))"
| "alias_build _ = Inl (OtherError ''not an alias'')"

definition alias_registry :: "(net_handle, net_handle) registry" where
  "alias_registry = (let r = \<lparr> rv_de = alias_de, rv_ser = alias_ser, rv_build = alias_build \<rparr> in
     add_registry ''std'' (add_net ''alias'' r (add_server ''alias'' r plugin_registry_new)) registry_new)"

lemma alias_registry_sound: "registry_sound alias_registry"
  by (auto simp: registry_sound_def alias_registry_def add_registry_def add_net_def add_server_def plugin_registry_new_def
      registry_new_def reg_items_def de_sound_def alias_de_def res_new_def Let_def hm_get_def hm_insert_def
      split: option.splits json.splits if_splits)

definition two_aliases :: "string \<Rightarrow> config" where
  "two_aliases server_net = (let opt = (\<lambda>n. JObj [(''net'', JStr n)]) in
     \<lparr> cfg_id = ''c'', cfg_nets = [(''a'', net_new ''alias'' (opt ''b'')), (''b'', net_new ''alias'' (opt ''a''))],
       cfg_servers = [(''s'', server_new ''alias'' (opt server_net))] \<rparr>)"

lemma two_aliases_circular: "circular alias_registry (init_default_net JNull (cfg_nets (two_aliases x))) [''a'', ''b'']"
  by (simp add: circular_def two_aliases_def alias_registry_def add_registry_def add_net_def add_server_def plugin_registry_new_def
      registry_new_def reg_items_def alias_de_def refers_to_def res_new_def net_new_def Let_def hm_get_def hm_insert_def
      init_default_net_def)

lemma build_entities_terminates_witness:
  "\<exists>e. build_entities (build_fuel JNull (two_aliases ''a'')) id JNull alias_registry (two_aliases ''a'') = Inl (BuildError e)"
proof (cases "build_entities (build_fuel JNull (two_aliases ''a'')) id JNull alias_registry (two_aliases ''a'')")
  case (Inl e)
  with build_entities_terminates [OF alias_registry_sound order.refl, where local_opt = JNull and c = "two_aliases ''a''" and debug = id and C = "[''a'', ''b'']"]
  show ?thesis by auto
next
  case (Inr x)
  with build_entities_terminates [OF alias_registry_sound order.refl, where local_opt = JNull and c = "two_aliases ''a''" and debug = id and C = "[''a'', ''b'']"] two_aliases_circular [of "''a''"]
  have "list_all (\<lambda>(name, i). \<exists>item conf. hm_get (reg_server alias_registry) (srv_type i) = Some item
      \<and> rv_de (it_resolver item) (srv_opt i) = Inr conf \<and> list_all (\<lambda>r. \<not> refers_to [''a'', ''b''] r) (net_refs conf)) (cfg_servers (two_aliases ''a''))"
    by (cases x) simp
  then have False
    by (simp add: two_aliases_def alias_registry_def add_registry_def add_net_def add_server_def plugin_registry_new_def
      registry_new_def reg_items_def alias_de_def refers_to_def res_new_def server_new_def Let_def hm_get_def hm_insert_def)
  then show ?thesis ..
qed

end
