(* ===== verification/Conn_Manager.thy ===== *)
theory Conn_Manager
  imports Address Hash_Map
begin

section \<open>Connection manager\<close>

text \<open>
  \<open>rabbit-digger/src/rabbit_digger/connection_manager.rs\<close> and \<open>event.rs\<close>. Connections report to the
  manager through an unbounded queue of events; the manager's task applies them to the shared
  \<open>ConnectionState\<close>. A connection is known by its uuid, and its stop channel by the same uuid: the
  oneshot sender is held by the manager once \<open>SetStopper\<close> has been applied, and \<open>cw_fired\<close> are the
  channels that have been fired. Counters are \<open>u64\<close> and wrap. The context value of a connection is
  opaque (\<open>'v\<close>), and so is the uuid (\<open>'u\<close>).
\<close>

datatype ('u, 'v) event_type =
    NewTcp address 'v | NewUdp address 'v | SetStopper 'u | CloseConnection
  | Write u64 | Read u64 | SendTo address u64 | RecvFrom address u64

record ('u, 'v) event =
  e_uuid :: 'u
  e_events :: "('u, 'v) event_type list"
  e_time :: nat

datatype protocol = Tcp | Udp

record ('u, 'v) conn_info =
  ci_protocol :: protocol
  ci_addr :: address
  ci_start_time :: nat
  ci_ctx :: 'v
  ci_upload :: u64
  ci_download :: u64
  ci_stop_sender :: "'u option"

record ('u, 'v) conn_state =
  connections :: "('u, ('u, 'v) conn_info) hmap"
  total_upload :: u64
  total_download :: u64

definition conn_state_new :: "('u, 'v) conn_state" where
  "conn_state_new = \<lparr> connections = [], total_upload = 0, total_download = 0 \<rparr>"

subsection \<open>Applying events\<close>

definition new_info :: "protocol \<Rightarrow> address \<Rightarrow> 'v \<Rightarrow> nat \<Rightarrow> ('u, 'v) conn_info" where
  "new_info p addr ctx time =
     \<lparr> ci_protocol = p, ci_addr = addr, ci_start_time = time, ci_ctx = ctx, ci_upload = 0, ci_download = 0,
       ci_stop_sender = None \<rparr>"

definition add_download :: "'u \<Rightarrow> u64 \<Rightarrow> ('u, 'v) conn_state \<Rightarrow> ('u, 'v) conn_state" where
  "add_download uuid n st = (case hm_get (connections st) uuid of
     None \<Rightarrow> st
   | Some conn \<Rightarrow> st\<lparr> connections := hm_insert uuid (conn\<lparr> ci_download := ci_download conn + n \<rparr>) (connections st),
                       total_download := total_download st + n \<rparr>)"

definition add_upload :: "'u \<Rightarrow> u64 \<Rightarrow> ('u, 'v) conn_state \<Rightarrow> ('u, 'v) conn_state" where
  "add_upload uuid n st = (case hm_get (connections st) uuid of
     None \<Rightarrow> st
   | Some conn \<Rightarrow> st\<lparr> connections := hm_insert uuid (conn\<lparr> ci_upload := ci_upload conn + n \<rparr>) (connections st),
                       total_upload := total_upload st + n \<rparr>)"

fun input_one :: "'u \<Rightarrow> nat \<Rightarrow> ('u, 'v) event_type \<Rightarrow> ('u, 'v) conn_state \<Rightarrow> ('u, 'v) conn_state" where
  "input_one uuid time (NewTcp addr ctx) st =
     st\<lparr> connections := hm_insert uuid (new_info Tcp addr ctx time) (connections st) \<rparr>"
| "input_one uuid time (NewUdp addr ctx) st =
     st\<lparr> connections := hm_insert uuid (new_info Udp addr ctx time) (connections st) \<rparr>"
| "input_one uuid time (SetStopper sender) st = (case hm_get (connections st) uuid of
     None \<Rightarrow> st
   | Some conn \<Rightarrow> st\<lparr> connections := hm_insert uuid (conn\<lparr> ci_stop_sender := Some sender \<rparr>) (connections st) \<rparr>)"
| "input_one uuid time (Read n) st = add_download uuid n st"
| "input_one uuid time (Write n) st = add_upload uuid n st"
| "input_one uuid time (RecvFrom _ n) st = add_download uuid n st"
| "input_one uuid time (SendTo _ n) st = add_upload uuid n st"
| "input_one uuid time CloseConnection st = st\<lparr> connections := hm_remove uuid (connections st) \<rparr>"

definition input_event :: "('u, 'v) event \<Rightarrow> ('u, 'v) conn_state \<Rightarrow> ('u, 'v) conn_state" where
  "input_event e st = fold (input_one (e_uuid e) (e_time e)) (e_events e) st"

definition connection_count :: "('u, 'v) conn_state \<Rightarrow> nat" where
  "connection_count st = length (connections st)"

subsection \<open>Connections\<close>

datatype conn_counters =
    TcpCounters u64 u64
  | UdpCounters "(address, u64) hmap" "(address, u64) hmap"

fun counters_default :: "protocol \<Rightarrow> conn_counters" where
  "counters_default Tcp = TcpCounters 0 0"
| "counters_default Udp = UdpCounters [] []"

fun event_type_of :: "protocol \<Rightarrow> address \<Rightarrow> 'v \<Rightarrow> ('u, 'v) event_type" where
  "event_type_of Tcp addr ctx = NewTcp addr ctx"
| "event_type_of Udp addr ctx = NewUdp addr ctx"

text \<open>The events of the counters since the last report, and the counters after it. \<open>HashMap::drain\<close>
  yields the entries in some order; here it is the order of the list.\<close>

fun get_events :: "conn_counters \<Rightarrow> ('u, 'v) event_type list \<times> conn_counters" where
  "get_events (TcpCounters r w) =
     ((if r > 0 then [Read r] else []) @ (if w > 0 then [Write w] else []), TcpCounters 0 0)"
| "get_events (UdpCounters rf st) =
     (map (\<lambda>(a, n). RecvFrom a n) rf @ map (\<lambda>(a, n). SendTo a n) st, UdpCounters [] [])"

definition bump :: "address \<Rightarrow> u64 \<Rightarrow> (address, u64) hmap \<Rightarrow> (address, u64) hmap" where
  "bump addr n m = (case hm_get m addr of
     Some e \<Rightarrow> hm_insert addr (e + n) m
   | None \<Rightarrow> hm_insert addr n m)"

text \<open>The calls of a stream or socket on its connection: \<open>read\<close> and \<open>write\<close> for TCP, \<open>recv_from\<close> and
  \<open>send_to\<close> for UDP.\<close>

datatype conn_call = CallRead u64 | CallWrite u64 | CallRecvFrom address u64 | CallSendTo address u64

fun apply_call :: "conn_call \<Rightarrow> conn_counters \<Rightarrow> conn_counters" where
  "apply_call (CallRead n) (TcpCounters r w) = TcpCounters (r + n) w"
| "apply_call (CallWrite n) (TcpCounters r w) = TcpCounters r (w + n)"
| "apply_call (CallRecvFrom a n) (UdpCounters rf st) = UdpCounters (bump a n rf) st"
| "apply_call (CallSendTo a n) (UdpCounters rf st) = UdpCounters rf (bump a n st)"
| "apply_call _ c = c"

fun call_fits :: "conn_call \<Rightarrow> conn_counters \<Rightarrow> bool" where
  "call_fits (CallRead _) (TcpCounters _ _) = True"
| "call_fits (CallWrite _) (TcpCounters _ _) = True"
| "call_fits (CallRecvFrom _ _) (UdpCounters _ _) = True"
| "call_fits (CallSendTo _ _) (UdpCounters _ _) = True"
| "call_fits _ _ = False"

subsection \<open>The manager and its connections together\<close>

text \<open>\<open>cw_live\<close> are the connection objects that have not been dropped, \<open>cw_up\<close> and \<open>cw_down\<close> the bytes
  the calls have reported so far (they are not part of the program).\<close>

record ('u, 'v) conn_world =
  cw_state :: "('u, 'v) conn_state"
  cw_queue :: "('u, 'v) event list"
  cw_live :: "('u, conn_counters) hmap"
  cw_fired :: "'u list"
  cw_up :: u64
  cw_down :: u64

definition cw_init :: "('u, 'v) conn_world" where
  "cw_init = \<lparr> cw_state = conn_state_new, cw_queue = [], cw_live = [], cw_fired = [], cw_up = 0, cw_down = 0 \<rparr>"

definition send_events :: "'u \<Rightarrow> nat \<Rightarrow> ('u, 'v) event_type list \<Rightarrow> ('u, 'v) conn_world \<Rightarrow> ('u, 'v) conn_world" where
  "send_events uuid time evs w =
     (if evs \<noteq> [] then w\<lparr> cw_queue := cw_queue w @ [\<lparr> e_uuid = uuid, e_events = evs, e_time = time \<rparr>] \<rparr> else w)"

definition connection_new :: "'u \<Rightarrow> protocol \<Rightarrow> address \<Rightarrow> 'v \<Rightarrow> nat \<Rightarrow> ('u, 'v) conn_world \<Rightarrow> ('u, 'v) conn_world" where
  "connection_new uuid p addr ctx time w =
     send_events uuid time [event_type_of p addr ctx, SetStopper uuid]
       (w\<lparr> cw_live := hm_insert uuid (counters_default p) (cw_live w) \<rparr>)"

text \<open>\<open>Connection::poll\<close>: a due heartbeat reports the counters; a fired stop channel is an error.\<close>

definition connection_poll ::
  "bool \<Rightarrow> 'u \<Rightarrow> nat \<Rightarrow> ('u, 'v) conn_world \<Rightarrow> ('u, 'v) conn_world \<times> unit io" where
  "connection_poll heartbeat uuid time w = (case hm_get (cw_live w) uuid of
     None \<Rightarrow> (w, Inr ())
   | Some c \<Rightarrow>
       let w = (if heartbeat then
                  case get_events c of (evs, c) \<Rightarrow>
                    send_events uuid time evs (w\<lparr> cw_live := hm_insert uuid c (cw_live w) \<rparr>)
                else w)
       in (w, if uuid \<in> set (cw_fired w) then Inl (IoError ConnectionAborted ''Aborted by user'') else Inr ()))"

definition connection_drop :: "'u \<Rightarrow> nat \<Rightarrow> ('u, 'v) conn_world \<Rightarrow> ('u, 'v) conn_world" where
  "connection_drop uuid time w = (case hm_get (cw_live w) uuid of
     None \<Rightarrow> w
   | Some c \<Rightarrow> (case get_events c of (evs, _) \<Rightarrow>
       send_events uuid time [CloseConnection] (send_events uuid time evs
         (w\<lparr> cw_live := hm_remove uuid (cw_live w) \<rparr>))))"

fun call_up :: "conn_call \<Rightarrow> u64" where
  "call_up (CallWrite n) = n" | "call_up (CallSendTo _ n) = n" | "call_up _ = 0"

fun call_down :: "conn_call \<Rightarrow> u64" where
  "call_down (CallRead n) = n" | "call_down (CallRecvFrom _ n) = n" | "call_down _ = 0"

definition connection_call :: "'u \<Rightarrow> conn_call \<Rightarrow> ('u, 'v) conn_world \<Rightarrow> ('u, 'v) conn_world" where
  "connection_call uuid call w = (case hm_get (cw_live w) uuid of
     None \<Rightarrow> w
   | Some c \<Rightarrow>
       if call_fits call c
       then w\<lparr> cw_live := hm_insert uuid (apply_call call c) (cw_live w),
               cw_up := cw_up w + call_up call, cw_down := cw_down w + call_down call \<rparr>
       else w)"

definition recv_event :: "('u, 'v) conn_world \<Rightarrow> ('u, 'v) conn_world" where
  "recv_event w = (case cw_queue w of
     [] \<Rightarrow> w
   | e # q \<Rightarrow> w\<lparr> cw_queue := q, cw_state := input_event e (cw_state w) \<rparr>)"

text \<open>\<open>stop_connection\<close> takes the sender out of the entry and fires it; sending succeeds when the
  connection object, which holds the receiver, still exists.\<close>

definition stop_connection :: "'u \<Rightarrow> ('u, 'v) conn_world \<Rightarrow> ('u, 'v) conn_world \<times> bool" where
  "stop_connection uuid w = (case hm_get (connections (cw_state w)) uuid of
     None \<Rightarrow> (w, False)
   | Some conn \<Rightarrow> (case ci_stop_sender conn of
       None \<Rightarrow> (w, False)
     | Some ch \<Rightarrow>
         let w = w\<lparr> cw_state := (cw_state w)\<lparr> connections :=
                     hm_insert uuid (conn\<lparr> ci_stop_sender := None \<rparr>) (connections (cw_state w)) \<rparr> \<rparr>;
             ok = (hm_get (cw_live w) ch \<noteq> None)
         in (if ok then w\<lparr> cw_fired := ch # cw_fired w \<rparr> else w, ok)))"

fun stop_each :: "'u list \<Rightarrow> ('u, 'v) conn_world \<Rightarrow> ('u, 'v) conn_world \<times> nat" where
  "stop_each [] w = (w, 0)"
| "stop_each (u # us) w = (case stop_connection u w of (w, ok) \<Rightarrow>
     case stop_each us w of (w, n) \<Rightarrow> (w, (if ok then 1 else 0) + n))"

definition stop_connections :: "('u, 'v) conn_world \<Rightarrow> ('u, 'v) conn_world \<times> nat" where
  "stop_connections w = stop_each (map fst (connections (cw_state w))) w"

text \<open>The steps of the system: the connections, the manager's task and the stop requests interleave
  freely. A new connection draws a fresh uuid.\<close>

inductive cm_step :: "('u, 'v) conn_world \<Rightarrow> ('u, 'v) conn_world \<Rightarrow> bool" where
  new: "hm_get (cw_live w) u = None \<Longrightarrow>
    hm_get (connections (fold input_event (cw_queue w) (cw_state w))) u = None \<Longrightarrow>
    cm_step w (connection_new u p addr ctx t w)"
| poll: "cm_step w (fst (connection_poll hb u t w))"
| call: "cm_step w (connection_call u c w)"
| close: "cm_step w (connection_drop u t w)"
| recv: "cm_step w (recv_event w)"
| stop: "cm_step w (fst (stop_connection u w))"

inductive cm_reach :: "('u, 'v) conn_world \<Rightarrow> bool" where
  init: "cm_reach cw_init"
| step: "cm_reach w \<Longrightarrow> cm_step w w' \<Longrightarrow> cm_reach w'"

inductive_cases cm_stepE: "cm_step w w'"

subsection \<open>Accounting\<close>

fun pend_up :: "conn_counters \<Rightarrow> u64" where
  "pend_up (TcpCounters r w) = w" | "pend_up (UdpCounters rf st) = sum_list (map snd st)"

fun pend_down :: "conn_counters \<Rightarrow> u64" where
  "pend_down (TcpCounters r w) = r" | "pend_down (UdpCounters rf st) = sum_list (map snd rf)"

definition pending :: "(conn_counters \<Rightarrow> u64) \<Rightarrow> ('u, 'v) conn_world \<Rightarrow> u64" where
  "pending f w = sum_list (map (f \<circ> snd) (cw_live w))"

definition drained :: "('u, 'v) conn_world \<Rightarrow> ('u, 'v) conn_state" where
  "drained w = fold input_event (cw_queue w) (cw_state w)"

text \<open>What the accounting depends on: the totals and which connections are known.\<close>

definition same_books :: "('u, 'v) conn_state \<Rightarrow> ('u, 'v) conn_state \<Rightarrow> bool" where
  "same_books a b \<longleftrightarrow> total_upload a = total_upload b \<and> total_download a = total_download b
     \<and> (\<forall>u. (hm_get (connections a) u = None) = (hm_get (connections b) u = None))"

lemma same_books_refl [simp]: "same_books a a"
  by (simp add: same_books_def)

lemma same_books_one: "same_books a b \<Longrightarrow> same_books (input_one u t e a) (input_one u t e b)"
proof -
  assume ab: "same_books a b"
  then have "(hm_get (connections a) u = None) = (hm_get (connections b) u = None)"
    unfolding same_books_def by blast
  then consider (n) "hm_get (connections a) u = None" "hm_get (connections b) u = None"
    | (s) x y where "hm_get (connections a) u = Some x" "hm_get (connections b) u = Some y"
    by auto
  then show ?thesis
  proof cases
    case n
    show ?thesis using ab by (cases e) (simp_all add: same_books_def add_upload_def add_download_def n)
  next
    case s
    show ?thesis using ab by (cases e) (simp_all add: same_books_def add_upload_def add_download_def s)
  qed
qed

lemma same_books_event: "same_books a b \<Longrightarrow> same_books (input_event e a) (input_event e b)"
proof -
  have "same_books (fold (input_one u t) es a) (fold (input_one u t) es b)" if "same_books a b" for u t es a b
    using that by (induction es arbitrary: a b) (simp_all add: same_books_one)
  then show "same_books a b \<Longrightarrow> same_books (input_event e a) (input_event e b)"
    by (simp add: input_event_def)
qed

lemma same_books_queue: "same_books a b \<Longrightarrow> same_books (fold input_event q a) (fold input_event q b)"
  by (induction q arbitrary: a b) (simp_all add: same_books_event)

lemma sum_hm_insert:
  "sum_list (map (f \<circ> snd) (hm_insert k c m)) =
     sum_list (map (f \<circ> snd) m) + f c - (case hm_get m k of Some c0 \<Rightarrow> f c0 | None \<Rightarrow> (0 :: 'a :: ab_group_add))"
  by (induction m) (auto simp: hm_insert_def hm_get_def algebra_simps)

lemma sum_hm_remove:
  "hm_ok m \<Longrightarrow> sum_list (map (f \<circ> snd) (hm_remove k m)) =
     sum_list (map (f \<circ> snd) m) - (case hm_get m k of Some c0 \<Rightarrow> f c0 | None \<Rightarrow> (0 :: 'a :: ab_group_add))"
proof (induction m)
  case (Cons a m)
  obtain j v where a: "a = (j, v)" by (cases a)
  from Cons.prems have ok: "hm_ok m" and j: "j \<notin> fst ` set m" by (auto simp: hm_ok_def a)
  show ?case
  proof (cases "j = k")
    case True
    then have "hm_remove k m = m" using j by (simp add: hm_remove_def delete_id)
    then show ?thesis by (simp add: True a hm_remove_def hm_get_def)
  next
    case False
    then show ?thesis using Cons.IH [OF ok] by (simp add: a hm_remove_def hm_get_def algebra_simps)
  qed
qed (simp add: hm_remove_def hm_get_def)

lemma sum_bump: "sum_list (map snd (bump a n m)) = sum_list (map snd m) + n"
proof (cases "hm_get m a")
  case None
  then show ?thesis using sum_hm_insert [of "\<lambda>x. x" a n m] by (simp add: bump_def comp_def)
next
  case (Some e)
  then show ?thesis
    using sum_hm_insert [of "\<lambda>x. x" a "e + n" m] by (simp add: bump_def comp_def algebra_simps)
qed

lemma pend_call:
  "call_fits call c \<Longrightarrow> pend_up (apply_call call c) = pend_up c + call_up call"
  "call_fits call c \<Longrightarrow> pend_down (apply_call call c) = pend_down c + call_down call"
  by (induction call c rule: apply_call.induct) (simp_all add: sum_bump)

definition known :: "('u, 'v) conn_state \<Rightarrow> 'u \<Rightarrow> bool" where
  "known st u \<longleftrightarrow> hm_get (connections st) u \<noteq> None"

lemma add_known:
  "known st u \<Longrightarrow> total_upload (add_upload u n st) = total_upload st + n"
  "known st u \<Longrightarrow> total_download (add_download u n st) = total_download st + n"
  "total_download (add_upload u n st) = total_download st"
  "total_upload (add_download u n st) = total_upload st"
  "known (add_upload u n st) v = known st v"
  "known (add_download u n st) v = known st v"
  by (auto simp: known_def add_upload_def add_download_def split: option.splits)

lemma fold_udp:
  "known st u \<Longrightarrow>
   (let st' = fold (input_one u t) (map (\<lambda>(a, n). SendTo a n) m) st in
      total_upload st' = total_upload st + sum_list (map snd m) \<and> total_download st' = total_download st
      \<and> (\<forall>v. known st' v = known st v))"
  "known st u \<Longrightarrow>
   (let st' = fold (input_one u t) (map (\<lambda>(a, n). RecvFrom a n) m) st in
      total_download st' = total_download st + sum_list (map snd m) \<and> total_upload st' = total_upload st
      \<and> (\<forall>v. known st' v = known st v))"
  by (induction m arbitrary: st) (auto simp: Let_def add_known algebra_simps)

lemma get_events_books:
  assumes "known st u"
  shows "total_upload (fold (input_one u t) (fst (get_events c)) st) = total_upload st + pend_up c
    \<and> total_download (fold (input_one u t) (fst (get_events c)) st) = total_download st + pend_down c
    \<and> (\<forall>v. known (fold (input_one u t) (fst (get_events c)) st) v = known st v)"
proof (cases c)
  case (TcpCounters r w)
  then show ?thesis using assms by (auto simp: add_known word_gt_0)
next
  case (UdpCounters rf sm)
  define st1 where "st1 = fold (input_one u t) (map (\<lambda>(a, n). RecvFrom a n) rf) st"
  have "known st1 u" using fold_udp(2) [OF assms, of t rf] assms by (simp add: st1_def Let_def)
  from fold_udp(1) [OF this, of t sm] fold_udp(2) [OF assms, of t rf] show ?thesis
    by (simp add: UdpCounters st1_def [symmetric] Let_def)
qed

lemma get_events_reset: "pend_up (snd (get_events c)) = 0" "pend_down (snd (get_events c)) = 0"
  by (cases c; simp)+

definition books_ok :: "('u, 'v) conn_world \<Rightarrow> bool" where
  "books_ok w \<longleftrightarrow> hm_ok (cw_live w)
     \<and> (\<forall>u. known (drained w) u \<longleftrightarrow> hm_get (cw_live w) u \<noteq> None)
     \<and> total_upload (drained w) + pending pend_up w = cw_up w
     \<and> total_download (drained w) + pending pend_down w = cw_down w"

lemma drained_send: "drained (send_events u t evs w) = fold (input_one u t) evs (drained w)"
  by (simp add: drained_def send_events_def input_event_def)

lemma send_keeps [simp]:
  "cw_live (send_events u t evs w) = cw_live w" "cw_up (send_events u t evs w) = cw_up w"
  "cw_down (send_events u t evs w) = cw_down w" "cw_fired (send_events u t evs w) = cw_fired w"
  "cw_state (send_events u t evs w) = cw_state w"
  by (simp_all add: send_events_def)

lemma drained_live [simp]: "drained (w\<lparr> cw_live := l \<rparr>) = drained w" "drained (w\<lparr> cw_fired := f \<rparr>) = drained w"
  "drained (w\<lparr> cw_live := l, cw_up := a, cw_down := b \<rparr>) = drained w"
  by (simp_all add: drained_def)

lemma pending_simps:
  "pending f (send_events u t evs w) = pending f w"
  "pending f (w\<lparr> cw_live := hm_insert u c (cw_live w) \<rparr>) =
     pending f w + f c - (case hm_get (cw_live w) u of Some c0 \<Rightarrow> f c0 | None \<Rightarrow> 0)"
  "pending f (w\<lparr> cw_live := hm_insert u c (cw_live w), cw_up := a, cw_down := b \<rparr>) =
     pending f w + f c - (case hm_get (cw_live w) u of Some c0 \<Rightarrow> f c0 | None \<Rightarrow> 0)"
  by (simp_all add: pending_def sum_hm_insert)

lemma books_new:
  assumes "books_ok w" and "hm_get (cw_live w) u = None"
  shows "books_ok (connection_new u p addr ctx t w)"
proof -
  have "pend_up (counters_default p) = 0" "pend_down (counters_default p) = 0" by (cases p; simp)+
  with assms show ?thesis
    by (cases p)
      (auto simp: books_ok_def connection_new_def drained_send pending_simps known_def new_info_def)
qed

lemma books_report:
  assumes "books_ok w" and "hm_get (cw_live w) u = Some c"
  shows "case get_events c of (evs, c') \<Rightarrow>
    books_ok (send_events u t evs (w\<lparr> cw_live := hm_insert u c' (cw_live w) \<rparr>))"
proof -
  have "known (drained w) u" using assms by (simp add: books_ok_def)
  from get_events_books [OF this, of t c] assms show ?thesis
    by (auto simp: books_ok_def drained_send pending_simps get_events_reset algebra_simps case_prod_beta)
qed

lemma books_call:
  assumes "books_ok w"
  shows "books_ok (connection_call u call w)"
proof (cases "hm_get (cw_live w) u")
  case (Some c)
  with assms show ?thesis
    by (auto simp: books_ok_def connection_call_def pending_simps pend_call algebra_simps)
qed (use assms in \<open>simp add: connection_call_def\<close>)

lemma books_close:
  assumes "books_ok w"
  shows "books_ok (connection_drop u t w)"
proof (cases "hm_get (cw_live w) u")
  case (Some c)
  have k: "known (drained w) u" and ok: "hm_ok (cw_live w)" using assms Some by (simp_all add: books_ok_def)
  let ?w = "w\<lparr> cw_live := hm_remove u (cw_live w) \<rparr>"
  have p: "pending f ?w = pending f w - f c" for f
    using Some by (simp add: pending_def sum_hm_remove [OF ok])
  have rm: "known (st\<lparr> connections := hm_remove u (connections st) \<rparr>) v = (v \<noteq> u \<and> known st v)" for st v
    by (simp add: known_def)
  have q: "pending f (send_events u t [CloseConnection] (send_events u t evs ?w)) = pending f w - f c" for f evs
    by (simp add: pending_simps p)
  have "connection_drop u t w = send_events u t [CloseConnection] (send_events u t (fst (get_events c)) ?w)"
    using Some by (simp add: connection_drop_def case_prod_beta)
  then show ?thesis
    using get_events_books [OF k, of t c] assms ok
    by (auto simp: books_ok_def drained_send q rm algebra_simps)
qed (use assms in \<open>simp add: connection_drop_def\<close>)

lemma books_recv: "books_ok w \<Longrightarrow> books_ok (recv_event w)"
  by (cases "cw_queue w") (simp_all add: recv_event_def books_ok_def drained_def pending_def)

lemma stop_connection_world:
  "same_books (cw_state (fst (stop_connection u w))) (cw_state w)
   \<and> cw_queue (fst (stop_connection u w)) = cw_queue w \<and> cw_live (fst (stop_connection u w)) = cw_live w
   \<and> cw_up (fst (stop_connection u w)) = cw_up w \<and> cw_down (fst (stop_connection u w)) = cw_down w"
  by (auto simp: stop_connection_def same_books_def Let_def split: option.splits)

lemma books_stop: "books_ok w \<Longrightarrow> books_ok (fst (stop_connection u w))"
proof -
  assume ok: "books_ok w"
  have "same_books (drained (fst (stop_connection u w))) (drained w)"
    using stop_connection_world [of u w] by (simp add: drained_def same_books_queue)
  with ok stop_connection_world [of u w] show ?thesis
    by (simp add: books_ok_def same_books_def known_def pending_def)
qed

lemma cm_step_books: "cm_step w w' \<Longrightarrow> books_ok w \<Longrightarrow> books_ok w'"
proof (induction rule: cm_step.induct)
  case (poll w hb u t)
  show ?case
  proof (cases "hm_get (cw_live w) u")
    case (Some c)
    then show ?thesis
      using poll books_report [OF poll Some, where t = t] by (simp add: connection_poll_def Let_def case_prod_beta)
  qed (use poll in \<open>simp add: connection_poll_def\<close>)
qed (simp_all add: books_new books_call books_close books_recv books_stop)

lemma cm_reach_books: "cm_reach w \<Longrightarrow> books_ok w"
proof (induction rule: cm_reach.induct)
  case init
  then show ?case by (simp add: books_ok_def cw_init_def drained_def conn_state_new_def known_def pending_def)
next
  case (step w w')
  then show ?case using cm_step_books by blast
qed

text \<open>C13: Accounting. Under every interleaving of connections opening, counting, reporting on
  heartbeats and closing with the manager's task and with stop requests: the manager, once it has
  worked off its queue, knows exactly the connections that are open, and its totals together with
  what the open connections have not yet reported are exactly the bytes that were counted (as
  \<open>u64\<close>). No byte is lost or counted twice, and when all connections are closed and the queue is
  empty the table is empty and the totals are exact.\<close>

theorem connection_accounting:
  assumes "cm_reach w"
  shows "(\<forall>u. known (drained w) u \<longleftrightarrow> hm_get (cw_live w) u \<noteq> None)
    \<and> total_upload (drained w) + pending pend_up w = cw_up w
    \<and> total_download (drained w) + pending pend_down w = cw_down w
    \<and> (if cw_queue w = [] \<and> cw_live w = []
       then connection_count (cw_state w) = 0 \<and> total_upload (cw_state w) = cw_up w
         \<and> total_download (cw_state w) = cw_down w else True)"
proof -
  have b: "books_ok w" using assms by (rule cm_reach_books)
  have "connections (cw_state w) = []" if "cw_queue w = []" "cw_live w = []"
  proof -
    have "hm_get (connections (cw_state w)) u = None" for u
      using b that by (simp add: books_ok_def drained_def known_def)
    from this [of "fst (hd (connections (cw_state w)))"] show ?thesis
      by (cases "connections (cw_state w)") (auto simp: hm_get_def)
  qed
  with b show ?thesis by (auto simp: books_ok_def drained_def pending_def connection_count_def)
qed

definition demo_world :: "(nat, unit) conn_world" where
  "demo_world = connection_call 0 (CallWrite 5) (connection_new 0 Tcp (Domain ''a'' 1) () 0 cw_init)"

lemma connection_accounting_witness:
  "cm_reach demo_world \<and> total_upload (drained demo_world) + pending pend_up demo_world = cw_up demo_world"
proof -
  have "cm_step cw_init (connection_new 0 Tcp (Domain ''a'' 1) () 0 (cw_init :: (nat, unit) conn_world))"
    by (rule cm_step.new) (simp_all add: cw_init_def conn_state_new_def)
  from cm_reach.step [OF cm_reach.step [OF cm_reach.init this] cm_step.call] have "cm_reach demo_world"
    unfolding demo_world_def .
  with connection_accounting [OF this] show ?thesis by simp
qed

text \<open>Stopping. A stop request on a connection succeeds exactly when the manager holds its sender
  and the connection is still open; then the next poll of that connection fails with
  \<open>ConnectionAborted\<close>, and a second stop request for the same entry returns false.\<close>

theorem stop_connection_correct:
  "(snd (stop_connection u w) \<longleftrightarrow>
      (\<exists>conn ch. hm_get (connections (cw_state w)) u = Some conn \<and> ci_stop_sender conn = Some ch
         \<and> hm_get (cw_live w) ch \<noteq> None))
   \<and> \<not> snd (stop_connection u (fst (stop_connection u w)))
   \<and> (if snd (stop_connection u w) \<and> map_option ci_stop_sender (hm_get (connections (cw_state w)) u) = Some (Some u)
      then snd (connection_poll hb u t (fst (stop_connection u w))) = Inl (IoError ConnectionAborted ''Aborted by user'')
      else True)"
  by (auto simp: stop_connection_def connection_poll_def Let_def case_prod_beta split: option.splits)

end
