(* ===== verification/Engine_Run.thy ===== *)
theory Engine_Run
  imports Engine_Build Conn_Manager "HOL-Library.Char_ord" "HOL-Library.List_Lexorder"
begin

section \<open>The running engine\<close>

text \<open>
  \<open>rabbit-digger/src/rabbit_digger.rs\<close> (the engine's state, its status and the events it broadcasts) and
  \<open>RunningServer\<close> of \<open>rabbit_digger/running.rs\<close> (the task of a server). A server's task is spawned by
  \<open>start\<close>, may finish, panic or be aborted, and closes a semaphore when the server function returns;
  \<open>stop\<close> closes it too. Waiting for a semaphore that stays open is a result \<open>None\<close>. Aborting a task
  takes effect at once in the model.
\<close>

datatype task_result = TaskOk | TaskErr string | TaskCancelled | TaskPanicked string

datatype task = TaskRunning | TaskFinished task_result

datatype server_state = SIdle | SRunning task bool

record running_server =
  rs_name :: string
  rs_type :: string
  rs_state :: server_state

definition running_server_new :: "string \<Rightarrow> string \<Rightarrow> running_server" where
  "running_server_new name t = \<lparr> rs_name = name, rs_type = t, rs_state = SIdle \<rparr>"

fun abort_task :: "task \<Rightarrow> task" where
  "abort_task TaskRunning = TaskFinished TaskCancelled"
| "abort_task t = t"

definition rs_stop :: "running_server \<Rightarrow> running_server" where
  "rs_stop s = (case rs_state s of
     SRunning t closed \<Rightarrow> s\<lparr> rs_state := SRunning (abort_task t) True \<rparr>
   | SIdle \<Rightarrow> s)"

definition rs_start :: "running_server \<Rightarrow> running_server" where
  "rs_start s = (rs_stop s)\<lparr> rs_state := SRunning TaskRunning False \<rparr>"

text \<open>\<open>wait_finished\<close> acquires a permit that is never added: it returns when the semaphore is closed.\<close>

definition wait_finished :: "running_server \<Rightarrow> unit option" where
  "wait_finished s = (case rs_state s of SRunning t closed \<Rightarrow> if closed then Some () else None | SIdle \<Rightarrow> Some ())"

text \<open>The outer option is \<open>None\<close> while the call waits. A closed semaphore whose task still runs makes
  \<open>handle.await\<close> wait as well.\<close>

definition take_result :: "running_server \<Rightarrow> (running_server \<times> task_result option) option" where
  "take_result s = (case wait_finished s of
     None \<Rightarrow> None
   | Some _ \<Rightarrow> (case rs_state s of
       SRunning (TaskFinished r) _ \<Rightarrow> Some (s\<lparr> rs_state := SIdle \<rparr>, Some r)
     | SRunning TaskRunning _ \<Rightarrow> None
     | SIdle \<Rightarrow> Some (s, None)))"

definition take_result_if_finished :: "running_server \<Rightarrow> (running_server \<times> task_result option) option" where
  "take_result_if_finished s =
     (if (case rs_state s of SRunning t closed \<Rightarrow> closed | SIdle \<Rightarrow> False) then take_result s else Some (s, None))"

text \<open>What the task does: returning closes the semaphore, a panic does not.\<close>

fun task_ends :: "task_result \<Rightarrow> running_server \<Rightarrow> running_server" where
  "task_ends r s = (case rs_state s of
     SRunning TaskRunning closed \<Rightarrow>
       s\<lparr> rs_state := SRunning (TaskFinished r) (case r of TaskOk \<Rightarrow> True | TaskErr _ \<Rightarrow> True | _ \<Rightarrow> closed) \<rparr>
   | _ \<Rightarrow> s)"

subsection \<open>Status and events\<close>

datatype runtime_status = StRunning | StStopped | StError

record server_snapshot =
  sn_name :: string
  sn_type :: string
  sn_status :: runtime_status
  sn_message :: "string option"

datatype engine_status =
    EsIdle | EsStarting string | EsRunning "server_snapshot list" | EsStopping | EsError string

datatype server_event = StatusChanged engine_status | ConfigChanged

record server_info =
  si_name :: string
  si_server :: running_server
  si_config :: json
  si_status :: runtime_status
  si_message :: "string option"

record 'p running =
  run_id :: string
  run_all_fields :: string
  run_simple_fields :: string
  run_nets :: "(string, 'p) hmap"
  run_servers :: "(string \<times> server_info) list"

datatype 'p estate = WaitConfig | RunningState "'p running"

record ('p, 'u, 'v) engine =
  eng_state :: "'p estate"
  eng_status :: engine_status
  eng_events :: "server_event list"
  eng_conns :: "('u, 'v) conn_world"


definition emit :: "server_event \<Rightarrow> ('p, 'u, 'v) engine \<Rightarrow> ('p, 'u, 'v) engine" where
  "emit ev e = e\<lparr> eng_events := eng_events e @ [ev] \<rparr>"

definition set_status :: "engine_status \<Rightarrow> ('p, 'u, 'v) engine \<Rightarrow> ('p, 'u, 'v) engine" where
  "set_status st e = emit (StatusChanged st) (e\<lparr> eng_status := st \<rparr>)"






subsection \<open>Stopping\<close>




subsection \<open>Starting\<close>







definition is_running :: "('p, 'u, 'v) engine \<Rightarrow> bool" where
  "is_running e = (case eng_state e of RunningState _ \<Rightarrow> True | WaitConfig \<Rightarrow> False)"

subsection \<open>Changing a net while running\<close>



definition engine_get_net :: "string \<Rightarrow> ('p, 'u, 'v) engine \<Rightarrow> string + 'p option" where
  "engine_get_net name e = (case eng_state e of
     RunningState r \<Rightarrow> Inr (hm_get (run_nets r) name) | WaitConfig \<Rightarrow> Inl ''Not running'')"

definition engine_get_id :: "('p, 'u, 'v) engine \<Rightarrow> string option" where
  "engine_get_id e = (case eng_state e of RunningState r \<Rightarrow> Some (run_id r) | WaitConfig \<Rightarrow> None)"

definition engine_get_config :: "(string \<Rightarrow> 'r) \<Rightarrow> ('p, 'u, 'v) engine \<Rightarrow> string + 'r" where
  "engine_get_config f e = (case eng_state e of
     RunningState r \<Rightarrow> Inr (f (run_simple_fields r)) | WaitConfig \<Rightarrow> Inl ''Not running'')"

definition engine_stop_connection :: "'u \<Rightarrow> ('p, 'u, 'v) engine \<Rightarrow> ('p, 'u, 'v) engine \<times> bool" where
  "engine_stop_connection uuid e = (case stop_connection uuid (eng_conns e) of (w, b) \<Rightarrow> (e\<lparr> eng_conns := w \<rparr>, b))"

definition engine_stop_connections :: "('p, 'u, 'v) engine \<Rightarrow> ('p, 'u, 'v) engine \<times> nat" where
  "engine_stop_connections e = (case stop_connections (eng_conns e) of (w, n) \<Rightarrow> (e\<lparr> eng_conns := w \<rparr>, n))"

subsection \<open>The engine loop\<close>









subsection \<open>Invariants\<close>

text \<open>A closed semaphore means that the task has ended.\<close>

definition server_ok :: "running_server \<Rightarrow> bool" where
  "server_ok s \<longleftrightarrow> rs_state s \<noteq> SRunning TaskRunning True"


fun last_status :: "server_event list \<Rightarrow> engine_status \<Rightarrow> engine_status" where
  "last_status [] d = d"
| "last_status (StatusChanged s # evs) d = last_status evs s"
| "last_status (ConfigChanged # evs) d = last_status evs d"


lemma server_ok_stop [simp]: "server_ok (rs_stop s)"
  by (cases "rs_state s") (auto simp: server_ok_def rs_stop_def elim: abort_task.elims split: server_state.split)

lemma server_ok_start [simp]: "server_ok (rs_start s)"
  by (simp add: server_ok_def rs_start_def)


lemma rs_type_simps [simp]:
  "rs_type (task_ends r s) = rs_type s" "rs_type (rs_stop s) = rs_type s"
  by (simp_all add: rs_stop_def split: server_state.split task.split)



lemma last_status_append [simp]: "last_status (evs @ evs') d = last_status evs' (last_status evs d)"
  by (induction evs d rule: last_status.induct) simp_all

lemma set_status_simps [simp]:
  "eng_state (set_status s e) = eng_state e" "eng_status (set_status s e) = s"
  "eng_events (set_status s e) = eng_events e @ [StatusChanged s]" "eng_conns (set_status s e) = eng_conns e"
  by (simp_all add: set_status_def emit_def)

lemma emit_simps [simp]:
  "eng_state (emit ev e) = eng_state e" "eng_status (emit ev e) = eng_status e"
  "eng_events (emit ev e) = eng_events e @ [ev]" "eng_conns (emit ev e) = eng_conns e"
  by (simp_all add: emit_def)






















text \<open>A server whose task panics is never noticed while the engine runs: its semaphore stays open, so
  waiting for an exit does not return because of it, and collecting leaves it listed as running.\<close>

theorem panicked_server_unnoticed:
  assumes "rs_state s = SRunning TaskRunning False"
  shows "wait_finished (task_ends (TaskPanicked m) s) = None
    \<and> take_result_if_finished (task_ends (TaskPanicked m) s) = Some (task_ends (TaskPanicked m) s, None)
    \<and> take_result (rs_stop (task_ends (TaskPanicked m) s)) = Some (s\<lparr> rs_state := SIdle \<rparr>, Some (TaskPanicked m))"
  using assms by (simp add: wait_finished_def take_result_if_finished_def take_result_def rs_stop_def)

lemma panicked_server_unnoticed_witness:
  "wait_finished (task_ends (TaskPanicked []) (rs_start (running_server_new ''a'' ''http''))) = None"
  using panicked_server_unnoticed [of "rs_start (running_server_new ''a'' ''http'')" "[]"]
  by (simp add: rs_start_def)

end
