(* ===== verification/Fake_Ip.thy ===== *)
theory Fake_Ip
  imports Std_Net Hash_Map
begin

section \<open>The pool of fake addresses\<close>

text \<open>
  \<open>protocol/raw/src/fake_ip.rs\<close>: in TUN mode a name is answered with an address of a private range, and
  the connection to that address is mapped back to the name. The pool keeps both directions; the cursor
  runs through the range and reuses the oldest address. The arithmetic is that of \<open>u32\<close> in a release
  build: additions and subtractions wrap, and a shift distance is taken modulo 32.
\<close>

record fake_ip_pool =
  fp_min :: u32
  fp_max :: u32
  fp_cursor :: u32
  fp_d2i :: "(string, ipv4) hmap"
  fp_i2d :: "(ipv4, string) hmap"

text \<open>\<open>parse_cidr\<close> panics on a text without a slash and on parts that do not parse.\<close>

definition parse_cidr :: "string \<Rightarrow> (ipv4 \<times> u32) may_panic" where
  "parse_cidr cidr = (case split (CHR ''/'') cidr of
     p0 # rest \<Rightarrow>
       (case read_ipv4_addr p0 of
          Some (ip, []) \<Rightarrow>
            (case rest of
               [] \<Rightarrow> Inl (Panic ''index out of bounds'')
             | p1 # _ \<Rightarrow> (case parse_uint 4294967296 p1 of
                 Some n \<Rightarrow> Inr (ip, word_of_nat n)
               | None \<Rightarrow> Inl (Panic ''Invalid CIDR prefix'')))
        | _ \<Rightarrow> Inl (Panic ''Invalid CIDR IP''))
   | [] \<Rightarrow> Inl (Panic ''index out of bounds''))"

definition pool_of :: "ipv4 \<Rightarrow> u32 \<Rightarrow> fake_ip_pool" where
  "pool_of base prefix_len =
     (let host_bits = 32 - prefix_len;
          network_size = push_bit (unat host_bits mod 32) 1;
          mn = base + 2
      in \<lparr> fp_min = mn, fp_max = base + network_size - 2, fp_cursor = mn, fp_d2i = [], fp_i2d = [] \<rparr>)"

definition pool_new :: "string \<Rightarrow> fake_ip_pool may_panic" where
  "pool_new cidr = rbind (parse_cidr cidr) (\<lambda>(base, prefix_len). Inr (pool_of base prefix_len))"

definition next_ip :: "fake_ip_pool \<Rightarrow> fake_ip_pool \<times> u32" where
  "next_ip p = (p\<lparr> fp_cursor := fp_cursor p + 1 \<rparr>,
     fp_min p + (fp_cursor p - fp_min p) mod (fp_max p - fp_min p + 1))"

definition allocate :: "string \<Rightarrow> fake_ip_pool \<Rightarrow> fake_ip_pool \<times> ipv4" where
  "allocate d p = (case hm_get (fp_d2i p) d of
     Some ip \<Rightarrow> (p, ip)
   | None \<Rightarrow>
       (let (p1, ip) = next_ip p;
            p2 = (case hm_get (fp_i2d p1) ip of
                    Some old \<Rightarrow> p1\<lparr> fp_i2d := hm_remove ip (fp_i2d p1), fp_d2i := hm_remove old (fp_d2i p1) \<rparr>
                  | None \<Rightarrow> p1)
        in (p2\<lparr> fp_d2i := hm_insert d ip (fp_d2i p2), fp_i2d := hm_insert ip d (fp_i2d p2) \<rparr>, ip)))"

definition lookup :: "ipv4 \<Rightarrow> fake_ip_pool \<Rightarrow> string option" where
  "lookup ip p = hm_get (fp_i2d p) ip"

fun pool_contains :: "fake_ip_pool \<Rightarrow> ip_addr \<Rightarrow> bool" where
  "pool_contains p (IpV4 ip) \<longleftrightarrow> fp_min p \<le> ip \<and> ip \<le> fp_max p"
| "pool_contains p (IpV6 _) \<longleftrightarrow> False"

definition gateway :: "fake_ip_pool \<Rightarrow> ipv4" where
  "gateway p = fp_min p - 1"

text \<open>\<open>generate_fake_response\<close>: parsing and building DNS packets is code of \<open>simple_dns\<close>; a query is
  its identifier, the type and the name of the first question.\<close>

definition generate_fake_response ::
  "(bytes \<Rightarrow> 'q option) \<Rightarrow> ('q \<Rightarrow> bool) \<Rightarrow> ('q \<Rightarrow> string) \<Rightarrow> ('q \<Rightarrow> ipv4 \<Rightarrow> bytes option) \<Rightarrow> bytes \<Rightarrow> fake_ip_pool
    \<Rightarrow> fake_ip_pool \<times> bytes option" where
  "generate_fake_response parse is_a qname build request p = (case parse request of
     None \<Rightarrow> (p, None)
   | Some q \<Rightarrow>
       if is_a q then
         (let (p', ip) = allocate (trim_end_matches (CHR ''.'') (qname q)) p in (p', build q ip))
       else (p, None))"

subsection \<open>Both directions agree\<close>

definition pool_ok :: "fake_ip_pool \<Rightarrow> bool" where
  "pool_ok p \<longleftrightarrow> (\<forall>d ip. hm_get (fp_d2i p) d = Some ip \<longleftrightarrow> hm_get (fp_i2d p) ip = Some d)"

inductive pool_reach :: "ipv4 \<Rightarrow> u32 \<Rightarrow> fake_ip_pool \<Rightarrow> bool" for base prefix_len where
  new: "pool_reach base prefix_len (pool_of base prefix_len)"
| allocate: "pool_reach base prefix_len p \<Longrightarrow> pool_reach base prefix_len (fst (allocate d p))"

lemma allocate_known: "hm_get (fp_d2i p) d = Some ip \<Longrightarrow> allocate d p = (p, ip)"
  by (simp add: allocate_def)

lemma allocate_new:
  assumes "hm_get (fp_d2i p) d = None" "next_ip p = (p1, ip)"
  shows "snd (allocate d p) = ip"
    "hm_get (fp_i2d (fst (allocate d p))) j = (if j = ip then Some d else hm_get (fp_i2d p) j)"
    "hm_get (fp_d2i (fst (allocate d p))) x =
       (if x = d then Some ip else if hm_get (fp_i2d p) ip = Some x then None else hm_get (fp_d2i p) x)"
    "fp_min (fst (allocate d p)) = fp_min p" "fp_max (fst (allocate d p)) = fp_max p"
    "fp_cursor (fst (allocate d p)) = fp_cursor p + 1"
  using assms by (auto simp: allocate_def next_ip_def Let_def split: option.split)

lemma pool_ok_allocate: "pool_ok p \<Longrightarrow> pool_ok (fst (allocate d p))"
proof (cases "hm_get (fp_d2i p) d")
  case None
  assume ok: "pool_ok p"
  obtain p1 ip where n: "next_ip p = (p1, ip)" by fastforce
  show ?thesis
    using ok None unfolding pool_ok_def allocate_new [OF None n] by (metis option.distinct(1) option.inject)
qed (simp add: allocate_known)

lemma pool_ok_reach: "pool_reach base prefix_len p \<Longrightarrow> pool_ok p"
proof (induction rule: pool_reach.induct)
  case new
  show ?case by (simp add: pool_ok_def pool_of_def Let_def)
next
  case (allocate p d)
  from allocate.IH show ?case by (rule pool_ok_allocate)
qed

lemma allocate_lookup: "pool_ok p \<Longrightarrow> lookup (snd (allocate d p)) (fst (allocate d p)) = Some d"
proof (cases "hm_get (fp_d2i p) d")
  case None
  obtain p1 ip where n: "next_ip p = (p1, ip)" by fastforce
  show ?thesis by (simp add: lookup_def allocate_new [OF None n])
qed (simp add: allocate_known lookup_def pool_ok_def)

lemma allocate_range:
  "fp_min (fst (allocate d p)) = fp_min p \<and> fp_max (fst (allocate d p)) = fp_max p"
proof (cases "hm_get (fp_d2i p) d")
  case None
  obtain p1 ip where n: "next_ip p = (p1, ip)" by fastforce
  show ?thesis by (simp add: allocate_new [OF None n])
qed (simp add: allocate_known)

subsection \<open>The range\<close>

lemma next_ip_range:
  assumes "fp_min p \<le> fp_max p" "fp_max p - fp_min p + 1 \<noteq> 0"
  shows "fp_min p \<le> snd (next_ip p) \<and> snd (next_ip p) \<le> fp_max p"
proof -
  define sz where "sz = fp_max p - fp_min p + 1"
  define x where "x = (fp_cursor p - fp_min p) mod sz"
  have sz: "unat sz = unat (fp_max p) - unat (fp_min p) + 1"
    unfolding sz_def using assms by (metis Suc_eq_plus1 unatSuc unat_sub add.commute)
  have "unat x < unat sz"
    using assms(2) by (simp add: x_def unat_mod unat_gt_0 flip: sz_def)
  then have x: "unat (fp_min p) + unat x \<le> unat (fp_max p)"
    using sz assms(1) by (simp add: word_le_nat_alt)
  then have "unat (fp_min p) + unat x < 2 ^ LENGTH(32)"
    using unsigned_less [of "fp_max p", where 'a = nat] by linarith
  then have "unat (fp_min p + x) = unat (fp_min p) + unat x" by (rule unat_add_lem [THEN iffD1])
  with x show ?thesis by (simp add: next_ip_def word_le_nat_alt x_def sz_def)
qed

text \<open>A prefix length for which the range has room: at least one address besides the network's, the
  gateway's and the broadcast's, and no overflow.\<close>

definition cidr_ok :: "ipv4 \<Rightarrow> u32 \<Rightarrow> bool" where
  "cidr_ok base prefix_len \<longleftrightarrow> 1 \<le> unat prefix_len \<and> unat prefix_len \<le> 30
     \<and> unat base + 2 ^ (32 - unat prefix_len) \<le> 2 ^ 32"

lemma pool_of_bounds:
  assumes "cidr_ok base prefix_len"
  shows "unat (fp_min (pool_of base prefix_len)) = unat base + 2"
    "unat (fp_max (pool_of base prefix_len)) = unat base + 2 ^ (32 - unat prefix_len) - 2"
proof -
  define h where "h = 32 - unat prefix_len"
  have p: "1 \<le> unat prefix_len" "unat prefix_len \<le> 30" and b: "unat base + 2 ^ h \<le> 2 ^ 32"
    using assms unfolding cidr_ok_def h_def by blast+
  have h: "2 \<le> h" "h < 32" using p unfolding h_def by linarith+
  have "(2 :: nat) ^ 2 \<le> 2 ^ h" using h by (intro power_increasing) simp_all
  then have h4: "4 \<le> (2 :: nat) ^ h" by simp
  have "prefix_len \<le> 32" using assms by (simp add: cidr_ok_def word_le_nat_alt)
  then have hb: "unat (32 - prefix_len) mod 32 = h" using h by (simp add: unat_sub h_def)
  have sz: "(push_bit h 1 :: u32) = word_of_nat (2 ^ h)" by (simp add: push_bit_eq_mult)
  have mn: "base + 2 = (word_of_nat (unat base + 2) :: u32)" by simp
  have mx: "base + push_bit h 1 - 2 = (word_of_nat (unat base + 2 ^ h - 2) :: u32)"
    using h4 by (simp add: sz of_nat_diff)
  show "unat (fp_min (pool_of base prefix_len)) = unat base + 2"
    unfolding pool_of_def Let_def fake_ip_pool.select_convs mn using b h4
    by (simp only: unsigned_of_nat take_bit_eq_mod) simp
  show "unat (fp_max (pool_of base prefix_len)) = unat base + 2 ^ (32 - unat prefix_len) - 2"
    unfolding pool_of_def Let_def fake_ip_pool.select_convs hb mx using b h4
    by (simp only: unsigned_of_nat take_bit_eq_mod) (simp flip: h_def)
qed

lemma pool_of_room:
  assumes "cidr_ok base prefix_len"
  shows "fp_min (pool_of base prefix_len) \<le> fp_max (pool_of base prefix_len)"
    "fp_max (pool_of base prefix_len) - fp_min (pool_of base prefix_len) + 1 \<noteq> 0"
proof -
  let ?mn = "fp_min (pool_of base prefix_len)" and ?mx = "fp_max (pool_of base prefix_len)"
  have "(2 :: nat) ^ 2 \<le> 2 ^ (32 - unat prefix_len)"
    using assms by (intro power_increasing) (auto simp: cidr_ok_def)
  then have le: "unat ?mn \<le> unat ?mx" by (simp add: pool_of_bounds [OF assms])
  then show "?mn \<le> ?mx" by (simp add: word_le_nat_alt)
  have "unat ?mx - unat ?mn + 1 < 2 ^ LENGTH(32)"
    using pool_of_bounds [OF assms] le unsigned_less [of ?mx, where 'a = nat] by linarith
  moreover have "unat (?mx - ?mn) = unat ?mx - unat ?mn" using le by (simp add: unat_sub word_le_nat_alt)
  ultimately have "unat (?mx - ?mn + 1) = unat ?mx - unat ?mn + 1"
    using unat_add_lem [of "?mx - ?mn" 1] by simp
  then show "?mx - ?mn + 1 \<noteq> 0" by (metis add_eq_0_iff_both_eq_0 one_neq_zero unat_0)
qed

text \<open>Every address in the table, and every one handed out, is in the range.\<close>

lemma pool_reach_range:
  assumes "pool_reach base prefix_len p" "cidr_ok base prefix_len"
  shows "fp_min p = fp_min (pool_of base prefix_len) \<and> fp_max p = fp_max (pool_of base prefix_len)
    \<and> (\<forall>d ip. hm_get (fp_d2i p) d = Some ip \<longrightarrow> fp_min p \<le> ip \<and> ip \<le> fp_max p)"
  using assms
proof (induction rule: pool_reach.induct)
  case new
  show ?case by (simp add: pool_of_def Let_def)
next
  case (allocate p d)
  note IH = allocate.IH [OF allocate.prems]
  show ?case
  proof (cases "hm_get (fp_d2i p) d")
    case (Some ip)
    from IH show ?thesis unfolding allocate_known [OF Some] fst_conv .
  next
    case None
    obtain p1 ip where n: "next_ip p = (p1, ip)" by fastforce
    have "fp_min p \<le> ip \<and> ip \<le> fp_max p"
      using next_ip_range [of p] pool_of_room [OF allocate.prems] IH n by simp
    with IH show ?thesis unfolding allocate_new [OF None n] by (metis option.distinct(1) option.inject)
  qed
qed

text \<open>C15: An allocated fake address lies inside the range, is neither the network's, the gateway's nor
  the broadcast address, is recognised by \<open>contains\<close>, and is mapped back to the name it was allocated
  for; the two tables stay inverse to each other.\<close>

theorem fake_ip_allocated:
  assumes "pool_reach base prefix_len p" "cidr_ok base prefix_len" "allocate d p = (p', ip)"
  shows "unat base + 2 \<le> unat ip \<and> unat ip \<le> unat base + 2 ^ (32 - unat prefix_len) - 2
    \<and> pool_contains p' (IpV4 ip) \<and> ip \<noteq> gateway p' \<and> lookup ip p' = Some d
    \<and> (\<forall>d' ip'. hm_get (fp_d2i p') d' = Some ip' \<longleftrightarrow> lookup ip' p' = Some d')"
proof -
  have r: "pool_reach base prefix_len p'" using pool_reach.allocate [OF assms(1), of d] assms(3) by simp
  have ok: "pool_ok p'" by (rule pool_ok_reach [OF r])
  have l: "lookup ip p' = Some d" using allocate_lookup [OF pool_ok_reach [OF assms(1)], of d] assms(3) by simp
  then have "hm_get (fp_d2i p') d = Some ip" using ok by (simp add: pool_ok_def lookup_def)
  with pool_reach_range [OF r assms(2)] have rng: "fp_min p' \<le> ip" "ip \<le> fp_max p'" 
    and mm: "fp_min p' = fp_min (pool_of base prefix_len)" "fp_max p' = fp_max (pool_of base prefix_len)" by blast+
  have "unat (fp_min p') = unat base + 2" using mm pool_of_bounds [OF assms(2)] by simp
  then have "fp_min p' \<noteq> 0" by (metis add_is_0 unat_0 zero_neq_numeral)
  then have "fp_min p' - 1 < fp_min p'" by (simp add: word_less_nat_alt measure_unat)
  with rng(1) have "ip \<noteq> gateway p'" by (auto simp: gateway_def)
  with l ok rng mm show ?thesis
    using pool_of_bounds [OF assms(2)] by (auto simp: word_le_nat_alt pool_ok_def lookup_def)
qed

lemma fake_ip_allocated_witness:
  "\<exists>p' ip. allocate ''a.com'' (pool_of 3323068416 15) = (p', ip) \<and> lookup ip p' = Some ''a.com''"
proof -
  obtain p' ip where a: "allocate ''a.com'' (pool_of 3323068416 15) = (p', ip)" by fastforce
  have "cidr_ok 3323068416 15" by (simp add: cidr_ok_def)
  from fake_ip_allocated [OF pool_reach.new this a] a show ?thesis by blast
qed

subsection \<open>How long an address lasts\<close>

lemma mod_shift_ne: "0 < m \<Longrightarrow> m < (s :: nat) \<Longrightarrow> (w + m) mod s \<noteq> w mod s"
proof
  assume "0 < m" "m < s" "(w + m) mod s = w mod s"
  then have "s dvd (w + m) - w" by (simp only: mod_eq_dvd_iff_nat le_add1)
  with \<open>0 < m\<close> \<open>m < s\<close> show False by (simp add: nat_dvd_not_less)
qed

lemma word_mod_shift_ne:
  fixes w s :: u32
  assumes "0 < m" "m < unat s" "unat w + m < 2 ^ 32"
  shows "(w + word_of_nat m) mod s \<noteq> w mod s"
proof
  assume eq: "(w + word_of_nat m) mod s = w mod s"
  have m: "unat (word_of_nat m :: u32) = m"
    using assms(3) by (simp add: unsigned_of_nat take_bit_nat_eq_self)
  then have "unat (w + word_of_nat m) = unat w + m"
    using unat_add_lem [of w "word_of_nat m"] assms(3) by simp
  with eq have "(unat w + m) mod unat s = unat w mod unat s" by (metis unat_mod)
  with mod_shift_ne [OF assms(1,2)] show False by blast
qed

lemma allocate_others:
  assumes "1 \<le> m" "m + length ds \<le> unat (fp_max q - fp_min q + 1)" "unat w + m + length ds \<le> 2 ^ 32"
    "fp_cursor q = fp_min q + w + word_of_nat m" "ip = fp_min q + w mod (fp_max q - fp_min q + 1)"
    "lookup ip q = Some d"
  shows "lookup ip (foldl (\<lambda>p d. fst (allocate d p)) q ds) = Some d"
  using assms
proof (induction ds arbitrary: q m)
  case (Cons x ds)
  show ?case
  proof (cases "hm_get (fp_d2i q) x")
    case (Some ip')
    have "lookup ip (foldl (\<lambda>p d. fst (allocate d p)) q ds) = Some d"
      by (rule Cons.IH [where m = m]) (use Cons.prems in simp_all)
    then show ?thesis by (simp add: allocate_known [OF Some])
  next
    case None
    obtain p1 ip' where n: "next_ip q = (p1, ip')" by fastforce
    let ?q = "fst (allocate x q)"
    note new = allocate_new [OF None n]
    have "ip' = fp_min q + (w + word_of_nat m) mod (fp_max q - fp_min q + 1)"
      using n Cons.prems(4) by (simp add: next_ip_def add.assoc)
    moreover have "(w + word_of_nat m) mod (fp_max q - fp_min q + 1) \<noteq> w mod (fp_max q - fp_min q + 1)"
      using Cons.prems(1-3) by (intro word_mod_shift_ne) simp_all
    ultimately have "ip' \<noteq> ip" using Cons.prems(5) by simp
    then have "lookup ip ?q = Some d" using Cons.prems(6) by (simp add: lookup_def new)
    moreover have "fp_cursor ?q = fp_min ?q + w + word_of_nat (Suc m)"
      using Cons.prems(4) by (simp add: new add.commute add.left_commute)
    ultimately have "lookup ip (foldl (\<lambda>p d. fst (allocate d p)) ?q ds) = Some d"
      using Cons.prems(1,2,3,5) by (intro Cons.IH [where m = "Suc m"]) (simp_all add: new)
    then show ?thesis by simp
  qed
qed simp

text \<open>C36: A fake address keeps its name until the whole range has been handed out again: after it is
  allocated, fewer further allocations than the range has addresses leave its reverse mapping alone, as
  long as the 32-bit cursor does not wrap meanwhile.\<close>

theorem fake_ip_lasts:
  assumes "pool_reach base prefix_len p" "cidr_ok base prefix_len" "hm_get (fp_d2i p) d = None"
    "allocate d p = (p', ip)" "length ds + 3 < 2 ^ (32 - unat prefix_len)"
    "unat (fp_cursor p - fp_min p) + length ds < 2 ^ 32"
  shows "lookup ip (foldl (\<lambda>p d. fst (allocate d p)) p' ds) = Some d"
proof -
  obtain p1 i where n: "next_ip p = (p1, i)" by fastforce
  note new = allocate_new [OF assms(3) n]
  have ip: "ip = i" "p' = fst (allocate d p)" using new(1) assms(4) by simp_all
  have mm: "fp_min p = fp_min (pool_of base prefix_len)" "fp_max p = fp_max (pool_of base prefix_len)"
    using pool_reach_range [OF assms(1,2)] by blast+
  have le: "fp_min p \<le> fp_max p" "fp_max p - fp_min p + 1 \<noteq> 0" using pool_of_room [OF assms(2)] mm by simp_all
  have "unat (fp_max p - fp_min p + 1) = Suc (unat (fp_max p) - unat (fp_min p))"
    using le by (metis add.commute unatSuc unat_sub)
  then have sz: "unat (fp_max p - fp_min p + 1) = 2 ^ (32 - unat prefix_len) - 3"
    using pool_of_bounds [OF assms(2)] mm le(1) assms(5) by (simp add: word_le_nat_alt) arith
  show ?thesis
  proof (rule allocate_others [where m = 1 and w = "fp_cursor p - fp_min p"])
    show "1 + length ds \<le> unat (fp_max p' - fp_min p' + 1)" using sz assms(5) by (simp add: ip new)
    show "unat (fp_cursor p - fp_min p) + 1 + length ds \<le> 2 ^ 32" using assms(6) by simp
    show "fp_cursor p' = fp_min p' + (fp_cursor p - fp_min p) + word_of_nat 1" by (simp add: ip new)
    show "ip = fp_min p' + (fp_cursor p - fp_min p) mod (fp_max p' - fp_min p' + 1)"
      using n by (simp add: ip new next_ip_def)
    show "lookup ip p' = Some d" by (simp add: ip lookup_def new)
  qed simp
qed

lemma fake_ip_lasts_witness:
  "\<exists>p' ip. allocate ''a.com'' (pool_of 3323068416 15) = (p', ip)
     \<and> lookup ip (foldl (\<lambda>p d. fst (allocate d p)) p' [''b.com'', ''c.com'']) = Some ''a.com''"
proof -
  obtain p' ip where a: "allocate ''a.com'' (pool_of 3323068416 15) = (p', ip)" by fastforce
  have c: "cidr_ok 3323068416 15" by (simp add: cidr_ok_def)
  have "hm_get (fp_d2i (pool_of 3323068416 15)) ''a.com'' = None" by (simp add: pool_of_def Let_def)
  from fake_ip_lasts [OF pool_reach.new c this a, of "[''b.com'', ''c.com'']"] a show ?thesis
    by (simp add: pool_of_def Let_def)
qed

end
