(* ===== verification/Side_Effects.thy ===== *)
theory Side_Effects
  imports Hash_Map
begin

section \<open>Reversible side effects\<close>

text \<open>
  \<open>rd-interface/src/side_effect.rs\<close>: changes a server makes to the system (routes, resolver files) are
  recorded with their undo, written to a file after each one and undone in reverse order when the manager
  is dropped, or after a crash by reading the file. The system is its files and whether they can be
  written; running a command and the JSON form of the entries are arguments.
\<close>

datatype undo = UndoCommand string "string list" | UndoWriteFile string string | UndoDeleteFile string

record entry =
  description :: string
  undo_op :: undo

record 'w sys =
  files :: "(string, string) hmap"
  read_only :: bool
  rest_of_system :: 'w

record 'w se_env =
  run_command :: "string \<Rightarrow> string list \<Rightarrow> 'w sys \<Rightarrow> 'w sys \<times> (string + unit)"
  ser_entries :: "entry list \<Rightarrow> string"
  de_entries :: "string \<Rightarrow> string + entry list"

definition fs_write :: "string \<Rightarrow> string \<Rightarrow> 'w sys \<Rightarrow> 'w sys \<times> (string + unit)" where
  "fs_write path text s = (if read_only s then (s, Inl (''write '' @ path)) else (s\<lparr> files := hm_insert path text (files s) \<rparr>, Inr ()))"

definition fs_remove :: "string \<Rightarrow> 'w sys \<Rightarrow> 'w sys \<times> (string + unit)" where
  "fs_remove path s =
     (if read_only s \<or> hm_get (files s) path = None then (s, Inl (''delete '' @ path))
      else (s\<lparr> files := hm_remove path (files s) \<rparr>, Inr ()))"

fun execute :: "'w se_env \<Rightarrow> undo \<Rightarrow> 'w sys \<Rightarrow> 'w sys \<times> (string + unit)" where
  "execute env (UndoCommand cmd args) s = run_command env cmd args s"
| "execute env (UndoWriteFile path text) s = fs_write path text s"
| "execute env (UndoDeleteFile path) s = fs_remove path s"

record manager =
  entries :: "entry list"
  persist_path :: "string option"

definition manager_new :: "string \<Rightarrow> manager" where
  "manager_new path = \<lparr> entries = [], persist_path = Some path \<rparr>"

definition in_memory :: manager where
  "in_memory = \<lparr> entries = [], persist_path = None \<rparr>"

definition persist :: "'w se_env \<Rightarrow> manager \<Rightarrow> 'w sys \<Rightarrow> 'w sys" where
  "persist env m s = (case persist_path m of
     Some path \<Rightarrow> fst (fs_write path (ser_entries env (entries m)) s) | None \<Rightarrow> s)"

definition clear_persisted :: "manager \<Rightarrow> 'w sys \<Rightarrow> 'w sys" where
  "clear_persisted m s = (case persist_path m of Some path \<Rightarrow> fst (fs_remove path s) | None \<Rightarrow> s)"

text \<open>\<open>apply\<close>: the action runs first; nothing is recorded when it fails.\<close>

definition se_apply ::
  "'w se_env \<Rightarrow> string \<Rightarrow> ('w sys \<Rightarrow> 'w sys \<times> (string + unit)) \<Rightarrow> undo \<Rightarrow> manager \<times> 'w sys
    \<Rightarrow> (manager \<times> 'w sys) \<times> (string + unit)" where
  "se_apply env desc action u = (\<lambda>(m, s). case action s of
     (s', Inl er) \<Rightarrow> ((m, s'), Inl er)
   | (s', Inr _) \<Rightarrow>
       (let m' = m\<lparr> entries := entries m @ [\<lparr> description = desc, undo_op = u \<rparr>] \<rparr>
        in ((m', persist env m' s'), Inr ())))"

text \<open>A rollback that fails is logged and the next one runs.\<close>

fun undo_all :: "'w se_env \<Rightarrow> entry list \<Rightarrow> 'w sys \<Rightarrow> 'w sys" where
  "undo_all env [] s = s"
| "undo_all env (e # es) s = undo_all env es (fst (execute env (undo_op e) s))"

definition rollback_all :: "'w se_env \<Rightarrow> manager \<Rightarrow> 'w sys \<Rightarrow> manager \<times> 'w sys" where
  "rollback_all env m s =
     (let m' = m\<lparr> entries := [] \<rparr> in (m', clear_persisted m' (undo_all env (rev (entries m)) s)))"

definition recover :: "'w se_env \<Rightarrow> string \<Rightarrow> 'w sys \<Rightarrow> 'w sys" where
  "recover env path s = (case hm_get (files s) path of
     None \<Rightarrow> s
   | Some text \<Rightarrow>
       if text = [] then s
       else (case de_entries env text of
         Inl _ \<Rightarrow> fst (fs_remove path s)
       | Inr es \<Rightarrow> if es = [] then fst (fs_remove path s) else fst (fs_remove path (undo_all env (rev es) s))))"

subsection \<open>Recovery does what a shutdown does\<close>

text \<open>One manager and the system it works on; an action may fail and may change anything but the file of
  the manager. What the code relies on in its JSON form is that reading gives back what was written.\<close>

definition json_ok :: "'w se_env \<Rightarrow> entry list \<Rightarrow> bool" where
  "json_ok env es \<longleftrightarrow> ser_entries env es \<noteq> [] \<and> de_entries env (ser_entries env es) = Inr es"

inductive se_reach :: "'w se_env \<Rightarrow> string \<Rightarrow> manager \<times> 'w sys \<Rightarrow> bool" for env path where
  new: "hm_get (files s) path = None \<Longrightarrow> \<not> read_only s \<Longrightarrow> se_reach env path (manager_new path, s)"
| act: "se_reach env path ms \<Longrightarrow> hm_get (files (fst (action (snd ms)))) path = hm_get (files (snd ms)) path \<Longrightarrow>
    \<not> read_only (fst (action (snd ms))) \<Longrightarrow> se_reach env path (fst (se_apply env desc action u ms))"

lemma se_reach_inv:
  "se_reach env path ms \<Longrightarrow> persist_path (fst ms) = Some path \<and> \<not> read_only (snd ms)
     \<and> hm_get (files (snd ms)) path = (if entries (fst ms) = [] then None else Some (ser_entries env (entries (fst ms))))"
proof (induction rule: se_reach.induct)
  case (new s)
  then show ?case by (simp add: manager_new_def)
next
  case (act ms action desc u)
  obtain m s where ms: "ms = (m, s)" by (cases ms)
  obtain s' r where a: "action s = (s', r)" by fastforce
  show ?case
    using act.IH act.hyps(2,3) by (cases r) (auto simp: ms a se_apply_def Let_def persist_def fs_write_def)
qed

text \<open>C37: Recovery after a crash does exactly what an orderly shutdown would have done: at any point of a
  manager's life, reading its file and undoing what it lists leaves the system in the state that dropping
  the manager leaves.\<close>

theorem recover_is_rollback:
  assumes "se_reach env path (m, s)" "json_ok env (entries m)"
  shows "recover env path s = snd (rollback_all env m s)"
  using se_reach_inv [OF assms(1)] assms(2)
  by (auto simp: recover_def rollback_all_def Let_def clear_persisted_def fs_remove_def json_ok_def)

definition demo_env :: "entry list \<Rightarrow> unit se_env" where
  "demo_env es = \<lparr> run_command = \<lambda>c a s. (s, Inr ()), ser_entries = (\<lambda>es. ''json''), de_entries = \<lambda>t. Inr es \<rparr>"

definition demo_sys :: "unit sys" where
  "demo_sys = \<lparr> files = [(''resolv.conf'', ''new'')], read_only = False, rest_of_system = () \<rparr>"

definition demo_entry :: entry where
  "demo_entry = \<lparr> description = ''dns'', undo_op = UndoWriteFile ''resolv.conf'' ''old'' \<rparr>"

lemma recover_is_rollback_witness:
  "hm_get (files (recover (demo_env [demo_entry]) ''p'' (demo_sys\<lparr> files := hm_insert ''p'' ''json'' (files demo_sys) \<rparr>)))
     ''resolv.conf'' = Some ''old''"
proof -
  let ?env = "demo_env [demo_entry]" and ?s = "demo_sys\<lparr> files := hm_insert ''p'' ''json'' (files demo_sys) \<rparr>"
  let ?m = "\<lparr> entries = [demo_entry], persist_path = Some ''p'' \<rparr>"
  have "se_reach ?env ''p'' (manager_new ''p'', demo_sys)"
    by (rule se_reach.new) (simp_all add: demo_sys_def hm_get_def)
  from se_reach.act [OF this, of "\<lambda>s. (s, Inr ())" "''dns''" "UndoWriteFile ''resolv.conf'' ''old''"]
  have "se_reach ?env ''p'' (?m, ?s)"
    by (simp add: se_apply_def manager_new_def persist_def fs_write_def demo_sys_def demo_env_def demo_entry_def)
  from recover_is_rollback [OF this] show ?thesis
    by (simp add: json_ok_def rollback_all_def Let_def clear_persisted_def demo_env_def demo_entry_def
        fs_write_def fs_remove_def demo_sys_def)
qed

subsection \<open>Managers that share a file\<close>

text \<open>The engine gives every server a manager of its own on the same file. The record of one server
  then replaces that of another: after a crash only the effects of the server that wrote last are undone,
  and dropping one manager deletes the record of all.\<close>

theorem shared_file_loses_effects:
  assumes "json_ok env (entries m2)" "entries m2 \<noteq> []" "persist_path m1 = Some path" "persist_path m2 = Some path" "\<not> read_only s"
  shows "recover env path (persist env m2 (persist env m1 s)) = snd (rollback_all env m2 (persist env m2 (persist env m1 s)))
    \<and> recover env path (clear_persisted m2 (persist env m1 s)) = clear_persisted m2 (persist env m1 s)"
  using assms
  by (auto simp: recover_def persist_def clear_persisted_def fs_write_def fs_remove_def rollback_all_def json_ok_def Let_def)

lemma shared_file_loses_effects_witness:
  "recover (demo_env [demo_entry]) ''p'' (clear_persisted \<lparr> entries = [demo_entry], persist_path = Some ''p'' \<rparr>
       (persist (demo_env [demo_entry]) \<lparr> entries = [demo_entry, demo_entry], persist_path = Some ''p'' \<rparr> demo_sys))
     = clear_persisted \<lparr> entries = [demo_entry], persist_path = Some ''p'' \<rparr>
       (persist (demo_env [demo_entry]) \<lparr> entries = [demo_entry, demo_entry], persist_path = Some ''p'' \<rparr> demo_sys)"
proof -
  have "json_ok (demo_env [demo_entry]) (entries \<lparr> entries = [demo_entry], persist_path = Some ''p'' \<rparr>)" "\<not> read_only demo_sys"
    by (simp_all add: json_ok_def demo_env_def demo_sys_def)
  then show ?thesis
    using shared_file_loses_effects [of "demo_env [demo_entry]" "\<lparr> entries = [demo_entry], persist_path = Some ''p'' \<rparr>"
        "\<lparr> entries = [demo_entry, demo_entry], persist_path = Some ''p'' \<rparr>" "''p''" demo_sys]
    by simp
qed

end
