(* ===== verification/Tcp_Copy.thy ===== *)
theory Tcp_Copy
  imports Prelude "HOL-Library.Sublist"
begin

section \<open>Copying between two TCP streams\<close>

text \<open>
  \<open>rd-std/src/context/connect_tcp.rs\<close>: the data path of every proxied TCP connection. A stream is what its
  polls answer: the results of the successive calls of \<open>poll_read\<close>, \<open>poll_write\<close>, \<open>poll_flush\<close> and
  \<open>poll_shutdown\<close> (a list that has run out answers \<open>Pending\<close>), and the bytes written to it so far. A write
  accepts a prefix of the bytes offered. The loop of \<open>poll_copy\<close> is a partial function, and the theorem
  includes that it returns.
\<close>

record stream =
  rx :: "bytes io poll list"
  tx :: "nat io poll list"
  fl :: "unit io poll list"
  sd :: "unit io poll list"
  out :: bytes

definition s_read :: "nat \<Rightarrow> stream \<Rightarrow> stream \<times> bytes io poll" where
  "s_read room s = (case rx s of
     [] \<Rightarrow> (s, Pending)
   | Ready (Inr data) # ps \<Rightarrow> (s\<lparr> rx := ps \<rparr>, Ready (Inr (take room data)))
   | p # ps \<Rightarrow> (s\<lparr> rx := ps \<rparr>, p))"

definition s_write :: "bytes \<Rightarrow> stream \<Rightarrow> stream \<times> nat io poll" where
  "s_write buf s = (case tx s of
     [] \<Rightarrow> (s, Pending)
   | Ready (Inr n) # ps \<Rightarrow> (s\<lparr> tx := ps, out := out s @ take n buf \<rparr>, Ready (Inr (min n (length buf))))
   | p # ps \<Rightarrow> (s\<lparr> tx := ps \<rparr>, p))"

definition s_flush :: "stream \<Rightarrow> stream \<times> unit io poll" where
  "s_flush s = (case fl s of [] \<Rightarrow> (s, Pending) | p # ps \<Rightarrow> (s\<lparr> fl := ps \<rparr>, p))"

definition s_shutdown :: "stream \<Rightarrow> stream \<times> unit io poll" where
  "s_shutdown s = (case sd s of [] \<Rightarrow> (s, Pending) | p # ps \<Rightarrow> (s\<lparr> sd := ps \<rparr>, p))"

record copy_buffer =
  read_done :: bool
  need_flush :: bool
  cb_pos :: nat
  cb_cap :: nat
  cb_amt :: u64
  cb_buf :: bytes

definition copy_buffer_new :: "nat \<Rightarrow> copy_buffer" where
  "copy_buffer_new buffer_size = \<lparr> read_done = False, need_flush = False, cb_pos = 0, cb_cap = 0, cb_amt = 0,
     cb_buf = replicate buffer_size 0 \<rparr>"

text \<open>The \<open>while\<close> loop that writes the buffer out: \<open>None\<close> as its third result means that it ran to its end.\<close>

definition write_zero :: io_error where
  "write_zero = IoError WriteZero ''write zero byte into writer''"

function write_out :: "copy_buffer \<Rightarrow> stream \<Rightarrow> copy_buffer \<times> stream \<times> u64 io poll option" where
  "write_out cb w =
     (if cb_pos cb < cb_cap cb then
        (case s_write (take (cb_cap cb - cb_pos cb) (drop (cb_pos cb) (cb_buf cb))) w of
           (w', Pending) \<Rightarrow> (cb, w', Some Pending)
         | (w', Ready (Inl e)) \<Rightarrow> (cb, w', Some (Ready (Inl e)))
         | (w', Ready (Inr i)) \<Rightarrow>
             if i = 0 then (cb, w', Some (Ready (Inl write_zero)))
             else write_out (cb\<lparr> cb_pos := cb_pos cb + i, cb_amt := cb_amt cb + word_of_nat i, need_flush := True \<rparr>) w')
      else (cb, w, None))"
  by pat_completeness auto
termination
  by (relation "measure (\<lambda>(cb, w). length (tx w))")
    (auto simp: s_write_def split: list.splits poll.splits sum.splits)

declare write_out.simps [simp del]

definition end_flush :: "copy_buffer \<Rightarrow> stream \<Rightarrow> stream \<times> u64 io poll" where
  "end_flush cb w = (case s_flush w of
     (w', Pending) \<Rightarrow> (w', Pending)
   | (w', Ready (Inl e)) \<Rightarrow> (w', Ready (Inl e))
   | (w', Ready (Inr _)) \<Rightarrow> (w', Ready (Inr (cb_amt cb))))"

text \<open>What a poll does when the reader has nothing: flush what was written since the last flush.\<close>

definition idle_flush :: "copy_buffer \<Rightarrow> stream \<Rightarrow> copy_buffer \<times> stream \<times> u64 io poll" where
  "idle_flush cb w =
     (if need_flush cb then
        (case s_flush w of
           (w', Pending) \<Rightarrow> (cb, w', Pending)
         | (w', Ready (Inl e)) \<Rightarrow> (cb, w', Ready (Inl e))
         | (w', Ready (Inr _)) \<Rightarrow> (cb\<lparr> need_flush := False \<rparr>, w', Pending))
      else (cb, w, Pending))"

text \<open>The bytes of a read go into the buffer; an empty read is the end of the input.\<close>

definition cb_fill :: "bytes \<Rightarrow> copy_buffer \<Rightarrow> copy_buffer" where
  "cb_fill data cb = (if data = [] then cb\<lparr> read_done := True \<rparr>
     else cb\<lparr> cb_buf := data @ drop (length data) (cb_buf cb), cb_pos := 0, cb_cap := length data \<rparr>)"

partial_function (option) poll_copy ::
  "copy_buffer \<Rightarrow> stream \<Rightarrow> stream \<Rightarrow> (copy_buffer \<times> stream \<times> stream \<times> u64 io poll) option" where
  "poll_copy cb r w =
     (case (if cb_pos cb = cb_cap cb \<and> \<not> read_done cb then
              (case s_read (length (cb_buf cb)) r of
                 (r', Pending) \<Rightarrow> Inl (case idle_flush cb w of (cb', w', res) \<Rightarrow> (cb', r', w', res))
               | (r', Ready (Inl e)) \<Rightarrow> Inl (cb, r', w, Ready (Inl e))
               | (r', Ready (Inr data)) \<Rightarrow>
                   Inr (cb_fill data cb, r'))
            else Inr (cb, r)) of
        Inl res \<Rightarrow> Some res
      | Inr (cb1, r1) \<Rightarrow>
          (case write_out cb1 w of
             (cb2, w2, Some res) \<Rightarrow> Some (cb2, r1, w2, res)
           | (cb2, w2, None) \<Rightarrow>
               if cb_pos cb2 = cb_cap cb2 \<and> read_done cb2 then
                 (case end_flush cb2 w2 of (w3, res) \<Rightarrow> Some (cb2, r1, w3, res))
               else poll_copy cb2 r1 w2))"

subsection \<open>Both directions\<close>

datatype transfer_state = TRunning copy_buffer | TShuttingDown u64 | TDone u64

text \<open>One direction: copy until the end of the input, then shut the output down.\<close>

definition transfer_shutdown :: "u64 \<Rightarrow> stream \<Rightarrow> transfer_state \<times> stream \<times> u64 io poll" where
  "transfer_shutdown count w = (case s_shutdown w of
     (w', Pending) \<Rightarrow> (TShuttingDown count, w', Pending)
   | (w', Ready (Inl e)) \<Rightarrow> (TShuttingDown count, w', Ready (Inl e))
   | (w', Ready (Inr _)) \<Rightarrow> (TDone count, w', Ready (Inr count)))"

definition transfer_one_direction ::
  "transfer_state \<Rightarrow> stream \<Rightarrow> stream \<Rightarrow> (transfer_state \<times> stream \<times> stream \<times> u64 io poll) option" where
  "transfer_one_direction st r w = (case st of
     TRunning cb \<Rightarrow>
       (case poll_copy cb r w of
          None \<Rightarrow> None
        | Some (cb', r', w', Ready (Inr count)) \<Rightarrow>
            (case transfer_shutdown count w' of (st', w'', res) \<Rightarrow> Some (st', r', w'', res))
        | Some (cb', r', w', res) \<Rightarrow> Some (TRunning cb', r', w', res))
   | TShuttingDown count \<Rightarrow> (case transfer_shutdown count w of (st', w', res) \<Rightarrow> Some (st', r, w', res))
   | TDone count \<Rightarrow> Some (TDone count, r, w, Ready (Inr count)))"

record copy_bidirectional =
  bi_a :: stream
  bi_b :: stream
  bi_a_to_b :: transfer_state
  bi_b_to_a :: transfer_state

text \<open>The connection is over as soon as one direction is, or fails.\<close>

definition bidirectional_poll :: "copy_bidirectional \<Rightarrow> (copy_bidirectional \<times> unit io poll) option" where
  "bidirectional_poll c =
     (case transfer_one_direction (bi_a_to_b c) (bi_a c) (bi_b c) of
        None \<Rightarrow> None
      | Some (s1, a1, b1, Ready (Inl e)) \<Rightarrow> Some (c\<lparr> bi_a := a1, bi_b := b1, bi_a_to_b := s1 \<rparr>, Ready (Inl e))
      | Some (s1, a1, b1, res1) \<Rightarrow>
          (case transfer_one_direction (bi_b_to_a c) b1 a1 of
             None \<Rightarrow> None
           | Some (s2, b2, a2, res2) \<Rightarrow>
               (let c' = \<lparr> bi_a = a2, bi_b = b2, bi_a_to_b = s1, bi_b_to_a = s2 \<rparr>
                in Some (c', case res2 of Ready (Inl e) \<Rightarrow> Ready (Inl e)
                     | _ \<Rightarrow> if res1 = Pending \<and> res2 = Pending then Pending else Ready (Inr ())))))"

definition connect_tcp_new :: "stream \<Rightarrow> stream \<Rightarrow> copy_bidirectional" where
  "connect_tcp_new a b = \<lparr> bi_a = a, bi_b = b, bi_a_to_b = TRunning (copy_buffer_new 8192),
     bi_b_to_a = TRunning (copy_buffer_new 8192) \<rparr>"

subsection \<open>Nothing is lost\<close>

text \<open>The bytes read and not yet written, and the bytes a list of read results delivers to a buffer of
  the given size.\<close>

definition buffered :: "copy_buffer \<Rightarrow> bytes" where
  "buffered cb = take (cb_cap cb - cb_pos cb) (drop (cb_pos cb) (cb_buf cb))"

definition cb_ok :: "copy_buffer \<Rightarrow> bool" where
  "cb_ok cb \<longleftrightarrow> cb_pos cb \<le> cb_cap cb \<and> cb_cap cb \<le> length (cb_buf cb)"

fun chunk :: "nat \<Rightarrow> bytes io poll \<Rightarrow> bytes" where
  "chunk n (Ready (Inr data)) = take n data"
| "chunk n _ = []"

definition delivered :: "nat \<Rightarrow> bytes io poll list \<Rightarrow> bytes" where
  "delivered n ps = concat (map (chunk n) ps)"

lemma delivered_append [simp]: "delivered n (ps @ qs) = delivered n ps @ delivered n qs"
  by (simp add: delivered_def)

lemma s_write_frame:
  assumes "s_write buf w = (w', p)"
  shows "rx w' = rx w" "out w' = out w @ (case p of Ready (Inr i) \<Rightarrow> take i buf | _ \<Rightarrow> [])"
    "p = Ready (Inr i) \<Longrightarrow> i \<le> length buf"
  using assms by (auto simp: s_write_def min_def split: list.splits poll.splits sum.splits if_splits)

lemma s_flush_frame:
  assumes "s_flush w = (w', p)"
  shows "rx w' = rx w" "out w' = out w"
  using assms by (auto simp: s_flush_def split: list.splits)

lemma s_shutdown_frame:
  assumes "s_shutdown w = (w', p)"
  shows "rx w' = rx w" "out w' = out w"
  using assms by (auto simp: s_shutdown_def split: list.splits)

lemma end_flush_frame:
  assumes "end_flush cb w = (w', p)"
  shows "rx w' = rx w" "out w' = out w"
  using assms by (auto simp: end_flush_def s_flush_frame split: prod.splits poll.splits sum.splits)

lemma idle_flush_frame:
  assumes "idle_flush cb w = (cb', w', p)"
  shows "rx w' = rx w" "out w' = out w" "cb' = cb \<or> cb' = cb\<lparr> need_flush := False \<rparr>" "p \<noteq> Ready (Inr k)"
  using assms by (auto simp: idle_flush_def s_flush_frame split: prod.splits poll.splits sum.splits if_splits)

lemma take_drop_split:
  assumes "i \<le> c - p"
  shows "take (c - p) (drop p xs) = take i (take (c - p) (drop p xs)) @ take (c - (p + i)) (drop (p + i) xs)"
proof -
  have "c - p = i + (c - (p + i))" using assms by simp
  from take_add [of i "c - (p + i)" "drop p xs", folded this] show ?thesis
    unfolding take_take min_absorb1 [OF assms] by (simp add: add.commute)
qed

lemma write_out_spec:
  assumes "write_out cb w = (cb', w', res)" "cb_ok cb"
  shows "cb_ok cb' \<and> length (cb_buf cb') = length (cb_buf cb) \<and> read_done cb' = read_done cb \<and> rx w' = rx w
    \<and> out w' @ buffered cb' = out w @ buffered cb \<and> (res = None \<longrightarrow> cb_pos cb' = cb_cap cb') \<and> (\<forall>k. res \<noteq> Some (Ready (Inr k)))"
  using assms
proof (induction cb w arbitrary: cb' w' res rule: write_out.induct)
  case (1 cb w)
  show ?case
  proof (cases "cb_pos cb < cb_cap cb")
    case False
    with "1.prems" show ?thesis by (auto simp: write_out.simps [of cb w] cb_ok_def)
  next
    case True
    obtain w1 p where p: "s_write (buffered cb) w = (w1, p)" by fastforce
    note fr = s_write_frame [OF p]
    show ?thesis
    proof (cases "\<exists>i. p = Ready (Inr i) \<and> i \<noteq> 0")
      case False
      with "1.prems" True p fr show ?thesis
        by (auto simp: write_out.simps [of cb w] buffered_def split: poll.splits sum.splits if_splits)
    next
      case more: True
      then obtain i where i: "p = Ready (Inr i)" "i \<noteq> 0" by blast
      let ?cb = "cb\<lparr> cb_pos := cb_pos cb + i, cb_amt := cb_amt cb + word_of_nat i, need_flush := True \<rparr>"
      have le: "i \<le> cb_cap cb - cb_pos cb" "cb_cap cb \<le> length (cb_buf cb)"
        using fr(3) [OF i(1)] "1.prems"(2) by (auto simp: buffered_def cb_ok_def)
      have ok: "cb_ok ?cb" using le True by (simp add: cb_ok_def)
      have split: "buffered cb = take i (buffered cb) @ buffered ?cb"
        using take_drop_split [OF le(1)] by (simp add: buffered_def)
      have w1: "out w1 = out w @ take i (buffered cb)" "rx w1 = rx w" using fr(1,2) i by auto
      have run: "write_out ?cb w1 = (cb', w', res)"
        using "1.prems"(1) True p i by (simp add: write_out.simps [of cb w] buffered_def)
      from "1.IH" [OF True p [unfolded buffered_def, symmetric] i(1) refl i(2) run ok]
      show ?thesis using split w1 by (metis append.assoc copy_buffer.select_convs(1,6) copy_buffer.surjective copy_buffer.update_convs(2,3,4,5))
    qed
  qed
qed

text \<open>The end of the input has been read: the last of the first \<open>n\<close> reads is an empty one.\<close>

definition eof_at :: "bytes io poll list \<Rightarrow> nat \<Rightarrow> bool" where
  "eof_at ps n \<longleftrightarrow> 0 < n \<and> n \<le> length ps \<and> ps ! (n - 1) = Ready (Inr [])"

text \<open>What a direction keeps: \<open>n\<close> of the reads \<open>r0\<close> are used up, and the output \<open>w0\<close> has grown by what they
  delivered, apart from what is still in the buffer.\<close>

definition copied :: "nat \<Rightarrow> bytes io poll list \<Rightarrow> bytes \<Rightarrow> nat \<Rightarrow> copy_buffer \<Rightarrow> stream \<Rightarrow> stream \<Rightarrow> bool" where
  "copied sz r0 w0 n cb r w \<longleftrightarrow> cb_ok cb \<and> length (cb_buf cb) = sz \<and> n \<le> length r0 \<and> rx r = drop n r0
     \<and> out w @ buffered cb = w0 @ delivered sz (take n r0) \<and> (read_done cb \<longrightarrow> eof_at r0 n)"

lemma drop_ConsD:
  assumes "drop n xs = y # ys"
  shows "n < length xs" "xs ! n = y" "ys = drop (Suc n) xs" "take (Suc n) xs = take n xs @ [y]"
proof -
  show n: "n < length xs" using assms by (cases "n < length xs") auto
  from Cons_nth_drop_Suc [OF n] assms show "xs ! n = y" "ys = drop (Suc n) xs" by auto
  with n show "take (Suc n) xs = take n xs @ [y]" by (simp add: take_Suc_conv_app_nth)
qed

text \<open>One use of the reader.\<close>

lemma s_read_spec:
  assumes "s_read sz r = (r', p)" "rx r = drop n r0" "n \<le> length r0"
  obtains m where "m \<le> length r0" "rx r' = drop m r0" "out r' = out r"
    "delivered sz (take m r0) = delivered sz (take n r0) @ chunk sz p" "m = n \<or> m = Suc n \<and> length (rx r') < length (rx r)"
    "p = Ready (Inr []) \<longrightarrow> 0 < sz \<longrightarrow> eof_at r0 m" "p = Ready (Inr d) \<longrightarrow> length d \<le> sz \<and> m = Suc n"
proof (cases "rx r")
  case Nil
  then have "p = Pending" "r' = r" using assms(1) by (auto simp: s_read_def)
  with assms show ?thesis by (intro that [of n]) auto
next
  case (Cons x ps)
  note d = drop_ConsD [of n r0 x ps, folded assms(2), OF Cons]
  from assms(1) Cons show ?thesis
    by (intro that [of "Suc n"])
      (use d in \<open>auto simp: s_read_def delivered_def eof_at_def split: poll.splits sum.splits\<close>)
qed

lemma copied_fill:
  assumes "copied sz r0 w0 n cb r w" "cb_pos cb = cb_cap cb" "\<not> read_done cb"
    "s_read sz r = (r', Ready (Inr d))" "0 < sz"
  shows "\<exists>m. copied sz r0 w0 m (cb_fill d cb) r' w" "out r' = out r" "length (rx r') < length (rx r)"
proof -
  from assms(1) have r: "rx r = drop n r0" "n \<le> length r0" by (auto simp: copied_def)
  from s_read_spec [OF assms(4) r, where d = d] obtain m where m: "m = Suc n" "m \<le> length r0" "rx r' = drop m r0" "out r' = out r"
    "delivered sz (take m r0) = delivered sz (take n r0) @ take sz d" "d = [] \<longrightarrow> eof_at r0 m" "length d \<le> sz"
    "length (rx r') < length (rx r)"
    using assms(5) by (auto elim!: disjE)
  with assms(1-3) have "copied sz r0 w0 m (cb_fill d cb) r' w"
    by (auto simp: copied_def cb_fill_def cb_ok_def buffered_def eof_at_def)
  with m show "\<exists>m. copied sz r0 w0 m (cb_fill d cb) r' w" "out r' = out r" "length (rx r') < length (rx r)" by auto
qed

lemma copied_read:
  assumes "copied sz r0 w0 n cb r w" "\<not> read_done cb" "s_read sz r = (r', p)" "\<forall>d. p \<noteq> Ready (Inr d)"
  shows "\<exists>m. copied sz r0 w0 m cb r' w" "out r' = out r"
proof -
  from assms(1) have r: "rx r = drop n r0" "n \<le> length r0" by (auto simp: copied_def)
  from assms(4) have p: "chunk sz p = []" by (cases p; cases "case p of Ready x \<Rightarrow> x") auto
  obtain m where "m \<le> length r0" "rx r' = drop m r0" "out r' = out r" "delivered sz (take m r0) = delivered sz (take n r0)"
    by (rule s_read_spec [OF assms(3) r]) (use p in simp)
  with assms(1,2) show "\<exists>m. copied sz r0 w0 m cb r' w" "out r' = out r" by (auto simp: copied_def)
qed

lemma copied_write:
  assumes "copied sz r0 w0 n cb r w" "write_out cb w = (cb', w', res)"
  shows "copied sz r0 w0 n cb' r w'"
  using write_out_spec [OF assms(2)] assms(1) by (auto simp: copied_def)

lemma copied_idle:
  assumes "copied sz r0 w0 n cb r w" "idle_flush cb w = (cb', w', res)"
  shows "copied sz r0 w0 n cb' r w'"
  using idle_flush_frame [OF assms(2)] assms(1) by (auto simp: copied_def cb_ok_def buffered_def)

lemma poll_copy_spec:
  assumes "copied sz r0 w0 n cb r w" "0 < sz"
  shows "\<exists>m cb' r' w' res. poll_copy cb r w = Some (cb', r', w', res) \<and> copied sz r0 w0 m cb' r' w'
    \<and> out r' = out r \<and> rx w' = rx w \<and> (\<forall>k. res = Ready (Inr k) \<longrightarrow> read_done cb' \<and> buffered cb' = [])"
  using assms(1)
proof (induction "2 * length (rx r) + (if cb_pos cb < cb_cap cb then 1 else 0)" arbitrary: n cb r w rule: less_induct)
  case less
  have len: "length (cb_buf cb) = sz" and ok: "cb_ok cb" using less.prems by (auto simp: copied_def)
  have rest: ?case if c1: "copied sz r0 w0 m cb1 r1 w" and r1: "out r1 = out r"
    and dec: "2 * length (rx r1) < 2 * length (rx r) + (if cb_pos cb < cb_cap cb then 1 else 0) \<or> read_done cb1"
    and eq: "poll_copy cb r w = (case write_out cb1 w of
             (cb2, w2, Some res) \<Rightarrow> Some (cb2, r1, w2, res)
           | (cb2, w2, None) \<Rightarrow>
               if cb_pos cb2 = cb_cap cb2 \<and> read_done cb2 then
                 (case end_flush cb2 w2 of (w3, res) \<Rightarrow> Some (cb2, r1, w3, res))
               else poll_copy cb2 r1 w2)" for m cb1 r1
  proof -
    obtain cb2 w2 o2 where wo: "write_out cb1 w = (cb2, w2, o2)" by (metis prod_cases3)
    note c2 = copied_write [OF c1 wo]
    have sp: "read_done cb2 = read_done cb1" "rx w2 = rx w" "o2 = None \<longrightarrow> cb_pos cb2 = cb_cap cb2" "\<forall>k. o2 \<noteq> Some (Ready (Inr k))"
      using write_out_spec [OF wo] c1 by (auto simp: copied_def)
    show ?thesis
    proof (cases o2)
      case (Some res)
      with eq wo c2 sp r1 show ?thesis by auto
    next
      case None
      with sp have full: "cb_pos cb2 = cb_cap cb2" by simp
      show ?thesis
      proof (cases "read_done cb2")
        case True
        obtain w3 res where ef: "end_flush cb2 w2 = (w3, res)" by fastforce
        have "copied sz r0 w0 m cb2 r1 w3" using c2 end_flush_frame [OF ef] by (simp add: copied_def)
        with eq wo None full True ef r1 sp end_flush_frame [OF ef] show ?thesis by (auto simp: buffered_def)
      next
        case False
        with dec sp full have "2 * length (rx r1) + (if cb_pos cb2 < cb_cap cb2 then 1 else 0)
            < 2 * length (rx r) + (if cb_pos cb < cb_cap cb then 1 else 0)" by auto
        from less.hyps [OF this c2] False eq wo None r1 sp show ?thesis by auto
      qed
    qed
  qed
  show ?case
  proof (cases "cb_pos cb = cb_cap cb \<and> \<not> read_done cb")
    case False
    with ok have "read_done cb \<or> cb_pos cb < cb_cap cb" by (auto simp: cb_ok_def)
    with False show ?thesis
      by (intro rest [OF less.prems]) (auto simp: poll_copy.simps [of cb r w])
  next
    case True
    obtain r1 p where rd: "s_read sz r = (r1, p)" by fastforce
    show ?thesis
    proof (cases "\<exists>d. p = Ready (Inr d)")
      case data: True
      then obtain d where d: "p = Ready (Inr d)" by blast
      from copied_fill [OF less.prems _ _ rd [unfolded d] assms(2)] True
      obtain m where m: "copied sz r0 w0 m (cb_fill d cb) r1 w" "out r1 = out r" "length (rx r1) < length (rx r)" by auto
      show ?thesis
        by (rule rest [OF m(1,2)]) (use True rd d m len in \<open>auto simp: poll_copy.simps [of cb r w]\<close>)
    next
      case False
      from copied_read [OF less.prems _ rd] False True
      obtain m where m: "copied sz r0 w0 m cb r1 w" "out r1 = out r" by auto
      show ?thesis
      proof (cases p)
        case Pending
        obtain cb' w' res where idle: "idle_flush cb w = (cb', w', res)" by (metis prod_cases3)
        with copied_idle [OF m(1) idle] idle_flush_frame [OF idle] True rd Pending len m show ?thesis
          by (auto simp: poll_copy.simps [of cb r w])
      next
        case (Ready x)
        with False obtain e where "x = Inl e" by (cases x) auto
        with Ready True rd len m show ?thesis by (auto simp: poll_copy.simps [of cb r w])
      qed
    qed
  qed
qed

text \<open>A direction in any of its states: past the copy loop everything up to the end of the input is written.\<close>

definition direction_ok :: "bytes io poll list \<Rightarrow> bytes \<Rightarrow> transfer_state \<Rightarrow> stream \<Rightarrow> stream \<Rightarrow> bool" where
  "direction_ok r0 w0 st r w \<longleftrightarrow> (\<exists>n. case st of
     TRunning cb \<Rightarrow> copied 8192 r0 w0 n cb r w
   | _ \<Rightarrow> rx r = drop n r0 \<and> eof_at r0 n \<and> out w = w0 @ delivered 8192 (take n r0))"

lemma transfer_shutdown_spec:
  assumes "transfer_shutdown count w = (st', w', res)"
  shows "rx w' = rx w" "out w' = out w" "st' = TShuttingDown count \<or> st' = TDone count"
    "res = Ready (Inr k) \<Longrightarrow> st' = TDone k"
  using assms by (auto simp: transfer_shutdown_def s_shutdown_frame split: prod.splits poll.splits sum.splits)

lemma transfer_one_direction_spec:
  assumes "direction_ok r0 w0 st r w"
  obtains st' r' w' res where "transfer_one_direction st r w = Some (st', r', w', res)" "direction_ok r0 w0 st' r' w'"
    "out r' = out r" "rx w' = rx w" "\<And>k. res = Ready (Inr k) \<Longrightarrow> st' = TDone k"
proof (cases st)
  case (TRunning cb)
  with assms obtain n where n: "copied 8192 r0 w0 n cb r w" by (auto simp: direction_ok_def)
  from poll_copy_spec [OF n] obtain m cb' r1 w1 res1 where pc: "poll_copy cb r w = Some (cb', r1, w1, res1)"
    "copied 8192 r0 w0 m cb' r1 w1" "out r1 = out r" "rx w1 = rx w" "\<forall>k. res1 = Ready (Inr k) \<longrightarrow> read_done cb' \<and> buffered cb' = []"
    by auto
  show ?thesis
  proof (cases "\<exists>k. res1 = Ready (Inr k)")
    case True
    then obtain k where k: "res1 = Ready (Inr k)" by blast
    obtain st2 w2 res2 where sh: "transfer_shutdown k w1 = (st2, w2, res2)" by (metis prod_cases3)
    note f = transfer_shutdown_spec [OF sh]
    have "direction_ok r0 w0 st2 r1 w2"
      using pc(2,5) k f(1-3) by (auto simp: direction_ok_def copied_def)
    with TRunning pc k sh f show ?thesis by (intro that [of st2 r1 w2 res2]) (auto simp: transfer_one_direction_def)
  next
    case False
    with TRunning pc show ?thesis
      by (intro that [of "TRunning cb'" r1 w1 res1])
        (auto simp: transfer_one_direction_def direction_ok_def split: poll.splits sum.splits)
  qed
next
  case (TShuttingDown k)
  obtain st2 w2 res2 where sh: "transfer_shutdown k w = (st2, w2, res2)" by (metis prod_cases3)
  note f = transfer_shutdown_spec [OF sh]
  have "direction_ok r0 w0 st2 r w2" using assms f(1-3) TShuttingDown by (auto simp: direction_ok_def)
  with TShuttingDown sh f show ?thesis by (intro that [of st2 r w2 res2]) (auto simp: transfer_one_direction_def)
next
  case (TDone k)
  with assms show ?thesis by (intro that [of st r w "Ready (Inr k)"]) (auto simp: transfer_one_direction_def)
qed

lemma direction_ok_frame:
  assumes "direction_ok r0 w0 st r w" "rx r' = rx r" "out w' = out w"
  shows "direction_ok r0 w0 st r' w'"
  using assms by (cases st) (auto simp: direction_ok_def copied_def)

definition bi_ok :: "stream \<Rightarrow> stream \<Rightarrow> copy_bidirectional \<Rightarrow> bool" where
  "bi_ok a b c \<longleftrightarrow> direction_ok (rx a) (out b) (bi_a_to_b c) (bi_a c) (bi_b c)
     \<and> direction_ok (rx b) (out a) (bi_b_to_a c) (bi_b c) (bi_a c)"

lemma bidirectional_poll_spec:
  assumes "bi_ok a b c"
  shows "\<exists>c' res. bidirectional_poll c = Some (c', res) \<and> bi_ok a b c'
    \<and> (res = Ready (Inr ()) \<longrightarrow> (\<exists>k. bi_a_to_b c' = TDone k \<or> bi_b_to_a c' = TDone k))"
proof -
  obtain s1 a1 b1 res1 where t1: "transfer_one_direction (bi_a_to_b c) (bi_a c) (bi_b c) = Some (s1, a1, b1, res1)"
    "direction_ok (rx a) (out b) s1 a1 b1" "out a1 = out (bi_a c)" "rx b1 = rx (bi_b c)" "\<And>k. res1 = Ready (Inr k) \<Longrightarrow> s1 = TDone k"
    using assms transfer_one_direction_spec unfolding bi_ok_def by metis
  have d2: "direction_ok (rx b) (out a) (bi_b_to_a c) b1 a1"
    using assms t1(3,4) by (auto simp: bi_ok_def intro: direction_ok_frame)
  show ?thesis
  proof (cases "\<exists>e. res1 = Ready (Inl e)")
    case True
    with t1 d2 show ?thesis by (auto simp: bidirectional_poll_def bi_ok_def)
  next
    case False
    obtain s2 b2 a2 res2 where t2: "transfer_one_direction (bi_b_to_a c) b1 a1 = Some (s2, b2, a2, res2)"
      "direction_ok (rx b) (out a) s2 b2 a2" "out b2 = out b1" "rx a2 = rx a1" "\<And>k. res2 = Ready (Inr k) \<Longrightarrow> s2 = TDone k"
      using d2 transfer_one_direction_spec by metis
    have d1: "direction_ok (rx a) (out b) s1 a2 b2" using t1(2) t2(3,4) by (auto intro: direction_ok_frame)
    have "bidirectional_poll c = Some (\<lparr> bi_a = a2, bi_b = b2, bi_a_to_b = s1, bi_b_to_a = s2 \<rparr>,
        case res2 of Ready (Inl e) \<Rightarrow> Ready (Inl e) | _ \<Rightarrow> if res1 = Pending \<and> res2 = Pending then Pending else Ready (Inr ()))"
      using False t1(1) t2(1) by (auto simp: bidirectional_poll_def Let_def split: poll.splits sum.splits)
    moreover have "\<exists>k. res1 = Ready (Inr k)" if "res1 \<noteq> Pending"
      using that False by (metis poll.exhaust sum.exhaust)
    ultimately show ?thesis using d1 t2(2,5) t1(5)
      by (fastforce simp: bi_ok_def split: poll.splits sum.splits if_splits)
  qed
qed

text \<open>The task of \<open>connect_tcp\<close> is polled until it is ready.\<close>

fun bi_run :: "nat \<Rightarrow> copy_bidirectional \<Rightarrow> (copy_bidirectional \<times> unit io poll) option" where
  "bi_run 0 c = Some (c, Pending)"
| "bi_run (Suc k) c = (case bi_run k c of Some (c', Pending) \<Rightarrow> bidirectional_poll c' | r \<Rightarrow> r)"

lemma bi_run_spec:
  assumes "bi_ok a b c"
  shows "\<exists>c' res. bi_run k c = Some (c', res) \<and> bi_ok a b c'
    \<and> (res = Ready (Inr ()) \<longrightarrow> (\<exists>k. bi_a_to_b c' = TDone k \<or> bi_b_to_a c' = TDone k))"
proof (induction k)
  case (Suc k)
  then obtain c' res where "bi_run k c = Some (c', res)" "bi_ok a b c'"
    "res = Ready (Inr ()) \<longrightarrow> (\<exists>k. bi_a_to_b c' = TDone k \<or> bi_b_to_a c' = TDone k)" by blast
  with bidirectional_poll_spec [of a b c'] show ?case by (cases res) auto
qed (use assms in auto)

lemma bi_ok_new: "bi_ok a b (connect_tcp_new a b)"
  by (auto simp: bi_ok_def connect_tcp_new_def direction_ok_def copied_def cb_ok_def copy_buffer_new_def buffered_def
    delivered_def intro: exI [of _ 0])

lemma delivered_prefix: "prefix (delivered n (take m ps)) (delivered n ps)"
  using append_take_drop_id [of m ps] by (metis delivered_append prefixI)

lemma direction_ok_prefix:
  assumes "direction_ok r0 w0 st r w"
  shows "prefix (out w) (w0 @ delivered 8192 r0)"
proof -
  from assms obtain n where n: "case st of TRunning cb \<Rightarrow> copied 8192 r0 w0 n cb r w
      | _ \<Rightarrow> out w = w0 @ delivered 8192 (take n r0)" by (cases st) (auto simp: direction_ok_def)
  have "prefix (out w) (w0 @ delivered 8192 (take n r0))"
  proof (cases st)
    case (TRunning cb)
    with n have "w0 @ delivered 8192 (take n r0) = out w @ buffered cb" by (simp add: copied_def)
    then show ?thesis by (rule prefixI)
  qed (use n in auto)
  then show ?thesis by (rule prefix_order.trans) (simp add: delivered_prefix)
qed

text \<open>C1: A proxied TCP connection copies faithfully. However the two streams answer the polls, every poll
  of \<open>connect_tcp\<close> returns; what has been written to either side is a prefix of what the other side has
  delivered, in order and without loss or repetition; and when the connection is reported as finished,
  one of the directions has written everything up to the end of its input.\<close>

theorem connect_tcp_copies:
  "\<exists>c res. bi_run k (connect_tcp_new a b) = Some (c, res)
    \<and> prefix (out (bi_b c)) (out b @ delivered 8192 (rx a)) \<and> prefix (out (bi_a c)) (out a @ delivered 8192 (rx b))
    \<and> (res = Ready (Inr ()) \<longrightarrow>
        (\<exists>n. eof_at (rx a) n \<and> out (bi_b c) = out b @ delivered 8192 (take n (rx a)))
        \<or> (\<exists>n. eof_at (rx b) n \<and> out (bi_a c) = out a @ delivered 8192 (take n (rx b))))"
proof -
  from bi_run_spec [OF bi_ok_new] obtain c res where c: "bi_run k (connect_tcp_new a b) = Some (c, res)" "bi_ok a b c"
    "res = Ready (Inr ()) \<longrightarrow> (\<exists>k. bi_a_to_b c = TDone k \<or> bi_b_to_a c = TDone k)" by blast
  from c(2) have "prefix (out (bi_b c)) (out b @ delivered 8192 (rx a))" "prefix (out (bi_a c)) (out a @ delivered 8192 (rx b))"
    by (auto simp: bi_ok_def dest: direction_ok_prefix)
  with c show ?thesis by (fastforce simp: bi_ok_def direction_ok_def)
qed

definition example_a :: stream where
  "example_a = \<lparr> rx = [Ready (Inr [1, 2]), Ready (Inr [])], tx = [], fl = [], sd = [], out = [] \<rparr>"

definition example_b :: stream where
  "example_b = \<lparr> rx = [], tx = [Ready (Inr 1), Ready (Inr 5)], fl = [Ready (Inr ())], sd = [Ready (Inr ())], out = [] \<rparr>"

lemma example_run:
  "map_option (\<lambda>(c, res). (out (bi_b c), res)) (bi_run 1 (connect_tcp_new example_a example_b)) = Some ([1, 2], Ready (Inr ()))"
  by (simp add: connect_tcp_new_def example_a_def example_b_def bidirectional_poll_def transfer_one_direction_def
      poll_copy.simps write_out.simps s_read_def s_write_def s_flush_def s_shutdown_def end_flush_def idle_flush_def
      cb_fill_def copy_buffer_new_def transfer_shutdown_def Let_def numeral_2_eq_2)

theorem connect_tcp_copies_witness:
  "\<exists>c. bi_run 1 (connect_tcp_new example_a example_b) = Some (c, Ready (Inr ())) \<and> out (bi_b c) = [1, 2]
    \<and> ((\<exists>n. eof_at (rx example_a) n \<and> out (bi_b c) = out example_b @ delivered 8192 (take n (rx example_a)))
      \<or> (\<exists>n. eof_at (rx example_b) n \<and> out (bi_a c) = out example_a @ delivered 8192 (take n (rx example_b))))"
  using connect_tcp_copies [of 1 example_a example_b] example_run by auto

end
