(* ===== verification/Stream_Codec.thy ===== *)
theory Stream_Codec
  imports Prelude
begin

section \<open>Self-delimiting encodings\<close>

text \<open>
  The interface that the framed protocols share: an encoder and a decoder that returns the value and the
  bytes after it. What a peer reads from a byte stream is then the sequence of the encoded values, whatever
  follows them. The protocols interpret the locale with their own frame, packet and address formats.
\<close>

definition res_ok :: "'e + 'a \<Rightarrow> 'a option" where
  "res_ok r = (case r of Inl _ \<Rightarrow> None | Inr x \<Rightarrow> Some x)"

lemma res_ok_simps [simp]: "res_ok (Inl e) = None" "res_ok (Inr x) = Some x"
  by (simp_all add: res_ok_def)

lemma res_ok_eq_Some [simp]: "res_ok r = Some x \<longleftrightarrow> r = Inr x"
  by (cases r) simp_all

fun dec_many :: "(bytes \<Rightarrow> ('a \<times> bytes) option) \<Rightarrow> nat \<Rightarrow> bytes \<Rightarrow> 'a list \<times> bytes" where
  "dec_many d 0 bs = ([], bs)"
| "dec_many d (Suc n) bs = (case d bs of
     None \<Rightarrow> ([], bs)
   | Some (x, rest) \<Rightarrow> (case dec_many d n rest of (xs, left) \<Rightarrow> (x # xs, left)))"

text \<open>Everything that can be read; no more values than bytes.\<close>

definition dec_stream :: "(bytes \<Rightarrow> ('a \<times> bytes) option) \<Rightarrow> bytes \<Rightarrow> 'a list \<times> bytes" where
  "dec_stream d bs = dec_many d (length bs) bs"

locale stream_codec =
  fixes enc :: "'a \<Rightarrow> bytes" and dec :: "bytes \<Rightarrow> ('a \<times> bytes) option" and ok :: "'a \<Rightarrow> bool"
  assumes dec_enc: "ok x \<Longrightarrow> dec (enc x @ rest) = Some (x, rest)"
    and dec_shorter: "dec bs = Some (x, rest) \<Longrightarrow> length rest < length bs"
begin

lemma dec_Nil: "dec [] = None"
  using dec_shorter [of "[]"] by (cases "dec []") auto

lemma dec_many_more: "length bs \<le> n \<Longrightarrow> length bs \<le> m \<Longrightarrow> dec_many dec n bs = dec_many dec m bs"
proof (induction n arbitrary: bs m)
  case 0
  then show ?case by (cases m) (simp_all add: dec_Nil)
next
  case (Suc n)
  show ?case
  proof (cases m)
    case 0
    with Suc.prems show ?thesis by (simp add: dec_Nil)
  next
    case m: (Suc k)
    show ?thesis
    proof (cases "dec bs")
      case (Some y)
      obtain x rest where y: "y = (x, rest)" by (cases y)
      have "length rest < length bs" using dec_shorter Some y by simp
      with Suc.prems m have "length rest \<le> n" "length rest \<le> k" by simp_all
      from Suc.IH [OF this] show ?thesis by (simp add: m Some y)
    qed (simp add: m)
  qed
qed

lemma dec_stream_step: "dec_stream dec bs = (case dec bs of
     None \<Rightarrow> ([], bs)
   | Some (x, rest) \<Rightarrow> (case dec_stream dec rest of (xs, left) \<Rightarrow> (x # xs, left)))"
proof -
  have more: "dec_many dec (length bs) rest = dec_stream dec rest" if "dec bs = Some (x, rest)" for x rest
    unfolding dec_stream_def by (rule dec_many_more) (use dec_shorter [OF that] in simp_all)
  have "dec_stream dec bs = dec_many dec (Suc (length bs)) bs"
    unfolding dec_stream_def by (rule dec_many_more) simp_all
  also have "\<dots> = (case dec bs of None \<Rightarrow> ([], bs)
     | Some (x, rest) \<Rightarrow> (case dec_stream dec rest of (xs, left) \<Rightarrow> (x # xs, left)))"
    using more by (auto split: option.split)
  finally show ?thesis .
qed

theorem dec_stream_concat:
  "list_all ok xs \<Longrightarrow> dec_stream dec (concat (map enc xs) @ bs) = (case dec_stream dec bs of (ys, left) \<Rightarrow> (xs @ ys, left))"
proof (induction xs)
  case (Cons x xs)
  then show ?case using dec_stream_step [of "enc x @ concat (map enc xs) @ bs"] by (simp add: dec_enc split: prod.splits)
qed simp

lemma enc_nonempty: "ok x \<Longrightarrow> enc x \<noteq> []"
  using dec_enc [of x "[]"] dec_shorter [of "enc x" x "[]"] by auto

lemma enc_inject: "ok x \<Longrightarrow> ok y \<Longrightarrow> enc x @ bs = enc y @ cs \<Longrightarrow> x = y \<and> bs = cs"
  by (metis dec_enc option.inject prod.inject)

lemma dec_stream_whole: "list_all ok xs \<Longrightarrow> dec_stream dec (concat (map enc xs)) = (xs, [])"
  using dec_stream_concat [of xs "[]"] by (simp add: dec_stream_step [of "[]"] dec_Nil)

end

end
