(* ===== verification/Socks_Addr.thy ===== *)
theory Socks_Addr
  imports Address Stream_Codec
begin

section \<open>SOCKS addresses\<close>

text \<open>
  The address type of the crate \<open>socks5_protocol\<close>, which the SOCKS5, Trojan and Shadowsocks code uses on the
  wire, the conversions from and to \<open>Address\<close> (\<open>rd-std/src/socks5/common.rs\<close>), and the locale \<open>s5_codec\<close>
  with what the callers rely on: reading back what was written, and the layout of RFC 1928, section 5. The
  functions of the crate are parameters; \<open>rfc_write\<close> and \<open>rfc_read\<close> are an instance of the laws.
\<close>

datatype s5_addr = S5Domain string u16 | S5Socket socket_addr

datatype s5_error = S5Io io_error | S5Other string

definition s5_map_err :: "s5_error \<Rightarrow> rd_error" where
  "s5_map_err e = (case e of S5Io io \<Rightarrow> IO io | S5Other m \<Rightarrow> OtherError m)"

definition s5_to_io_err :: "s5_error \<Rightarrow> io_error" where
  "s5_to_io_err e = (case e of S5Io io \<Rightarrow> io | S5Other m \<Rightarrow> IoError OtherKind m)"

fun sa2ra :: "s5_addr \<Rightarrow> address" where
  "sa2ra (S5Domain d p) = Domain d p"
| "sa2ra (S5Socket s) = SocketAddr s"

fun ra2sa :: "address \<Rightarrow> s5_addr" where
  "ra2sa (Domain d p) = S5Domain d p"
| "ra2sa (SocketAddr s) = S5Socket s"

lemma sa2ra_ra2sa [simp]: "sa2ra (ra2sa a) = a" "ra2sa (sa2ra b) = b"
  by (cases a; simp) (cases b; simp)

text \<open>Addresses that survive the encoding: it has no room for flow labels and scopes.\<close>

fun s5_plain :: "s5_addr \<Rightarrow> bool" where
  "s5_plain (S5Socket (SockV4 _ _)) = True"
| "s5_plain (S5Socket (SockV6 _ _ f s)) = (f = 0 \<and> s = 0)"
| "s5_plain (S5Domain d _) = (str_ok d \<and> length d \<le> 255)"

type_synonym s5_write = "s5_addr \<Rightarrow> s5_error + bytes"
type_synonym s5_read = "bytes \<Rightarrow> s5_error + (s5_addr \<times> bytes)"

locale s5_codec =
  fixes sw :: s5_write and sr :: s5_read
  assumes read_write: "s5_plain a \<Longrightarrow> sw a = Inr b \<Longrightarrow> sr (b @ rest) = Inr (a, rest)"
    and write_v4: "sw (S5Socket (SockV4 ip p)) = Inr ([1] @ v4_octets ip @ u16_to_be p)"
    and write_v6: "sw (S5Socket (SockV6 ip6 p fl sc)) = Inr ([4] @ v6_octets ip6 @ u16_to_be p)"
    and write_domain: "length d \<le> 255 \<Longrightarrow> sw (S5Domain d p) = Inr ([3, word_of_nat (length d)] @ as_bytes d @ u16_to_be p)"
    and read_shorter: "sr bs = Inr (a, rest) \<Longrightarrow> length rest < length bs"
begin

lemma write_plain: "s5_plain a \<Longrightarrow> \<exists>b. sw a = Inr b"
  by (cases a rule: s5_plain.cases) (auto simp: write_v4 write_v6 write_domain)

lemma address_codec: "stream_codec (\<lambda>a. projr (sw a)) (\<lambda>bs. res_ok (sr bs)) s5_plain"
  by unfold_locales (use write_plain read_write read_shorter in fastforce)+

end

subsection \<open>RFC 1928\<close>

definition rfc_write :: s5_write where
  "rfc_write a = (case a of
     S5Socket s \<Rightarrow>
       Inr ((case sock_ip s of IpV4 ip \<Rightarrow> [1] @ v4_octets ip | IpV6 ip \<Rightarrow> [4] @ v6_octets ip) @ u16_to_be (sock_port s))
   | S5Domain d p \<Rightarrow>
       if 255 < length d then Inl (S5Other ''domain too long'')
       else Inr ([3, word_of_nat (length d)] @ as_bytes d @ u16_to_be p))"

definition rfc_take :: "nat \<Rightarrow> bytes \<Rightarrow> s5_error + (bytes \<times> bytes)" where
  "rfc_take n bs = map_err S5Io (read_exact n bs)"

definition rfc_read :: s5_read where
  "rfc_read bs =
     rbind (rfc_take 1 bs) (\<lambda>(t, bs).
     if t = [1] then
       rbind (rfc_take 4 bs) (\<lambda>(ip, bs).
       rbind (rfc_take 2 bs) (\<lambda>(p, bs). Inr (S5Socket (SockV4 (word_of_nat (from_be ip)) (u16_from_be p)), bs)))
     else if t = [4] then
       rbind (rfc_take 16 bs) (\<lambda>(ip, bs).
       rbind (rfc_take 2 bs) (\<lambda>(p, bs). Inr (S5Socket (SockV6 (word_of_nat (from_be ip)) (u16_from_be p) 0 0), bs)))
     else if t = [3] then
       rbind (rfc_take 1 bs) (\<lambda>(n, bs).
       rbind (rfc_take (unat (hd n)) bs) (\<lambda>(d, bs).
       rbind (ok_or (S5Other ''invalid domain'') (from_utf8 d)) (\<lambda>d.
       rbind (rfc_take 2 bs) (\<lambda>(p, bs). Inr (S5Domain d (u16_from_be p), bs)))))
     else Inl (S5Other ''invalid address type''))"

lemma rfc_take_append [simp]: "length a = n \<Longrightarrow> rfc_take n (a @ bs) = Inr (a, bs)"
  by (simp add: rfc_take_def)

lemma rfc_take_one [simp]: "rfc_take (Suc 0) (x # bs) = Inr ([x], bs)"
  using rfc_take_append [of "[x]" 1 bs] by simp

lemma rfc_take_shorter: "rfc_take n bs = Inr (a, rest) \<Longrightarrow> length rest \<le> length bs \<and> (0 < n \<longrightarrow> length rest < length bs)"
  by (auto simp: rfc_take_def read_exact_def split: if_splits)

lemma rfc_read_write:
  assumes "s5_plain a" "rfc_write a = Inr b"
  shows "rfc_read (b @ rest) = Inr (a, rest)"
proof (cases a rule: s5_plain.cases)
  case (3 d p)
  with assms have "length d \<le> 255" "str_ok d" by simp_all
  then have "unat (word_of_nat (length d) :: byte) = length d" by (simp add: unat_of_nat)
  with 3 assms show ?thesis by (auto simp: rfc_write_def rfc_read_def)
qed (use assms in \<open>auto simp: rfc_write_def rfc_read_def\<close>)

interpretation s5rfc: s5_codec rfc_write rfc_read
proof unfold_locales
  show "rfc_read (b @ rest) = Inr (a, rest)" if "s5_plain a" "rfc_write a = Inr b" for a b rest
    using that by (rule rfc_read_write)
  show "length rest < length bs" if "rfc_read bs = Inr (a, rest)" for bs a rest
    using that by (fastforce simp: rfc_read_def split: if_splits elim!: rbind_InrE dest!: rfc_take_shorter)
qed (simp_all add: rfc_write_def)

end
