(* ===== verification/Anytls.thy ===== *)
theory Anytls
  imports Socks_Addr Hash_Map
begin

section \<open>AnyTLS\<close>

text \<open>
  \<open>protocol/anytls/src/proto.rs\<close> and the stream of \<open>protocol/anytls/src/client.rs\<close>: frames inside a TLS
  connection, a padding scheme that shapes the sizes of the first records and that the server can
  replace, and one stream per connection carried by a writer task, a reader task and two channels. The
  TLS connection is a byte stream in both directions; MD5, SHA-256 and the random numbers are
  parameters.
\<close>

definition CMD_WASTE :: byte where "CMD_WASTE = 0"
definition CMD_SYN :: byte where "CMD_SYN = 1"
definition CMD_PSH :: byte where "CMD_PSH = 2"
definition CMD_FIN :: byte where "CMD_FIN = 3"
definition CMD_SETTINGS :: byte where "CMD_SETTINGS = 4"
definition CMD_ALERT :: byte where "CMD_ALERT = 5"
definition CMD_UPDATE_PADDING_SCHEME :: byte where "CMD_UPDATE_PADDING_SCHEME = 6"
definition CMD_SYNACK :: byte where "CMD_SYNACK = 7"
definition CMD_HEART_REQUEST :: byte where "CMD_HEART_REQUEST = 8"
definition CMD_HEART_RESPONSE :: byte where "CMD_HEART_RESPONSE = 9"
definition CMD_SERVER_SETTINGS :: byte where "CMD_SERVER_SETTINGS = 10"

lemmas cmd_defs = CMD_WASTE_def CMD_SYN_def CMD_PSH_def CMD_FIN_def CMD_SETTINGS_def CMD_ALERT_def
  CMD_UPDATE_PADDING_SCHEME_def CMD_SYNACK_def CMD_HEART_REQUEST_def CMD_HEART_RESPONSE_def CMD_SERVER_SETTINGS_def

definition HEADER_LEN :: nat where
  "HEADER_LEN = 7"

record frame =
  f_cmd :: byte
  f_sid :: u32
  f_data :: bytes

subsection \<open>Padding schemes\<close>

type_synonym i32 = "32 word"

definition CHECK_MARK :: i32 where
  "CHECK_MARK = - 1"

datatype padding_part = Check | PRange nat nat

record padding_scheme =
  ps_raw :: bytes
  ps_stop :: u32
  ps_scheme :: "(u32, padding_part list) hmap"

definition parse_u32 :: "string \<Rightarrow> u32 option" where
  "parse_u32 s = map_option word_of_nat (parse_uint (2 ^ 32) s)"

definition parse_usize :: "string \<Rightarrow> nat option" where
  "parse_usize = parse_uint (2 ^ 64)"

definition parse_part :: "string \<Rightarrow> padding_part option" where
  "parse_part raw_part =
     (if raw_part = ''c'' then Some Check
      else case split_once (CHR ''-'') raw_part of
        None \<Rightarrow> None
      | Some (mn, mx) \<Rightarrow>
          (case (parse_usize mn, parse_usize mx) of
             (Some a, Some b) \<Rightarrow>
               if a = 0 \<or> b = 0 then None else if b < a then Some (PRange b a) else Some (PRange a b)
           | _ \<Rightarrow> None))"

definition parse_line ::
  "string \<Rightarrow> u32 option \<times> (u32, padding_part list) hmap \<Rightarrow> u32 option \<times> (u32, padding_part list) hmap" where
  "parse_line line = (\<lambda>(stop, scheme).
     (case split_once (CHR ''='') line of
        None \<Rightarrow> (stop, scheme)
      | Some (key, v) \<Rightarrow>
          if key = ''stop'' then (parse_u32 v, scheme)
          else (case parse_u32 key of
             None \<Rightarrow> (stop, scheme)
           | Some pkt \<Rightarrow> (stop, hm_insert pkt (List.map_filter parse_part (split (CHR '','') v)) scheme))))"

definition padding_parse :: "bytes \<Rightarrow> padding_scheme option" where
  "padding_parse raw = Option.bind (from_utf8 raw) (\<lambda>text.
     case fold parse_line (lines text) (None, []) of (stop, scheme) \<Rightarrow>
     map_option (\<lambda>stop. \<lparr> ps_raw = raw, ps_stop = stop, ps_scheme = scheme \<rparr>) stop)"

definition default_text :: string where
  "default_text = ''stop=8'' @ [CHR 0x0A] @ ''0=30-30'' @ [CHR 0x0A] @ ''1=100-400'' @ [CHR 0x0A]
     @ ''2=400-500,c,500-1000,c,500-1000,c,500-1000,c,500-1000'' @ [CHR 0x0A] @ ''3=9-9,500-1000'' @ [CHR 0x0A]
     @ ''4=500-1000'' @ [CHR 0x0A] @ ''5=500-1000'' @ [CHR 0x0A] @ ''6=500-1000'' @ [CHR 0x0A] @ ''7=500-1000''"

definition DEFAULT_PADDING_SCHEME :: bytes where
  "DEFAULT_PADDING_SCHEME = as_bytes default_text"

definition padding_default :: "padding_scheme may_panic" where
  "padding_default = ok_or (Panic ''default AnyTLS padding scheme is valid'') (padding_parse DEFAULT_PADDING_SCHEME)"

text \<open>The \<open>i\<close>-th draw of \<open>random_range(min..max)\<close> is \<open>rnd i min max\<close>; the sizes are converted to \<open>i32\<close>.\<close>

type_synonym rand = "nat \<Rightarrow> nat \<Rightarrow> nat \<Rightarrow> nat"

definition part_size :: "rand \<Rightarrow> nat \<times> padding_part \<Rightarrow> i32" where
  "part_size rnd = (\<lambda>(i, part). case part of
     Check \<Rightarrow> CHECK_MARK
   | PRange a b \<Rightarrow> if a = b then word_of_nat a else word_of_nat (rnd i a b))"

definition generate_record_payload_sizes :: "rand \<Rightarrow> padding_scheme \<Rightarrow> u32 \<Rightarrow> i32 list" where
  "generate_record_payload_sizes rnd p pkt =
     (if ps_stop p \<le> pkt then []
      else case hm_get (ps_scheme p) pkt of
        Some parts \<Rightarrow> map (part_size rnd) (enumerate 0 parts)
      | None \<Rightarrow> [])"

subsection \<open>Frames\<close>

definition encode_frame :: "frame \<Rightarrow> bytes may_panic" where
  "encode_frame f =
     (if 65535 < length (f_data f) then Inl (Panic ''assertion failed: frame.data.len() <= u16::MAX as usize'')
      else Inr ([f_cmd f] @ u32_to_be (f_sid f) @ u16_to_be (word_of_nat (length (f_data f))) @ f_data f))"

definition decode_header :: "bytes \<Rightarrow> byte \<times> u32 \<times> u16" where
  "decode_header h = (h ! 0, u32_from_be [h ! 1, h ! 2, h ! 3, h ! 4], u16_from_be [h ! 5, h ! 6])"

definition encode_socks_addr :: "address \<Rightarrow> bytes rd" where
  "encode_socks_addr a = (case a of
     SocketAddr s \<Rightarrow>
       Inr ((case sock_ip s of IpV4 ip \<Rightarrow> [1] @ v4_octets ip | IpV6 ip \<Rightarrow> [4] @ v6_octets ip)
            @ u16_to_be (sock_port s))
   | Domain d p \<Rightarrow>
       if 255 < length d then Inl (OtherError ''domain name too long'')
       else Inr ([3, word_of_nat (length d)] @ as_bytes d @ u16_to_be p))"

definition encode_settings :: "(bytes \<Rightarrow> string) \<Rightarrow> padding_scheme \<Rightarrow> bytes" where
  "encode_settings md5_hex p =
     as_bytes (''v=2'' @ [CHR 0x0A] @ ''client=rdp/anytls'' @ [CHR 0x0A] @ ''padding-md5='' @ md5_hex (ps_raw p))"

definition i32_as_usize :: "i32 \<Rightarrow> nat" where
  "i32_as_usize w = nat (sint w mod 2 ^ 64)"

definition auth_prefix :: "(bytes \<Rightarrow> bytes) \<Rightarrow> rand \<Rightarrow> string \<Rightarrow> padding_scheme \<Rightarrow> bytes may_panic" where
  "auth_prefix sha256 rnd password p =
     (let padding_len = (case generate_record_payload_sizes rnd p 0 of
          len # _ \<Rightarrow> if 0 < sint len then i32_as_usize len else 0
        | [] \<Rightarrow> 0) in
      if 65535 < padding_len then Inl (Panic ''assertion failed: padding_len <= u16::MAX as usize'')
      else Inr (sha256 (as_bytes password) @ u16_to_be (word_of_nat padding_len) @ replicate padding_len 0))"

definition encode_waste_frame :: "nat \<Rightarrow> bytes may_panic" where
  "encode_waste_frame padding_len = encode_frame \<lparr> f_cmd = CMD_WASTE, f_sid = 0, f_data = replicate padding_len 0 \<rparr>"

text \<open>The loop of \<open>apply_padding\<close>: the chunks and what is left of the payload.\<close>

fun pad_loop :: "i32 list \<Rightarrow> bytes \<Rightarrow> (bytes list \<times> bytes) may_panic" where
  "pad_loop [] payload = Inr ([], payload)"
| "pad_loop (w # ws) payload =
     (if w = CHECK_MARK then if payload = [] then Inr ([], payload) else pad_loop ws payload
      else
        let sz = i32_as_usize w in
        if sz < length payload then
          rbind (pad_loop ws (drop sz payload)) (\<lambda>(cs, rest). Inr (take sz payload # cs, rest))
        else if payload \<noteq> [] then
          let padding_len = sz - (length payload + HEADER_LEN) in
          rbind (if 0 < padding_len then encode_waste_frame padding_len else Inr []) (\<lambda>waste.
          rbind (pad_loop ws []) (\<lambda>(cs, rest). Inr ((payload @ waste) # cs, rest)))
        else
          rbind (encode_waste_frame sz) (\<lambda>waste.
          rbind (pad_loop ws []) (\<lambda>(cs, rest). Inr (waste # cs, rest))))"

definition apply_padding :: "rand \<Rightarrow> u32 \<Rightarrow> padding_scheme \<Rightarrow> bytes \<Rightarrow> bytes list may_panic" where
  "apply_padding rnd pkt p payload =
     (let sizes = generate_record_payload_sizes rnd p pkt in
      if sizes = [] then Inr [payload]
      else rbind (pad_loop sizes payload) (\<lambda>(cs, rest).
        let out = (if rest \<noteq> [] then cs @ [rest] else cs) in
        Inr (if out = [] then [[]] else out)))"

subsection \<open>The tasks of a connection\<close>

text \<open>The writer task: the messages of the channel in order, each with the scheme that is current when it is
  taken and the draws made for it. \<open>oks\<close> are the answers of \<open>write_all\<close>, success when the list has run out;
  the result is what has been written.\<close>

fun write_chunks :: "bool list \<Rightarrow> bytes list \<Rightarrow> bytes \<times> bool list \<times> bool" where
  "write_chunks oks [] = ([], oks, True)"
| "write_chunks oks (c # cs) =
     (if c = [] then write_chunks oks cs
      else if oks \<noteq> [] \<and> \<not> hd oks then ([], tl oks, False)
      else case write_chunks (tl oks) cs of (out, oks', ok) \<Rightarrow> (c @ out, oks', ok))"

definition saturating_add_1 :: "u32 \<Rightarrow> u32" where
  "saturating_add_1 n = (if n = - 1 then n else n + 1)"

fun writer_task :: "bool list \<Rightarrow> u32 \<Rightarrow> (padding_scheme \<times> rand \<times> bytes) list \<Rightarrow> bytes may_panic" where
  "writer_task oks pkt [] = Inr []"
| "writer_task oks pkt ((p, rnd, payload) # ms) =
     rbind (apply_padding rnd pkt p payload) (\<lambda>chunks.
     case write_chunks oks chunks of
       (out, oks', True) \<Rightarrow> rbind (writer_task oks' (saturating_add_1 pkt) ms) (\<lambda>out'. Inr (out @ out'))
     | (out, _, False) \<Rightarrow> Inr out)"

text \<open>The reader task: what it has put into the two channels, and the scheme it shares with the writer.
  \<open>alive n\<close> says whether the receiver of the stream still exists after \<open>n\<close> messages.\<close>

record reader =
  rt_sent :: "bytes list"
  rt_writes :: "bytes list"
  rt_padding :: padding_scheme

definition read_frame :: "bytes \<Rightarrow> (frame \<times> bytes) io" where
  "read_frame bs =
     rbind (read_exact HEADER_LEN bs) (\<lambda>(h, bs).
     case decode_header h of (cmd, got_sid, len) \<Rightarrow>
     rbind (if 0 < len then read_exact (unat len) bs else Inr ([], bs)) (\<lambda>(data, bs).
     Inr (\<lparr> f_cmd = cmd, f_sid = got_sid, f_data = data \<rparr>, bs)))"

definition handle_frame :: "(nat \<Rightarrow> bool) \<Rightarrow> u32 \<Rightarrow> frame \<Rightarrow> reader \<Rightarrow> reader \<times> bool" where
  "handle_frame alive sid f s =
     (if f_cmd f = CMD_PSH \<and> f_sid f = sid then
        if alive (length (rt_sent s)) then (s\<lparr> rt_sent := rt_sent s @ [f_data f] \<rparr>, True) else (s, False)
      else if f_cmd f = CMD_FIN \<and> f_sid f = sid then (s, False)
      else if f_cmd f = CMD_ALERT then (s, False)
      else if f_cmd f = CMD_UPDATE_PADDING_SCHEME then
        (case padding_parse (f_data f) of Some p \<Rightarrow> (s\<lparr> rt_padding := p \<rparr>, True) | None \<Rightarrow> (s, True))
      else if f_cmd f = CMD_HEART_REQUEST then
        (case encode_frame \<lparr> f_cmd = CMD_HEART_RESPONSE, f_sid = f_sid f, f_data = [] \<rparr> of
           Inr b \<Rightarrow> (s\<lparr> rt_writes := rt_writes s @ [b] \<rparr>, True)
         | Inl _ \<Rightarrow> (s, False))
      else (s, True))"

lemma read_frame_shorter: "read_frame bs = Inr (f, rest) \<Longrightarrow> length rest < length bs"
  by (auto simp: read_frame_def read_exact_def rbind_def HEADER_LEN_def split: if_splits prod.splits)

function reader_task :: "(nat \<Rightarrow> bool) \<Rightarrow> u32 \<Rightarrow> bytes \<Rightarrow> reader \<Rightarrow> reader" where
  "reader_task alive sid bs s = (case read_frame bs of
     Inl _ \<Rightarrow> s
   | Inr (f, rest) \<Rightarrow>
       (case handle_frame alive sid f s of (s', True) \<Rightarrow> reader_task alive sid rest s' | (s', False) \<Rightarrow> s'))"
  by pat_completeness auto
termination
  by (relation "measure (\<lambda>(_, _, bs, _). length bs)") (auto dest: read_frame_shorter)

declare reader_task.simps [simp del]

subsection \<open>The stream\<close>

record anytls_stream =
  as_sid :: u32
  as_writes :: "bytes list"
  as_writer_open :: bool
  as_queue :: "bytes list"
  as_reader_open :: bool
  as_read_buf :: bytes
  as_closed :: bool

definition initial_payload :: "(bytes \<Rightarrow> string) \<Rightarrow> u32 \<Rightarrow> padding_scheme \<Rightarrow> address \<Rightarrow> bytes rd may_panic" where
  "initial_payload md5_hex sid p addr =
     rbind (encode_frame \<lparr> f_cmd = CMD_SETTINGS, f_sid = 0, f_data = encode_settings md5_hex p \<rparr>) (\<lambda>settings.
     rbind (encode_frame \<lparr> f_cmd = CMD_SYN, f_sid = sid, f_data = [] \<rparr>) (\<lambda>syn.
     case encode_socks_addr addr of
       Inl e \<Rightarrow> Inr (Inl e)
     | Inr a \<Rightarrow> rbind (encode_frame \<lparr> f_cmd = CMD_PSH, f_sid = sid, f_data = a \<rparr>) (\<lambda>psh.
         Inr (Inr (settings @ syn @ psh)))))"

text \<open>The part of \<open>tcp_connect\<close> after the TLS handshake: the prefix written at once, and the stream.\<close>

definition anytls_connect ::
  "(bytes \<Rightarrow> string) \<Rightarrow> (bytes \<Rightarrow> bytes) \<Rightarrow> rand \<Rightarrow> string \<Rightarrow> padding_scheme \<Rightarrow> bool \<Rightarrow> address
    \<Rightarrow> (bytes \<times> anytls_stream) rd may_panic" where
  "anytls_connect md5_hex sha256 rnd password p writer_open addr =
     rbind (auth_prefix sha256 rnd password p) (\<lambda>prefix.
     rbind (initial_payload md5_hex 1 p addr) (\<lambda>r. Inr (
       rbind r (\<lambda>payload.
       if writer_open then
         Inr (prefix, \<lparr> as_sid = 1, as_writes = [payload], as_writer_open = True, as_queue = [], as_reader_open = True,
                as_read_buf = [], as_closed = False \<rparr>)
       else Inl (OtherError ''anytls writer closed'')))))"

definition as_poll_read :: "nat \<Rightarrow> anytls_stream \<Rightarrow> anytls_stream \<times> bytes io poll" where
  "as_poll_read room s =
     (if as_read_buf s = [] then
        (case as_queue s of
           [] \<Rightarrow> if as_reader_open s then (s, Pending) else (s, Ready (Inr []))
         | data # q \<Rightarrow>
             (s\<lparr> as_queue := q, as_read_buf := drop (min (length data) room) data \<rparr>, Ready (Inr (take (min (length data) room) data))))
      else
        (let n = min (length (as_read_buf s)) room
         in (s\<lparr> as_read_buf := drop n (as_read_buf s) \<rparr>, Ready (Inr (take n (as_read_buf s))))))"

definition as_poll_write :: "bytes \<Rightarrow> anytls_stream \<Rightarrow> (anytls_stream \<times> nat io poll) may_panic" where
  "as_poll_write buf s =
     (if as_closed s then Inr (s, Ready (Inl (IoError BrokenPipe [])))
      else if buf = [] then Inr (s, Ready (Inr 0))
      else
        let n = min (length buf) 65535 in
        rbind (encode_frame \<lparr> f_cmd = CMD_PSH, f_sid = as_sid s, f_data = take n buf \<rparr>) (\<lambda>b.
        if as_writer_open s then Inr (s\<lparr> as_writes := as_writes s @ [b] \<rparr>, Ready (Inr n))
        else Inr (s, Ready (Inl (IoError BrokenPipe [])))))"

definition as_poll_flush :: "anytls_stream \<Rightarrow> anytls_stream \<times> unit io poll" where
  "as_poll_flush s = (s, Ready (Inr ()))"

definition as_poll_shutdown :: "anytls_stream \<Rightarrow> anytls_stream \<times> unit io poll" where
  "as_poll_shutdown s =
     (if as_closed s then (s, Ready (Inr ()))
      else (case encode_frame \<lparr> f_cmd = CMD_FIN, f_sid = as_sid s, f_data = [] \<rparr> of
          Inr b \<Rightarrow> (s\<lparr> as_closed := True, as_writes := (if as_writer_open s then as_writes s @ [b] else as_writes s) \<rparr>, Ready (Inr ()))
        | Inl _ \<Rightarrow> (s\<lparr> as_closed := True \<rparr>, Ready (Inr ()))))"

subsection \<open>Frames on the wire\<close>

definition parse_frames :: "bytes \<Rightarrow> frame list \<times> bytes" where
  "parse_frames = dec_stream (\<lambda>bs. res_ok (read_frame bs))"

definition frame_bytes :: "frame \<Rightarrow> bytes" where
  "frame_bytes f = [f_cmd f] @ u32_to_be (f_sid f) @ u16_to_be (word_of_nat (length (f_data f))) @ f_data f"

definition frame_ok :: "frame \<Rightarrow> bool" where
  "frame_ok f \<longleftrightarrow> length (f_data f) \<le> 65535"

lemma encode_frame_ok [simp]: "frame_ok f \<Longrightarrow> encode_frame f = Inr (frame_bytes f)"
  by (simp add: encode_frame_def frame_ok_def frame_bytes_def)

lemma u32_to_be_list: obtains a b c d where "u32_to_be w = [a, b, c, d]"
  using length_u32_to_be [of w] by (auto simp: length_Suc_conv eval_nat_numeral simp del: length_u32_to_be)

lemma read_frame_bytes:
  assumes "frame_ok f"
  shows "read_frame (frame_bytes f @ rest) = Inr (f, rest)"
proof -
  define n where "n = (word_of_nat (length (f_data f)) :: u16)"
  have n: "unat n = length (f_data f)" using assms by (simp add: n_def frame_ok_def unat_of_nat)
  then have data: "read_exact (unat n) (f_data f @ rest) = Inr (f_data f, rest)" by simp
  obtain a b c d where s: "u32_to_be (f_sid f) = [a, b, c, d]" by (rule u32_to_be_list)
  obtain e g where l: "u16_to_be n = [e, g]" using list2_of_length [of "u16_to_be n"] by auto
  have w: "frame_bytes f @ rest = [f_cmd f, a, b, c, d, e, g] @ (f_data f @ rest)"
    by (simp add: frame_bytes_def s l n_def [symmetric])
  have h: "decode_header [f_cmd f, a, b, c, d, e, g] = (f_cmd f, f_sid f, n)"
    using u32_from_to_be [of "f_sid f"] u16_from_to_be [of n] by (simp add: decode_header_def s l eval_nat_numeral)
  have r: "read_exact HEADER_LEN ([f_cmd f, a, b, c, d, e, g] @ (f_data f @ rest)) = Inr ([f_cmd f, a, b, c, d, e, g], f_data f @ rest)"
    by (simp add: HEADER_LEN_def read_exact_def)
  have z: "f_data f = []" if "\<not> 0 < n" using that n by (simp add: word_gt_0)
  show ?thesis unfolding w read_frame_def r using data z by (cases "0 < n") (auto simp: h)
qed

interpretation anytls_frames: stream_codec frame_bytes "\<lambda>bs. res_ok (read_frame bs)" frame_ok
  by unfold_locales (auto simp: read_frame_bytes read_frame_shorter)

definition waste_frame :: "nat \<Rightarrow> frame" where
  "waste_frame n = \<lparr> f_cmd = CMD_WASTE, f_sid = 0, f_data = replicate n 0 \<rparr>"

lemma encode_waste_ok [simp]: "n \<le> 65535 \<Longrightarrow> encode_waste_frame n = Inr (frame_bytes (waste_frame n))"
  by (simp add: encode_waste_frame_def waste_frame_def frame_ok_def)

lemma waste_frame_ok [simp]: "frame_ok (waste_frame n) \<longleftrightarrow> n \<le> 65535"
  by (simp add: waste_frame_def frame_ok_def)

abbreviation wastes :: "nat list \<Rightarrow> bytes" where
  "wastes ns \<equiv> concat (map (\<lambda>n. frame_bytes (waste_frame n)) ns)"

definition sizes_ok :: "i32 list \<Rightarrow> bool" where
  "sizes_ok ws \<longleftrightarrow> list_all (\<lambda>w. w = CHECK_MARK \<or> i32_as_usize w \<le> 65535) ws"

text \<open>Padding only appends waste frames after the end of the payload.\<close>

lemma pad_loop_spec:
  assumes "sizes_ok ws"
  shows "\<exists>cs rest ns. pad_loop ws payload = Inr (cs, rest) \<and> concat cs @ rest = payload @ wastes ns \<and> list_all (\<lambda>n. n \<le> 65535) ns"
  using assms
proof (induction ws arbitrary: payload)
  case Nil
  have "pad_loop [] payload = Inr ([], payload)" "concat [] @ payload = payload @ wastes []" by simp_all
  then show ?case by (intro exI [of _ "[]"] exI [of _ payload] conjI) simp_all
next
  case (Cons w ws)
  then have ok: "sizes_ok ws" and w: "w = CHECK_MARK \<or> i32_as_usize w \<le> 65535" by (simp_all add: sizes_ok_def)
  define sz where "sz = i32_as_usize w"
  obtain cs rest ns where IH0: "pad_loop ws [] = Inr (cs, rest)" "concat cs @ rest = wastes ns" "list_all (\<lambda>n. n \<le> 65535) ns"
    using Cons.IH [OF ok, of "[]"] by auto
  consider (check) "w = CHECK_MARK" | (full) "w \<noteq> CHECK_MARK" "sz < length payload"
    | (last) "w \<noteq> CHECK_MARK" "\<not> sz < length payload" "payload \<noteq> []" | (waste) "w \<noteq> CHECK_MARK" "payload = []" by force
  then show ?case
  proof cases
    case check
    with Cons.IH [OF ok, of payload] show ?thesis by (cases "payload = []") (auto intro: exI [of _ "[]"])
  next
    case full
    obtain cs rest ns where r: "pad_loop ws (drop sz payload) = Inr (cs, rest)" "concat cs @ rest = drop sz payload @ wastes ns"
      "list_all (\<lambda>n. n \<le> 65535) ns" using Cons.IH [OF ok, of "drop sz payload"] by blast
    with full have "pad_loop (w # ws) payload = Inr (take sz payload # cs, rest)" by (simp add: Let_def sz_def)
    moreover have "concat (take sz payload # cs) @ rest = payload @ wastes ns" using r(2) by simp
    ultimately show ?thesis using r(3) by blast
  next
    case last
    define k where "k = sz - (length payload + HEADER_LEN)"
    define ks where "ks = (if 0 < k then [k] else [])"
    have k: "k \<le> 65535" using w last by (simp add: k_def sz_def)
    have "pad_loop (w # ws) payload = Inr ((payload @ wastes ks) # cs, rest)"
      using last k IH0(1) by (simp add: Let_def sz_def [symmetric] k_def [symmetric] ks_def)
    moreover have "concat ((payload @ wastes ks) # cs) @ rest = payload @ wastes (ks @ ns)" using IH0(2) by simp
    moreover have "list_all (\<lambda>n. n \<le> 65535) (ks @ ns)" using IH0(3) k by (simp add: ks_def)
    ultimately show ?thesis by blast
  next
    case waste
    have "sz \<le> 65535" using w waste by (simp add: sz_def)
    then have "pad_loop (w # ws) payload = Inr (frame_bytes (waste_frame sz) # cs, rest)"
      using waste IH0(1) by (simp add: Let_def sz_def [symmetric])
    moreover have "concat (frame_bytes (waste_frame sz) # cs) @ rest = payload @ wastes (sz # ns)" using IH0(2) waste by simp
    moreover have "list_all (\<lambda>n. n \<le> 65535) (sz # ns)" using IH0(3) \<open>sz \<le> 65535\<close> by simp
    ultimately show ?thesis by blast
  qed
qed

lemma apply_padding_spec:
  assumes "sizes_ok (generate_record_payload_sizes rnd p pkt)"
  shows "\<exists>cs ns. apply_padding rnd pkt p payload = Inr cs \<and> concat cs = payload @ wastes ns \<and> list_all (\<lambda>n. n \<le> 65535) ns"
proof (cases "generate_record_payload_sizes rnd p pkt = []")
  case True
  then have "apply_padding rnd pkt p payload = Inr [payload]" "concat [payload] = payload @ wastes []"
    by (simp_all add: apply_padding_def)
  then show ?thesis by (intro exI [of _ "[payload]"] exI [of _ "[]"]) simp
next
  case False
  from pad_loop_spec [OF assms, of payload] obtain cs rest ns where
    r: "pad_loop (generate_record_payload_sizes rnd p pkt) payload = Inr (cs, rest)" "concat cs @ rest = payload @ wastes ns"
      "list_all (\<lambda>n. n \<le> 65535) ns" by blast
  let ?out = "if rest \<noteq> [] then cs @ [rest] else cs"
  have "apply_padding rnd pkt p payload = Inr (if ?out = [] then [[]] else ?out)"
    using False r(1) by (simp add: apply_padding_def Let_def)
  moreover have "concat (if ?out = [] then [[]] else ?out) = payload @ wastes ns" using r(2) by auto
  ultimately show ?thesis using r(3) by blast
qed

lemma write_chunks_all [simp]: "write_chunks [] cs = (concat cs, [], True)"
  by (induction cs) simp_all

subsection \<open>What the peer receives\<close>

text \<open>Whole frames, and the bytes they carry for a stream.\<close>

definition framed :: "bytes \<Rightarrow> bool" where
  "framed m \<longleftrightarrow> (\<exists>fs. list_all frame_ok fs \<and> m = concat (map frame_bytes fs))"

definition stream_data :: "u32 \<Rightarrow> frame list \<Rightarrow> bytes" where
  "stream_data sid fs = concat (map f_data (filter (\<lambda>f. f_cmd f = CMD_PSH \<and> f_sid f = sid) fs))"

definition carried :: "u32 \<Rightarrow> bytes \<Rightarrow> bytes" where
  "carried sid m = stream_data sid (fst (parse_frames m))"

lemma parse_framed: "list_all frame_ok fs \<Longrightarrow> parse_frames (concat (map frame_bytes fs)) = (fs, [])"
  by (simp add: parse_frames_def anytls_frames.dec_stream_whole)

lemma parse_frames_Nil [simp]: "parse_frames [] = ([], [])"
  using parse_framed [of "[]"] by simp

lemma carried_frames: "list_all frame_ok fs \<Longrightarrow> carried sid (concat (map frame_bytes fs)) = stream_data sid fs"
  by (simp add: carried_def parse_framed)

lemma framed_append: "framed m \<Longrightarrow> framed m' \<Longrightarrow> framed (m @ m')"
  unfolding framed_def by (metis concat_append list_all_append map_append)

lemma carried_append:
  assumes "framed m" "framed m'"
  shows "carried sid (m @ m') = carried sid m @ carried sid m'"
proof -
  from assms obtain fs gs where "list_all frame_ok fs" "m = concat (map frame_bytes fs)"
    "list_all frame_ok gs" "m' = concat (map frame_bytes gs)" by (auto simp: framed_def)
  then show ?thesis using carried_frames [of "fs @ gs"] by (simp add: carried_frames stream_data_def)
qed

lemma framed_wastes:
  assumes "list_all (\<lambda>n. n \<le> 65535) ns"
  shows "framed (wastes ns)" "carried sid (wastes ns) = []"
proof -
  have e: "wastes ns = concat (map frame_bytes (map waste_frame ns))" by (simp add: comp_def)
  have ok: "list_all frame_ok (map waste_frame ns)" using assms by (simp add: list_all_iff)
  show "framed (wastes ns)" unfolding framed_def using e ok by blast
  show "carried sid (wastes ns) = []"
    unfolding e carried_frames [OF ok] by (simp add: stream_data_def filter_map comp_def waste_frame_def cmd_defs)
qed

definition message_ok :: "padding_scheme \<times> rand \<times> bytes \<Rightarrow> bool" where
  "message_ok = (\<lambda>(p, rnd, m). (\<forall>pkt. sizes_ok (generate_record_payload_sizes rnd p pkt)) \<and> framed m)"

lemma writer_task_wire:
  assumes "list_all message_ok ms"
  shows "\<exists>wire. writer_task [] pkt ms = Inr wire \<and> framed wire \<and> carried sid wire = concat (map (\<lambda>(_, _, m). carried sid m) ms)"
  using assms
proof (induction ms arbitrary: pkt)
  case Nil
  show ?case by (auto simp: carried_def stream_data_def framed_def intro: exI [of _ "[]"])
next
  case (Cons x ms)
  obtain p rnd m where x: "x = (p, rnd, m)" by (cases x)
  with Cons.prems have ok: "sizes_ok (generate_record_payload_sizes rnd p pkt)" and m: "framed m"
    by (simp_all add: message_ok_def)
  from apply_padding_spec [OF ok, of m] obtain cs ns where cs: "apply_padding rnd pkt p m = Inr cs"
    "concat cs = m @ wastes ns" "list_all (\<lambda>n. n \<le> 65535) ns" by blast
  from Cons.IH [of "saturating_add_1 pkt"] Cons.prems obtain wire where
    w: "writer_task [] (saturating_add_1 pkt) ms = Inr wire" "framed wire"
      "carried sid wire = concat (map (\<lambda>(_, _, m). carried sid m) ms)" by auto
  note f = framed_wastes [OF cs(3)]
  have "writer_task [] pkt (x # ms) = Inr ((m @ wastes ns) @ wire)" using cs(1,2) w(1) by (simp add: x)
  moreover have "framed ((m @ wastes ns) @ wire)" using m f(1) w(2) by (intro framed_append)
  moreover have "carried sid ((m @ wastes ns) @ wire) = concat (map (\<lambda>(_, _, m). carried sid m) (x # ms))"
    using carried_append [OF framed_append [OF m f(1)] w(2)] carried_append [OF m f(1)] f(2) w(3) by (simp add: x)
  ultimately show ?case by blast
qed

text \<open>A scheme whose sizes fit a frame.\<close>

definition scheme_ok :: "padding_scheme \<Rightarrow> bool" where
  "scheme_ok p \<longleftrightarrow> list_all (\<lambda>(pkt, parts). list_all (\<lambda>part. case part of Check \<Rightarrow> True | PRange a b \<Rightarrow> a \<le> b \<and> b \<le> 65535) parts) (ps_scheme p)"

definition rand_ok :: "rand \<Rightarrow> bool" where
  "rand_ok rnd \<longleftrightarrow> (\<forall>i a b. a < b \<longrightarrow> a \<le> rnd i a b \<and> rnd i a b < b)"

lemma small_size: "n \<le> 65535 \<Longrightarrow> i32_as_usize (word_of_nat n) = n"
proof -
  assume n: "n \<le> 65535"
  then have "sint (word_of_nat n :: i32) = int n"
    by (simp add: signed_of_nat signed_take_bit_int_eq_self)
  with n show ?thesis by (simp add: i32_as_usize_def)
qed

lemma scheme_sizes:
  assumes "scheme_ok p" "rand_ok rnd"
  shows "sizes_ok (generate_record_payload_sizes rnd p pkt)"
proof (cases "ps_stop p \<le> pkt \<or> hm_get (ps_scheme p) pkt = None")
  case True
  then show ?thesis by (auto simp: generate_record_payload_sizes_def sizes_ok_def)
next
  case False
  then obtain parts where g: "hm_get (ps_scheme p) pkt = Some parts" by blast
  then have "(pkt, parts) \<in> set (ps_scheme p)" by (simp add: hm_get_def map_of_SomeD)
  with assms(1) have "\<forall>part \<in> set parts. case part of Check \<Rightarrow> True | PRange a b \<Rightarrow> a \<le> b \<and> b \<le> 65535"
    by (auto simp: scheme_ok_def list_all_iff)
  then have "part_size rnd (i, part) = CHECK_MARK \<or> i32_as_usize (part_size rnd (i, part)) \<le> 65535" if "part \<in> set parts" for i part
  proof (cases part)
    case (PRange x y)
    have "rnd i x y < y" if "x < y" using assms(2) that by (simp add: rand_ok_def)
    with PRange \<open>part \<in> set parts\<close> \<open>\<forall>part \<in> set parts. _ part\<close> show ?thesis
      by (fastforce simp: part_size_def small_size)
  qed (simp add: part_size_def)
  then have "list_all (\<lambda>w. w = CHECK_MARK \<or> i32_as_usize w \<le> 65535) (map (part_size rnd) (enumerate 0 parts))"
    by (auto simp: list_all_iff in_set_enumerate_eq) (metis nth_mem)
  then show ?thesis using False g by (auto simp: generate_record_payload_sizes_def sizes_ok_def)
qed


fun stream_writes :: "bytes list \<Rightarrow> anytls_stream \<Rightarrow> (anytls_stream \<times> bytes) may_panic" where
  "stream_writes [] s = Inr (s, [])"
| "stream_writes (buf # bufs) s =
     rbind (as_poll_write buf s) (\<lambda>(s', r). case r of
       Ready (Inr n) \<Rightarrow> rbind (stream_writes bufs s') (\<lambda>(s'', acc). Inr (s'', take n buf @ acc))
     | _ \<Rightarrow> Inr (s', []))"

definition heart_bytes :: "u32 \<Rightarrow> bytes" where
  "heart_bytes sid = frame_bytes \<lparr> f_cmd = CMD_HEART_RESPONSE, f_sid = sid, f_data = [] \<rparr>"

definition psh :: "u32 \<Rightarrow> bytes \<Rightarrow> frame" where
  "psh sid data = \<lparr> f_cmd = CMD_PSH, f_sid = sid, f_data = data \<rparr>"

lemma framed_one: "frame_ok f \<Longrightarrow> framed (frame_bytes f)"
  by (auto simp: framed_def intro: exI [of _ "[f]"])

lemma carried_one: "frame_ok f \<Longrightarrow> carried sid (frame_bytes f) = stream_data sid [f]"
  using carried_frames [of "[f]"] by simp

lemma as_poll_write_spec:
  assumes "\<not> as_closed s" "as_writer_open s"
  shows "as_poll_write buf s = Inr (if buf = [] then s
     else s\<lparr> as_writes := as_writes s @ [frame_bytes (psh (as_sid s) (take 65535 buf))] \<rparr>, Ready (Inr (min (length buf) 65535)))"
proof -
  have "take (min (length buf) 65535) buf = take 65535 buf" by (simp add: min_def)
  with assms show ?thesis by (simp add: as_poll_write_def Let_def psh_def frame_ok_def)
qed

lemma stream_writes_spec:
  assumes "\<not> as_closed s" "as_writer_open s"
  shows "stream_writes bufs s = Inr (s\<lparr> as_writes := as_writes s
      @ map (\<lambda>buf. frame_bytes (psh (as_sid s) (take 65535 buf))) (filter (\<lambda>b. b \<noteq> []) bufs) \<rparr>, concat (map (take 65535) bufs))"
  using assms
proof (induction bufs arbitrary: s)
  case (Cons buf bufs)
  have t: "take (min (length buf) 65535) buf = take 65535 buf" by (simp add: min_def)
  let ?s = "if buf = [] then s else s\<lparr> as_writes := as_writes s @ [frame_bytes (psh (as_sid s) (take 65535 buf))] \<rparr>"
  have "\<not> as_closed ?s" "as_writer_open ?s" "as_sid ?s = as_sid s" using Cons.prems by simp_all
  from Cons.IH [OF this(1,2)] show ?case
    unfolding stream_writes.simps as_poll_write_spec [OF Cons.prems] by (auto simp: t)
qed simp

lemma socks_addr_small: "encode_socks_addr addr = Inr a \<Longrightarrow> length a \<le> 300"
  by (auto simp: encode_socks_addr_def v4_octets_def v6_octets_def split: address.splits ip_addr.splits if_splits)

definition opening_frames :: "(bytes \<Rightarrow> string) \<Rightarrow> padding_scheme \<Rightarrow> bytes \<Rightarrow> frame list" where
  "opening_frames md5_hex p a = [\<lparr> f_cmd = CMD_SETTINGS, f_sid = 0, f_data = encode_settings md5_hex p \<rparr>,
     \<lparr> f_cmd = CMD_SYN, f_sid = 1, f_data = [] \<rparr>, psh 1 a]"

lemma initial_payload_spec:
  assumes "encode_socks_addr addr = Inr a" "length (md5_hex (ps_raw p)) = 32"
  shows "initial_payload md5_hex 1 p addr = Inr (Inr (concat (map frame_bytes (opening_frames md5_hex p a))))"
    "list_all frame_ok (opening_frames md5_hex p a)"
  using assms socks_addr_small [OF assms(1)]
  by (simp_all add: initial_payload_def opening_frames_def psh_def frame_ok_def encode_settings_def)

lemma opening_frames_carried: "stream_data 1 (opening_frames md5_hex p a) = a"
  by (simp add: stream_data_def opening_frames_def psh_def cmd_defs)

text \<open>The messages of the stream and the heartbeat answers of the reader task share the channel.\<close>

lemma concat_carried_filter:
  "(\<forall>x \<in> set xs. x \<notin> A \<or> f x = []) \<Longrightarrow> concat (map f (filter (\<lambda>x. x \<notin> A) xs)) = concat (map f xs)"
  by (induction xs) auto

lemma heart_carried: "framed (heart_bytes sid)" "carried sid' (heart_bytes sid) = []"
  by (auto simp: heart_bytes_def frame_ok_def framed_one carried_one stream_data_def cmd_defs)

text \<open>The address can be read by any reader of SOCKS addresses.\<close>

lemma encode_socks_addr_read:
  assumes "s5_codec sw sr" "s5_plain (ra2sa addr)" "encode_socks_addr addr = Inr a"
  shows "sr (a @ rest) = Inr (ra2sa addr, rest)"
proof -
  have "sw (ra2sa addr) = Inr a"
    using assms(2,3) s5_codec.write_v4 [OF assms(1)] s5_codec.write_v6 [OF assms(1)] s5_codec.write_domain [OF assms(1)]
    by (cases "ra2sa addr" rule: s5_plain.cases; cases addr) (auto simp: encode_socks_addr_def)
  then show ?thesis by (rule s5_codec.read_write [OF assms(1,2)])
qed

text \<open>C23: AnyTLS delivers what is written, whatever the padding: after connecting to an address and writing
  any buffers, with heartbeat answers in between and any padding schemes whose sizes fit a frame, the
  writer task puts whole frames on the wire whose data for the stream is read back as the address and
  then exactly the accepted bytes; every buffer is accepted up to 65535 bytes and nothing panics.\<close>

theorem anytls_upstream_delivery:
  assumes "encode_socks_addr addr = Inr a" "length (md5_hex (ps_raw p)) = 32" "scheme_ok p" "rand_ok rnd"
    and codec: "s5_codec sw sr" "s5_plain (ra2sa addr)"
    and ms: "list_all (\<lambda>(p, rnd, m). scheme_ok p \<and> rand_ok rnd) ms"
    and conn: "anytls_connect md5_hex sha256 rnd password p True addr = Inr (Inr (pre, s0))"
    and chan: "filter (\<lambda>m. m \<notin> range heart_bytes) (map (\<lambda>(_, _, m). m) ms) = as_writes (fst (projr (stream_writes bufs s0)))"
  shows "\<exists>s wire. stream_writes bufs s0 = Inr (s, concat (map (take 65535) bufs))
    \<and> writer_task [] 1 ms = Inr wire \<and> framed wire \<and> sr (carried 1 wire) = Inr (ra2sa addr, concat (map (take 65535) bufs))"
proof -
  note ip = initial_payload_spec [where md5_hex = md5_hex and p = p, OF assms(1,2)]
  have s0: "\<not> as_closed s0" "as_writer_open s0" "as_sid s0 = 1" "as_writes s0 = [concat (map frame_bytes (opening_frames md5_hex p a))]"
    using conn ip(1) by (auto simp: anytls_connect_def elim!: rbind_InrE)
  let ?d = "map (\<lambda>buf. frame_bytes (psh 1 (take 65535 buf))) (filter (\<lambda>b. b \<noteq> []) bufs)"
  let ?m = "map (\<lambda>(_, _, m). m) ms"
  have sw: "stream_writes bufs s0 = Inr (s0\<lparr> as_writes := as_writes s0 @ ?d \<rparr>, concat (map (take 65535) bufs))"
    using stream_writes_spec [OF s0(1,2), of bufs] s0(3) by simp
  then have f: "filter (\<lambda>m. m \<notin> range heart_bytes) ?m = concat (map frame_bytes (opening_frames md5_hex p a)) # ?d"
    using chan s0(4) by simp
  have fr: "framed (frame_bytes (psh 1 (take 65535 buf)))" "carried 1 (frame_bytes (psh 1 (take 65535 buf))) = take 65535 buf" for buf
    by (simp_all add: framed_one carried_one psh_def frame_ok_def stream_data_def)
  have op: "framed (concat (map frame_bytes (opening_frames md5_hex p a)))" "carried 1 (concat (map frame_bytes (opening_frames md5_hex p a))) = a"
    using ip(2) carried_frames [OF ip(2), of 1] by (auto simp: framed_def opening_frames_carried)
  have "framed m" if "m \<in> set ?m" for m
  proof (cases "m \<in> range heart_bytes")
    case False
    with that have "m \<in> set (filter (\<lambda>m. m \<notin> range heart_bytes) ?m)" by simp
    then show ?thesis unfolding f using fr op by auto
  qed (auto simp: heart_carried)
  then have "list_all message_ok ms"
    using ms by (fastforce simp: list_all_iff message_ok_def intro: scheme_sizes)
  from writer_task_wire [OF this, of 1 1] obtain wire where w: "writer_task [] 1 ms = Inr wire" "framed wire"
    "carried 1 wire = concat (map (\<lambda>(_, _, m). carried 1 m) ms)" by blast
  have "concat (map (\<lambda>(_, _, m). carried 1 m) ms) = concat (map (carried 1) ?m)"
    by (simp add: comp_def case_prod_unfold)
  also have "\<dots> = concat (map (carried 1) (filter (\<lambda>m. m \<notin> range heart_bytes) ?m))"
    by (rule concat_carried_filter [symmetric]) (auto simp: heart_carried)
  also have "\<dots> = a @ concat (map (take 65535) bufs)"
    unfolding f by (simp add: op fr comp_def) (induction bufs; simp)
  finally have "carried 1 wire = a @ concat (map (take 65535) bufs)" using w(3) by simp
  with encode_socks_addr_read [OF codec assms(1)] sw w(1,2) show ?thesis by simp
qed

text \<open>The built-in scheme parses, so that building a net does not panic, and its sizes fit.\<close>

lemma default_lines: "lines default_text = [''stop=8'', ''0=30-30'', ''1=100-400'',
    ''2=400-500,c,500-1000,c,500-1000,c,500-1000,c,500-1000'', ''3=9-9,500-1000'', ''4=500-1000'', ''5=500-1000'', ''6=500-1000'', ''7=500-1000'']"
  by code_simp

lemmas num_simps = parse_part_def split_once_def parse_usize_def parse_u32_def parse_uint_def digits_val_def to_digit_def is_digit_def

lemma default_scheme_ok: "\<exists>p. padding_default = Inr p \<and> scheme_ok p \<and> ps_stop p = 8"
proof -
  have "str_ok default_text" by (rule str_ok_ascii) (simp add: default_text_def)
  moreover have "case fold parse_line (lines default_text) (None, []) of (stop, scheme) \<Rightarrow>
      stop = Some 8 \<and> scheme_ok \<lparr> ps_raw = DEFAULT_PADDING_SCHEME, ps_stop = 8, ps_scheme = scheme \<rparr>"
    unfolding default_lines by (simp add: parse_line_def num_simps map_filter_simps hm_insert_def scheme_ok_def)
  ultimately show ?thesis
    by (auto simp: padding_default_def padding_parse_def DEFAULT_PADDING_SCHEME_def split: prod.splits)
qed

lemma auth_prefix_ok:
  assumes "scheme_ok p" "rand_ok rnd"
  shows "\<exists>b. auth_prefix sha256 rnd password p = Inr b"
proof (cases "generate_record_payload_sizes rnd p 0")
  case (Cons w ws)
  with scheme_sizes [OF assms, of 0] have "w = CHECK_MARK \<or> i32_as_usize w \<le> 65535" by (simp add: sizes_ok_def)
  then show ?thesis using Cons by (auto simp: auth_prefix_def CHECK_MARK_def Let_def)
qed (simp add: auth_prefix_def)

lemma anytls_connect_ok:
  assumes "encode_socks_addr addr = Inr a" "length (md5_hex (ps_raw p)) = 32" "scheme_ok p" "rand_ok rnd"
  obtains pre s0 where "anytls_connect md5_hex sha256 rnd password p True addr = Inr (Inr (pre, s0))"
    "as_writes s0 = [concat (map frame_bytes (opening_frames md5_hex p a))]" "\<not> as_closed s0" "as_writer_open s0" "as_sid s0 = 1"
proof -
  from auth_prefix_ok [OF assms(3,4)] obtain b where "auth_prefix sha256 rnd password p = Inr b" by blast
  then show ?thesis
    using initial_payload_spec(1) [where md5_hex = md5_hex and p = p, OF assms(1,2)]
    by (intro that) (simp add: anytls_connect_def)+
qed

definition rand_low :: rand where
  "rand_low i a b = a"

theorem anytls_upstream_delivery_witness:
  "\<exists>p pre s0. padding_default = Inr p
    \<and> anytls_connect (\<lambda>_. replicate 32 (CHR ''0'')) id rand_low ''pw'' p True (Domain ''a.b'' 80) = Inr (Inr (pre, s0))
    \<and> (\<exists>s wire. stream_writes [[1, 2]] s0 = Inr (s, [1, 2])
      \<and> writer_task [] 1 (map (\<lambda>m. (p, rand_low, m)) (as_writes s)) = Inr wire \<and> rfc_read (carried 1 wire) = Inr (S5Domain ''a.b'' 80, [1, 2]))"
proof -
  let ?md5 = "\<lambda>_ :: bytes. replicate 32 (CHR ''0'')" and ?bufs = "[[1, 2]] :: bytes list"
  obtain p where p: "padding_default = Inr p" "scheme_ok p" using default_scheme_ok by blast
  have r: "rand_ok rand_low" by (simp add: rand_ok_def rand_low_def)
  have a: "encode_socks_addr (Domain ''a.b'' 80) = Inr [3, 3, 97, 46, 98, 0, 80]"
    by code_simp
  obtain pre s0 where c: "anytls_connect ?md5 id rand_low ''pw'' p True (Domain ''a.b'' 80) = Inr (Inr (pre, s0))"
    and s0: "as_writes s0 = [concat (map frame_bytes (opening_frames ?md5 p [3, 3, 97, 46, 98, 0, 80]))]"
      "\<not> as_closed s0" "as_writer_open s0" "as_sid s0 = 1"
    by (rule anytls_connect_ok [where md5_hex = ?md5, OF a _ p(2) r]) simp_all
  let ?s = "fst (projr (stream_writes ?bufs s0))"
  let ?ms = "map (\<lambda>m. (p, rand_low, m)) (as_writes ?s)"
  have "as_writes ?s = as_writes s0 @ [frame_bytes (psh 1 [1, 2])]"
    using stream_writes_spec [OF s0(2,3), of ?bufs] s0(4) by simp
  then have w: "as_writes ?s \<noteq> []" "\<forall>m \<in> set (as_writes ?s). m \<notin> range heart_bytes"
    by (auto simp: s0(1) opening_frames_def psh_def frame_bytes_def heart_bytes_def cmd_defs)
  then have "filter (\<lambda>m. m \<notin> range heart_bytes) (map (\<lambda>(_, _, m). m) ?ms) = as_writes ?s"
    by (simp add: comp_def)
  note chan = this
  have all: "list_all (\<lambda>(p, rnd, m). scheme_ok p \<and> rand_ok rnd) ?ms" using p(2) r by (simp add: list_all_iff)
  have len: "length (?md5 (ps_raw p)) = 32" by simp
  have pl: "s5_plain (ra2sa (Domain ''a.b'' 80))" by (simp add: str_ok_ascii)
  obtain s wire where res: "stream_writes ?bufs s0 = Inr (s, concat (map (take 65535) ?bufs))" "writer_task [] 1 ?ms = Inr wire"
      "rfc_read (carried 1 wire) = Inr (ra2sa (Domain ''a.b'' 80), concat (map (take 65535) ?bufs))"
    using anytls_upstream_delivery [where md5_hex = ?md5 and ms = ?ms, OF a len p(2) r s5rfc.s5_codec_axioms pl all c chan] by blast
  then have "?s = s" by simp
  with p(1) c res show ?thesis by (intro exI conjI) simp_all
qed

subsection \<open>Reading\<close>

definition stops :: "u32 \<Rightarrow> frame \<Rightarrow> bool" where
  "stops sid f \<longleftrightarrow> f_cmd f = CMD_FIN \<and> f_sid f = sid \<or> f_cmd f = CMD_ALERT"

lemma handle_frame_stops: "stops sid f \<Longrightarrow> handle_frame (\<lambda>_. True) sid f s = (s, False)"
  by (auto simp: stops_def handle_frame_def cmd_defs)

lemma handle_frame_goes_on:
  assumes "\<not> stops sid f"
  obtains s' where "handle_frame (\<lambda>_. True) sid f s = (s', True)"
    "rt_sent s' = rt_sent s @ (if f_cmd f = CMD_PSH \<and> f_sid f = sid then [f_data f] else [])"
proof -
  have "snd (handle_frame (\<lambda>_. True) sid f s)"
    using assms by (auto simp: stops_def handle_frame_def frame_ok_def split: option.split)
  moreover have "rt_sent (fst (handle_frame (\<lambda>_. True) sid f s))
      = rt_sent s @ (if f_cmd f = CMD_PSH \<and> f_sid f = sid then [f_data f] else [])"
    using assms by (auto simp: stops_def handle_frame_def frame_ok_def split: option.split)
  ultimately show ?thesis by (cases "handle_frame (\<lambda>_. True) sid f s") (auto intro: that)
qed

lemma reader_task_sent:
  assumes "list_all frame_ok fs" "list_ex (stops sid) fs \<or> rest = []"
  shows "rt_sent (reader_task (\<lambda>_. True) sid (concat (map frame_bytes fs) @ rest) s) = rt_sent s
    @ map f_data (filter (\<lambda>f. f_cmd f = CMD_PSH \<and> f_sid f = sid) (takeWhile (\<lambda>f. \<not> stops sid f) fs))"
  using assms
proof (induction fs arbitrary: s)
  case Nil
  then show ?case by (simp add: reader_task.simps read_frame_def read_exact_def HEADER_LEN_def)
next
  case (Cons f fs)
  have rd: "read_frame (concat (map frame_bytes (f # fs)) @ rest) = Inr (f, concat (map frame_bytes fs) @ rest)"
    using Cons.prems read_frame_bytes [of f] by simp
  show ?case
  proof (cases "stops sid f")
    case True
    then show ?thesis by (subst reader_task.simps) (simp only: rd, simp add: handle_frame_stops)
  next
    case False
    then obtain s' where h: "handle_frame (\<lambda>_. True) sid f s = (s', True)"
      "rt_sent s' = rt_sent s @ (if f_cmd f = CMD_PSH \<and> f_sid f = sid then [f_data f] else [])"
      by (rule handle_frame_goes_on)
    have "rt_sent (reader_task (\<lambda>_. True) sid (concat (map frame_bytes (f # fs)) @ rest) s)
        = rt_sent (reader_task (\<lambda>_. True) sid (concat (map frame_bytes fs) @ rest) s')"
      by (subst reader_task.simps) (simp only: rd, simp add: h)
    with Cons.IH [of s'] Cons.prems False h(2) show ?thesis by simp
  qed
qed

fun as_reads :: "nat list \<Rightarrow> anytls_stream \<Rightarrow> anytls_stream \<times> bytes" where
  "as_reads [] s = (s, [])"
| "as_reads (room # rooms) s = (case as_poll_read room s of
     (s', Ready (Inr out)) \<Rightarrow> (case as_reads rooms s' of (s'', outs) \<Rightarrow> (s'', out @ outs))
   | (s', _) \<Rightarrow> as_reads rooms s')"

lemma as_poll_read_keeps:
  assumes "as_poll_read room s = (s', r)"
  shows "(case r of Ready (Inr out) \<Rightarrow> out | _ \<Rightarrow> []) @ as_read_buf s' @ concat (as_queue s') = as_read_buf s @ concat (as_queue s)"
  using assms by (auto simp: as_poll_read_def Let_def split: if_splits list.splits)

lemma as_reads_keeps:
  "as_reads rooms s = (s', out) \<Longrightarrow> out @ as_read_buf s' @ concat (as_queue s') = as_read_buf s @ concat (as_queue s)"
proof (induction rooms arbitrary: s s' out)
  case (Cons room rooms)
  obtain s1 r where r: "as_poll_read room s = (s1, r)" by fastforce
  obtain s2 o2 where r2: "as_reads rooms s1 = (s2, o2)" by fastforce
  from as_poll_read_keeps [OF r] Cons.IH [OF r2] Cons.prems r r2 show ?case
    by (auto split: poll.splits sum.splits)
qed simp

text \<open>C26: AnyTLS reads back what the server sends on the stream: the reader task and the reads of the stream
  together deliver, in order, a prefix of the data of the stream's frames before the first end of stream
  or alert, whatever other frames lie between and whatever buffer sizes are used, and what is not yet
  delivered is still held.\<close>

theorem anytls_downstream_delivery:
  assumes "list_all frame_ok fs" "list_ex (stops 1) fs \<or> rest = []"
    and "as_queue s = rt_sent (reader_task (\<lambda>_. True) 1 (concat (map frame_bytes fs) @ rest) r)"
    and "rt_sent r = []" "as_read_buf s = []" "as_reads rooms s = (s', out)"
  shows "out @ as_read_buf s' @ concat (as_queue s') = stream_data 1 (takeWhile (\<lambda>f. \<not> stops 1 f) fs)"
  using as_reads_keeps [OF assms(6)] reader_task_sent [OF assms(1,2), of r] assms(3-5) by (simp add: stream_data_def)

definition empty_stream :: anytls_stream where
  "empty_stream = \<lparr> as_sid = 1, as_writes = [], as_writer_open = True, as_queue = [], as_reader_open = True,
     as_read_buf = [], as_closed = False \<rparr>"

definition empty_reader :: "padding_scheme \<Rightarrow> reader" where
  "empty_reader p = \<lparr> rt_sent = [], rt_writes = [], rt_padding = p \<rparr>"

theorem anytls_downstream_delivery_witness:
  "\<exists>p s s' out. padding_default = Inr p
    \<and> as_queue s = rt_sent (reader_task (\<lambda>_. True) 1 (concat (map frame_bytes [psh 1 [5, 6], psh 2 [9], psh 1 [7]])) (empty_reader p))
    \<and> as_reads [1, 4, 4] s = (s', out) \<and> out = [5, 6, 7]"
proof -
  obtain p where p: "padding_default = Inr p" using default_scheme_ok by blast
  let ?fs = "[psh 1 [5, 6], psh 2 [9], psh 1 [7]]"
  define q where "q = rt_sent (reader_task (\<lambda>_. True) 1 (concat (map frame_bytes ?fs) @ []) (empty_reader p))"
  obtain s' out where r: "as_reads [1, 4, 4] (empty_stream\<lparr> as_queue := q \<rparr>) = (s', out)" by fastforce
  have ok: "list_all frame_ok ?fs" "list_ex (stops 1) ?fs \<or> [] = []" by (simp_all add: frame_ok_def psh_def)
  have q: "q = [[5, 6], [7]]"
    using reader_task_sent [OF ok, of "empty_reader p"] by (simp add: q_def empty_reader_def psh_def stops_def cmd_defs)
  then have "as_read_buf s' = []" "as_queue s' = []" using r by (auto simp: as_poll_read_def empty_stream_def)
  moreover have "out @ as_read_buf s' @ concat (as_queue s') = stream_data 1 (takeWhile (\<lambda>f. \<not> stops 1 f) ?fs)"
    by (rule anytls_downstream_delivery [OF ok _ _ _ r, where r = "empty_reader p"])
      (simp_all add: q_def empty_stream_def empty_reader_def)
  ultimately have "out = [5, 6, 7]" by (simp add: stream_data_def psh_def stops_def cmd_defs)
  with p r q_def show ?thesis
    by (intro exI [of _ p] exI [of _ "empty_stream\<lparr> as_queue := q \<rparr>"] exI [of _ s'] exI [of _ out]) simp
qed

text \<open>An empty data frame ends an AnyTLS stream for its reader: the read that takes it from the channel
  returns no bytes, which is how the end of the stream is reported, although more data has arrived.\<close>

theorem anytls_empty_frame_ends_stream:
  assumes "length d \<le> 65535" "as_read_buf s = []" "rt_sent r = []"
    and "as_queue s = rt_sent (reader_task (\<lambda>_. True) 1 (concat (map frame_bytes [psh 1 [], psh 1 d])) r)"
  shows "\<exists>s'. as_poll_read room s = (s', Ready (Inr [])) \<and> as_reader_open s' = as_reader_open s \<and> as_queue s' = [d]"
proof -
  have ok: "list_all frame_ok [psh 1 [], psh 1 d]" "list_ex (stops 1) [psh 1 [], psh 1 d] \<or> [] = []"
    using assms(1) by (simp_all add: frame_ok_def psh_def)
  have "as_queue s = [[], d]"
    using reader_task_sent [OF ok, of r] assms(3,4) by (simp add: psh_def stops_def cmd_defs)
  with assms(2) show ?thesis by (simp add: as_poll_read_def)
qed

theorem anytls_empty_frame_ends_stream_witness:
  "\<exists>s s'. as_reader_open s \<and> as_poll_read 10 s = (s', Ready (Inr [])) \<and> as_queue s' = [[7]]"
proof -
  obtain p where p: "padding_default = Inr p" using default_scheme_ok by blast
  let ?s = "empty_stream\<lparr> as_queue := rt_sent (reader_task (\<lambda>_. True) 1 (concat (map frame_bytes [psh 1 [], psh 1 [7]])) (empty_reader p)) \<rparr>"
  have "\<exists>s'. as_poll_read 10 ?s = (s', Ready (Inr [])) \<and> as_reader_open s' = as_reader_open ?s \<and> as_queue s' = [[7]]"
    by (rule anytls_empty_frame_ends_stream [where r = "empty_reader p"]) (simp_all add: empty_stream_def empty_reader_def)
  moreover have "as_reader_open ?s" by (simp add: empty_stream_def)
  ultimately show ?thesis by blast
qed

definition bad_text :: string where
  "bad_text = ''stop=9'' @ [CHR 0x0A] @ ''2=70000-70000''"

lemma bad_lines: "lines bad_text = [''stop=9'', ''2=70000-70000'']"
  by code_simp

text \<open>A server can stop the writer of a connection: a padding scheme with a size above a frame's limit
  is accepted, and the next small record then panics in the writer task.\<close>

theorem anytls_padding_panics:
  assumes "length payload < 4000" "f_cmd f = CMD_UPDATE_PADDING_SCHEME" "f_data f = as_bytes bad_text"
  shows "\<exists>r'. handle_frame alive sid f r = (r', True)
    \<and> writer_task oks 2 [(rt_padding r', rnd, payload)] = Inl (Panic ''assertion failed: frame.data.len() <= u16::MAX as usize'')"
proof -
  define p where "p = \<lparr> ps_raw = as_bytes bad_text, ps_stop = 9, ps_scheme = [(2, [PRange 70000 70000])] \<rparr>"
  have "str_ok bad_text" by (rule str_ok_ascii) (simp add: bad_text_def)
  then have "padding_parse (as_bytes bad_text) = Some p"
    by (simp add: padding_parse_def bad_lines parse_line_def num_simps map_filter_simps hm_insert_def p_def)
  then have h: "handle_frame alive sid f r = (r\<lparr> rt_padding := p \<rparr>, True)"
    using assms(2,3) by (simp add: handle_frame_def cmd_defs)
  have w: "(word_of_nat 70000 :: i32) \<noteq> CHECK_MARK" "i32_as_usize (word_of_nat 70000) = 70000"
    by (simp_all add: CHECK_MARK_def i32_as_usize_def)
  have g: "generate_record_payload_sizes rnd p 2 = [word_of_nat 70000]"
    by (simp add: generate_record_payload_sizes_def p_def hm_get_def part_size_def)
  have "apply_padding rnd 2 p payload = Inl (Panic ''assertion failed: frame.data.len() <= u16::MAX as usize'')"
    using assms(1) w by (cases "payload = []") (auto simp: apply_padding_def g encode_waste_frame_def encode_frame_def HEADER_LEN_def Let_def)
  then show ?thesis by (simp add: h)
qed

theorem anytls_padding_panics_witness:
  "\<exists>r p. padding_default = Inr p \<and> (\<exists>r'. handle_frame (\<lambda>_. True) 1 \<lparr> f_cmd = 6, f_sid = 0, f_data = as_bytes bad_text \<rparr> r = (r', True)
    \<and> writer_task [] 2 [(rt_padding r', rand_low, frame_bytes (psh 1 [1]))] = Inl (Panic ''assertion failed: frame.data.len() <= u16::MAX as usize''))"
proof -
  obtain p where p: "padding_default = Inr p" using default_scheme_ok by blast
  have "\<exists>r'. handle_frame (\<lambda>_. True) 1 \<lparr> f_cmd = 6, f_sid = 0, f_data = as_bytes bad_text \<rparr> (empty_reader p) = (r', True)
    \<and> writer_task [] 2 [(rt_padding r', rand_low, frame_bytes (psh 1 [1]))] = Inl (Panic ''assertion failed: frame.data.len() <= u16::MAX as usize'')"
    by (rule anytls_padding_panics) (simp_all add: cmd_defs frame_bytes_def psh_def)
  with p show ?thesis by blast
qed

end
