(* ===== verification/Obfs_Http.thy ===== *)
theory Obfs_Http
  imports Poll_Stream Std_Text
begin

section \<open>HTTP obfuscation\<close>

text \<open>
  \<open>protocol/obfs/src/http_simple.rs\<close>: a stream that disguises itself as an HTTP exchange. The first write
  sends a request with the buffer as its body; the first read skips the response header. The random parts
  of the request (the version numbers of the user agent and the key) are arguments. The loop of
  \<open>poll_read\<close> need not end, so it is a partial function.
\<close>

record http_simple =
  hs_method :: string
  hs_uri :: string
  hs_host :: string

definition def_method :: string where
  "def_method = ''GET''"

definition def_uri :: string where
  "def_uri = ''/''"

datatype obfs_write = WWait | WWrite bytes nat | WDone

datatype obfs_read = RRead bytes nat | RWrite bytes nat | RDone

record obfs_connect =
  oc_inner :: inner
  oc_write :: obfs_write
  oc_read :: obfs_read
  oc_param :: http_simple

definition connect_new :: "inner \<Rightarrow> http_simple \<Rightarrow> obfs_connect" where
  "connect_new tcp param = \<lparr> oc_inner = tcp, oc_write = WWait, oc_read = RRead (replicate 8192 0) 0, oc_param = param \<rparr>"

definition CRLF :: string where
  "CRLF = [CHR 0x0D, CHR 0x0A]"

text \<open>The position after the first occurrence of a pattern.\<close>

fun find_subsequence_end :: "bytes \<Rightarrow> bytes \<Rightarrow> nat option" where
  "find_subsequence_end [] pat = (if pat = [] then Some 0 else None)"
| "find_subsequence_end (b # bs) pat =
     (if take (length pat) (b # bs) = pat then Some (length pat)
      else map_option Suc (find_subsequence_end bs pat))"

definition header_end :: bytes where
  "header_end = as_bytes (CRLF @ CRLF)"

subsection \<open>Reading\<close>

partial_function (option) obfs_poll_read :: "nat \<Rightarrow> obfs_connect \<Rightarrow> (obfs_connect \<times> bytes io poll) option" where
  "obfs_poll_read room s = (case oc_read s of
     RRead read_buf pos \<Rightarrow>
       (case inner_read (length read_buf - pos) (oc_inner s) of
          (i, Pending) \<Rightarrow> Some (s\<lparr> oc_inner := i \<rparr>, Pending)
        | (i, Ready (Inl e)) \<Rightarrow> Some (s\<lparr> oc_inner := i \<rparr>, Ready (Inl e))
        | (i, Ready (Inr c)) \<Rightarrow>
            let buf = take pos read_buf @ c @ drop (pos + length c) read_buf; pos' = pos + length c in
            (case find_subsequence_end buf header_end of
               Some at \<Rightarrow> obfs_poll_read room (s\<lparr> oc_inner := i, oc_read := RWrite (drop at (take pos' buf)) 0 \<rparr>)
             | None \<Rightarrow> obfs_poll_read room (s\<lparr> oc_inner := i, oc_read := RRead buf pos' \<rparr>)))
   | RWrite write_buf pos \<Rightarrow>
       (let remaining = drop pos write_buf;
            to_read = min (length remaining) room;
            pos' = pos + to_read
        in Some (s\<lparr> oc_read := (if length write_buf = pos' then RDone else RWrite write_buf pos') \<rparr>,
                 Ready (Inr (take to_read remaining))))
   | RDone \<Rightarrow> (case inner_read room (oc_inner s) of (i, r) \<Rightarrow> Some (s\<lparr> oc_inner := i \<rparr>, r)))"

subsection \<open>Writing\<close>

definition request_head :: "http_simple \<Rightarrow> nat \<Rightarrow> nat \<Rightarrow> string \<Rightarrow> nat \<Rightarrow> string" where
  "request_head param major minor key len =
     hs_method param @ '' '' @ hs_uri param @ '' HTTP/1.1'' @ CRLF
     @ ''Host: '' @ hs_host param @ CRLF
     @ ''User-Agent: curl/7.'' @ show_nat major @ ''.'' @ show_nat minor @ CRLF
     @ ''Upgrade: websocket'' @ CRLF
     @ ''Connection: Upgrade'' @ CRLF
     @ ''Sec-WebSocket-Key: '' @ key @ CRLF
     @ ''Content-Length: '' @ show_nat len @ CRLF
     @ CRLF"

type_synonym head_rand = "nat \<times> nat \<times> string"

text \<open>The loop of \<open>poll_write\<close>. A wrapped stream that has run out of answers is pending, which ends it.\<close>

function obfs_poll_write :: "head_rand \<Rightarrow> bytes \<Rightarrow> obfs_connect \<Rightarrow> obfs_connect \<times> nat io poll" where
  "obfs_poll_write rnd buf s = (case oc_write s of
     WWait \<Rightarrow>
       (case rnd of (major, minor, key) \<Rightarrow>
        obfs_poll_write rnd buf (s\<lparr> oc_write := WWrite (as_bytes (request_head (oc_param s) major minor key (length buf)) @ buf) 0 \<rparr>))
   | WWrite b pos \<Rightarrow>
       (if i_writes (oc_inner s) = [] then (s, Pending)
        else case inner_write (drop pos b) (oc_inner s) of
          (i, Pending) \<Rightarrow> (s\<lparr> oc_inner := i \<rparr>, Pending)
        | (i, Ready (Inl e)) \<Rightarrow> (s\<lparr> oc_inner := i \<rparr>, Ready (Inl e))
        | (i, Ready (Inr n)) \<Rightarrow>
            obfs_poll_write rnd buf
              (s\<lparr> oc_inner := i, oc_write := (if length b = pos + n then WDone else WWrite b (pos + n)) \<rparr>))
   | WDone \<Rightarrow> (case inner_write buf (oc_inner s) of (i, r) \<Rightarrow> (s\<lparr> oc_inner := i \<rparr>, r)))"
  by pat_completeness auto
termination
  by (relation "measure (\<lambda>(_, _, s). 2 * length (i_writes (oc_inner s)) + (if oc_write s = WWait then 1 else 0))")
    (auto simp: inner_write_def split: list.splits poll.splits sum.splits)

declare obfs_poll_write.simps [simp del]

subsection \<open>The first buffer is sent twice\<close>

lemma inner_write_ready:
  assumes "inner_write buf i = (i', Ready (Inr n))"
  shows "n \<le> length buf" "i_out i' = i_out i @ take n buf"
  using assms by (auto simp: inner_write_def min_def split: list.splits poll.splits sum.splits)

lemma write_done:
  "oc_write s = WDone \<Longrightarrow> obfs_poll_write rnd buf s = (s', Ready (Inr k)) \<Longrightarrow>
   i_out (oc_inner s') = i_out (oc_inner s) @ take k buf \<and> oc_write s' = WDone"
  by (auto simp: obfs_poll_write.simps split: prod.splits dest: inner_write_ready)

lemma write_request:
  "oc_write s = WWrite b pos \<Longrightarrow> pos \<le> length b \<Longrightarrow> obfs_poll_write rnd buf s = (s', Ready (Inr k)) \<Longrightarrow>
   i_out (oc_inner s') = i_out (oc_inner s) @ drop pos b @ take k buf \<and> oc_write s' = WDone"
proof (induction "length (i_writes (oc_inner s))" arbitrary: s pos rule: less_induct)
  case less
  obtain i r where ir: "inner_write (drop pos b) (oc_inner s) = (i, r)" by fastforce
  from less.prems ir obtain n where n: "r = Ready (Inr n)" and w: "i_writes (oc_inner s) \<noteq> []"
    by (auto simp: obfs_poll_write.simps [of rnd buf s] split: if_splits poll.splits sum.splits)
  note f = inner_write_ready [OF ir [unfolded n]]
  have short: "length (i_writes i) < length (i_writes (oc_inner s))"
    using inner_write_length [OF w, of "drop pos b"] ir by simp
  let ?s = "s\<lparr> oc_inner := i, oc_write := (if length b = pos + n then WDone else WWrite b (pos + n)) \<rparr>"
  have run: "obfs_poll_write rnd buf ?s = (s', Ready (Inr k))"
    using less.prems ir n w by (simp add: obfs_poll_write.simps [of rnd buf s])
  show ?case
  proof (cases "length b = pos + n")
    case True
    with run f write_done [of ?s rnd buf s' k] show ?thesis by simp
  next
    case False
    have "i_out (oc_inner s') = i_out (oc_inner ?s) @ drop (pos + n) b @ take k buf \<and> oc_write s' = WDone"
      by (rule less.hyps [OF _ _ _ run]) (use short f(1) less.prems(2) False in simp_all)
    moreover have "drop pos b = take n (drop pos b) @ drop (pos + n) b"
      by (metis append_take_drop_id drop_drop add.commute)
    ultimately show ?thesis using f(2) by (metis append.assoc obfs_connect.select_convs(1) obfs_connect.surjective obfs_connect.update_convs(1,2))
  qed
qed

text \<open>The first buffer written through the HTTP obfuscation reaches the wire twice: when the first write
  reports \<open>k\<close> bytes as written, the request with the whole buffer as its body has been sent, and then the
  first \<open>k\<close> bytes of the same buffer again, however the wrapped stream cuts the writes.\<close>

theorem obfs_first_write_twice:
  assumes "oc_write s = WWait" "obfs_poll_write (major, minor, key) buf s = (s', Ready (Inr k))"
  shows "i_out (oc_inner s') = i_out (oc_inner s)
    @ as_bytes (request_head (oc_param s) major minor key (length buf)) @ buf @ take k buf"
proof -
  let ?b = "as_bytes (request_head (oc_param s) major minor key (length buf)) @ buf"
  have "obfs_poll_write (major, minor, key) buf (s\<lparr> oc_write := WWrite ?b 0 \<rparr>) = (s', Ready (Inr k))"
    using assms by (simp add: obfs_poll_write.simps [of _ _ s])
  from write_request [OF _ _ this, of ?b 0] show ?thesis by simp
qed

definition demo_conn :: "nat io poll list \<Rightarrow> bytes io poll list \<Rightarrow> obfs_connect" where
  "demo_conn ws rs = connect_new \<lparr> i_out = [], i_writes = ws, i_reads = rs \<rparr>
     \<lparr> hs_method = def_method, hs_uri = def_uri, hs_host = ''h'' \<rparr>"

theorem obfs_first_write_twice_witness:
  "\<exists>s' h. obfs_poll_write (1, 2, ''k'') [7, 8] (demo_conn [Ready (Inr 1000), Ready (Inr 2)] []) = (s', Ready (Inr 2))
    \<and> i_out (oc_inner s') = h @ [7, 8] @ [7, 8]"
proof -
  let ?s = "demo_conn [Ready (Inr 1000), Ready (Inr 2)] []"
  let ?b = "as_bytes (request_head (oc_param ?s) 1 2 ''k'' (length [7, 8 :: byte])) @ [7, 8]"
  have "length ?b \<le> 1000"
    by (simp add: request_head_def demo_conn_def connect_new_def CRLF_def def_method_def def_uri_def show_radix_small)
  then have run: "\<exists>s'. obfs_poll_write (1, 2, ''k'') [7, 8] ?s = (s', Ready (Inr 2))"
    by (simp add: obfs_poll_write.simps demo_conn_def connect_new_def inner_write_def Let_def min_absorb2)
  then obtain s' where s': "obfs_poll_write (1, 2, ''k'') [7, 8] ?s = (s', Ready (Inr 2))" by blast
  have "oc_write ?s = WWait" "i_out (oc_inner ?s) = []" by (simp_all add: demo_conn_def connect_new_def)
  from obfs_first_write_twice [OF this(1) s'] this(2) s' show ?thesis by auto
qed

subsection \<open>The end of the response header\<close>

lemma find_end_bound: "find_subsequence_end bs pat = Some at \<Longrightarrow> length pat \<le> at \<and> at \<le> length bs"
proof (induction bs arbitrary: at)
  case (Cons b bs)
  show ?case
  proof (cases "take (length pat) (b # bs) = pat")
    case True
    then have "length pat \<le> length (b # bs)" by (metis length_take min.cobounded1)
    with True Cons.prems show ?thesis by simp
  next
    case False
    with Cons show ?thesis by (auto simp del: take_Cons)
  qed
qed (auto split: if_splits)

lemma find_end_append: "find_subsequence_end bs pat = Some at \<Longrightarrow> pat \<noteq> [] \<Longrightarrow> find_subsequence_end (bs @ cs) pat = Some at"
proof (induction bs arbitrary: at)
  case (Cons b bs)
  show ?case
  proof (cases "take (length pat) (b # bs) = pat")
    case True
    then have "length pat \<le> length (b # bs)" by (metis length_take min.cobounded1)
    then have "take (length pat) ((b # bs) @ cs) = pat" using True by (simp only: take_append) simp
    with True Cons.prems show ?thesis by simp
  next
    case False
    then obtain a where a: "find_subsequence_end bs pat = Some a" "at = Suc a"
      using Cons.prems by (auto split: if_splits)
    have "length pat \<le> length bs" using find_end_bound [OF a(1)] by simp
    then have "take (length pat) ((b # bs) @ cs) = take (length pat) (b # bs)"
      by (simp only: take_append) simp
    with False Cons.IH [OF a(1)] Cons.prems(2) a(2) show ?thesis by simp
  qed
qed simp

text \<open>A response header that arrives by itself ends the stream for its reader: the first read returns no
  bytes, which reports the end of the stream, while the data is still to come.\<close>

theorem obfs_header_read_as_eof:
  assumes "oc_read s = RRead (replicate 8192 0) 0" "find_subsequence_end h header_end = Some (length h)" "length h \<le> 8192"
    and "i_reads (oc_inner s) = Ready (Inr h) # rs"
  shows "\<exists>s'. obfs_poll_read room s = Some (s', Ready (Inr [])) \<and> i_reads (oc_inner s') = rs \<and> oc_read s' = RDone"
proof -
  have "find_subsequence_end (h @ drop (length h) (replicate 8192 0)) header_end = Some (length h)"
    by (rule find_end_append [OF assms(2)]) (simp add: header_end_def CRLF_def as_bytes_def)
  then show ?thesis
    using assms by (subst obfs_poll_read.simps, subst obfs_poll_read.simps) (simp add: inner_read_def Let_def)
qed

definition demo_header :: bytes where
  "demo_header = as_bytes (''HTTP/1.1 101 OK'' @ CRLF @ CRLF)"

theorem obfs_header_read_as_eof_witness:
  "\<exists>s'. obfs_poll_read 100 (demo_conn [] [Ready (Inr demo_header), Ready (Inr [1, 2])]) = Some (s', Ready (Inr []))
    \<and> i_reads (oc_inner s') = [Ready (Inr [1, 2])]"
proof -
  have "find_subsequence_end demo_header header_end = Some (length demo_header)" by code_simp
  moreover have "length demo_header \<le> 8192" by (simp add: demo_header_def CRLF_def)
  ultimately show ?thesis
    using obfs_header_read_as_eof [of "demo_conn [] [Ready (Inr demo_header), Ready (Inr [1, 2])]" demo_header "[Ready (Inr [1, 2])]" 100]
    by (auto simp: demo_conn_def connect_new_def)
qed

text \<open>A response header that does not end within 8192 bytes hangs the reader: with its buffer full and
  more bytes on the stream, the read never returns.\<close>

theorem obfs_long_header_hangs:
  assumes "oc_read s = RRead buf (length buf)" "find_subsequence_end buf header_end = None"
    and "i_reads (oc_inner s) = Ready (Inr c) # rs" "c \<noteq> []"
  shows "obfs_poll_read room s = None"
proof (rule ccontr)
  assume "obfs_poll_read room s \<noteq> None"
  then obtain y where "obfs_poll_read room s = Some y" by blast
  then show False
    using assms
  proof (induction rule: obfs_poll_read.raw_induct [rotated, consumes 1, case_names step])
    case (step f room s y)
    have "inner_read 0 (oc_inner s) = (oc_inner s, Ready (Inr []))"
      using step.prems(3,4) by (simp add: inner_read_def)
    with step.prems have "f room (s\<lparr> oc_read := RRead buf (length buf) \<rparr>) = Some y"
      using step.hyps by (simp add: Let_def)
    from step.IH [OF this] step.prems show False by simp
  qed
qed

theorem obfs_long_header_hangs_witness:
  "obfs_poll_read 100 ((demo_conn [] [Ready (Inr [1])])\<lparr> oc_read := RRead (replicate 8192 65) 8192 \<rparr>) = None"
proof -
  have "find_subsequence_end (replicate n 65) header_end = None" for n
    by (induction n) (simp_all add: header_end_def CRLF_def as_bytes_def)
  then show ?thesis
    by (intro obfs_long_header_hangs [of _ "replicate 8192 65" "[1]" "[]"]) (simp_all add: demo_conn_def connect_new_def)
qed

end
