(* ===== verification/Trojan.thy ===== *)
theory Trojan
  imports Socks_Addr Poll_Stream
begin

section \<open>Trojan\<close>

text \<open>
  \<open>protocol/trojan/src\<close>: the request head, the TCP stream that sends the head together with the first write
  or, after a delay, with the first read, the codec of UDP packets over the stream, and the adapter of
  WebSocket messages. SHA-224, TLS, the WebSocket library and the framing of \<open>tokio_util\<close> are parameters.
\<close>

subsection \<open>The head\<close>

definition crlf :: bytes where
  "crlf = [0x0D, 0x0A]"

text \<open>The password is kept as the hexadecimal digest; a \<open>Cursor\<close> over a vector accepts every write.\<close>

definition make_head :: "s5_write \<Rightarrow> string \<Rightarrow> byte \<Rightarrow> s5_addr \<Rightarrow> bytes rd" where
  "make_head sw password cmd addr =
     rbind (map_err (\<lambda>e. IO (s5_to_io_err e)) (sw addr)) (\<lambda>a.
     Inr (as_bytes password @ crlf @ [cmd] @ a @ crlf))"

subsection \<open>The TCP stream\<close>

record trojan_tcp =
  tt_stream :: inner
  tt_head :: "bytes option"
  tt_is_first :: bool

definition trojan_tcp_new :: "inner \<Rightarrow> bytes \<Rightarrow> trojan_tcp" where
  "trojan_tcp_new stream head = \<lparr> tt_stream = stream, tt_head = Some head, tt_is_first = True \<rparr>"

function poll_send_head :: "bytes \<Rightarrow> trojan_tcp \<Rightarrow> trojan_tcp \<times> nat io poll" where
  "poll_send_head buf s = (case tt_head s of
     None \<Rightarrow> (s, Ready (Inr 0))
   | Some head0 \<Rightarrow>
       (let head = (if tt_is_first s then head0 @ buf else head0);
            s1 = s\<lparr> tt_head := Some head, tt_is_first := False \<rparr>
        in if i_writes (tt_stream s) = [] then (s1, Pending)
           else case inner_write head (tt_stream s) of
             (i, Pending) \<Rightarrow> (s1\<lparr> tt_stream := i \<rparr>, Pending)
           | (i, Ready (Inl e)) \<Rightarrow> (s1\<lparr> tt_stream := i \<rparr>, Ready (Inl e))
           | (i, Ready (Inr sent)) \<Rightarrow>
               if drop sent head = [] then (s1\<lparr> tt_stream := i, tt_head := None \<rparr>, Ready (Inr (length buf)))
               else poll_send_head buf (s1\<lparr> tt_stream := i, tt_head := Some (drop sent head) \<rparr>)))"
  by pat_completeness auto
termination
  by (relation "measure (\<lambda>(_, s). length (i_writes (tt_stream s)))")
    (auto simp: inner_write_def split: list.splits poll.splits sum.splits)

declare poll_send_head.simps [simp del]

text \<open>\<open>elapsed\<close> says whether the 100 ms timer has run out.\<close>

definition trojan_poll_read :: "bool \<Rightarrow> nat \<Rightarrow> trojan_tcp \<Rightarrow> trojan_tcp \<times> bytes io poll" where
  "trojan_poll_read elapsed room s =
     (let rd = (\<lambda>s. case inner_read room (tt_stream s) of (i, r) \<Rightarrow> (s\<lparr> tt_stream := i \<rparr>, r)) in
      if elapsed then
        (case poll_send_head [] s of
           (s', Pending) \<Rightarrow> (s', Pending)
         | (s', Ready (Inl e)) \<Rightarrow> (s', Ready (Inl e))
         | (s', Ready (Inr _)) \<Rightarrow> rd s')
      else rd s)"

definition trojan_poll_write :: "bytes \<Rightarrow> trojan_tcp \<Rightarrow> trojan_tcp \<times> nat io poll" where
  "trojan_poll_write buf s = (case poll_send_head buf s of
     (s', Pending) \<Rightarrow> (s', Pending)
   | (s', Ready (Inl e)) \<Rightarrow> (s', Ready (Inl e))
   | (s', Ready (Inr len)) \<Rightarrow>
       if 0 < len then (s', Ready (Inr len))
       else (case inner_write buf (tt_stream s') of (i, r) \<Rightarrow> (s'\<lparr> tt_stream := i \<rparr>, r)))"

subsection \<open>UDP packets\<close>

definition UDP_MAX_SIZE :: nat where
  "UDP_MAX_SIZE = 65535"

text \<open>\<open>encode\<close>: the head goes before the first packet. The state is the head still to be sent.\<close>

definition udp_encode :: "s5_write \<Rightarrow> bytes \<Rightarrow> bytes \<times> address \<Rightarrow> bytes \<Rightarrow> (bytes \<times> bytes) io" where
  "udp_encode sw head item dst = (case item of (data, addr) \<Rightarrow>
     if UDP_MAX_SIZE < length data then Inl (IoError InvalidData (''Frame of length '' @ show_nat (length data) @ '' is too large.''))
     else rbind (map_err s5_to_io_err (sw (ra2sa addr))) (\<lambda>a.
       Inr ([], dst @ head @ a @ u16_to_be (word_of_nat (length data)) @ crlf @ data)))"

text \<open>\<open>decode\<close>: an item and the rest of the buffer, or nothing yet. \<open>to_sock\<close> is \<open>to_socket_addr\<close> of the
  address crate; \<open>split_to\<close> panics beyond the end of the buffer.\<close>

definition udp_addr_size :: "bytes \<Rightarrow> nat option" where
  "udp_addr_size src =
     (if src ! 0 = 1 then Some 7
      else if src ! 0 = 3 then Some (1 + unat (src ! 1) + 2)
      else if src ! 0 = 4 then Some 19
      else None)"

definition udp_decode ::
  "s5_read \<Rightarrow> (s5_addr \<Rightarrow> s5_error + socket_addr) \<Rightarrow> bytes \<Rightarrow> ((bytes \<times> socket_addr) option \<times> bytes) io may_panic" where
  "udp_decode sr to_sock src =
     (if length src < 2 then Inr (Inr (None, src))
      else case udp_addr_size src of
        None \<Rightarrow> Inr (Inl (IoError InvalidData []))
      | Some addr_size \<Rightarrow>
          if length src < addr_size + 4 then Inr (Inr (None, src))
          else
            let len = unat (u16_from_be [src ! addr_size, src ! Suc addr_size]) in
            if length src < addr_size + 4 + len then Inr (Inr (None, src))
            else case sr src of
              Inl e \<Rightarrow> Inr (Inl (s5_to_io_err e))
            | Inr (addr, rest) \<Rightarrow>
                let rest = drop 4 rest in
                if length rest < len then Inl (Panic ''split_to out of bounds'')
                else case to_sock addr of
                  Inl e \<Rightarrow> Inr (Inl (s5_to_io_err e))
                | Inr s \<Rightarrow> Inr (Inr (Some (take len rest, s), drop len rest)))"

text \<open>The socket over the framed stream: \<open>poll_ready\<close>, \<open>start_send\<close> and \<open>poll_flush\<close> are those of \<open>Framed\<close>.\<close>

record 'f framed_ops =
  fo_ready :: "'f \<Rightarrow> 'f \<times> unit io poll"
  fo_start :: "bytes \<times> address \<Rightarrow> 'f \<Rightarrow> 'f \<times> unit io"
  fo_flush :: "'f \<Rightarrow> 'f \<times> unit io poll"
  fo_next :: "'f \<Rightarrow> 'f \<times> (bytes \<times> socket_addr) io option poll"

record 'f trojan_udp =
  tu_framed :: 'f
  tu_flushing :: bool

definition trojan_udp_new :: "'f \<Rightarrow> 'f trojan_udp" where
  "trojan_udp_new framed = \<lparr> tu_framed = framed, tu_flushing = False \<rparr>"

definition udp_flush :: "'f framed_ops \<Rightarrow> bytes \<Rightarrow> 'f trojan_udp \<Rightarrow> 'f trojan_udp \<times> nat io poll" where
  "udp_flush ops buf s = (case fo_flush ops (tu_framed s) of
     (f, Pending) \<Rightarrow> (s\<lparr> tu_framed := f \<rparr>, Pending)
   | (f, Ready (Inl e)) \<Rightarrow> (s\<lparr> tu_framed := f \<rparr>, Ready (Inl e))
   | (f, Ready (Inr _)) \<Rightarrow> (s\<lparr> tu_framed := f, tu_flushing := False \<rparr>, Ready (Inr (length buf))))"

definition trojan_udp_send_to :: "'f framed_ops \<Rightarrow> bytes \<Rightarrow> address \<Rightarrow> 'f trojan_udp \<Rightarrow> 'f trojan_udp \<times> nat io poll" where
  "trojan_udp_send_to ops buf target s =
     (if tu_flushing s then udp_flush ops buf s
      else case fo_ready ops (tu_framed s) of
        (f, Pending) \<Rightarrow> (s\<lparr> tu_framed := f \<rparr>, Pending)
      | (f, Ready (Inl e)) \<Rightarrow> (s\<lparr> tu_framed := f \<rparr>, Ready (Inl e))
      | (f, Ready (Inr _)) \<Rightarrow>
          (case fo_start ops (buf, target) f of
             (f', Inl e) \<Rightarrow> (s\<lparr> tu_framed := f' \<rparr>, Ready (Inl e))
           | (f', Inr _) \<Rightarrow> udp_flush ops buf (s\<lparr> tu_framed := f', tu_flushing := True \<rparr>)))"

definition trojan_udp_recv_from :: "'f framed_ops \<Rightarrow> nat \<Rightarrow> 'f trojan_udp \<Rightarrow> 'f trojan_udp \<times> (bytes \<times> socket_addr) io poll" where
  "trojan_udp_recv_from ops room s = (case fo_next ops (tu_framed s) of
     (f, Pending) \<Rightarrow> (s\<lparr> tu_framed := f \<rparr>, Pending)
   | (f, Ready None) \<Rightarrow> (s\<lparr> tu_framed := f \<rparr>, Ready (Inl (IoError UnexpectedEof [])))
   | (f, Ready (Some (Inl e))) \<Rightarrow> (s\<lparr> tu_framed := f \<rparr>, Ready (Inl e))
   | (f, Ready (Some (Inr (data, from)))) \<Rightarrow> (s\<lparr> tu_framed := f \<rparr>, Ready (Inr (take (min (length data) room) data, from))))"

subsection \<open>Head and data on the wire\<close>

lemma poll_send_head_none: "tt_head s = None \<Longrightarrow> poll_send_head buf s = (s, Ready (Inr 0))"
  by (simp add: poll_send_head.simps)

definition unsent :: "trojan_tcp \<Rightarrow> bytes" where
  "unsent s = (case tt_head s of None \<Rightarrow> [] | Some h \<Rightarrow> h)"

text \<open>What is on the wire and what is left of the head, after an attempt to send it.\<close>

lemma poll_send_head_spec:
  assumes "tt_head s = Some h0" "poll_send_head buf s = (s', r)"
  shows "i_out (tt_stream s') @ unsent s' = i_out (tt_stream s) @ h0 @ (if tt_is_first s then buf else [])
    \<and> \<not> tt_is_first s' \<and> (\<forall>k. r = Ready (Inr k) \<longrightarrow> k = length buf \<and> tt_head s' = None) \<and> (r = Pending \<longrightarrow> tt_head s' \<noteq> None)"
  using assms
proof (induction "length (i_writes (tt_stream s))" arbitrary: s h0 rule: less_induct)
  case less
  define h where "h = (if tt_is_first s then h0 @ buf else h0)"
  let ?s1 = "s\<lparr> tt_head := Some h, tt_is_first := False \<rparr>"
  obtain i q where iq: "inner_write h (tt_stream s) = (i, q)" by fastforce
  note f = inner_write_sent [OF iq]
  have h: "h0 @ (if tt_is_first s then buf else []) = h" by (simp add: h_def)
  show ?case
  proof (cases "i_writes (tt_stream s) = []")
    case True
    with less.prems h show ?thesis by (auto simp: poll_send_head.simps [of buf s] Let_def unsent_def h_def)
  next
    case w: False
    show ?thesis
    proof (cases "\<exists>n. q = Ready (Inr n) \<and> drop n h \<noteq> []")
      case False
      with less.prems iq f w show ?thesis unfolding h
        by (auto simp: poll_send_head.simps [of buf s] Let_def unsent_def h_def [symmetric] split: poll.splits sum.splits if_splits)
    next
      case True
      then obtain n where n: "q = Ready (Inr n)" "drop n h \<noteq> []" by blast
      let ?s2 = "?s1\<lparr> tt_stream := i, tt_head := Some (drop n h) \<rparr>"
      have "length (i_writes (tt_stream ?s2)) < length (i_writes (tt_stream s))"
        using inner_write_length [OF w, of h] iq by simp
      moreover have run: "poll_send_head buf ?s2 = (s', r)"
        using less.prems iq n w by (simp add: poll_send_head.simps [of buf s] Let_def h_def [symmetric])
      ultimately have "i_out (tt_stream s') @ unsent s' = i_out i @ drop n h
        \<and> \<not> tt_is_first s' \<and> (\<forall>k. r = Ready (Inr k) \<longrightarrow> k = length buf \<and> tt_head s' = None) \<and> (r = Pending \<longrightarrow> tt_head s' \<noteq> None)"
        using less.hyps [of ?s2 "drop n h"] by simp
      with f n(1) show ?thesis unfolding h by simp
    qed
  qed
qed

text \<open>A caller that polls the same write until it is ready; \<open>n\<close> bounds the polls of one write.\<close>

fun tj_until :: "nat \<Rightarrow> bytes \<Rightarrow> trojan_tcp \<Rightarrow> trojan_tcp \<times> nat io poll" where
  "tj_until 0 buf s = (s, Pending)"
| "tj_until (Suc n) buf s = (case trojan_poll_write buf s of (s', Pending) \<Rightarrow> tj_until n buf s' | (s', Ready r) \<Rightarrow> (s', Ready r))"

fun tj_send :: "nat \<Rightarrow> bytes list \<Rightarrow> trojan_tcp \<Rightarrow> (trojan_tcp \<times> bytes) option" where
  "tj_send n [] s = Some (s, [])"
| "tj_send n (buf # bufs) s = (case tj_until n buf s of
     (s', Ready (Inr k)) \<Rightarrow> map_option (\<lambda>(s'', acc). (s'', take k buf @ acc)) (tj_send n bufs s')
   | _ \<Rightarrow> None)"

lemma inner_write_out:
  assumes "inner_write buf i = (i', r)"
  shows "i_out i' = i_out i @ (case r of Ready (Inr n) \<Rightarrow> take n buf | _ \<Rightarrow> [])"
  using assms by (auto simp: inner_write_def min_def split: list.splits poll.splits sum.splits)

lemma tj_write_none:
  assumes "tt_head s = None" "trojan_poll_write buf s = (s', r)"
  shows "tt_head s' = None" "i_out (tt_stream s') = i_out (tt_stream s) @ (case r of Ready (Inr n) \<Rightarrow> take n buf | _ \<Rightarrow> [])"
  using assms inner_write_out by (auto simp: trojan_poll_write_def poll_send_head_none split: prod.splits)

lemma tj_write_head:
  assumes "tt_head s = Some h" "trojan_poll_write buf s = (s', r)"
  shows "\<not> tt_is_first s' \<and> (case r of
      Ready (Inr k) \<Rightarrow> tt_head s' = None \<and> k = length buf
        \<and> i_out (tt_stream s') = i_out (tt_stream s) @ h @ (if tt_is_first s then buf else [])
    | Pending \<Rightarrow> tt_head s' = None \<and> buf = [] \<or> (\<exists>h'. tt_head s' = Some h'
        \<and> i_out (tt_stream s') @ h' = i_out (tt_stream s) @ h @ (if tt_is_first s then buf else []))
    | _ \<Rightarrow> True)"
proof -
  obtain s1 r1 where p: "poll_send_head buf s = (s1, r1)" by fastforce
  from poll_send_head_spec [OF assms(1) p] assms(2) p show ?thesis
    by (auto simp: trojan_poll_write_def unsent_def inner_write_def split: poll.splits sum.splits if_splits option.splits prod.splits list.splits)
qed

lemma tj_until_none:
  assumes "tt_head s = None" "tj_until n buf s = (s', Ready (Inr k))"
  shows "tt_head s' = None \<and> i_out (tt_stream s') = i_out (tt_stream s) @ take k buf"
  using assms
proof (induction n arbitrary: s)
  case (Suc n)
  obtain s1 r where r: "trojan_poll_write buf s = (s1, r)" by fastforce
  from tj_write_none [OF Suc.prems(1) r] Suc r show ?case by (cases r) auto
qed simp

lemma tj_until_head:
  assumes "tt_head s = Some h" "\<not> tt_is_first s" "tj_until n buf s = (s', Ready (Inr k))" "buf \<noteq> []"
  shows "tt_head s' = None \<and> k = length buf \<and> i_out (tt_stream s') = i_out (tt_stream s) @ h"
  using assms
proof (induction n arbitrary: s h)
  case (Suc n)
  obtain s1 r where r: "trojan_poll_write buf s = (s1, r)" by fastforce
  note w = tj_write_head [OF Suc.prems(1) r]
  show ?case
  proof (cases r)
    case Pending
    with w Suc.prems r obtain h' where "tt_head s1 = Some h'" "i_out (tt_stream s1) @ h' = i_out (tt_stream s) @ h" by auto
    with Suc.IH [of s1 h'] Pending w Suc.prems r show ?thesis by simp
  next
    case (Ready x)
    with w Suc.prems r show ?thesis by (cases x) auto
  qed
qed simp

lemma tj_until_first:
  assumes "tt_head s = Some h" "tt_is_first s" "tj_until n buf s = (s', Ready (Inr k))" "buf \<noteq> []"
  shows "tt_head s' = None \<and> k = length buf \<and> i_out (tt_stream s') = i_out (tt_stream s) @ h @ buf"
proof (cases n)
  case (Suc m)
  obtain s1 r where r: "trojan_poll_write buf s = (s1, r)" by fastforce
  note w = tj_write_head [OF assms(1) r]
  show ?thesis
  proof (cases r)
    case Pending
    with w assms r obtain h' where "tt_head s1 = Some h'" "i_out (tt_stream s1) @ h' = i_out (tt_stream s) @ h @ buf" by auto
    with tj_until_head [of s1 h' m buf s' k] Pending w assms r Suc show ?thesis by simp
  next
    case (Ready x)
    with w assms r Suc show ?thesis by (cases x) auto
  qed
qed (use assms in simp)

lemma tj_send_none:
  "tt_head s = None \<Longrightarrow> tj_send n bufs s = Some (s', acc) \<Longrightarrow> i_out (tt_stream s') = i_out (tt_stream s) @ acc"
proof (induction bufs arbitrary: s acc)
  case (Cons buf bufs)
  then obtain s1 k acc' where u: "tj_until n buf s = (s1, Ready (Inr k))" "tj_send n bufs s1 = Some (s', acc')" "acc = take k buf @ acc'"
    by (auto split: prod.splits poll.splits sum.splits)
  from tj_until_none [OF Cons.prems(1) u(1)] Cons.IH [OF _ u(2)] u(3) show ?case by simp
qed simp

text \<open>C25: A Trojan stream that is only written to sends its head exactly once, before the data: when the
  buffers have been accepted, in whatever portions the connection takes them, the wire carries the head and
  then exactly the accepted bytes.\<close>

theorem trojan_stream_order:
  assumes "tj_send n (buf # bufs) (trojan_tcp_new i head) = Some (s, acc)" "buf \<noteq> []"
  shows "i_out (tt_stream s) = i_out i @ head @ acc"
proof -
  from assms(1) obtain s1 k acc' where u: "tj_until n buf (trojan_tcp_new i head) = (s1, Ready (Inr k))"
    "tj_send n bufs s1 = Some (s, acc')" "acc = take k buf @ acc'" by (auto split: prod.splits poll.splits sum.splits)
  from tj_until_first [OF _ _ u(1) assms(2)] tj_send_none [OF _ u(2)] u(3) show ?thesis
    by (simp add: trojan_tcp_new_def)
qed

theorem trojan_stream_order_witness:
  "\<exists>s. tj_send 3 [[1, 2], [3]] (trojan_tcp_new \<lparr> i_out = [], i_writes = [Ready (Inr 1), Pending, Ready (Inr 9), Ready (Inr 1)], i_reads = [] \<rparr> [8, 9])
      = Some (s, [1, 2, 3]) \<and> i_out (tt_stream s) = [8, 9, 1, 2, 3]"
proof -
  let ?s = "trojan_tcp_new \<lparr> i_out = [], i_writes = [Ready (Inr 1), Pending, Ready (Inr 9), Ready (Inr 1)], i_reads = [] \<rparr> [8, 9]"
  obtain s where s: "tj_send 3 [[1, 2], [3]] ?s = Some (s, [1, 2, 3])"
    by (simp add: eval_nat_numeral trojan_tcp_new_def trojan_poll_write_def poll_send_head.simps inner_write_def Let_def)
  from trojan_stream_order [OF s] s show ?thesis by simp
qed

text \<open>A read can destroy a write. When the timer has run out, a read sends the head by itself; if that is
  pending, the next write reports its whole buffer as written although only the head is sent. And if a write
  that took the head is pending, a read completes it, and the write that is polled again sends its buffer a
  second time.\<close>

theorem trojan_read_races_write:
  assumes "i_writes i = [Pending, Ready (Inr n), Ready (Inr m)]" "buf \<noteq> []" "length head + length buf \<le> n"
  shows "(\<exists>s1 s2. trojan_poll_read True room (trojan_tcp_new i head) = (s1, Pending)
      \<and> trojan_poll_write buf s1 = (s2, Ready (Inr (length buf))) \<and> i_out (tt_stream s2) = i_out i @ head)
    \<and> (\<exists>s1 s2 s3 r. trojan_poll_write buf (trojan_tcp_new i head) = (s1, Pending)
      \<and> trojan_poll_read True room s1 = (s2, r) \<and> trojan_poll_write buf s2 = (s3, Ready (Inr (min m (length buf))))
      \<and> i_out (tt_stream s3) = i_out i @ head @ buf @ take m buf)"
  using assms
  by (auto simp: trojan_poll_read_def trojan_poll_write_def trojan_tcp_new_def poll_send_head.simps inner_write_def
      inner_read_def Let_def split: prod.splits list.splits poll.splits sum.splits)

theorem trojan_read_races_write_witness:
  "\<exists>s1 s2. trojan_poll_read True 10 (trojan_tcp_new \<lparr> i_out = [], i_writes = [Pending, Ready (Inr 99), Ready (Inr 99)], i_reads = [] \<rparr> [8, 9]) = (s1, Pending)
    \<and> trojan_poll_write [1, 2, 3] s1 = (s2, Ready (Inr 3)) \<and> i_out (tt_stream s2) = [8, 9]"
  using trojan_read_races_write [of "\<lparr> i_out = [], i_writes = [Pending, Ready (Inr 99), Ready (Inr 99)], i_reads = [] \<rparr>" 99 99 "[1, 2, 3]" "[8, 9]" 10]
  by auto

subsection \<open>Packets on the wire\<close>

definition tj_packet :: "s5_write \<Rightarrow> bytes \<times> socket_addr \<Rightarrow> bytes" where
  "tj_packet sw = (\<lambda>(data, s). projr (sw (S5Socket s)) @ u16_to_be (word_of_nat (length data)) @ crlf @ data)"

definition packet_ok :: "bytes \<times> socket_addr \<Rightarrow> bool" where
  "packet_ok = (\<lambda>(data, s). length data \<le> 65535 \<and> s5_plain (S5Socket s))"

definition decode_packet :: "s5_read \<Rightarrow> (s5_addr \<Rightarrow> s5_error + socket_addr) \<Rightarrow> bytes \<Rightarrow> ((bytes \<times> socket_addr) \<times> bytes) option" where
  "decode_packet sr to_sock bs = (case udp_decode sr to_sock bs of
     Inr (Inr (Some item, rest)) \<Rightarrow> Some (item, rest)
   | _ \<Rightarrow> None)"

locale trojan_codec = s5_codec +
  fixes to_sock :: "s5_addr \<Rightarrow> s5_error + socket_addr"
  assumes to_sock: "to_sock (S5Socket s) = Inr s"
begin

text \<open>An encoded IP address has the size its first byte announces.\<close>

lemma socket_bytes:
  assumes "sw (S5Socket s) = Inr a"
  shows "udp_addr_size (a @ rest) = Some (length a)" "2 \<le> length a"
  using assms write_v4 write_v6
  by (cases s; auto simp: udp_addr_size_def)+

lemma decode_packet_enc:
  assumes "packet_ok (data, s)"
  shows "udp_decode sr to_sock (tj_packet sw (data, s) @ rest) = Inr (Inr (Some (data, s), rest))"
proof -
  obtain a where a: "sw (S5Socket s) = Inr a" using write_plain assms by (auto simp: packet_ok_def)
  define n where "n = (word_of_nat (length data) :: u16)"
  have n: "unat n = length data" using assms by (simp add: n_def packet_ok_def unat_of_nat)
  obtain x y where xy: "u16_to_be n = [x, y]" using list2_of_length [of "u16_to_be n"] by auto
  have w: "tj_packet sw (data, s) @ rest = a @ ([x, y] @ crlf @ data @ rest)"
    by (simp add: tj_packet_def a xy n_def [symmetric])
  have "u16_from_be [x, y] = n" using u16_from_to_be [of n] xy by simp
  moreover have "(a @ ([x, y] @ crlf @ data @ rest)) ! length a = x" "(a @ ([x, y] @ crlf @ data @ rest)) ! Suc (length a) = y"
    by (simp_all add: nth_append)
  moreover have "sr (a @ ([x, y] @ crlf @ data @ rest)) = Inr (S5Socket s, [x, y] @ crlf @ data @ rest)"
    by (rule read_write [OF _ a]) (use assms in \<open>simp add: packet_ok_def\<close>)
  ultimately show ?thesis
    unfolding w udp_decode_def using socket_bytes(1) [OF a, of "[x, y] @ crlf @ data @ rest"] socket_bytes(2) [OF a] n
    by (simp add: Let_def to_sock crlf_def eval_nat_numeral)
qed

lemma decode_packet_shorter:
  assumes "decode_packet sr to_sock bs = Some (item, rest)"
  shows "length rest < length bs"
proof -
  from assms obtain addr r len where "sr bs = Inr (addr, r)" "rest = drop len (drop 4 r)"
    by (auto simp: decode_packet_def udp_decode_def Let_def split: sum.splits option.splits if_splits prod.splits)
  with read_shorter [of bs addr r] show ?thesis by simp
qed

lemma packets: "stream_codec (tj_packet sw) (decode_packet sr to_sock) packet_ok"
proof unfold_locales
  show "decode_packet sr to_sock (tj_packet sw x @ rest) = Some (x, rest)" if "packet_ok x" for x rest
    using that decode_packet_enc by (cases x) (simp add: decode_packet_def)
qed (rule decode_packet_shorter)

lemmas packet_stream = stream_codec.dec_stream_concat [OF packets]

end

definition rfc_to_sock :: "s5_addr \<Rightarrow> s5_error + socket_addr" where
  "rfc_to_sock a = (case a of S5Socket s \<Rightarrow> Inr s | S5Domain _ _ \<Rightarrow> Inl (S5Other ''domain''))"

interpretation tjrfc: trojan_codec rfc_write rfc_read rfc_to_sock
  by unfold_locales (simp add: rfc_to_sock_def)

text \<open>Encoding a sequence of packets through the codec, the head first.\<close>

fun udp_encode_all :: "s5_write \<Rightarrow> bytes \<Rightarrow> (bytes \<times> socket_addr) list \<Rightarrow> bytes \<Rightarrow> bytes io" where
  "udp_encode_all sw head [] dst = Inr dst"
| "udp_encode_all sw head ((data, s) # ps) dst =
     rbind (udp_encode sw head (data, SocketAddr s) dst) (\<lambda>(head', dst'). udp_encode_all sw head' ps dst')"

lemma udp_encode_all_wire:
  assumes "s5_codec sw sr" "list_all packet_ok ps"
  shows "udp_encode_all sw head ps dst = Inr (dst @ (if ps = [] then [] else head) @ concat (map (tj_packet sw) ps))"
  using assms(2)
proof (induction ps arbitrary: head dst)
  case (Cons p ps)
  obtain data s where p: "p = (data, s)" by (cases p)
  obtain a where "sw (S5Socket s) = Inr a"
    using s5_codec.write_plain [OF assms(1)] Cons.prems by (auto simp: p packet_ok_def)
  then have "udp_encode sw head (data, SocketAddr s) dst = Inr ([], dst @ head @ tj_packet sw (data, s))"
    using Cons.prems by (simp add: p udp_encode_def tj_packet_def UDP_MAX_SIZE_def packet_ok_def)
  with Cons.IH [of "[]"] Cons.prems show ?case by (cases "ps = []") (simp_all add: p)
qed simp

text \<open>Trojan's UDP packets survive the stream: any sequence of packets with IP addresses is encoded to the
  request head followed by the packets, and the decoder, applied as often as it yields a packet, returns
  exactly these packets in order and leaves what follows them.\<close>

theorem trojan_udp_roundtrip:
  assumes "trojan_codec sw sr to_sock" "list_all packet_ok ps" "ps \<noteq> []"
  shows "\<exists>wire. udp_encode_all sw head ps [] = Inr (head @ wire)
    \<and> dec_stream (decode_packet sr to_sock) (wire @ rest) = (case dec_stream (decode_packet sr to_sock) rest of (qs, left) \<Rightarrow> (ps @ qs, left))"
proof -
  have "s5_codec sw sr" using assms(1) by (simp add: trojan_codec_def)
  from udp_encode_all_wire [OF this assms(2), of head "[]"] trojan_codec.packet_stream [OF assms(1,2), of rest] assms(3)
  show ?thesis by simp
qed

theorem trojan_udp_roundtrip_witness:
  "\<exists>wire. udp_encode_all rfc_write [1] [([5, 6], SockV4 0x01020304 53), ([], SockV6 1 80 0 0)] [] = Inr ([1] @ wire)
    \<and> dec_stream (decode_packet rfc_read rfc_to_sock) (wire @ []) = ([([5, 6], SockV4 0x01020304 53), ([], SockV6 1 80 0 0)], [])"
proof -
  let ?ps = "[([5, 6], SockV4 0x01020304 53), ([], SockV6 1 80 0 0)] :: (bytes \<times> socket_addr) list"
  have "list_all packet_ok ?ps" "?ps \<noteq> []" by (simp_all add: packet_ok_def)
  from trojan_udp_roundtrip [OF tjrfc.trojan_codec_axioms this, of "[1]" "[]"] show ?thesis
    by (simp add: dec_stream_def)
qed

text \<open>A UDP packet with a domain address stalls the decoder: the size it computes for the address is one
  byte short, so it takes the low byte of the port for the high byte of the length; with a port whose low
  byte is not zero it waits for up to 65535 bytes although the whole packet has arrived.\<close>

theorem trojan_domain_packet_stalls:
  assumes "s5_codec sw sr" "length d \<le> 255" "sw (S5Domain d p) = Inr a" "length data + 1 < 256 * (unat p mod 256)"
  shows "udp_decode sr to_sock (a @ u16_to_be (word_of_nat (length data)) @ crlf @ data)
    = Inr (Inr (None, a @ u16_to_be (word_of_nat (length data)) @ crlf @ data))"
proof -
  obtain x y where xy: "u16_to_be (word_of_nat (length data)) = [x, y]"
    using list2_of_length [of "u16_to_be (word_of_nat (length data))"] by auto
  define pl where "pl = (word_of_nat (unat p mod 256) :: byte)"
  have pl: "unat pl = unat p mod 256" by (simp add: pl_def)
  have "u16_to_be p = to_be (Suc (Suc 0)) (unat p)" by (simp add: u16_to_be_def numeral_2_eq_2)
  then obtain ph where port: "u16_to_be p = [ph, pl]" by (simp add: pl_def)
  have n: "unat (word_of_nat (length d) :: byte) = length d" using assms(2) by (simp add: unat_of_nat)
  define src where "src = a @ [x, y] @ crlf @ data"
  have src: "src = (3 # word_of_nat (length d) # as_bytes d @ [ph]) @ [pl, x, y] @ crlf @ data"
    using s5_codec.write_domain [OF assms(1,2), of p] assms(3) port by (simp add: src_def)
  have pos: "src ! (3 + length d) = pl" "src ! Suc (3 + length d) = x" unfolding src by (simp_all add: nth_append)
  have sz: "udp_addr_size src = Some (3 + length d)" unfolding src by (simp add: udp_addr_size_def n)
  have len: "length src = 8 + length d + length data" unfolding src by (simp add: crlf_def)
  have "256 * unat pl \<le> unat (u16_from_be [pl, x])" by (simp add: unat_u16_from_be from_be_Cons)
  then have "udp_decode sr to_sock src = Inr (Inr (None, src))"
    using assms(4) pl len pos unfolding udp_decode_def sz by simp
  then show ?thesis unfolding xy src_def .
qed

theorem trojan_domain_packet_stalls_witness:
  "\<exists>a. rfc_write (S5Domain ''a.b'' 53) = Inr a
    \<and> udp_decode rfc_read rfc_to_sock (a @ u16_to_be (word_of_nat (length [1, 2, 3 :: byte])) @ crlf @ [1, 2, 3])
      = Inr (Inr (None, a @ u16_to_be (word_of_nat (length [1, 2, 3 :: byte])) @ crlf @ [1, 2, 3]))"
proof -
  obtain a where a: "rfc_write (S5Domain ''a.b'' 53) = Inr a" by (simp add: rfc_write_def)
  have "udp_decode rfc_read rfc_to_sock (a @ u16_to_be (word_of_nat (length [1, 2, 3 :: byte])) @ crlf @ [1, 2, 3])
      = Inr (Inr (None, a @ u16_to_be (word_of_nat (length [1, 2, 3 :: byte])) @ crlf @ [1, 2, 3]))"
    by (rule trojan_domain_packet_stalls [OF s5rfc.s5_codec_axioms _ a]) simp_all
  with a show ?thesis by blast
qed

subsection \<open>WebSocket\<close>

text \<open>\<open>websocket.rs\<close>: bytes over binary messages. The client is given by the answers of its \<open>poll_next\<close>,
  \<open>poll_ready\<close> and \<open>poll_flush\<close> (run out: pending) and the messages handed to it; \<open>first_len\<close> is the length of
  the first of the two slices of the ring buffer.\<close>

datatype ws_msg = WsBinary bytes | WsClose | WsOther

record ws_stream =
  ws_next :: "ws_msg io option poll list"
  ws_ready :: "unit io poll list"
  ws_flush :: "unit io poll list"
  ws_sent :: "bytes list"
  ws_read :: bytes
  ws_wrote :: nat

definition ws_url :: "string \<Rightarrow> string \<Rightarrow> string" where
  "ws_url h path = ''wss://'' @ h @ ''/'' @ dropWhile (\<lambda>c. c = CHR ''/'') path"

fun ws_await :: "ws_msg io option poll list \<Rightarrow> ws_msg io option poll list \<times> bytes option io poll" where
  "ws_await [] = ([], Pending)"
| "ws_await (Pending # ms) = (ms, Pending)"
| "ws_await (Ready None # ms) = (ms, Ready (Inr None))"
| "ws_await (Ready (Some (Inl e)) # ms) = (ms, Ready (Inl e))"
| "ws_await (Ready (Some (Inr (WsBinary b))) # ms) = (ms, Ready (Inr (Some b)))"
| "ws_await (Ready (Some (Inr WsClose)) # ms) = (ms, Ready (Inr None))"
| "ws_await (Ready (Some (Inr WsOther)) # ms) = ws_await ms"

definition ws_deliver :: "(bytes \<Rightarrow> nat) \<Rightarrow> nat \<Rightarrow> ws_stream \<Rightarrow> ws_stream \<times> bytes io poll" where
  "ws_deliver first_len room s =
     (let to_read = min (first_len (ws_read s)) room
      in (s\<lparr> ws_read := drop to_read (ws_read s) \<rparr>, Ready (Inr (take to_read (ws_read s)))))"

definition ws_poll_read :: "(bytes \<Rightarrow> nat) \<Rightarrow> nat \<Rightarrow> ws_stream \<Rightarrow> ws_stream \<times> bytes io poll" where
  "ws_poll_read first_len room s =
     (if ws_read s = [] then
        (case ws_await (ws_next s) of
           (ms, Pending) \<Rightarrow> (s\<lparr> ws_next := ms \<rparr>, Pending)
         | (ms, Ready (Inl e)) \<Rightarrow> (s\<lparr> ws_next := ms \<rparr>, Ready (Inl e))
         | (ms, Ready (Inr None)) \<Rightarrow> (s\<lparr> ws_next := ms \<rparr>, Ready (Inr []))
         | (ms, Ready (Inr (Some b))) \<Rightarrow> ws_deliver first_len room (s\<lparr> ws_next := ms, ws_read := b \<rparr>))
      else ws_deliver first_len room s)"

definition answer :: "'a io poll list \<Rightarrow> 'a io poll list \<times> 'a io poll" where
  "answer as = (case as of [] \<Rightarrow> ([], Pending) | a # as \<Rightarrow> (as, a))"

definition ws_finish :: "ws_stream \<Rightarrow> ws_stream \<times> nat io poll" where
  "ws_finish s = (case answer (ws_flush s) of
     (fl, Pending) \<Rightarrow> (s\<lparr> ws_flush := fl \<rparr>, Pending)
   | (fl, Ready (Inl e)) \<Rightarrow> (s\<lparr> ws_flush := fl \<rparr>, Ready (Inl e))
   | (fl, Ready (Inr _)) \<Rightarrow> (s\<lparr> ws_flush := fl, ws_wrote := 0 \<rparr>, Ready (Inr (ws_wrote s))))"

definition ws_poll_write :: "bytes \<Rightarrow> ws_stream \<Rightarrow> ws_stream \<times> nat io poll" where
  "ws_poll_write buf s =
     (if ws_wrote s = 0 then
        (case answer (ws_ready s) of
           (rs, Pending) \<Rightarrow> (s\<lparr> ws_ready := rs \<rparr>, Pending)
         | (rs, Ready (Inl e)) \<Rightarrow> (s\<lparr> ws_ready := rs \<rparr>, Ready (Inl e))
         | (rs, Ready (Inr _)) \<Rightarrow> ws_finish (s\<lparr> ws_ready := rs, ws_sent := ws_sent s @ [buf], ws_wrote := length buf \<rparr>))
      else ws_finish s)"

text \<open>A write polled until it is ready hands over exactly one message with the whole buffer.\<close>

fun ws_until :: "nat \<Rightarrow> bytes \<Rightarrow> ws_stream \<Rightarrow> ws_stream \<times> nat io poll" where
  "ws_until 0 buf s = (s, Pending)"
| "ws_until (Suc n) buf s = (case ws_poll_write buf s of (s', Pending) \<Rightarrow> ws_until n buf s' | (s', Ready r) \<Rightarrow> (s', Ready r))"

lemma ws_until_started:
  "ws_wrote s = length buf \<Longrightarrow> buf \<noteq> [] \<Longrightarrow> ws_until n buf s = (s', Ready (Inr k)) \<Longrightarrow>
   ws_sent s' = ws_sent s \<and> k = length buf \<and> ws_wrote s' = 0"
proof (induction n arbitrary: s)
  case (Suc n)
  then have w: "ws_poll_write buf s = ws_finish s" by (simp add: ws_poll_write_def)
  with Suc.prems Suc.IH [of "s\<lparr> ws_flush := fst (answer (ws_flush s)) \<rparr>"] show ?case
    by (auto simp: ws_finish_def split: prod.splits poll.splits sum.splits)
qed simp

lemma ws_until_message:
  "ws_wrote s = 0 \<Longrightarrow> buf \<noteq> [] \<Longrightarrow> ws_until n buf s = (s', Ready (Inr k)) \<Longrightarrow>
   ws_sent s' = ws_sent s @ [buf] \<and> k = length buf \<and> ws_wrote s' = 0"
proof (induction n arbitrary: s)
  case (Suc n)
  show ?case
  proof (cases "answer (ws_ready s)")
    case (Pair rs a)
    show ?thesis
    proof (cases "\<exists>u. a = Ready (Inr u)")
      case False
      with Suc.prems Suc.IH [of "s\<lparr> ws_ready := rs \<rparr>"] Pair show ?thesis
        by (auto simp: ws_poll_write_def split: poll.splits sum.splits)
    next
      case True
      let ?s = "s\<lparr> ws_ready := rs, ws_sent := ws_sent s @ [buf], ws_wrote := length buf \<rparr>"
      have "ws_poll_write buf s = ws_poll_write buf ?s" using Suc.prems True Pair by (auto simp: ws_poll_write_def)
      with Suc.prems have "ws_until (Suc n) buf ?s = (s', Ready (Inr k))" by simp
      from ws_until_started [OF _ Suc.prems(2) this] show ?thesis by simp
    qed
  qed
qed simp

text \<open>An empty binary message is delivered as the end of the stream.\<close>

lemma ws_empty_message_ends_stream:
  assumes "ws_read s = []" "ws_next s = Ready (Some (Inr (WsBinary []))) # ms" "first_len [] = 0"
  shows "ws_poll_read first_len room s = (s\<lparr> ws_next := ms \<rparr>, Ready (Inr []))"
  using assms by (simp add: ws_poll_read_def ws_deliver_def Let_def)

end
