(* ===== verification/Socks5.thy ===== *)
theory Socks5
  imports Socks_Addr
begin

section \<open>SOCKS5\<close>

text \<open>
  \<open>rd-std/src/socks5\<close>: the UDP encapsulation shared by both ends (\<open>common.rs\<close>), the UDP sockets of the client
  and of the server, and the dialogues that open a connection. The messages of the handshake are read and
  written by the crate \<open>socks5_protocol\<close>: its readers and writers are parameters. A UDP socket is
  given by the answers to its polls; a datagram that is received goes into the free part of the buffer,
  after what the buffer holds already.
\<close>

subsection \<open>UDP encapsulation\<close>

definition pack_udp :: "s5_write \<Rightarrow> address \<Rightarrow> bytes \<Rightarrow> bytes \<times> unit io" where
  "pack_udp sw addr buf = (case sw (ra2sa addr) of
     Inl e \<Rightarrow> ([0, 0, 0], Inl (s5_to_io_err e))
   | Inr a \<Rightarrow> ([0, 0, 0] @ a @ buf, Inr ()))"

definition wrong_rsv :: "byte \<Rightarrow> byte \<Rightarrow> byte \<Rightarrow> io_error" where
  "wrong_rsv a b c = IoError InvalidData (''server response wrong RSV '' @ show_nat (unat a) @ '' RSV '' @ show_nat (unat b)
     @ '' FRAG '' @ show_nat (unat c))"

text \<open>The address, and what is left in the buffer.\<close>

definition parse_udp :: "s5_read \<Rightarrow> bytes \<Rightarrow> (address \<times> bytes) io" where
  "parse_udp sr filled =
     rbind (read_exact 3 filled) (\<lambda>(h, rest).
     if h = [0, 0, 0] then
       (case sr rest of
          Inl e \<Rightarrow> Inl (s5_to_io_err e)
        | Inr (addr, payload) \<Rightarrow> Inr (sa2ra addr, payload))
     else Inl (wrong_rsv (h ! 0) (h ! 1) (h ! 2)))"

subsection \<open>UDP sockets\<close>

record udp =
  u_recv :: "(bytes \<times> socket_addr) io poll list"
  u_send :: "unit io poll list"
  u_sent :: "(bytes \<times> address) list"

definition u_poll_recv :: "nat \<Rightarrow> bytes \<Rightarrow> udp \<Rightarrow> udp \<times> bytes \<times> socket_addr io poll" where
  "u_poll_recv room buf u = (case u_recv u of
     [] \<Rightarrow> (u, buf, Pending)
   | Pending # rs \<Rightarrow> (u\<lparr> u_recv := rs \<rparr>, buf, Pending)
   | Ready (Inl e) # rs \<Rightarrow> (u\<lparr> u_recv := rs \<rparr>, buf, Ready (Inl e))
   | Ready (Inr (d, from)) # rs \<Rightarrow> (u\<lparr> u_recv := rs \<rparr>, buf @ take (room - length buf) d, Ready (Inr from)))"

definition u_poll_send :: "bytes \<Rightarrow> address \<Rightarrow> udp \<Rightarrow> udp \<times> unit io poll" where
  "u_poll_send d target u = (case u_send u of
     [] \<Rightarrow> (u, Pending)
   | Ready (Inr x) # rs \<Rightarrow> (u\<lparr> u_send := rs, u_sent := u_sent u @ [(d, target)] \<rparr>, Ready (Inr x))
   | r # rs \<Rightarrow> (u\<lparr> u_send := rs \<rparr>, r))"

subsection \<open>The client\<close>

record s5_client_udp =
  cu_udp :: udp
  cu_server_addr :: socket_addr
  cu_send_buf :: bytes

text \<open>The loop skips datagrams that do not come from the server.\<close>

function cu_recv_loop :: "nat \<Rightarrow> socket_addr \<Rightarrow> bytes \<Rightarrow> udp \<Rightarrow> udp \<times> bytes \<times> unit io poll" where
  "cu_recv_loop room server buf u = (if u_recv u = [] then (u, buf, Pending) else case u_poll_recv room buf u of
     (u', buf', Pending) \<Rightarrow> (u', buf', Pending)
   | (u', buf', Ready (Inl e)) \<Rightarrow> (u', buf', Ready (Inl e))
   | (u', buf', Ready (Inr addr)) \<Rightarrow> if addr = server then (u', buf', Ready (Inr ())) else cu_recv_loop room server buf' u')"
  by pat_completeness auto
termination
  by (relation "measure (\<lambda>(_, _, _, u). length (u_recv u))")
    (auto simp: u_poll_recv_def split: list.splits poll.splits sum.splits)

declare cu_recv_loop.simps [simp del]

definition cu_poll_recv_from :: "s5_read \<Rightarrow> nat \<Rightarrow> s5_client_udp \<Rightarrow> s5_client_udp \<times> (bytes \<times> socket_addr) io poll" where
  "cu_poll_recv_from sr room s = (case cu_recv_loop room (cu_server_addr s) [] (cu_udp s) of
     (u, buf, Pending) \<Rightarrow> (s\<lparr> cu_udp := u \<rparr>, Pending)
   | (u, buf, Ready (Inl e)) \<Rightarrow> (s\<lparr> cu_udp := u \<rparr>, Ready (Inl e))
   | (u, buf, Ready (Inr _)) \<Rightarrow>
       (s\<lparr> cu_udp := u \<rparr>, Ready (rbind (parse_udp sr buf) (\<lambda>(addr, payload).
          rbind (to_socket_addr addr) (\<lambda>from. Inr (payload, from))))))"

definition cu_poll_send_to :: "s5_write \<Rightarrow> bytes \<Rightarrow> address \<Rightarrow> s5_client_udp \<Rightarrow> s5_client_udp \<times> nat io poll" where
  "cu_poll_send_to sw buf target s =
     (case (if cu_send_buf s = [] then pack_udp sw target buf else (cu_send_buf s, Inr ())) of
        (v, Inl e) \<Rightarrow> (s\<lparr> cu_send_buf := v \<rparr>, Ready (Inl e))
      | (v, Inr _) \<Rightarrow>
          (case u_poll_send v (SocketAddr (cu_server_addr s)) (cu_udp s) of
             (u, Pending) \<Rightarrow> (s\<lparr> cu_send_buf := v, cu_udp := u \<rparr>, Pending)
           | (u, Ready (Inl e)) \<Rightarrow> (s\<lparr> cu_send_buf := v, cu_udp := u \<rparr>, Ready (Inl e))
           | (u, Ready (Inr _)) \<Rightarrow> (s\<lparr> cu_send_buf := [], cu_udp := u \<rparr>, Ready (Inr (length buf)))))"

subsection \<open>The server's UDP channel\<close>

record s5_channel =
  ch_udp :: udp
  ch_tcp :: "unit io poll list"
  ch_endpoint :: "socket_addr option"
  ch_send_buf :: bytes

text \<open>\<open>poll_tcp_close\<close>: only an error of the control connection counts as its end.\<close>

definition poll_tcp_close :: "s5_channel \<Rightarrow> s5_channel \<times> bool poll" where
  "poll_tcp_close s = (case ch_tcp s of
     [] \<Rightarrow> (s, Pending)
   | Pending # rs \<Rightarrow> (s\<lparr> ch_tcp := rs \<rparr>, Pending)
   | Ready r # rs \<Rightarrow> (s\<lparr> ch_tcp := rs \<rparr>, Ready (\<not> is_ok r)))"

definition ch_poll_send_to :: "s5_read \<Rightarrow> nat \<Rightarrow> s5_channel \<Rightarrow> s5_channel \<times> (bytes \<times> address) io poll" where
  "ch_poll_send_to sr room s = (case u_poll_recv room [] (ch_udp s) of
     (u, buf, Pending) \<Rightarrow> (s\<lparr> ch_udp := u \<rparr>, Pending)
   | (u, buf, Ready (Inl e)) \<Rightarrow> (s\<lparr> ch_udp := u \<rparr>, Ready (Inl e))
   | (u, buf, Ready (Inr from)) \<Rightarrow>
       (s\<lparr> ch_udp := u, ch_endpoint := (if ch_endpoint s = None then Some from else ch_endpoint s) \<rparr>,
        Ready (rbind (parse_udp sr buf) (\<lambda>(addr, payload). Inr (payload, addr)))))"

definition ch_poll_recv_from :: "s5_write \<Rightarrow> bytes \<Rightarrow> socket_addr \<Rightarrow> s5_channel \<Rightarrow> s5_channel \<times> nat io poll" where
  "ch_poll_recv_from sw buf target s = (case poll_tcp_close s of
     (s, Ready True) \<Rightarrow> (s, Ready (Inl (IoError ConnectionAborted ''connection closed'')))
   | (s, _) \<Rightarrow>
     (case (if ch_send_buf s = [] then pack_udp sw (SocketAddr target) buf else (ch_send_buf s, Inr ())) of
        (v, Inl e) \<Rightarrow> (s\<lparr> ch_send_buf := v \<rparr>, Ready (Inl e))
      | (v, Inr _) \<Rightarrow>
          (case ch_endpoint s of
             None \<Rightarrow> (s\<lparr> ch_send_buf := v \<rparr>, Ready (Inl (IoError InvalidData ''udp endpoint not set'')))
           | Some endpoint \<Rightarrow>
               (case u_poll_send v (SocketAddr endpoint) (ch_udp s) of
                  (u, Pending) \<Rightarrow> (s\<lparr> ch_send_buf := v, ch_udp := u \<rparr>, Pending)
                | (u, Ready (Inl e)) \<Rightarrow> (s\<lparr> ch_send_buf := v, ch_udp := u \<rparr>, Ready (Inl e))
                | (u, Ready (Inr _)) \<Rightarrow> (s\<lparr> ch_send_buf := [], ch_udp := u \<rparr>, Ready (Inr (length buf)))))))"

subsection \<open>Serving a request\<close>

text \<open>\<open>serve_connection\<close> after the request has been read: the replies that are sent and what becomes of the
  connection. \<open>so_connect\<close> and \<open>so_bind\<close> are the outgoing net, \<open>so_listen\<close> the net the server listens on.\<close>

datatype s5_command = CmdConnect | CmdBind | CmdUdpAssociate

datatype s5_reply = ReplySuccess s5_addr | ReplyError rd_error | ReplyAddressTypeNotSupported

record ('o, 'u) s5_nets =
  so_connect :: "address \<Rightarrow> 'o rd"
  so_local :: "'o \<Rightarrow> socket_addr rd"
  so_bind :: "address \<Rightarrow> 'u rd"
  so_listen :: "address \<Rightarrow> udp rd"
  so_listen_addr :: "udp \<Rightarrow> socket_addr rd"

datatype ('o, 'u) s5_action = ServeTcp 'o | ServeUdp s5_channel 'u | ServeDone | ServeFailed rd_error

definition default_addr :: socket_addr where
  "default_addr = SockV4 0 0"

definition serve_udp ::
  "('o, 'u) s5_nets \<Rightarrow> ip_addr \<Rightarrow> unit io poll list \<Rightarrow> socket_addr \<Rightarrow> 'u \<Rightarrow> s5_reply list \<times> ('o, 'u) s5_action" where
  "serve_udp nets local_ip tcp peer out = (case so_listen nets (any_addr_port peer) of
     Inl e \<Rightarrow> ([], ServeFailed e)
   | Inr u \<Rightarrow>
       (case so_listen_addr nets u of
          Inl e \<Rightarrow> ([ReplyError e], ServeDone)
        | Inr a \<Rightarrow>
            ([ReplySuccess (S5Socket (sock_new local_ip (sock_port a)))],
             ServeUdp \<lparr> ch_udp = u, ch_tcp = tcp, ch_endpoint = None, ch_send_buf = [] \<rparr> out)))"

definition serve_request ::
  "('o, 'u) s5_nets \<Rightarrow> ip_addr \<Rightarrow> unit io poll list \<Rightarrow> socket_addr \<Rightarrow> s5_command \<Rightarrow> s5_addr \<Rightarrow> s5_reply list \<times> ('o, 'u) s5_action" where
  "serve_request nets local_ip tcp peer cmd addr = (case cmd of
     CmdConnect \<Rightarrow>
       (case so_connect nets (sa2ra addr) of
          Inl e \<Rightarrow> ([ReplyError e], ServeDone)
        | Inr out \<Rightarrow>
            ([ReplySuccess (S5Socket (case so_local nets out of Inr a \<Rightarrow> a | Inl _ \<Rightarrow> default_addr))], ServeTcp out))
   | CmdUdpAssociate \<Rightarrow>
       (case addr of
          S5Socket a \<Rightarrow>
            (case so_bind nets (any_addr_port a) of
               Inl e \<Rightarrow> ([ReplyError e], ServeDone)
             | Inr out \<Rightarrow> serve_udp nets local_ip tcp peer out)
        | S5Domain _ _ \<Rightarrow> ([ReplyAddressTypeNotSupported], ServeDone))
   | CmdBind \<Rightarrow> ([], ServeDone))"

subsection \<open>The handshake\<close>

text \<open>The messages on the control connection. Reading and writing them is the crate's: \<open>s5_io\<close> has one
  operation per message that the source reads, \<open>io_put\<close> writes one; \<open>io_select\<close> is \<open>AuthRequest::select_from\<close>.\<close>

datatype s5_auth = Noauth | NoAcceptable | AuthOther byte

datatype s5_msg =
  MsgVersion | MsgAuthRequest "s5_auth list" | MsgAuthResponse s5_auth | MsgCommand s5_command s5_addr | MsgReply s5_reply

record 'c s5_io =
  io_put :: "s5_msg \<Rightarrow> 'c \<Rightarrow> s5_error + 'c"
  io_flush :: "'c \<Rightarrow> io_error + 'c"
  io_version :: "'c \<Rightarrow> s5_error + 'c"
  io_auth_request :: "'c \<Rightarrow> s5_error + (s5_auth list \<times> 'c)"
  io_auth_response :: "'c \<Rightarrow> s5_error + (s5_auth \<times> 'c)"
  io_command :: "'c \<Rightarrow> s5_error + (s5_command \<times> s5_addr \<times> 'c)"
  io_reply :: "'c \<Rightarrow> s5_error + (s5_addr \<times> 'c)"
  io_select :: "s5_auth list \<Rightarrow> s5_auth list \<Rightarrow> s5_auth"

definition send_command :: "'c s5_io \<Rightarrow> s5_command \<Rightarrow> s5_addr \<Rightarrow> 'c \<Rightarrow> (s5_addr \<times> 'c) rd" where
  "send_command io cmd addr c =
     rbind (map_err s5_map_err (io_put io MsgVersion c)) (\<lambda>c.
     rbind (map_err s5_map_err (io_put io (MsgAuthRequest [Noauth]) c)) (\<lambda>c.
     rbind (map_err IO (io_flush io c)) (\<lambda>c.
     rbind (map_err s5_map_err (io_version io c)) (\<lambda>c.
     rbind (map_err s5_map_err (io_auth_response io c)) (\<lambda>(m, c).
     if m \<noteq> Noauth then Inl (OtherError ''Auth failed'')
     else
       rbind (map_err s5_map_err (io_put io (MsgCommand cmd addr) c)) (\<lambda>c.
       rbind (map_err IO (io_flush io c)) (\<lambda>c.
       map_err s5_map_err (io_reply io c))))))))"

text \<open>The net below the client: \<open>nc_connect\<close> opens the control connection, \<open>nc_lookup\<close> resolves the server
  and \<open>nc_bind\<close> binds the local socket. \<open>to_sock\<close> is the crate's conversion of the address in the reply.\<close>

record 'c s5_client_net =
  nc_connect :: "address \<Rightarrow> 'c rd"
  nc_lookup :: "address \<Rightarrow> socket_addr list rd"
  nc_bind :: "address \<Rightarrow> udp rd"

definition s5_tcp_connect :: "'c s5_io \<Rightarrow> 'c s5_client_net \<Rightarrow> address \<Rightarrow> address \<Rightarrow> 'c rd" where
  "s5_tcp_connect io net server addr =
     rbind (nc_connect net server) (\<lambda>c.
     rbind (send_command io CmdConnect (ra2sa addr) c) (\<lambda>(_, c). Inr c))"

definition s5_udp_bind ::
  "'c s5_io \<Rightarrow> (s5_addr \<Rightarrow> s5_error + socket_addr) \<Rightarrow> 'c s5_client_net \<Rightarrow> address \<Rightarrow> address \<Rightarrow> (s5_client_udp \<times> 'c) rd" where
  "s5_udp_bind io to_sock net server addr =
     rbind (nc_lookup net server) (\<lambda>as.
     case as of
       [] \<Rightarrow> Inl (IO (IoError AddrNotAvailable ''Failed to lookup domain''))
     | server_addr # _ \<Rightarrow>
         rbind (nc_connect net (SocketAddr server_addr)) (\<lambda>c.
         rbind (send_command io CmdUdpAssociate (ra2sa addr) c) (\<lambda>(resp, c).
         rbind (nc_bind net (any_addr_port server_addr)) (\<lambda>u.
         rbind (map_err s5_map_err (to_sock resp)) (\<lambda>a.
         Inr (\<lparr> cu_udp = u, cu_server_addr = a, cu_send_buf = [] \<rparr>, c))))))"

definition handle_command_request :: "'c s5_io \<Rightarrow> 'c \<Rightarrow> s5_error + (s5_command \<times> s5_addr \<times> 'c)" where
  "handle_command_request io c =
     rbind (io_version io c) (\<lambda>c.
     rbind (io_auth_request io c) (\<lambda>(methods, c).
     rbind (io_put io MsgVersion c) (\<lambda>c.
     rbind (io_put io (MsgAuthResponse (io_select io methods [Noauth])) c) (\<lambda>c.
     rbind (map_err S5Io (io_flush io c)) (\<lambda>c.
     io_command io c)))))"

definition response_command_error :: "'c s5_io \<Rightarrow> rd_error \<Rightarrow> 'c \<Rightarrow> s5_error + 'c" where
  "response_command_error io e c = rbind (io_put io (MsgReply (ReplyError e)) c) (\<lambda>c. map_err S5Io (io_flush io c))"

text \<open>A connection as two queues of messages: an instance of the crate's operations that records what is
  written and hands out what arrives, in order and only under the right type.\<close>

type_synonym s5_queue = "s5_msg list \<times> s5_msg list"

definition queue_get :: "(s5_msg \<Rightarrow> 'a option) \<Rightarrow> s5_queue \<Rightarrow> s5_error + ('a \<times> s5_queue)" where
  "queue_get f c = (case fst c of
     [] \<Rightarrow> Inl (S5Io (IoError UnexpectedEof ''early eof''))
   | m # ms \<Rightarrow> (case f m of None \<Rightarrow> Inl (S5Other ''invalid message'') | Some x \<Rightarrow> Inr (x, ms, snd c)))"

definition queue_io :: "s5_queue s5_io" where
  "queue_io = \<lparr>
     io_put = \<lambda>m c. Inr (fst c, snd c @ [m]),
     io_flush = \<lambda>c. Inr c,
     io_version = \<lambda>c. rbind (queue_get (\<lambda>m. if m = MsgVersion then Some () else None) c) (\<lambda>(_, c). Inr c),
     io_auth_request = queue_get (\<lambda>m. case m of MsgAuthRequest ms \<Rightarrow> Some ms | _ \<Rightarrow> None),
     io_auth_response = queue_get (\<lambda>m. case m of MsgAuthResponse a \<Rightarrow> Some a | _ \<Rightarrow> None),
     io_command = (\<lambda>c. rbind (queue_get (\<lambda>m. case m of MsgCommand x y \<Rightarrow> Some (x, y) | _ \<Rightarrow> None) c) (\<lambda>((x, y), c). Inr (x, y, c))),
     io_reply = queue_get (\<lambda>m. case m of MsgReply (ReplySuccess a) \<Rightarrow> Some a | _ \<Rightarrow> None),
     io_select = \<lambda>methods known. (case filter (\<lambda>m. m \<in> set known) methods of [] \<Rightarrow> NoAcceptable | m # _ \<Rightarrow> m) \<rparr>"

text \<open>The two sides of the handshake fit: the server reads the command the client writes, and the client
  goes on with it exactly when the server has accepted to serve it without authentication.\<close>

lemma handshake_agrees:
  assumes "send_command queue_io cmd addr ([MsgVersion, MsgAuthResponse (io_select queue_io [Noauth] [Noauth]), MsgReply (ReplySuccess a)], []) = r"
  shows "\<exists>out. r = Inr (a, [], out) \<and> handle_command_request queue_io (out, []) = Inr (cmd, addr, [], [MsgVersion, MsgAuthResponse Noauth])"
  unfolding assms [symmetric]
  by (simp add: send_command_def handle_command_request_def queue_io_def queue_get_def)

lemma command_needs_noauth:
  assumes "send_command queue_io cmd addr (MsgVersion # MsgAuthResponse m # ms, []) = Inr (a, rest, out)"
  shows "m = Noauth \<and> out = [MsgVersion, MsgAuthRequest [Noauth], MsgCommand cmd addr] \<and> ms = MsgReply (ReplySuccess a) # rest"
  using assms
  by (auto simp: send_command_def queue_io_def queue_get_def map_err_def
      split: if_splits list.splits s5_msg.splits s5_reply.splits sum.splits)

text \<open>A relay starts only after exactly one success reply, and a reply of success is never sent otherwise.\<close>

lemma serve_reply_matches:
  "serve_request nets local_ip tcp peer cmd addr = (replies, act) \<Longrightarrow>
   (case act of ServeTcp _ \<Rightarrow> \<exists>a. replies = [ReplySuccess a] | ServeUdp _ _ \<Rightarrow> \<exists>a. replies = [ReplySuccess a]
    | _ \<Rightarrow> \<forall>a. ReplySuccess a \<notin> set replies)"
  by (auto simp: serve_request_def serve_udp_def split: s5_command.splits sum.splits s5_addr.splits)

subsection \<open>Datagrams end to end\<close>

lemma parse_pack:
  assumes "s5_codec sw sr" "s5_plain (ra2sa addr)" "pack_udp sw addr buf = (v, Inr ())"
  shows "parse_udp sr v = Inr (addr, buf)"
proof -
  from assms(3) obtain a where a: "sw (ra2sa addr) = Inr a" "v = [0, 0, 0] @ a @ buf"
    by (auto simp: pack_udp_def split: sum.splits)
  have "sr (a @ buf) = Inr (ra2sa addr, buf)" by (rule s5_codec.read_write [OF assms(1,2) a(1)])
  then show ?thesis by (simp add: parse_udp_def a(2) read_exact_def eval_nat_numeral)
qed

lemma socks5_udp_up:
  assumes "s5_codec sw sr" "s5_plain (ra2sa target)" "cu_send_buf c = []" "cu_poll_send_to sw buf target c = (c', Ready (Inr n))"
  obtains d where "n = length buf" "cu_send_buf c' = []" "u_sent (cu_udp c') = u_sent (cu_udp c) @ [(d, SocketAddr (cu_server_addr c))]"
    and "\<And>room ch client rs. length d \<le> room \<Longrightarrow> u_recv (ch_udp ch) = Ready (Inr (d, client)) # rs \<Longrightarrow> ch_endpoint ch = None \<Longrightarrow>
      ch_poll_send_to sr room ch
        = (ch\<lparr> ch_udp := (ch_udp ch)\<lparr> u_recv := rs \<rparr>, ch_endpoint := Some client \<rparr>, Ready (Inr (buf, target)))"
proof -
  obtain v where v: "pack_udp sw target buf = (v, Inr ())" "n = length buf" "cu_send_buf c' = []"
    "u_sent (cu_udp c') = u_sent (cu_udp c) @ [(v, SocketAddr (cu_server_addr c))]"
    using assms(3,4) by (auto simp: cu_poll_send_to_def u_poll_send_def split: prod.splits sum.splits poll.splits list.splits if_splits)
  have "parse_udp sr v = Inr (target, buf)" by (rule parse_pack [OF assms(1,2) v(1)])
  with v show ?thesis by (intro that [of v]) (simp_all add: ch_poll_send_to_def u_poll_recv_def)
qed

lemma socks5_udp_down:
  assumes "s5_codec sw sr" "s5_plain (S5Socket from)" "ch_send_buf ch = []" "ch_endpoint ch = Some client"
    and "ch_poll_recv_from sw answer from ch = (ch', Ready (Inr n))"
  obtains d where "n = length answer" "ch_send_buf ch' = []" "u_sent (ch_udp ch') = u_sent (ch_udp ch) @ [(d, SocketAddr client)]"
    and "\<And>room c rs. length d \<le> room \<Longrightarrow> u_recv (cu_udp c) = Ready (Inr (d, cu_server_addr c)) # rs \<Longrightarrow>
      cu_poll_recv_from sr room c = (c\<lparr> cu_udp := (cu_udp c)\<lparr> u_recv := rs \<rparr> \<rparr>, Ready (Inr (answer, from)))"
proof -
  obtain v where v: "pack_udp sw (SocketAddr from) answer = (v, Inr ())" "n = length answer" "ch_send_buf ch' = []"
    "u_sent (ch_udp ch') = u_sent (ch_udp ch) @ [(v, SocketAddr client)]"
    using assms(3-5)
    by (auto simp: ch_poll_recv_from_def poll_tcp_close_def u_poll_send_def
        split: prod.splits sum.splits poll.splits list.splits if_splits bool.splits)
  have "parse_udp sr v = Inr (SocketAddr from, answer)" by (rule parse_pack [OF assms(1) _ v(1)]) (simp add: assms(2))
  with v show ?thesis
    by (intro that [of v]) (simp_all add: cu_poll_recv_from_def cu_recv_loop.simps u_poll_recv_def to_socket_addr_def)
qed

text \<open>C24: A datagram sent through a SOCKS5 client arrives unchanged: what the client's socket puts on the
  wire is handed by the server's channel to the outgoing net with the same target and payload, and an
  answer that the channel sends back through the same association reaches the client's caller unchanged,
  with the address it came from.\<close>

theorem socks5_udp_end_to_end:
  assumes "s5_codec sw sr" "s5_plain (ra2sa target)" "s5_plain (S5Socket from)"
    and "cu_send_buf c = []" "cu_poll_send_to sw buf target c = (c', Ready (Inr n))"
    and "ch_endpoint ch = None" "ch_send_buf ch = []"
  shows "\<exists>d. u_sent (cu_udp c') = u_sent (cu_udp c) @ [(d, SocketAddr (cu_server_addr c))] \<and>
    (\<forall>room client rs. length d \<le> room \<longrightarrow> u_recv (ch_udp ch) = Ready (Inr (d, client)) # rs \<longrightarrow>
       (\<exists>ch1. ch_poll_send_to sr room ch = (ch1, Ready (Inr (buf, target))) \<and>
         (\<forall>answer ch2 k. ch_poll_recv_from sw answer from ch1 = (ch2, Ready (Inr k)) \<longrightarrow>
           (\<exists>e. u_sent (ch_udp ch2) = u_sent (ch_udp ch1) @ [(e, SocketAddr client)] \<and>
             (\<forall>more. length e \<le> room \<longrightarrow>
               snd (cu_poll_recv_from sr room (c'\<lparr> cu_udp := (cu_udp c')\<lparr> u_recv := Ready (Inr (e, cu_server_addr c')) # more \<rparr> \<rparr>))
                 = Ready (Inr (answer, from)))))))"
proof -
  obtain d where d: "u_sent (cu_udp c') = u_sent (cu_udp c) @ [(d, SocketAddr (cu_server_addr c))]"
    "\<And>room client rs. length d \<le> room \<Longrightarrow> u_recv (ch_udp ch) = Ready (Inr (d, client)) # rs \<Longrightarrow>
      ch_poll_send_to sr room ch
        = (ch\<lparr> ch_udp := (ch_udp ch)\<lparr> u_recv := rs \<rparr>, ch_endpoint := Some client \<rparr>, Ready (Inr (buf, target)))"
    by (rule socks5_udp_up [OF assms(1,2,4,5)]) (use assms(6) in blast)
  have answered: "\<exists>e. u_sent (ch_udp ch2) = u_sent (ch_udp ch1) @ [(e, SocketAddr client)] \<and>
      (\<forall>more. length e \<le> room \<longrightarrow>
        snd (cu_poll_recv_from sr room (c'\<lparr> cu_udp := (cu_udp c')\<lparr> u_recv := Ready (Inr (e, cu_server_addr c')) # more \<rparr> \<rparr>))
          = Ready (Inr (answer, from)))"
    if ch1: "ch_endpoint ch1 = Some client" "ch_send_buf ch1 = []" "ch_poll_recv_from sw answer from ch1 = (ch2, Ready (Inr k))"
    for room client answer ch1 ch2 k
    by (rule socks5_udp_down [OF assms(1,3) ch1(2,1,3)]) auto
  show ?thesis
  proof (intro exI [of _ d] conjI d(1) allI impI)
    fix room client rs
    assume r: "length d \<le> room" "u_recv (ch_udp ch) = Ready (Inr (d, client)) # rs"
    show "\<exists>ch1. ch_poll_send_to sr room ch = (ch1, Ready (Inr (buf, target))) \<and>
      (\<forall>answer ch2 k. ch_poll_recv_from sw answer from ch1 = (ch2, Ready (Inr k)) \<longrightarrow>
        (\<exists>e. u_sent (ch_udp ch2) = u_sent (ch_udp ch1) @ [(e, SocketAddr client)] \<and>
          (\<forall>more. length e \<le> room \<longrightarrow>
            snd (cu_poll_recv_from sr room (c'\<lparr> cu_udp := (cu_udp c')\<lparr> u_recv := Ready (Inr (e, cu_server_addr c')) # more \<rparr> \<rparr>))
              = Ready (Inr (answer, from)))))"
      by (rule exI, rule conjI, rule d(2) [OF r], intro allI impI, rule answered) (auto simp: assms(7))
  qed
qed

lemma udp_end_to_end_example:
  defines "c \<equiv> \<lparr> cu_udp = \<lparr> u_recv = [], u_send = [Ready (Inr ())], u_sent = [] \<rparr>, cu_server_addr = SockV4 1 2, cu_send_buf = [] \<rparr>"
  shows "cu_poll_send_to rfc_write [7, 8] (SocketAddr (SockV4 5 53)) c
    = (c\<lparr> cu_udp := \<lparr> u_recv = [], u_send = [], u_sent = [([0, 0, 0, 1, 0, 0, 0, 5, 0, 53, 7, 8], SocketAddr (SockV4 1 2))] \<rparr> \<rparr>,
       Ready (Inr 2))"
  unfolding c_def by code_simp

theorem socks5_udp_end_to_end_witness:
  "\<exists>d. u_sent (cu_udp (fst (cu_poll_send_to rfc_write [7, 8] (SocketAddr (SockV4 5 53))
      \<lparr> cu_udp = \<lparr> u_recv = [], u_send = [Ready (Inr ())], u_sent = [] \<rparr>, cu_server_addr = SockV4 1 2, cu_send_buf = [] \<rparr>)))
    = [(d, SocketAddr (SockV4 1 2))]"
  using socks5_udp_end_to_end [OF s5rfc.s5_codec_axioms, of "SocketAddr (SockV4 5 53)" "SockV4 5 53",
      OF _ _ _ udp_end_to_end_example,
      of "\<lparr> ch_udp = \<lparr> u_recv = [], u_send = [], u_sent = [] \<rparr>, ch_tcp = [], ch_endpoint = None, ch_send_buf = [] \<rparr>"]
  by (auto simp: udp_end_to_end_example)

subsection \<open>Where datagrams go astray\<close>

text \<open>Datagrams of a stranger are accepted: the client's loop skips a datagram that does not come from
  the server, but the bytes stay in the buffer and the next one, which does come from the server, lands
  behind them. The caller gets the stranger's source address and payload, followed by the raw bytes of the
  server's datagram.\<close>

theorem socks5_stray_datagram_accepted:
  assumes "s5_codec sw sr" "s5_plain (S5Socket forged)" "pack_udp sw (SocketAddr forged) evil = (d1, Inr ())"
    and "stranger \<noteq> cu_server_addr c" "length (d1 @ d2) \<le> room"
    and "u_recv (cu_udp c) = Ready (Inr (d1, stranger)) # Ready (Inr (d2, cu_server_addr c)) # rs"
  shows "snd (cu_poll_recv_from sr room c) = Ready (Inr (evil @ d2, forged))"
proof -
  from assms(3) have "pack_udp sw (SocketAddr forged) (evil @ d2) = (d1 @ d2, Inr ())"
    by (auto simp: pack_udp_def split: sum.splits)
  then have "parse_udp sr (d1 @ d2) = Inr (SocketAddr forged, evil @ d2)"
    by (rule parse_pack [OF assms(1), rotated]) (simp add: assms(2))
  with assms(4-6) show ?thesis
    by (simp add: cu_poll_recv_from_def cu_recv_loop.simps u_poll_recv_def to_socket_addr_def)
qed

theorem socks5_stray_datagram_accepted_witness:
  "snd (cu_poll_recv_from rfc_read 2048 \<lparr> cu_udp = \<lparr> u_recv = [Ready (Inr ([0, 0, 0, 1, 0, 0, 0, 9, 0, 53, 66], SockV4 6 6)),
      Ready (Inr ([0, 0, 0, 1, 0, 0, 0, 5, 0, 53, 7], SockV4 1 2))], u_send = [], u_sent = [] \<rparr>, cu_server_addr = SockV4 1 2, cu_send_buf = [] \<rparr>)
    = Ready (Inr ([66, 0, 0, 0, 1, 0, 0, 0, 5, 0, 53, 7], SockV4 9 53))"
proof -
  let ?c = "\<lparr> cu_udp = \<lparr> u_recv = [Ready (Inr ([0, 0, 0, 1, 0, 0, 0, 9, 0, 53, 66], SockV4 6 6)),
      Ready (Inr ([0, 0, 0, 1, 0, 0, 0, 5, 0, 53, 7], SockV4 1 2))], u_send = [], u_sent = [] \<rparr>, cu_server_addr = SockV4 1 2, cu_send_buf = [] \<rparr>"
  have "pack_udp rfc_write (SocketAddr (SockV4 9 53)) [66] = ([0, 0, 0, 1, 0, 0, 0, 9, 0, 53, 66], Inr ())" by code_simp
  from socks5_stray_datagram_accepted [where c = ?c and stranger = "SockV4 6 6" and room = 2048, OF s5rfc.s5_codec_axioms _ this]
  show ?thesis by simp
qed

text \<open>After a send has failed, the client's socket sends the failed datagram again in place of the next
  one, to which the caller gets a success with the length of a datagram that never left: the buffer is
  cleared on success only.\<close>

theorem socks5_failed_send_replaces_next:
  assumes "cu_send_buf c = []" "pack_udp sw t1 b1 = (d1, Inr ())" "u_send (cu_udp c) = Ready (Inl e) # Ready (Inr ()) # rs"
    and "cu_poll_send_to sw b1 t1 c = (c1, r1)" "cu_poll_send_to sw b2 t2 c1 = (c2, r2)"
  shows "r1 = Ready (Inl e) \<and> r2 = Ready (Inr (length b2)) \<and> u_sent (cu_udp c2) = u_sent (cu_udp c) @ [(d1, SocketAddr (cu_server_addr c))]"
proof -
  from assms(2) have "d1 \<noteq> []" by (auto simp: pack_udp_def split: sum.splits)
  with assms show ?thesis by (auto simp: cu_poll_send_to_def u_poll_send_def)
qed

theorem socks5_failed_send_replaces_next_witness:
  "\<exists>c2. snd (cu_poll_send_to rfc_write [9, 9, 9] (SocketAddr (SockV4 6 53)) c2) = Ready (Inr 3)
    \<and> u_sent (cu_udp (fst (cu_poll_send_to rfc_write [9, 9, 9] (SocketAddr (SockV4 6 53)) c2)))
        = [([0, 0, 0, 1, 0, 0, 0, 5, 0, 53, 7], SocketAddr (SockV4 1 2))]"
proof -
  let ?c = "\<lparr> cu_udp = \<lparr> u_recv = [], u_send = [Ready (Inl (IoError OtherKind ''x'')), Ready (Inr ())], u_sent = [] \<rparr>,
    cu_server_addr = SockV4 1 2, cu_send_buf = [] \<rparr>"
  let ?r = "cu_poll_send_to rfc_write [7] (SocketAddr (SockV4 5 53)) ?c"
  let ?s = "cu_poll_send_to rfc_write [9, 9, 9] (SocketAddr (SockV4 6 53)) (fst ?r)"
  have p: "pack_udp rfc_write (SocketAddr (SockV4 5 53)) [7] = ([0, 0, 0, 1, 0, 0, 0, 5, 0, 53, 7], Inr ())" by code_simp
  have "snd ?s = Ready (Inr 3) \<and> u_sent (cu_udp (fst ?s)) = [([0, 0, 0, 1, 0, 0, 0, 5, 0, 53, 7], SocketAddr (SockV4 1 2))]"
    using socks5_failed_send_replaces_next [where c = ?c, OF _ p _ prod.collapse [symmetric] prod.collapse [symmetric]] by simp
  then show ?thesis by blast
qed

end
