(* ===== verification/Sni_Sniffer.thy ===== *)
theory Sni_Sniffer
  imports Address Errors Poll_Stream Tcp_Copy
begin

section \<open>The SNI sniffer\<close>

text \<open>
  \<open>rd-std/src/sniffer/sni_sniffer.rs\<close>: a connection to an IP address is not opened at once; the first bytes
  the client writes are kept until they show a server name or a timer runs out, and only then the stream
  below is opened, to the name or to the address, and given the bytes. The TLS parser is the crate
  \<open>tls_parser\<close>: its two entry points are parameters. The task that connects is given by the net, the
  timer and the moment the task is finished by arguments of the poll.
\<close>

subsection \<open>The server name\<close>

datatype tls_message = ClientHello "bytes option" | OtherMessage

datatype tls_extension = SNI "(byte \<times> bytes) list" | OtherExtension

record tls_parser =
  tls_plaintext :: "bytes \<Rightarrow> tls_message list option"
  tls_extensions :: "bytes \<Rightarrow> tls_extension list option"

definition is_ascii_alphanumeric :: "char \<Rightarrow> bool" where
  "is_ascii_alphanumeric c = (let n = of_char c :: nat in (48 \<le> n \<and> n \<le> 57) \<or> (65 \<le> n \<and> n \<le> 90) \<or> (97 \<le> n \<and> n \<le> 122))"

definition is_valid_domain :: "string \<Rightarrow> bool" where
  "is_valid_domain d = list_all (\<lambda>c. is_ascii_alphanumeric c \<or> c = CHR ''-'' \<or> c = CHR ''.'') d"

definition client_hello_ext :: "tls_message \<Rightarrow> bytes option" where
  "client_hello_ext m = (case m of ClientHello ext \<Rightarrow> ext | OtherMessage \<Rightarrow> None)"

definition sni_names :: "tls_extension \<Rightarrow> (byte \<times> bytes) list option" where
  "sni_names e = (case e of SNI names \<Rightarrow> Some names | OtherExtension \<Rightarrow> None)"

text \<open>\<open>SNIType::HostName\<close> is 0.\<close>

definition get_sni :: "tls_parser \<Rightarrow> bytes \<Rightarrow> string option" where
  "get_sni tls bs = (case tls_plaintext tls bs of
     None \<Rightarrow> None
   | Some msgs \<Rightarrow>
       (let exts = concat (List.map_filter (tls_extensions tls) (List.map_filter client_hello_ext msgs));
            names = concat (List.map_filter sni_names exts);
            hosts = List.map_filter (\<lambda>(t, data). if t = 0 then Some data else None) names
        in case filter is_valid_domain (List.map_filter from_utf8 hosts) of [] \<Rightarrow> None | d # _ \<Rightarrow> Some d))"

subsection \<open>The net\<close>

record sni_net =
  sn_ports :: "u16 list option"
  sn_force_sniff :: bool

definition need_sniff :: "sni_net \<Rightarrow> address \<Rightarrow> bool" where
  "need_sniff net addr = ((is_socket_addr addr \<or> sn_force_sniff net)
     \<and> (case sn_ports net of Some ports \<Rightarrow> port addr \<in> set ports | None \<Rightarrow> port addr = 443))"

definition BUFFER_SIZE :: nat where
  "BUFFER_SIZE = 1024"

definition extend_buffer :: "bytes \<Rightarrow> bytes \<Rightarrow> bytes \<times> nat" where
  "extend_buffer buffer buf = (let to_copy = min (length buf) (BUFFER_SIZE - length buffer) in (buffer @ take to_copy buf, to_copy))"

text \<open>The task \<open>connect_send\<close>: \<open>write_all\<close> writes until the buffer is used up; \<open>None\<close> means that the task
  has not ended, because the stream answers no more polls.\<close>

function write_all :: "bytes \<Rightarrow> inner \<Rightarrow> inner \<times> unit io option" where
  "write_all buf i =
     (if buf = [] then (i, Some (Inr ()))
      else if i_writes i = [] then (i, None)
      else case inner_write buf i of
        (i', Pending) \<Rightarrow> write_all buf i'
      | (i', Ready (Inl e)) \<Rightarrow> (i', Some (Inl e))
      | (i', Ready (Inr n)) \<Rightarrow>
          if n = 0 then (i', Some (Inl (IoError WriteZero ''failed to write whole buffer''))) else write_all (drop n buf) i')"
  by pat_completeness auto
termination
  by (relation "measure (\<lambda>(buf, i). length (i_writes i))")
    (auto simp: inner_write_def split: list.splits poll.splits sum.splits)

declare write_all.simps [simp del]

record sni_env =
  se_tls :: tls_parser
  se_connect :: "address \<Rightarrow> inner rd"
  se_display :: "rd_error \<Rightarrow> string"

definition connect_send :: "sni_env \<Rightarrow> address \<Rightarrow> bytes \<Rightarrow> inner io option" where
  "connect_send env addr buffer = (case se_connect env addr of
     Inl e \<Rightarrow> Some (Inl (to_io_err (se_display env) e))
   | Inr tcp \<Rightarrow>
       (case write_all buffer tcp of
          (_, None) \<Rightarrow> None
        | (_, Some (Inl e)) \<Rightarrow> Some (Inl e)
        | (tcp', Some (Inr _)) \<Rightarrow> Some (Inr tcp')))"

subsection \<open>The stream\<close>

text \<open>\<open>Joined\<close> is \<open>Connecting\<close> with a task whose failure has been reported: \<open>State::Connecting\<close> is kept, and
  a \<open>JoinHandle\<close> must not be polled after it has returned.\<close>

datatype sni_state = WaitingHandshake address bytes | Connecting address bytes | Joined | Connected inner

definition sniffer_new :: "address \<Rightarrow> sni_state" where
  "sniffer_new addr = WaitingHandshake addr []"

definition sniff_target :: "sni_env \<Rightarrow> bool \<Rightarrow> address \<Rightarrow> bytes \<Rightarrow> address option" where
  "sniff_target env elapsed addr buffer = (case get_sni (se_tls env) buffer of
     Some sni \<Rightarrow> Some (into_normalized (Domain sni (port addr)))
   | None \<Rightarrow> if elapsed then Some addr else None)"

definition sn_join :: "sni_env \<Rightarrow> bool \<Rightarrow> nat \<Rightarrow> address \<Rightarrow> bytes \<Rightarrow> sni_state \<times> bytes io poll" where
  "sn_join env joined room target buffer = (case (if joined then connect_send env target buffer else None) of
     None \<Rightarrow> (Connecting target buffer, Pending)
   | Some (Inl e) \<Rightarrow> (Joined, Ready (Inl e))
   | Some (Inr stream) \<Rightarrow> (case inner_read room stream of (stream', r) \<Rightarrow> (Connected stream', r)))"

definition sn_poll_read :: "sni_env \<Rightarrow> bool \<Rightarrow> bool \<Rightarrow> nat \<Rightarrow> sni_state \<Rightarrow> (sni_state \<times> bytes io poll) may_panic" where
  "sn_poll_read env elapsed joined room s = (case s of
     WaitingHandshake addr buffer \<Rightarrow>
       (case sniff_target env elapsed addr buffer of
          Some target \<Rightarrow> Inr (sn_join env joined room target buffer)
        | None \<Rightarrow> Inr (s, Pending))
   | Connecting target buffer \<Rightarrow> Inr (sn_join env joined room target buffer)
   | Joined \<Rightarrow> Inl (Panic ''JoinHandle polled after completion'')
   | Connected stream \<Rightarrow> (case inner_read room stream of (stream', r) \<Rightarrow> Inr (Connected stream', r)))"

definition sn_poll_write :: "bytes \<Rightarrow> sni_state \<Rightarrow> sni_state \<times> nat io poll" where
  "sn_poll_write buf s = (case s of
     WaitingHandshake addr buffer \<Rightarrow>
       (case extend_buffer buffer buf of (buffer', n) \<Rightarrow> (WaitingHandshake addr buffer', Ready (Inr n)))
   | Connected stream \<Rightarrow> (case inner_write buf stream of (stream', r) \<Rightarrow> (Connected stream', r))
   | _ \<Rightarrow> (s, Pending))"

text \<open>The last two polls pass the answer of the stream through once it exists.\<close>

definition sn_poll_flush :: "unit io poll \<Rightarrow> sni_state \<Rightarrow> unit io poll" where
  "sn_poll_flush answer s = (case s of Connected _ \<Rightarrow> answer | _ \<Rightarrow> Ready (Inr ()))"

definition sn_poll_shutdown :: "unit io poll \<Rightarrow> sni_state \<Rightarrow> unit io poll" where
  "sn_poll_shutdown answer s = (case s of Connected _ \<Rightarrow> answer | _ \<Rightarrow> Ready (Inr ()))"

definition sni_tcp_connect :: "sni_env \<Rightarrow> sni_net \<Rightarrow> address \<Rightarrow> sni_state rd" where
  "sni_tcp_connect env net addr =
     (if need_sniff net addr then Inr (sniffer_new addr) else rbind (se_connect env addr) (\<lambda>tcp. Inr (Connected tcp)))"

subsection \<open>Delivery\<close>

lemma write_all_sent: "write_all buf i = (i', Some (Inr ())) \<Longrightarrow> i_out i' = i_out i @ buf"
proof (induction buf i rule: write_all.induct)
  case (1 buf i)
  from "1.prems" show ?case
    by (subst (asm) write_all.simps)
      (use "1.IH" inner_write_sent [of buf i] in \<open>fastforce split: if_splits prod.splits poll.splits sum.splits\<close>)
qed

datatype sn_op = SnWrite bytes | SnRead bool bool nat

text \<open>A run of polls, with the bytes the writes have accepted.\<close>

fun sn_run :: "sni_env \<Rightarrow> sn_op list \<Rightarrow> sni_state \<Rightarrow> (sni_state \<times> bytes) may_panic" where
  "sn_run env [] s = Inr (s, [])"
| "sn_run env (SnWrite buf # ops) s = (case sn_poll_write buf s of
     (s', r) \<Rightarrow> rbind (sn_run env ops s') (\<lambda>(t, acc). Inr (t, take (case r of Ready (Inr n) \<Rightarrow> n | _ \<Rightarrow> 0) buf @ acc)))"
| "sn_run env (SnRead elapsed joined room # ops) s =
     rbind (sn_poll_read env elapsed joined room s) (\<lambda>(s', _). sn_run env ops s')"

text \<open>What a connection may be opened to, when \<open>acc\<close> has been accepted.\<close>

definition good_target :: "sni_env \<Rightarrow> address \<Rightarrow> bytes \<Rightarrow> address \<Rightarrow> bool" where
  "good_target env addr acc target =
     (case get_sni (se_tls env) acc of Some sni \<Rightarrow> target = into_normalized (Domain sni (port addr)) | None \<Rightarrow> target = addr)"

definition opened :: "sni_env \<Rightarrow> address \<Rightarrow> bytes \<Rightarrow> inner \<Rightarrow> bool" where
  "opened env addr acc i = (\<exists>pre post target i0. acc = pre @ post \<and> length pre \<le> BUFFER_SIZE \<and> good_target env addr pre target
     \<and> se_connect env target = Inr i0 \<and> i_out i = i_out i0 @ acc)"

definition sn_inv :: "sni_env \<Rightarrow> address \<Rightarrow> bytes \<Rightarrow> sni_state \<Rightarrow> bool" where
  "sn_inv env addr acc s = (case s of
     WaitingHandshake a buffer \<Rightarrow> a = addr \<and> buffer = acc \<and> length acc \<le> BUFFER_SIZE
   | Connecting target buffer \<Rightarrow> buffer = acc \<and> length acc \<le> BUFFER_SIZE \<and> good_target env addr acc target
   | Joined \<Rightarrow> True
   | Connected i \<Rightarrow> opened env addr acc i)"

lemma inner_read_out: "inner_read room i = (i', r) \<Longrightarrow> i_out i' = i_out i"
  by (auto simp: inner_read_def split: list.splits poll.splits sum.splits)

lemma connect_send_sent:
  "connect_send env target buffer = Some (Inr i) \<Longrightarrow> \<exists>i0. se_connect env target = Inr i0 \<and> i_out i = i_out i0 @ buffer"
  by (auto simp: connect_send_def dest: write_all_sent split: sum.splits prod.splits option.splits)

lemma opened_new:
  assumes "good_target env addr acc target" "length acc \<le> BUFFER_SIZE" "connect_send env target acc = Some (Inr i)"
  shows "opened env addr acc i"
  using assms(1,2) connect_send_sent [OF assms(3)] unfolding opened_def by (intro exI [of _ acc] exI [of _ "[]"] exI [of _ target]) auto

lemma opened_more: "opened env addr acc i \<Longrightarrow> i_out i' = i_out i @ ys \<Longrightarrow> opened env addr (acc @ ys) i'"
  unfolding opened_def by (metis append.assoc)

lemma opened_read: "opened env addr acc i \<Longrightarrow> inner_read room i = (i', r) \<Longrightarrow> opened env addr acc i'"
  using opened_more [of env addr acc i i' "[]"] inner_read_out by simp

lemma sn_join_inv:
  assumes "good_target env addr acc target" "length acc \<le> BUFFER_SIZE" "sn_join env joined room target acc = (s, r)"
  shows "sn_inv env addr acc s"
proof (cases "if joined then connect_send env target acc else None")
  case (Some x)
  show ?thesis
  proof (cases x)
    case (Inr i)
    with Some have "opened env addr acc i" by (intro opened_new [OF assms(1,2)]) (simp split: if_splits)
    with Some Inr assms(3) show ?thesis by (auto simp: sn_join_def sn_inv_def intro: opened_read split: prod.splits)
  qed (use Some assms(3) in \<open>auto simp: sn_join_def sn_inv_def\<close>)
qed (use assms in \<open>auto simp: sn_join_def sn_inv_def\<close>)

lemma sn_poll_read_inv:
  assumes "sn_inv env addr acc s" "sn_poll_read env elapsed joined room s = Inr (s', r)"
  shows "sn_inv env addr acc s'"
proof (cases s)
  case (WaitingHandshake a buffer)
  then show ?thesis
    using assms sn_join_inv [of env addr acc _ joined room s' r]
    by (auto simp: sn_poll_read_def sn_inv_def sniff_target_def good_target_def split: option.splits if_splits)
next
  case (Connecting target buffer)
  then show ?thesis using assms sn_join_inv by (auto simp: sn_poll_read_def sn_inv_def)
qed (use assms in \<open>auto simp: sn_poll_read_def sn_inv_def intro: opened_read split: prod.splits\<close>)

lemma sn_poll_write_inv:
  assumes "sn_inv env addr acc s" "sn_poll_write buf s = (s', r)" "s \<noteq> Joined"
  shows "sn_inv env addr (acc @ take (case r of Ready (Inr n) \<Rightarrow> n | _ \<Rightarrow> 0) buf) s'"
proof (cases s)
  case (Connected i)
  then obtain i' where "inner_write buf i = (i', r)" "s' = Connected i'" using assms(2) by (auto simp: sn_poll_write_def split: prod.splits)
  moreover from this(1) have "i_out i' = i_out i @ take (case r of Ready (Inr n) \<Rightarrow> n | _ \<Rightarrow> 0) buf"
    by (auto simp: inner_write_def min_def split: list.splits poll.splits sum.splits)
  ultimately show ?thesis using assms(1) Connected by (auto simp: sn_inv_def intro: opened_more)
qed (use assms in \<open>auto simp: sn_poll_write_def sn_inv_def extend_buffer_def Let_def\<close>)

lemma sn_run_inv:
  assumes "sn_inv env addr acc s" "sn_run env ops s = Inr (t, acc')" "t \<noteq> Joined"
  shows "sn_inv env addr (acc @ acc') t"
  using assms
proof (induction env ops s arbitrary: acc acc' rule: sn_run.induct)
  case (2 env buf ops s)
  have "s \<noteq> Joined"
  proof
    assume "s = Joined"
    moreover have "sn_run env ops Joined = Inr (u, b) \<Longrightarrow> u = Joined" for ops u b
      by (induction env ops Joined arbitrary: u b rule: sn_run.induct)
        (auto simp: sn_poll_write_def sn_poll_read_def elim!: rbind_InrE)
    ultimately show False using "2.prems"(2,3) by (auto simp: sn_poll_write_def elim!: rbind_InrE)
  qed
  then show ?case
    using "2.prems" "2.IH" sn_poll_write_inv [OF "2.prems"(1)] by (fastforce split: prod.splits elim!: rbind_InrE)
next
  case (3 env elapsed joined room ops s)
  then show ?case using sn_poll_read_inv [OF "3.prems"(1)] by (fastforce elim!: rbind_InrE)
qed simp

text \<open>C28: The SNI sniffer loses nothing and connects where the handshake says. Whatever writes and reads are
  polled and whenever the timer runs out and the connecting task ends: once the stream is connected, it has
  been given exactly the bytes the writes accepted, in order, and it was opened to the server name found in
  an initial portion of at most 1024 of these bytes, or to the original address when they show none.\<close>

theorem sniffer_delivers:
  assumes "sn_run env ops (sniffer_new addr) = Inr (Connected i, acc)"
  shows "\<exists>pre post target i0. acc = pre @ post \<and> length pre \<le> 1024
    \<and> target = (case get_sni (se_tls env) pre of Some sni \<Rightarrow> into_normalized (Domain sni (port addr)) | None \<Rightarrow> addr)
    \<and> se_connect env target = Inr i0 \<and> i_out i = i_out i0 @ acc"
proof -
  have "sn_inv env addr [] (sniffer_new addr)" by (simp add: sn_inv_def sniffer_new_def)
  from sn_run_inv [OF this assms] have "opened env addr acc i" by (simp add: sn_inv_def)
  then show ?thesis unfolding opened_def good_target_def BUFFER_SIZE_def by (fastforce split: option.splits)
qed

text \<open>A TLS parser for the examples: a record is a name, complete from three bytes on.\<close>

definition tls0 :: tls_parser where
  "tls0 = \<lparr> tls_plaintext = \<lambda>bs. if 3 \<le> length bs then Some [OtherMessage, ClientHello (Some bs)] else None,
     tls_extensions = \<lambda>ext. Some [OtherExtension, SNI [(1, []), (0, ext)]] \<rparr>"

definition sni_env0 :: sni_env where
  "sni_env0 = \<lparr> se_tls = tls0, se_connect = \<lambda>a. Inr \<lparr> i_out = [], i_writes = [Ready (Inr 1), Pending, Ready (Inr 9), Ready (Inr 9)], i_reads = [] \<rparr>,
     se_display = \<lambda>_. [] \<rparr>"

lemma sni0: "get_sni tls0 [97] = None" "get_sni tls0 [97, 46, 98] = Some ''a.b''"
  by code_simp+

lemma sniffer_example:
  "sn_run sni_env0 [SnWrite [97], SnRead False False 8, SnWrite [46, 98], SnRead False True 8, SnWrite [99]]
     (sniffer_new (SocketAddr (SockV4 7 443)))
   = Inr (Connected \<lparr> i_out = [97, 46, 98, 99], i_writes = [], i_reads = [] \<rparr>, [97, 46, 98, 99])"
  using sni0 by (simp add: sniffer_new_def sn_poll_write_def sn_poll_read_def sniff_target_def extend_buffer_def BUFFER_SIZE_def
      sn_join_def connect_send_def write_all.simps inner_write_def inner_read_def sni_env0_def)

theorem sniffer_delivers_witness:
  "\<exists>pre post target i0. [97, 46, 98, 99] = pre @ post \<and> length pre \<le> 1024
    \<and> target = (case get_sni (se_tls sni_env0) pre of Some sni \<Rightarrow> into_normalized (Domain sni (port (SocketAddr (SockV4 7 443))))
        | None \<Rightarrow> SocketAddr (SockV4 7 443))
    \<and> se_connect sni_env0 target = Inr i0 \<and> i_out \<lparr> i_out = [97, 46, 98, 99], i_writes = [], i_reads = [] \<rparr> = i_out i0 @ [97, 46, 98, 99]"
  by (rule sniffer_delivers [OF sniffer_example])

text \<open>A first portion of more than 1024 bytes breaks a sniffed connection. The sniffer takes 1024 bytes and
  answers the rest with a write of zero bytes, before it has looked for a server name; the relay, which
  writes out all it has read before it polls anything else, takes that for an error and ends the connection.\<close>

theorem sniffer_long_first_write:
  assumes "1024 < length buf" "sn_poll_write buf (sniffer_new addr) = (s1, r1)" "sn_poll_write (drop 1024 buf) s1 = (s2, r2)"
    and "cb_pos cb = 0" "cb_cap cb = length buf" "take (length buf) (cb_buf cb) = buf" "tx w = r1 # r2 # answers"
  shows "r1 = Ready (Inr 1024) \<and> r2 = Ready (Inr 0) \<and> snd (snd (write_out cb w)) = Some (Ready (Inl write_zero))"
proof -
  have "buf \<noteq> []" using assms(1) by auto
  have r: "r1 = Ready (Inr 1024)" "r2 = Ready (Inr 0)"
    using assms(1-3) by (auto simp: sn_poll_write_def sniffer_new_def extend_buffer_def BUFFER_SIZE_def Let_def)
  have "write_out cb w = write_out (cb\<lparr> cb_pos := 1024, cb_amt := cb_amt cb + word_of_nat 1024, need_flush := True \<rparr>)
      (w\<lparr> tx := r2 # answers, out := out w @ take 1024 buf \<rparr>)"
    using assms(1,4-7) r \<open>buf \<noteq> []\<close> by (subst write_out.simps) (simp add: s_write_def min_absorb1)
  also have "snd (snd \<dots>) = Some (Ready (Inl write_zero))"
    using assms(1,5) r(2) by (subst write_out.simps) (simp add: s_write_def)
  finally show ?thesis using r by simp
qed

theorem sniffer_long_first_write_witness:
  "\<exists>r1 r2. snd (snd (write_out \<lparr> read_done = False, need_flush = False, cb_pos = 0, cb_cap = 1025, cb_amt = 0, cb_buf = replicate 2048 7 \<rparr>
    \<lparr> rx = [], tx = [r1, r2], fl = [], sd = [], out = [] \<rparr>)) = Some (Ready (Inl write_zero)) \<and> r1 = Ready (Inr 1024)"
  using sniffer_long_first_write [of "replicate 1025 7", OF _ surjective_pairing surjective_pairing,
      where cb = "\<lparr> read_done = False, need_flush = False, cb_pos = 0, cb_cap = 1025, cb_amt = 0, cb_buf = replicate 2048 7 \<rparr>"
        and w = "\<lparr> rx = [], tx = [r1, r2], fl = [], sd = [], out = [] \<rparr>" for r1 r2]
  by simp blast

text \<open>After a failed connection has been reported, the next read panics.\<close>

lemma sniffer_failed_connect_panics:
  assumes "sniff_target env elapsed addr buffer = Some target" "connect_send env target buffer = Some (Inl e)"
  shows "\<exists>s. sn_poll_read env elapsed True room (WaitingHandshake addr buffer) = Inr (s, Ready (Inl e))
    \<and> sn_poll_read env elapsed' joined' room' s = Inl (Panic ''JoinHandle polled after completion'')"
  using assms by (simp add: sn_poll_read_def sn_join_def)

text \<open>A connection that is not sniffed is opened at once, to its address.\<close>

lemma sni_not_sniffed: "\<not> need_sniff net addr \<Longrightarrow> sni_tcp_connect env net addr = rbind (se_connect env addr) (\<lambda>tcp. Inr (Connected tcp))"
  by (simp add: sni_tcp_connect_def)

lemma sni_default_ports: "sn_ports net = None \<Longrightarrow> need_sniff net addr \<Longrightarrow> port addr = 443"
  by (simp add: need_sniff_def)

end
