(* ===== verification/Dns_Sniffer.thy ===== *)
theory Dns_Sniffer
  imports Address Conn_Context
begin

section \<open>The DNS sniffer\<close>

text \<open>
  \<open>rd-std/src/sniffer/dns_sniffer.rs\<close> and \<open>service.rs\<close>: answers of name servers that pass through the UDP
  sockets of this net are remembered, and a later TCP connection to an answered address is turned back into
  a connection to the name that was asked for. The DNS decoder (\<open>trust_dns_proto\<close>) and the two caches
  (\<open>lru_time_cache\<close>, which also forgets entries by age and by number) are parameters; the locale
  \<open>name_cache\<close> has what is relied on: a cache never makes entries up.
\<close>

datatype rdata = A_data u32 | AAAA_data "128 word" | CNAME_data string | Other_data

record dns_message =
  dm_queries :: "string list"
  dm_answers :: "rdata option list"

record ('c, 'k) cache_ops =
  co_peek :: "'c \<Rightarrow> 'k \<Rightarrow> string option"
  co_get :: "'k \<Rightarrow> 'c \<Rightarrow> 'c \<times> string option"
  co_insert :: "'k \<Rightarrow> string \<Rightarrow> 'c \<Rightarrow> 'c"

locale name_cache =
  fixes ops :: "('c, 'k) cache_ops"
  assumes peek_insert: "co_peek ops (co_insert ops k v c) k = Some v"
    and insert_other: "k' \<noteq> k \<Longrightarrow> co_peek ops (co_insert ops k v c) k' = Some w \<Longrightarrow> co_peek ops c k' = Some w"
    and get_result: "snd (co_get ops k c) = co_peek ops c k"
    and get_keeps: "co_peek ops (fst (co_get ops k c)) k' = Some w \<Longrightarrow> co_peek ops c k' = Some w"
begin

lemma peek_inserted: "co_peek ops (co_insert ops k v c) k' = Some w \<Longrightarrow> (k' = k \<and> w = v) \<or> (k' \<noteq> k \<and> co_peek ops c k' = Some w)"
  using insert_other [of k' k v c w] by (cases "k' = k") (simp_all add: peek_insert)

lemma insert_le:
  assumes "co_peek ops c \<subseteq>\<^sub>m m"
  shows "co_peek ops (co_insert ops k v c) \<subseteq>\<^sub>m m(k \<mapsto> v)"
  unfolding map_le_def
proof
  fix k' assume "k' \<in> dom (co_peek ops (co_insert ops k v c))"
  then obtain w where w: "co_peek ops (co_insert ops k v c) k' = Some w" by blast
  from peek_inserted [OF w] show "co_peek ops (co_insert ops k v c) k' = (m(k \<mapsto> v)) k'"
  proof
    assume "k' \<noteq> k \<and> co_peek ops c k' = Some w"
    with w assms show ?thesis by (metis domI fun_upd_apply map_le_def)
  qed (simp add: peek_insert)
qed

lemma get_le: "co_peek ops c \<subseteq>\<^sub>m m \<Longrightarrow> co_peek ops (fst (co_get ops k c)) \<subseteq>\<^sub>m m"
  using get_keeps [of k c] by (fastforce simp: map_le_def dom_def)

end

subsection \<open>Recording and looking up\<close>

record ('r, 'm) reverse_lookup =
  rl_records :: 'r
  rl_cname_map :: 'm

record ('r, 'm) rl_env =
  re_records :: "('r, ip_addr) cache_ops"
  re_cnames :: "('m, string) cache_ops"
  re_decode :: "bytes \<Rightarrow> dns_message option"

definition trim_dots :: "string \<Rightarrow> string" where
  "trim_dots s = rev (dropWhile (\<lambda>c. c = CHR ''.'') (rev s))"

definition record_answer :: "('r, 'm) rl_env \<Rightarrow> string \<Rightarrow> rdata \<Rightarrow> ('r, 'm) reverse_lookup \<Rightarrow> ('r, 'm) reverse_lookup" where
  "record_answer env name d rl = (case d of
     A_data ip \<Rightarrow> rl\<lparr> rl_records := co_insert (re_records env) (IpV4 ip) name (rl_records rl) \<rparr>
   | AAAA_data ip \<Rightarrow> rl\<lparr> rl_records := co_insert (re_records env) (IpV6 ip) name (rl_records rl) \<rparr>
   | CNAME_data cname \<Rightarrow> rl\<lparr> rl_cname_map := co_insert (re_cnames env) (trim_dots cname) name (rl_cname_map rl) \<rparr>
   | Other_data \<Rightarrow> rl)"

definition accepted_message :: "('r, 'm) rl_env \<Rightarrow> bytes \<Rightarrow> (string \<times> rdata list) option" where
  "accepted_message env packet = (case re_decode env packet of
     Some msg \<Rightarrow> (case dm_queries msg of [q] \<Rightarrow> Some (trim_dots q, List.map_filter id (dm_answers msg)) | _ \<Rightarrow> None)
   | None \<Rightarrow> None)"

definition record_packet :: "('r, 'm) rl_env \<Rightarrow> bytes \<Rightarrow> ('r, 'm) reverse_lookup \<Rightarrow> ('r, 'm) reverse_lookup" where
  "record_packet env packet rl = (case accepted_message env packet of
     None \<Rightarrow> rl
   | Some (name, answers) \<Rightarrow> fold (record_answer env name) answers rl)"

text \<open>The loop that follows aliases, with its limit.\<close>

fun follow_cname :: "(string \<Rightarrow> string option) \<Rightarrow> nat \<Rightarrow> string \<Rightarrow> string" where
  "follow_cname peek limit d = (case peek d of
     None \<Rightarrow> d
   | Some r \<Rightarrow> if r = d then d else (case limit of 0 \<Rightarrow> d | Suc l \<Rightarrow> follow_cname peek l r))"

declare follow_cname.simps [simp del]

definition rl_reverse_lookup :: "('r, 'm) rl_env \<Rightarrow> ip_addr \<Rightarrow> ('r, 'm) reverse_lookup \<Rightarrow> ('r, 'm) reverse_lookup \<times> string option" where
  "rl_reverse_lookup env ip rl = (case co_get (re_records env) ip (rl_records rl) of
     (records, found) \<Rightarrow>
       (rl\<lparr> rl_records := records \<rparr>, map_option (follow_cname (co_peek (re_cnames env) (rl_cname_map rl)) 16) found))"

subsection \<open>The net\<close>

definition dns_reverse_lookup ::
  "('r, 'm) rl_env \<Rightarrow> (address_domain \<Rightarrow> string + json) \<Rightarrow> conn_context \<Rightarrow> address \<Rightarrow> ('r, 'm) reverse_lookup
   \<Rightarrow> (('r, 'm) reverse_lookup \<times> conn_context \<times> address) may_panic" where
  "dns_reverse_lookup env to_json ctx addr rl = (case addr of
     Domain _ _ \<Rightarrow> Inr (rl, ctx, addr)
   | SocketAddr sa \<Rightarrow>
       (case rl_reverse_lookup env (sock_ip sa) rl of
          (rl', None) \<Rightarrow> Inr (rl', ctx, addr)
        | (rl', Some name) \<Rightarrow>
            rbind (map_err (\<lambda>_. Panic ''Failed to insert domain'')
                     (ctx_insert to_json KEY_dest_domain \<lparr> ad_domain = name, ad_port = sock_port sa \<rparr> ctx)) (\<lambda>ctx'.
            Inr (rl', ctx', Domain name (sock_port sa)))))"

definition dns_tcp_connect ::
  "('r, 'm) rl_env \<Rightarrow> (address_domain \<Rightarrow> string + json) \<Rightarrow> (conn_context \<Rightarrow> address \<Rightarrow> 's rd) \<Rightarrow> conn_context \<Rightarrow> address
   \<Rightarrow> ('r, 'm) reverse_lookup \<Rightarrow> (('r, 'm) reverse_lookup \<times> 's rd) may_panic" where
  "dns_tcp_connect env to_json connect ctx addr rl =
     rbind (dns_reverse_lookup env to_json ctx addr rl) (\<lambda>(rl', ctx', addr'). Inr (rl', connect ctx' addr'))"

text \<open>\<open>MitmUdp::poll_recv_from\<close>, given the answer of the socket below; sending is passed through.\<close>

definition mitm_recv_from ::
  "('r, 'm) rl_env \<Rightarrow> (bytes \<times> socket_addr) io poll \<Rightarrow> ('r, 'm) reverse_lookup \<Rightarrow> ('r, 'm) reverse_lookup \<times> (bytes \<times> socket_addr) io poll" where
  "mitm_recv_from env answer rl = (case answer of
     Ready (Inr (filled, from)) \<Rightarrow> (if sock_port from = 53 then record_packet env filled rl else rl, answer)
   | _ \<Rightarrow> (rl, answer))"

subsection \<open>Two caches\<close>

text \<open>A cache that forgets nothing, the reference for the theorems, and one with the crate's least recently
  used order and its capacity.\<close>

definition ideal_ops :: "('k \<Rightarrow> string option, 'k) cache_ops" where
  "ideal_ops = \<lparr> co_peek = \<lambda>c. c, co_get = \<lambda>k c. (c, c k), co_insert = \<lambda>k v c. c(k \<mapsto> v) \<rparr>"

definition lru_ops :: "nat \<Rightarrow> (('k \<times> string) list, 'k) cache_ops" where
  "lru_ops capacity = \<lparr>
     co_peek = \<lambda>c k. map_of c k,
     co_get = \<lambda>k c. (case map_of c k of None \<Rightarrow> (c, None) | Some v \<Rightarrow> ((k, v) # filter (\<lambda>p. fst p \<noteq> k) c, Some v)),
     co_insert = \<lambda>k v c. take (Suc capacity) ((k, v) # filter (\<lambda>p. fst p \<noteq> k) c) \<rparr>"

interpretation ideal: name_cache ideal_ops
  by unfold_locales (auto simp: ideal_ops_def split: if_splits)

interpretation lru_names: name_cache "lru_ops capacity" for capacity
  by unfold_locales
    (auto simp: lru_ops_def map_of_filter_ne split: option.splits if_splits dest: map_of_take)

subsection \<open>No name is made up\<close>

definition ideal_env :: "('r, 'm) rl_env \<Rightarrow> (ip_addr \<Rightarrow> string option, string \<Rightarrow> string option) rl_env" where
  "ideal_env env = \<lparr> re_records = ideal_ops, re_cnames = ideal_ops, re_decode = re_decode env \<rparr>"

text \<open>What the caches hold is part of what the reference holds.\<close>

definition rl_le :: "('r, 'm) rl_env \<Rightarrow> ('r, 'm) reverse_lookup \<Rightarrow> (ip_addr \<Rightarrow> string option, string \<Rightarrow> string option) reverse_lookup \<Rightarrow> bool" where
  "rl_le env rl spec = (co_peek (re_records env) (rl_records rl) \<subseteq>\<^sub>m rl_records spec \<and> co_peek (re_cnames env) (rl_cname_map rl) \<subseteq>\<^sub>m rl_cname_map spec)"

lemma record_answer_le:
  assumes "name_cache (re_records env)" "name_cache (re_cnames env)" "rl_le env rl spec"
  shows "rl_le env (record_answer env name d rl) (record_answer (ideal_env env) name d spec)"
  using assms(3) name_cache.insert_le [OF assms(1)] name_cache.insert_le [OF assms(2)]
  by (cases d) (simp_all add: rl_le_def record_answer_def ideal_env_def ideal_ops_def)

lemma record_packet_le:
  assumes "name_cache (re_records env)" "name_cache (re_cnames env)" "rl_le env rl spec"
  shows "rl_le env (record_packet env p rl) (record_packet (ideal_env env) p spec)"
proof -
  have "rl_le env (fold (record_answer env name) ds rl) (fold (record_answer (ideal_env env) name) ds spec)" for name ds
    using assms(3) by (induction ds arbitrary: rl spec) (simp_all add: record_answer_le [OF assms(1,2)])
  moreover have "accepted_message (ideal_env env) p = accepted_message env p" by (simp add: accepted_message_def ideal_env_def)
  ultimately show ?thesis using assms(3) by (simp add: record_packet_def split: option.splits)
qed

lemma lookup_le:
  assumes "name_cache (re_records env)" "rl_le env rl spec"
  shows "rl_le env (fst (rl_reverse_lookup env ip rl)) spec"
  using assms(2) name_cache.get_le [OF assms(1), of "rl_records rl" "rl_records spec" ip]
  by (simp add: rl_le_def rl_reverse_lookup_def case_prod_unfold)

datatype rl_event = DnsPacket bytes | ReverseLookup ip_addr

fun rl_run :: "('r, 'm) rl_env \<Rightarrow> rl_event list \<Rightarrow> ('r, 'm) reverse_lookup \<Rightarrow> ('r, 'm) reverse_lookup" where
  "rl_run env [] rl = rl"
| "rl_run env (DnsPacket p # evs) rl = rl_run env evs (record_packet env p rl)"
| "rl_run env (ReverseLookup ip # evs) rl = rl_run env evs (fst (rl_reverse_lookup env ip rl))"

lemma rl_run_append: "rl_run env (xs @ ys) rl = rl_run env ys (rl_run env xs rl)"
  by (induction env xs rl rule: rl_run.induct) simp_all

lemma ideal_lookup: "rl_reverse_lookup (ideal_env env) ip spec = (spec, map_option (follow_cname (rl_cname_map spec) 16) (rl_records spec ip))"
  by (simp add: rl_reverse_lookup_def ideal_env_def ideal_ops_def)

lemma rl_run_le:
  assumes "name_cache (re_records env)" "name_cache (re_cnames env)" "rl_le env rl spec"
  shows "rl_le env (rl_run env evs rl) (rl_run (ideal_env env) evs spec)"
  using assms(3)
proof (induction evs arbitrary: rl spec)
  case (Cons e evs)
  then show ?case
    by (cases e) (simp_all add: record_packet_le [OF assms(1,2)] lookup_le [OF assms(1)] ideal_lookup)
qed simp

lemma follow_cname_reaches:
  assumes "peek \<subseteq>\<^sub>m m"
  shows "(d, follow_cname peek limit d) \<in> {(a, b). m a = Some b}\<^sup>*"
proof (induction limit arbitrary: d)
  case (Suc l)
  show ?case
  proof (cases "peek d")
    case (Some r)
    with assms have "(d, r) \<in> {(a, b). m a = Some b}" by (force simp: map_le_def dom_def)
    with Suc [of r] Some show ?thesis by (auto simp: follow_cname.simps [of _ "Suc l"] intro: converse_rtrancl_into_rtrancl)
  qed (simp add: follow_cname.simps)
qed (simp add: follow_cname.simps split: option.splits)

subsection \<open>Recovered names\<close>

text \<open>What has been heard, from the decoded messages alone: for every message with one query, each answer that was decoded, with the
  name asked for. \<open>last_said\<close> is the name of the last answer of a kind.\<close>

definition heard_in :: "('r, 'm) rl_env \<Rightarrow> bytes \<Rightarrow> (string \<times> rdata) list" where
  "heard_in env p = (case re_decode env p of
     Some m \<Rightarrow> if length (dm_queries m) = 1 then map (Pair (trim_dots (hd (dm_queries m)))) [d. Some d \<leftarrow> dm_answers m] else []
   | None \<Rightarrow> [])"

definition heard :: "('r, 'm) rl_env \<Rightarrow> rl_event list \<Rightarrow> (string \<times> rdata) list" where
  "heard env evs = concat (map (\<lambda>e. case e of DnsPacket p \<Rightarrow> heard_in env p | ReverseLookup _ \<Rightarrow> []) evs)"

definition last_said :: "(rdata \<Rightarrow> bool) \<Rightarrow> (string \<times> rdata) list \<Rightarrow> string option" where
  "last_said P hs = (let given = filter (\<lambda>(_, d). P d) hs in if given = [] then None else Some (fst (last given)))"

fun gives_address :: "ip_addr \<Rightarrow> rdata \<Rightarrow> bool" where
  "gives_address (IpV4 ip) d = (d = A_data ip)"
| "gives_address (IpV6 ip) d = (d = AAAA_data ip)"

fun gives_alias :: "string \<Rightarrow> rdata \<Rightarrow> bool" where
  "gives_alias a (CNAME_data c) = (trim_dots c = a)"
| "gives_alias a _ = False"

lemma last_said_append: "last_said P (xs @ ys) = (case last_said P ys of None \<Rightarrow> last_said P xs | r \<Rightarrow> r)"
  by (simp add: last_said_def last_append Let_def)

lemma last_said_one: "last_said P [(n, d)] = (if P d then Some n else None)"
  by (simp add: last_said_def)

lemma last_said_Nil [simp]: "last_said P [] = None"
  by (simp add: last_said_def)

text \<open>The ideal caches hold what was said last.\<close>

definition holds_said :: "(ip_addr \<Rightarrow> string option, string \<Rightarrow> string option) reverse_lookup \<Rightarrow> (string \<times> rdata) list \<Rightarrow> bool" where
  "holds_said spec hs = ((\<forall>ip. rl_records spec ip = last_said (gives_address ip) hs) \<and> (\<forall>a. rl_cname_map spec a = last_said (gives_alias a) hs))"

lemma gives_address_iff [simp]:
  "gives_address ip (A_data x) \<longleftrightarrow> ip = IpV4 x" "gives_address ip (AAAA_data y) \<longleftrightarrow> ip = IpV6 y"
  "\<not> gives_address ip (CNAME_data c)" "\<not> gives_address ip Other_data"
  by (cases ip; auto)+

lemma record_answer_said: "holds_said spec hs \<Longrightarrow> holds_said (record_answer (ideal_env env) name d spec) (hs @ [(name, d)])"
  by (cases d) (auto simp: holds_said_def record_answer_def ideal_env_def ideal_ops_def last_said_append last_said_one split: option.split)

lemma record_answers_said:
  "holds_said spec hs \<Longrightarrow> holds_said (fold (record_answer (ideal_env env) name) ds spec) (hs @ map (Pair name) ds)"
proof (induction ds arbitrary: spec hs)
  case (Cons d ds)
  from Cons.IH [OF record_answer_said [OF Cons.prems, of env name d]] show ?case by simp
qed simp

lemma decoded_answers: "List.map_filter id ds = [d. Some d \<leftarrow> ds]"
  by (induction ds) (auto simp: map_filter_simps split: option.split)

lemma record_packet_said: "holds_said spec hs \<Longrightarrow> holds_said (record_packet (ideal_env env) p spec) (hs @ heard_in env p)"
proof (cases "re_decode env p")
  case (Some m)
  assume said: "holds_said spec hs"
  have acc: "accepted_message (ideal_env env) p = (case dm_queries m of [q] \<Rightarrow> Some (trim_dots q, [d. Some d \<leftarrow> dm_answers m]) | _ \<Rightarrow> None)"
    using Some by (simp add: accepted_message_def ideal_env_def decoded_answers split: list.split)
  show ?thesis
  proof (cases "\<exists>q. dm_queries m = [q]")
    case True
    with Some acc record_answers_said [OF said, of env _ "[d. Some d \<leftarrow> dm_answers m]"] show ?thesis
      by (auto simp: record_packet_def heard_in_def)
  next
    case False
    then have "length (dm_queries m) \<noteq> 1" by (auto simp: length_Suc_conv)
    moreover from False have "accepted_message (ideal_env env) p = None" using acc by (auto split: list.split)
    ultimately show ?thesis using Some said by (simp add: record_packet_def heard_in_def)
  qed
qed (simp add: record_packet_def accepted_message_def ideal_env_def heard_in_def)

lemma rl_run_said: "holds_said spec hs \<Longrightarrow> holds_said (rl_run (ideal_env env) evs spec) (hs @ heard env evs)"
proof (induction evs arbitrary: spec hs)
  case (Cons e evs)
  show ?case
  proof (cases e)
    case (DnsPacket p)
    from Cons.IH [OF record_packet_said [OF Cons.prems, of env p]] show ?thesis by (simp add: DnsPacket heard_def)
  next
    case (ReverseLookup ip)
    from Cons.IH [OF Cons.prems] show ?thesis by (simp add: ReverseLookup heard_def ideal_lookup)
  qed
qed (simp add: heard_def)

text \<open>C29: The DNS sniffer never makes a name up. After any packets and lookups, whatever the caches have
  dropped in between, a name that is returned for an address is the name asked for in the last message that
  gave this address in an answer, or is reached from it by going from an alias to the name whose last message gave it.\<close>

theorem reverse_lookup_sound:
  assumes "name_cache (re_records env)" "name_cache (re_cnames env)"
    and "co_peek (re_records env) (rl_records rl0) = (\<lambda>_. None)" "co_peek (re_cnames env) (rl_cname_map rl0) = (\<lambda>_. None)"
    and "snd (rl_reverse_lookup env ip (rl_run env evs rl0)) = Some name"
  shows "\<exists>asked. last_said (gives_address ip) (heard env evs) = Some asked
    \<and> (asked, name) \<in> {(alias, n). last_said (gives_alias alias) (heard env evs) = Some n}\<^sup>*"
proof -
  let ?empty = "\<lparr> rl_records = \<lambda>_. None, rl_cname_map = \<lambda>_. None \<rparr>"
  let ?spec = "rl_run (ideal_env env) evs ?empty"
  let ?rl = "rl_run env evs rl0"
  have "rl_le env rl0 ?empty" using assms(3,4) by (simp add: rl_le_def)
  from rl_run_le [OF assms(1,2) this] have le: "rl_le env ?rl ?spec" .
  have "holds_said ?empty []" by (simp add: holds_said_def)
  from rl_run_said [OF this, of env evs] have said: "rl_records ?spec ip = last_said (gives_address ip) (heard env evs)"
    "rl_cname_map ?spec a = last_said (gives_alias a) (heard env evs)" for a
    by (simp_all add: holds_said_def)
  from assms(5) obtain asked where a: "co_peek (re_records env) (rl_records ?rl) ip = Some asked"
    "name = follow_cname (co_peek (re_cnames env) (rl_cname_map ?rl)) 16 asked"
    by (auto simp: rl_reverse_lookup_def name_cache.get_result [OF assms(1), symmetric] split: prod.splits)
  with le have "rl_records ?spec ip = Some asked" by (force simp: rl_le_def map_le_def dom_def)
  moreover from le have "(asked, name) \<in> {(alias, n). rl_cname_map ?spec alias = Some n}\<^sup>*"
    unfolding a(2) rl_le_def by (intro follow_cname_reaches) simp
  ultimately show ?thesis unfolding said by blast
qed

text \<open>A decoder for the examples: one query for \<open>www.x.\<close> with an alias and an address.\<close>

definition dns_env0 :: "((ip_addr \<times> string) list, (string \<times> string) list) rl_env" where
  "dns_env0 = \<lparr> re_records = lru_ops 127, re_cnames = lru_ops 127,
     re_decode = \<lambda>bs. if bs = [] then None
       else Some \<lparr> dm_queries = [''www.x.''], dm_answers = [Some (CNAME_data ''cdn.x.''), None, Some (A_data (ucast (hd bs)))] \<rparr> \<rparr>"

definition empty_lookup :: "((ip_addr \<times> string) list, (string \<times> string) list) reverse_lookup" where
  "empty_lookup = \<lparr> rl_records = [], rl_cname_map = [] \<rparr>"

lemma lookup_example:
  "snd (rl_reverse_lookup dns_env0 (IpV4 9) (rl_run dns_env0 [DnsPacket [9], DnsPacket [], ReverseLookup (IpV4 8)] empty_lookup)) = Some ''www.x''"
  by (simp add: dns_env0_def empty_lookup_def record_packet_def accepted_message_def trim_dots_def record_answer_def lru_ops_def
      rl_reverse_lookup_def follow_cname.simps map_filter_simps)

lemma reverse_lookup_sound_witness:
  "last_said (gives_address (IpV4 9)) (heard dns_env0 [DnsPacket [9], DnsPacket [], ReverseLookup (IpV4 8)]) = Some ''www.x''
   \<and> (''www.x'', ''www.x'') \<in> {(alias, n). last_said (gives_alias alias) (heard dns_env0 [DnsPacket [9], DnsPacket [], ReverseLookup (IpV4 8)]) = Some n}\<^sup>*"
proof -
  have "name_cache (re_records dns_env0)" "name_cache (re_cnames dns_env0)"
    by (simp_all add: dns_env0_def lru_names.name_cache_axioms)
  moreover have "co_peek (re_records dns_env0) (rl_records empty_lookup) = (\<lambda>_. None)" "co_peek (re_cnames dns_env0) (rl_cname_map empty_lookup) = (\<lambda>_. None)"
    by (simp_all add: dns_env0_def empty_lookup_def lru_ops_def)
  ultimately have "\<exists>asked. last_said (gives_address (IpV4 9)) (heard dns_env0 [DnsPacket [9], DnsPacket [], ReverseLookup (IpV4 8)]) = Some asked
    \<and> (asked, ''www.x'') \<in> {(alias, n). last_said (gives_alias alias) (heard dns_env0 [DnsPacket [9], DnsPacket [], ReverseLookup (IpV4 8)]) = Some n}\<^sup>*"
    using lookup_example by (rule reverse_lookup_sound)
  moreover have "last_said (gives_address (IpV4 9)) (heard dns_env0 [DnsPacket [9], DnsPacket [], ReverseLookup (IpV4 8)]) = Some ''www.x''"
    by (simp add: heard_def heard_in_def dns_env0_def trim_dots_def last_said_def Let_def)
  ultimately show ?thesis by simp
qed

text \<open>A sniffed answer takes effect at once: when a packet from port 53 that asks for one name ends with an
  address record, the next connection to that address goes, with the same port, to a domain name, the one
  asked for when it is not itself a recorded alias, and the connection context carries the same domain.\<close>

theorem dns_sniffer_recovers:
  assumes "name_cache (re_records env)" "accepted_message env packet = Some (asked, answers @ [A_data ip])" "sock_port server = 53"
    and "mitm_recv_from env (Ready (Inr (packet, server))) rl = (rl', r)"
    and "\<And>a. to_json a = Inr (JStr (show_address_domain a))"
  shows "\<exists>name rl'' ctx'. dns_tcp_connect env to_json connect ctx (SocketAddr (SockV4 ip p)) rl' = Inr (rl'', connect ctx' (Domain name p))
    \<and> hm_get (ctx_data ctx') KEY_dest_domain = Some (JStr (show_address_domain \<lparr> ad_domain = name, ad_port = p \<rparr>))
    \<and> (co_peek (re_cnames env) (rl_cname_map rl') asked = None \<longrightarrow> name = asked)"
proof -
  have "co_peek (re_records env) (rl_records rl') (IpV4 ip) = Some asked"
    using assms(2-4) by (auto simp: mitm_recv_from_def record_packet_def record_answer_def name_cache.peek_insert [OF assms(1)])
  moreover define name where "name = follow_cname (co_peek (re_cnames env) (rl_cname_map rl')) 16 asked"
  ultimately obtain rl'' where rl'': "rl_reverse_lookup env (IpV4 ip) rl' = (rl'', Some name)"
    using name_cache.get_result [OF assms(1), of "IpV4 ip" "rl_records rl'"]
    by (simp add: rl_reverse_lookup_def case_prod_unfold)
  let ?ctx = "ctx\<lparr> ctx_data := hm_insert KEY_dest_domain (JStr (show_address_domain \<lparr> ad_domain = name, ad_port = p \<rparr>)) (ctx_data ctx) \<rparr>"
  show ?thesis
  proof (intro exI conjI)
    show "dns_tcp_connect env to_json connect ctx (SocketAddr (SockV4 ip p)) rl' = Inr (rl'', connect ?ctx (Domain name p))"
      using rl'' by (simp add: dns_tcp_connect_def dns_reverse_lookup_def ctx_insert_def assms(5))
  qed (simp_all add: name_def follow_cname.simps)
qed

theorem dns_sniffer_recovers_witness:
  "\<exists>name rl'' (ctx' :: conn_context). dns_tcp_connect dns_env0 (\<lambda>a. Inr (JStr (show_address_domain a))) (\<lambda>ctx a. Inr a) ctx_new (SocketAddr (SockV4 9 80))
      (fst (mitm_recv_from dns_env0 (Ready (Inr ([9], SockV4 8 53))) empty_lookup)) = Inr (rl'', Inr (Domain name 80))
    \<and> hm_get (ctx_data ctx') KEY_dest_domain = Some (JStr (show_address_domain \<lparr> ad_domain = name, ad_port = 80 \<rparr>)) \<and> name = ''www.x''"
proof -
  let ?r = "mitm_recv_from dns_env0 (Ready (Inr ([9], SockV4 8 53))) empty_lookup"
  have c: "name_cache (re_records dns_env0)" by (simp add: dns_env0_def lru_names.name_cache_axioms)
  have m: "accepted_message dns_env0 [9] = Some (''www.x'', [CNAME_data ''cdn.x.''] @ [A_data 9])"
    by (simp add: accepted_message_def dns_env0_def trim_dots_def map_filter_simps)
  have "co_peek (re_cnames dns_env0) (rl_cname_map (fst ?r)) ''www.x'' = None"
    using m by (simp add: mitm_recv_from_def record_packet_def record_answer_def trim_dots_def dns_env0_def lru_ops_def empty_lookup_def)
  moreover have "sock_port (SockV4 8 53) = 53" by simp
  from dns_sniffer_recovers [OF c m this surjective_pairing refl, where rl = empty_lookup and connect = "\<lambda>ctx a. Inr a" and ctx = ctx_new and p = 80]
  obtain name rl'' and ctx' :: conn_context where "dns_tcp_connect dns_env0 (\<lambda>a. Inr (JStr (show_address_domain a))) (\<lambda>ctx a. Inr a) ctx_new
      (SocketAddr (SockV4 9 80)) (fst ?r) = Inr (rl'', Inr (Domain name 80))"
    "hm_get (ctx_data ctx') KEY_dest_domain = Some (JStr (show_address_domain \<lparr> ad_domain = name, ad_port = 80 \<rparr>))"
    "co_peek (re_cnames dns_env0) (rl_cname_map (fst ?r)) ''www.x'' = None \<longrightarrow> name = ''www.x''"
    by (elim exE conjE) (rule that)
  ultimately show ?thesis by blast
qed

end
