(* ===== verification/Udp_Copy.thy ===== *)
theory Udp_Copy
  imports Address "HOL-Library.Sublist"
begin

section \<open>Copying datagrams\<close>

text \<open>
  \<open>rd-std/src/context/connect_udp.rs\<close>: the data path of every proxied UDP association. A queue of packet
  buffers that grows up to a maximum lies between the side that delivers datagrams and the side that takes
  them. A delivering side is given by the answers to its polls, a taking side by its answers and the
  datagrams it has taken. The two directions are the same loop; the one back to the channel converts the
  address to a socket address and would panic on a domain name. The loop is a partial function, and
  the theorem includes that it returns.
\<close>

definition UDP_BUFFER_SIZE :: nat where
  "UDP_BUFFER_SIZE = 2048"

record packet_buffer =
  pb_buf :: bytes
  pb_filled :: "(nat \<times> address) option"

definition packet_buffer_new :: packet_buffer where
  "packet_buffer_new = \<lparr> pb_buf = replicate UDP_BUFFER_SIZE 0, pb_filled = None \<rparr>"

definition pb_borrow :: "packet_buffer \<Rightarrow> (bytes \<times> address) option" where
  "pb_borrow p = map_option (\<lambda>(n, addr). (take n (pb_buf p), addr)) (pb_filled p)"

record udp_buffer =
  ub_pool :: "packet_buffer list"
  ub_queue :: "packet_buffer list"
  ub_max :: nat

definition udp_buffer_new :: "nat \<Rightarrow> nat \<Rightarrow> udp_buffer" where
  "udp_buffer_new n m = \<lparr> ub_pool = replicate n packet_buffer_new, ub_queue = [], ub_max = m \<rparr>"

definition ub_pop_front :: "udp_buffer \<Rightarrow> udp_buffer" where
  "ub_pop_front cb = (case ub_queue cb of
     [] \<Rightarrow> cb
   | p # ps \<Rightarrow> cb\<lparr> ub_queue := ps, ub_pool := ub_pool cb @ [p\<lparr> pb_filled := None \<rparr>] \<rparr>)"

definition ub_grow :: "udp_buffer \<Rightarrow> udp_buffer may_panic" where
  "ub_grow cb =
     (if ub_pool cb = [] then
        (let goal = min (ub_max cb) (length (ub_queue cb) * 2) in
         if goal < length (ub_queue cb) then Inl (Panic ''attempt to subtract with overflow'')
         else Inr (cb\<lparr> ub_pool := replicate (goal - length (ub_queue cb)) packet_buffer_new \<rparr>))
      else Inr cb)"

text \<open>\<open>borrow_back\<close>: whether there is a buffer to fill at the end of the queue.\<close>

definition ub_borrow_back :: "udp_buffer \<Rightarrow> (udp_buffer \<times> bool) may_panic" where
  "ub_borrow_back cb =
     (if ub_queue cb = [] \<or> pb_filled (last (ub_queue cb)) \<noteq> None then
        rbind (ub_grow cb) (\<lambda>cb.
        if ub_pool cb = [] then Inr (cb, False)
        else Inr (cb\<lparr> ub_pool := butlast (ub_pool cb), ub_queue := ub_queue cb @ [last (ub_pool cb)] \<rparr>, True))
      else Inr (cb, True))"

text \<open>A datagram is written into the buffer at the end of the queue; what does not fit is cut off.\<close>

definition ub_fill :: "bytes \<Rightarrow> address \<Rightarrow> udp_buffer \<Rightarrow> udp_buffer" where
  "ub_fill data addr cb =
     (let p = last (ub_queue cb); d = take (length (pb_buf p)) data in
      cb\<lparr> ub_queue := butlast (ub_queue cb) @ [p\<lparr> pb_buf := d @ drop (length d) (pb_buf p), pb_filled := Some (length d, addr) \<rparr>] \<rparr>)"

type_synonym udp_source = "(bytes \<times> address) io poll list"

datatype fill_end = FillFull | FillPending | FillError io_error

fun fill_queue :: "udp_buffer \<Rightarrow> udp_source \<Rightarrow> (udp_buffer \<times> udp_source \<times> fill_end) may_panic" where
  "fill_queue cb src = (case ub_borrow_back cb of
     Inl p \<Rightarrow> Inl p
   | Inr (cb, False) \<Rightarrow> Inr (cb, src, FillFull)
   | Inr (cb, True) \<Rightarrow>
       (case src of
          [] \<Rightarrow> Inr (cb, [], FillPending)
        | Pending # src \<Rightarrow> Inr (cb, src, FillPending)
        | Ready (Inl e) # src \<Rightarrow> Inr (cb, src, FillError e)
        | Ready (Inr (data, addr)) # src \<Rightarrow> fill_queue (ub_fill data addr cb) src))"

declare fill_queue.simps [simp del]

record 'd udp_sink =
  sk_answers :: "unit io poll list"
  sk_sent :: "(bytes \<times> 'd) list"

definition sink_send :: "bytes \<Rightarrow> 'd \<Rightarrow> 'd udp_sink \<Rightarrow> 'd udp_sink \<times> unit io poll" where
  "sink_send data d sk = (case sk_answers sk of
     [] \<Rightarrow> (sk, Pending)
   | Ready (Inr x) # rs \<Rightarrow> (sk\<lparr> sk_answers := rs, sk_sent := sk_sent sk @ [(data, d)] \<rparr>, Ready (Inr x))
   | r # rs \<Rightarrow> (sk\<lparr> sk_answers := rs \<rparr>, r))"

datatype send_end = SendIdle | SendPending | SendError io_error

function send_queue :: "(address \<Rightarrow> 'd may_panic) \<Rightarrow> udp_buffer \<Rightarrow> 'd udp_sink \<Rightarrow> (udp_buffer \<times> 'd udp_sink \<times> send_end) may_panic" where
  "send_queue conv cb sk = (if ub_queue cb = [] then Inr (cb, sk, SendIdle) else case pb_borrow (hd (ub_queue cb)) of
     None \<Rightarrow> Inr (cb, sk, SendIdle)
   | Some (data, addr) \<Rightarrow>
       (case conv addr of
          Inl p \<Rightarrow> Inl p
        | Inr d \<Rightarrow>
            (case sink_send data d sk of
               (sk, Pending) \<Rightarrow> Inr (cb, sk, SendPending)
             | (sk, Ready (Inl e)) \<Rightarrow> Inr (cb, sk, SendError e)
             | (sk, Ready (Inr _)) \<Rightarrow> send_queue conv (ub_pop_front cb) sk)))"
  by pat_completeness auto
termination
  by (relation "measure (\<lambda>(_, cb, _). length (ub_queue cb))") (auto simp: ub_pop_front_def split: list.splits)

declare send_queue.simps [simp del]

text \<open>\<open>CopyBidirectional::poll_send_to\<close> and \<open>poll_recv_from\<close>: fill the queue, drain it, and go on until one of
  the two sides is pending. The loop returns pending or an error, never success.\<close>

partial_function (option) pump_loop ::
  "(address \<Rightarrow> 'd may_panic) \<Rightarrow> udp_buffer \<Rightarrow> udp_source \<Rightarrow> 'd udp_sink \<Rightarrow> (udp_buffer \<times> udp_source \<times> 'd udp_sink \<times> unit io poll) may_panic option" where
  "pump_loop conv cb src sk = (case fill_queue cb src of
     Inl p \<Rightarrow> Some (Inl p)
   | Inr (cb, src, FillError e) \<Rightarrow> Some (Inr (cb, src, sk, Ready (Inl e)))
   | Inr (cb, src, filled) \<Rightarrow>
       (case send_queue conv cb sk of
          Inl p \<Rightarrow> Some (Inl p)
        | Inr (cb, sk, SendError e) \<Rightarrow> Some (Inr (cb, src, sk, Ready (Inl e)))
        | Inr (cb, sk, sent) \<Rightarrow>
            if filled = FillPending \<or> sent = SendPending then Some (Inr (cb, src, sk, Pending)) else pump_loop conv cb src sk))"

definition to_channel :: "address \<Rightarrow> socket_addr may_panic" where
  "to_channel addr = (case addr of SocketAddr s \<Rightarrow> Inr s | _ \<Rightarrow> Inl (Panic ''internal error: entered unreachable code''))"

text \<open>The side of the socket delivers socket addresses, which are converted on the way in.\<close>

definition from_socket :: "(bytes \<times> socket_addr) io poll list \<Rightarrow> udp_source" where
  "from_socket = map (\<lambda>r. case r of Pending \<Rightarrow> Pending | Ready (Inl e) \<Rightarrow> Ready (Inl e) | Ready (Inr (d, a)) \<Rightarrow> Ready (Inr (d, SocketAddr a)))"

record udp_copy =
  uc_a_source :: udp_source
  uc_a_sink :: "socket_addr udp_sink"
  uc_b_source :: udp_source
  uc_b_sink :: "address udp_sink"
  uc_send_queue :: udp_buffer
  uc_recv_queue :: udp_buffer

definition connect_udp_new :: "udp_source \<Rightarrow> socket_addr udp_sink \<Rightarrow> (bytes \<times> socket_addr) io poll list \<Rightarrow> address udp_sink \<Rightarrow> udp_copy" where
  "connect_udp_new a_src a_sk b_src b_sk = \<lparr> uc_a_source = a_src, uc_a_sink = a_sk, uc_b_source = from_socket b_src, uc_b_sink = b_sk,
     uc_send_queue = udp_buffer_new 1 16, uc_recv_queue = udp_buffer_new 1 16 \<rparr>"

definition udp_copy_poll :: "udp_copy \<Rightarrow> (udp_copy \<times> unit io poll) may_panic option" where
  "udp_copy_poll s = (case pump_loop Inr (uc_send_queue s) (uc_a_source s) (uc_b_sink s) of
     None \<Rightarrow> None
   | Some (Inl p) \<Rightarrow> Some (Inl p)
   | Some (Inr (q, src, sk, r)) \<Rightarrow>
       (let s = s\<lparr> uc_send_queue := q, uc_a_source := src, uc_b_sink := sk \<rparr> in
        case r of
          Ready (Inl e) \<Rightarrow> Some (Inr (s, Ready (Inl e)))
        | _ \<Rightarrow>
            (case pump_loop to_channel (uc_recv_queue s) (uc_b_source s) (uc_a_sink s) of
               None \<Rightarrow> None
             | Some (Inl p) \<Rightarrow> Some (Inl p)
             | Some (Inr (q, src, sk, r2)) \<Rightarrow>
                 (let s = s\<lparr> uc_recv_queue := q, uc_b_source := src, uc_a_sink := sk \<rparr> in
                  case r2 of
                    Ready (Inl e) \<Rightarrow> Some (Inr (s, Ready (Inl e)))
                  | _ \<Rightarrow> Some (Inr (s, if r = Pending \<and> r2 = Pending then Pending else Ready (Inr ())))))))"

subsection \<open>The queue\<close>

definition filled_packets :: "packet_buffer list \<Rightarrow> (bytes \<times> address) list" where
  "filled_packets ps = List.map_filter pb_borrow ps"

definition packets :: "udp_buffer \<Rightarrow> (bytes \<times> address) list" where
  "packets cb = filled_packets (ub_queue cb)"

text \<open>Every buffer has its size, only the last one of the queue may be empty, and there is always one.\<close>

definition ub_ok :: "udp_buffer \<Rightarrow> bool" where
  "ub_ok cb = (list_all (\<lambda>p. length (pb_buf p) = UDP_BUFFER_SIZE) (ub_pool cb @ ub_queue cb)
     \<and> list_all (\<lambda>p. pb_filled p = None) (ub_pool cb) \<and> list_all (\<lambda>p. pb_filled p \<noteq> None) (butlast (ub_queue cb))
     \<and> 0 < ub_max cb \<and> length (ub_queue cb) \<le> ub_max cb \<and> (ub_pool cb \<noteq> [] \<or> ub_queue cb \<noteq> [])
     \<and> length (ub_pool cb) + length (ub_queue cb) \<le> ub_max cb)"

definition cut :: "bytes \<times> 'x \<Rightarrow> bytes \<times> 'x" where
  "cut = map_prod (take UDP_BUFFER_SIZE) id"

definition arrived :: "(bytes \<times> 'x) io poll list \<Rightarrow> (bytes \<times> 'x) list" where
  "arrived src = List.map_filter (\<lambda>r. case r of Ready (Inr p) \<Rightarrow> Some (cut p) | _ \<Rightarrow> None) src"

lemma filled_packets_simps [simp]:
  "filled_packets [] = []"
  "filled_packets (p # ps) = (case pb_borrow p of None \<Rightarrow> [] | Some x \<Rightarrow> [x]) @ filled_packets ps"
  "filled_packets (ps @ qs) = filled_packets ps @ filled_packets qs"
  by (simp_all add: filled_packets_def map_filter_simps map_filter_def split: option.splits)

lemma arrived_simps [simp]:
  "arrived [] = []" "arrived (Pending # src) = arrived src" "arrived (Ready (Inl e) # src) = arrived src"
  "arrived (Ready (Inr p) # src) = cut p # arrived src"
  by (simp_all add: arrived_def map_filter_simps)

lemma arrived_append [simp]: "arrived (xs @ ys) = arrived xs @ arrived ys"
  by (simp add: arrived_def map_filter_def)

lemma pb_borrow_None [simp]: "pb_borrow p = None \<longleftrightarrow> pb_filled p = None"
  by (simp add: pb_borrow_def)

lemma pb_borrow_unfilled [simp]: "pb_filled p = None \<Longrightarrow> pb_borrow p = None"
  by simp

lemma new_buffer [simp]: "length (pb_buf packet_buffer_new) = UDP_BUFFER_SIZE" "pb_filled packet_buffer_new = None"
  by (simp_all add: packet_buffer_new_def)

lemma udp_buffer_new_ok: "0 < n \<Longrightarrow> n \<le> m \<Longrightarrow> ub_ok (udp_buffer_new n m) \<and> packets (udp_buffer_new n m) = []"
  by (simp add: ub_ok_def udp_buffer_new_def packets_def list_all_iff)

lemma ub_grow_ok:
  assumes "ub_ok cb"
  shows "\<exists>cb'. ub_grow cb = Inr cb' \<and> ub_ok cb' \<and> ub_queue cb' = ub_queue cb \<and> ub_max cb' = ub_max cb
    \<and> (ub_pool cb' = [] \<longrightarrow> length (ub_queue cb') = ub_max cb')"
proof -
  have "min (ub_max cb) (length (ub_queue cb) * 2) = length (ub_queue cb) \<Longrightarrow> ub_queue cb \<noteq> [] \<Longrightarrow> length (ub_queue cb) = ub_max cb"
    by (cases "ub_queue cb") (auto simp: min_def split: if_splits)
  with assms show ?thesis by (auto simp: ub_grow_def ub_ok_def Let_def list_all_iff)
qed

lemma last_filled:
  assumes "ub_ok cb" "ub_queue cb = [] \<or> pb_filled (last (ub_queue cb)) \<noteq> None"
  shows "list_all (\<lambda>p. pb_filled p \<noteq> None) (ub_queue cb)"
  using assms by (cases "ub_queue cb" rule: rev_cases) (auto simp: ub_ok_def)

lemma ub_borrow_back_ok:
  assumes "ub_ok cb"
  obtains (Buffer) cb' where "ub_borrow_back cb = Inr (cb', True)" "ub_ok cb'" "ub_queue cb' \<noteq> []" "pb_filled (last (ub_queue cb')) = None"
      "packets cb' = packets cb" "ub_max cb' = ub_max cb"
  | (Full) cb' where "ub_borrow_back cb = Inr (cb', False)" "ub_ok cb'" "packets cb' = packets cb" "packets cb' \<noteq> []" "ub_max cb' = ub_max cb"
proof (cases "ub_queue cb = [] \<or> pb_filled (last (ub_queue cb)) \<noteq> None")
  case True
  obtain cb1 where g: "ub_grow cb = Inr cb1" "ub_ok cb1" "ub_queue cb1 = ub_queue cb" "ub_max cb1 = ub_max cb"
    "ub_pool cb1 = [] \<Longrightarrow> length (ub_queue cb1) = ub_max cb1" using ub_grow_ok [OF assms] by blast
  have all: "list_all (\<lambda>p. pb_filled p \<noteq> None) (ub_queue cb)" by (rule last_filled [OF assms True])
  show ?thesis
  proof (cases "ub_pool cb1" rule: rev_cases)
    case Nil
    with g have "ub_queue cb \<noteq> []" by (auto simp: ub_ok_def)
    with all have "packets cb \<noteq> []" by (cases "ub_queue cb") (auto simp: packets_def split: option.splits)
    with Nil g True show ?thesis by (intro Full [of cb1]) (simp_all add: ub_borrow_back_def packets_def)
  next
    case (snoc ps p)
    let ?cb = "cb1\<lparr> ub_pool := ps, ub_queue := ub_queue cb @ [p] \<rparr>"
    from snoc g(2,3) all have "ub_ok ?cb" "pb_filled p = None" by (auto simp: ub_ok_def)
    with snoc g True show ?thesis by (intro Buffer [of ?cb]) (simp_all add: ub_borrow_back_def packets_def)
  qed
next
  case False
  with assms show ?thesis by (intro Buffer [of cb]) (simp_all add: ub_borrow_back_def del: not_None_eq)
qed

lemma ub_fill_ok:
  assumes "ub_ok cb" "ub_queue cb \<noteq> []" "pb_filled (last (ub_queue cb)) = None"
  shows "ub_ok (ub_fill data addr cb) \<and> packets (ub_fill data addr cb) = packets cb @ [cut (data, addr)] \<and> ub_max (ub_fill data addr cb) = ub_max cb"
  using assms by (cases "ub_queue cb" rule: rev_cases) (auto simp: ub_ok_def ub_fill_def Let_def packets_def cut_def pb_borrow_def min_def)

lemma fill_queue_ok:
  assumes "ub_ok cb"
  obtains cb' used src' e where "fill_queue cb src = Inr (cb', src', e)" "ub_ok cb'" "src = used @ src'"
    "packets cb' = packets cb @ arrived used" "e = FillFull \<Longrightarrow> packets cb' \<noteq> []" "ub_max cb' = ub_max cb"
  using assms
proof (induction src arbitrary: cb thesis)
  case Nil
  from Nil(2) show ?case
  proof (cases rule: ub_borrow_back_ok)
    case (Buffer cb')
    then show ?thesis by (intro Nil(1) [of cb' "[]" FillPending "[]"]) (simp_all add: fill_queue.simps)
  next
    case (Full cb')
    then show ?thesis by (intro Nil(1) [of cb' "[]" FillFull "[]"]) (simp_all add: fill_queue.simps)
  qed
next
  case (Cons r src)
  from Cons.prems(2) show ?case
  proof (cases rule: ub_borrow_back_ok)
    case (Full cb')
    then show ?thesis by (intro Cons.prems(1) [of cb' "r # src" FillFull "[]"]) (simp_all add: fill_queue.simps)
  next
    case (Buffer cb')
    consider "r = Pending" | e where "r = Ready (Inl e)" | d a where "r = Ready (Inr (d, a))"
      by (cases r) (auto, metis old.sum.exhaust surj_pair)
    then show ?thesis
    proof cases
      case 1
      with Buffer show ?thesis by (intro Cons.prems(1) [of cb' src FillPending "[r]"]) (simp_all add: fill_queue.simps)
    next
      case 2
      with Buffer show ?thesis by (intro Cons.prems(1) [of cb' src "FillError e" "[r]"]) (simp_all add: fill_queue.simps)
    next
      case 3
      from Buffer have f: "ub_ok (ub_fill d a cb')" "packets (ub_fill d a cb') = packets cb @ [cut (d, a)]" "ub_max (ub_fill d a cb') = ub_max cb"
        using ub_fill_ok [of cb' d a] by simp_all
      obtain cb2 used src2 e where r: "fill_queue (ub_fill d a cb') src = Inr (cb2, src2, e)" "ub_ok cb2" "src = used @ src2"
        "packets cb2 = packets (ub_fill d a cb') @ arrived used" "e = FillFull \<Longrightarrow> packets cb2 \<noteq> []" "ub_max cb2 = ub_max (ub_fill d a cb')"
        using Cons.IH [OF _ f(1)] by blast
      with 3 Buffer f show ?thesis
        by (intro Cons.prems(1) [of cb2 src2 e "r # used"]) (simp_all add: fill_queue.simps [of cb])
    qed
  qed
qed

subsection \<open>Draining\<close>

definition converts :: "(address \<Rightarrow> 'd may_panic) \<Rightarrow> (bytes \<times> address) list \<Rightarrow> bool" where
  "converts conv ps = list_all (\<lambda>(_, a). \<exists>d. conv a = Inr d) ps"

definition converted :: "(address \<Rightarrow> 'd may_panic) \<Rightarrow> bytes \<times> address \<Rightarrow> bytes \<times> 'd" where
  "converted conv p = (fst p, projr (conv (snd p)))"

lemma converts_simps [simp]:
  "converts conv []" "converts conv ((d, a) # ps) \<longleftrightarrow> (\<exists>x. conv a = Inr x) \<and> converts conv ps"
  "converts conv (ps @ qs) \<longleftrightarrow> converts conv ps \<and> converts conv qs"
  by (simp_all add: converts_def)

lemma pop_front_ok:
  assumes "ub_ok cb" "ub_queue cb = p # ps"
  shows "ub_ok (ub_pop_front cb)" "packets (ub_pop_front cb) = filled_packets ps" "ub_max (ub_pop_front cb) = ub_max cb"
  using assms by (auto simp: ub_ok_def ub_pop_front_def packets_def split: if_splits)

lemma idle_empty: "ub_ok cb \<Longrightarrow> ub_queue cb = p # ps \<Longrightarrow> pb_filled p = None \<Longrightarrow> ps = []"
  by (cases ps) (auto simp: ub_ok_def)

lemma send_queue_ok:
  assumes "ub_ok cb" "converts conv (packets cb)"
  obtains cb' sk' e sent where "send_queue conv cb sk = Inr (cb', sk', e)" "ub_ok cb'" "packets cb = sent @ packets cb'"
    "sk_sent sk' = sk_sent sk @ map (converted conv) sent" "length (sk_answers sk') + length sent \<le> length (sk_answers sk)"
    "e = SendIdle \<Longrightarrow> packets cb' = []" "ub_max cb' = ub_max cb"
  using assms
proof (induction conv cb sk arbitrary: thesis rule: send_queue.induct)
  case (1 conv cb sk)
  show ?case
  proof (cases "ub_queue cb")
    case Nil
    with "1.prems" show ?thesis by (intro "1.prems"(1) [of cb sk SendIdle "[]"]) (simp_all add: send_queue.simps packets_def)
  next
    case (Cons p ps)
    show ?thesis
    proof (cases "pb_borrow p")
      case None
      with Cons idle_empty [OF "1.prems"(2) Cons] have "packets cb = []" by (simp add: packets_def)
      with None Cons "1.prems"(2) show ?thesis by (intro "1.prems"(1) [of cb sk SendIdle "[]"]) (simp_all add: send_queue.simps)
    next
      case (Some x)
      obtain data addr where x: "x = (data, addr)" by fastforce
      with Some Cons have pk: "packets cb = (data, addr) # filled_packets ps" by (simp add: packets_def)
      with "1.prems"(3) obtain d where d: "conv addr = Inr d" and rest: "converts conv (filled_packets ps)" by auto
      obtain sk1 r where s: "sink_send data d sk = (sk1, r)" by fastforce
      note pop = pop_front_ok [OF "1.prems"(2) Cons]
      consider "r = Pending" | e where "r = Ready (Inl e)" | "r = Ready (Inr ())" by (cases r) (auto, metis old.sum.exhaust old.unit.exhaust)
      then show ?thesis
      proof cases
        case 1
        with s Some x d Cons "1.prems"(2) show ?thesis
          by (intro "1.prems"(1) [of cb sk1 SendPending "[]"])
            (auto simp: send_queue.simps [of conv cb] sink_send_def split: list.splits poll.splits sum.splits)
      next
        case 2
        with s Some x d Cons "1.prems"(2) show ?thesis
          by (intro "1.prems"(1) [of cb sk1 "SendError e" "[]"])
            (auto simp: send_queue.simps [of conv cb] sink_send_def split: list.splits poll.splits sum.splits)
      next
        case 3
        from s 3 have k: "sk_sent sk1 = sk_sent sk @ [(data, d)]" "Suc (length (sk_answers sk1)) = length (sk_answers sk)"
          by (auto simp: sink_send_def split: list.splits poll.splits sum.splits)
        obtain cb2 sk2 e sent where q: "send_queue conv (ub_pop_front cb) sk1 = Inr (cb2, sk2, e)" "ub_ok cb2" "packets (ub_pop_front cb) = sent @ packets cb2"
          "sk_sent sk2 = sk_sent sk1 @ map (converted conv) sent" "length (sk_answers sk2) + length sent \<le> length (sk_answers sk1)"
          "e = SendIdle \<Longrightarrow> packets cb2 = []" "ub_max cb2 = ub_max (ub_pop_front cb)"
          by (rule "1.IH" [OF _ _ x [symmetric] d s [symmetric] 3 refl _ pop(1)]) (use Some Cons pop(2) rest in simp_all)
        with k s 3 Some x d Cons pk pop show ?thesis
          by (intro "1.prems"(1) [of cb2 sk2 e "(data, addr) # sent"]) (simp_all add: send_queue.simps [of conv cb] converted_def)
      qed
    qed
  qed
qed

subsection \<open>The relay\<close>

lemma pump_ok:
  assumes "ub_ok cb" "converts conv (packets cb @ arrived src)"
  obtains cb' used src' sk' r sent where "pump_loop conv cb src sk = Some (Inr (cb', src', sk', r))" "ub_ok cb'" "src = used @ src'"
    "packets cb @ arrived used = sent @ packets cb'" "sk_sent sk' = sk_sent sk @ map (converted conv) sent"
    "r \<noteq> Ready (Inr ())" "ub_max cb' = ub_max cb"
  using assms
proof (induction "length (sk_answers sk)" arbitrary: cb src sk thesis rule: less_induct)
  case less
  obtain cb1 used src1 e where f: "fill_queue cb src = Inr (cb1, src1, e)" "ub_ok cb1" "src = used @ src1"
    "packets cb1 = packets cb @ arrived used" "e = FillFull \<Longrightarrow> packets cb1 \<noteq> []" "ub_max cb1 = ub_max cb"
    by (rule fill_queue_ok [OF less.prems(2), of src]) blast
  have arr: "arrived src = arrived used @ arrived src1" by (simp add: f(3))
  with less.prems(3) f(4) have conv: "converts conv (packets cb1)" "converts conv (arrived src1)" by simp_all
  show ?case
  proof (cases "\<exists>x. e = FillError x")
    case True
    then obtain x where "e = FillError x" ..
    with f show ?thesis by (intro less.prems(1) [of cb1 src1 sk "Ready (Inl x)" used "[]"]) (simp_all add: pump_loop.simps [of conv cb])
  next
    case no_error: False
    obtain cb2 sk2 g sent where s: "send_queue conv cb1 sk = Inr (cb2, sk2, g)" "ub_ok cb2" "packets cb1 = sent @ packets cb2"
      "sk_sent sk2 = sk_sent sk @ map (converted conv) sent" "length (sk_answers sk2) + length sent \<le> length (sk_answers sk)"
      "g = SendIdle \<Longrightarrow> packets cb2 = []" "ub_max cb2 = ub_max cb1"
      by (rule send_queue_ok [OF f(2) conv(1), of sk]) blast
    consider (stop) r where "pump_loop conv cb src sk = Some (Inr (cb2, src1, sk2, r))" "r \<noteq> Ready (Inr ())"
      | (go) "e = FillFull" "g = SendIdle" "pump_loop conv cb src sk = pump_loop conv cb2 src1 sk2"
      using f(1) s(1) no_error by (cases e; cases g) (auto simp: pump_loop.simps [of conv cb])
    then show ?thesis
    proof cases
      case stop
      with f s show ?thesis by (intro less.prems(1) [of cb2 src1 sk2 r used sent]) simp_all
    next
      case go
      with f(5) s(3,6) have "sent \<noteq> []" "packets cb2 = []" by auto
      then have fewer: "length (sk_answers sk2) < length (sk_answers sk)" using s(5) by (cases sent) auto
      have cv: "converts conv (packets cb2 @ arrived src1)" using \<open>packets cb2 = []\<close> conv(2) by simp
      obtain cb3 used3 src3 sk3 r sent3 where h: "pump_loop conv cb2 src1 sk2 = Some (Inr (cb3, src3, sk3, r))" "ub_ok cb3" "src1 = used3 @ src3"
        "packets cb2 @ arrived used3 = sent3 @ packets cb3" "sk_sent sk3 = sk_sent sk2 @ map (converted conv) sent3" "r \<noteq> Ready (Inr ())" "ub_max cb3 = ub_max cb2"
        by (rule less.hyps [OF fewer _ s(2) cv])
      have "packets cb @ arrived (used @ used3) = (sent @ sent3) @ packets cb3"
        by (metis append.assoc arrived_append f(4) h(4) s(3))
      with f s h go show ?thesis by (intro less.prems(1) [of cb3 src3 sk3 r "used @ used3" "sent @ sent3"]) simp_all
    qed
  qed
qed

lemma not_finished: "r \<noteq> Ready (Inr ()) \<Longrightarrow> r = Pending \<or> (\<exists>e. r = Ready (Inl e))"
  by (cases r) (auto, metis old.sum.exhaust old.unit.exhaust)

text \<open>Polls of the relay until it ends, at most \<open>n\<close>.\<close>

fun udp_polls :: "nat \<Rightarrow> udp_copy \<Rightarrow> (udp_copy \<times> unit io poll) may_panic option" where
  "udp_polls 0 s = Some (Inr (s, Pending))"
| "udp_polls (Suc n) s = (case udp_copy_poll s of
     Some (Inr (s', Pending)) \<Rightarrow> udp_polls n s'
   | r \<Rightarrow> r)"

definition relayed :: "udp_source \<Rightarrow> udp_source \<Rightarrow> (address \<Rightarrow> 'd may_panic) \<Rightarrow> (bytes \<times> 'd) list \<Rightarrow> udp_buffer \<Rightarrow> 'd udp_sink \<Rightarrow> bool" where
  "relayed src0 src conv sent0 cb sk = (\<exists>used. src0 = used @ src
     \<and> sk_sent sk @ map (converted conv) (packets cb) = sent0 @ map (converted conv) (arrived used)
     \<and> ub_ok cb \<and> ub_max cb = 16 \<and> converts conv (packets cb @ arrived src))"

lemma relayed_pump:
  assumes "relayed src0 src conv sent0 cb sk"
  shows "\<exists>cb' src' sk' r. pump_loop conv cb src sk = Some (Inr (cb', src', sk', r)) \<and> relayed src0 src' conv sent0 cb' sk' \<and> r \<noteq> Ready (Inr ())"
proof -
  obtain used where u: "src0 = used @ src" "sk_sent sk @ map (converted conv) (packets cb) = sent0 @ map (converted conv) (arrived used)"
    "ub_ok cb" "ub_max cb = 16" "converts conv (packets cb @ arrived src)" using assms by (auto simp: relayed_def)
  obtain cb' used' src' sk' r sent where p: "pump_loop conv cb src sk = Some (Inr (cb', src', sk', r))" "ub_ok cb'" "src = used' @ src'"
    "packets cb @ arrived used' = sent @ packets cb'" "sk_sent sk' = sk_sent sk @ map (converted conv) sent"
    "r \<noteq> Ready (Inr ())" "ub_max cb' = ub_max cb" by (rule pump_ok [OF u(3,5), of sk])
  have "sk_sent sk' @ map (converted conv) (packets cb') = sk_sent sk @ map (converted conv) (packets cb @ arrived used')"
    unfolding p(4) p(5) by simp
  also have "\<dots> = sent0 @ map (converted conv) (arrived (used @ used'))" using u(2) by simp
  finally have "sk_sent sk' @ map (converted conv) (packets cb') = sent0 @ map (converted conv) (arrived (used @ used'))" .
  moreover have "converts conv (packets cb' @ arrived src')" using u(5) p(3,4) by (metis append.assoc arrived_append converts_simps(3))
  ultimately have "relayed src0 src' conv sent0 cb' sk'" unfolding relayed_def using u(1,4) p(2,3,7) by (intro exI [of _ "used @ used'"]) simp
  with p show ?thesis by blast
qed

lemma converted_Inr [simp]: "map (converted Inr) ps = ps"
  by (rule map_idI) (simp add: converted_def)

lemma from_socket_arrived: "map (converted to_channel) (arrived (from_socket rs)) = arrived rs \<and> converts to_channel (arrived (from_socket rs))"
  by (induction rs) (auto simp: from_socket_def arrived_def map_filter_simps converted_def to_channel_def cut_def split: poll.splits sum.splits)

text \<open>C5: The relay of a UDP association loses, repeats and reorders nothing. After any number of polls, each
  of which returns without a panic, the datagrams given to the socket together with those still queued are
  exactly the datagrams the channel has delivered, in order and with their targets (cut to 2048 bytes), and
  in the same way back; at most 16 datagrams are queued on each side, and the relay ends with an error only.\<close>

theorem connect_udp_relays:
  "\<exists>s r i j. udp_polls n (connect_udp_new a_src a_sk b_src b_sk) = Some (Inr (s, r)) \<and> r \<noteq> Ready (Inr ())
    \<and> sk_sent (uc_b_sink s) @ packets (uc_send_queue s) = sk_sent b_sk @ arrived (take i a_src) \<and> uc_a_source s = drop i a_src
    \<and> sk_sent (uc_a_sink s) @ map (converted to_channel) (packets (uc_recv_queue s)) = sk_sent a_sk @ arrived (take j b_src)
    \<and> uc_b_source s = from_socket (drop j b_src)
    \<and> length (ub_queue (uc_send_queue s)) \<le> 16 \<and> length (ub_queue (uc_recv_queue s)) \<le> 16"
proof -
  define inv where "inv = (\<lambda>s :: udp_copy. relayed a_src (uc_a_source s) Inr (sk_sent b_sk) (uc_send_queue s) (uc_b_sink s)
    \<and> relayed (from_socket b_src) (uc_b_source s) to_channel (sk_sent a_sk) (uc_recv_queue s) (uc_a_sink s))"
  have poll: "\<exists>s' r. udp_copy_poll s = Some (Inr (s', r)) \<and> inv s' \<and> r \<noteq> Ready (Inr ())" if s: "inv s" for s
  proof -
    obtain q src sk r where 1: "pump_loop Inr (uc_send_queue s) (uc_a_source s) (uc_b_sink s) = Some (Inr (q, src, sk, r))"
      "relayed a_src src Inr (sk_sent b_sk) q sk" "r \<noteq> Ready (Inr ())"
      using relayed_pump s unfolding inv_def by blast
    obtain q2 src2 sk2 r2 where 2: "pump_loop to_channel (uc_recv_queue s) (uc_b_source s) (uc_a_sink s) = Some (Inr (q2, src2, sk2, r2))"
      "relayed (from_socket b_src) src2 to_channel (sk_sent a_sk) q2 sk2" "r2 \<noteq> Ready (Inr ())"
      using relayed_pump s unfolding inv_def by blast
    consider e where "r = Ready (Inl e)" | e where "r = Pending" "r2 = Ready (Inl e)" | "r = Pending" "r2 = Pending"
      using not_finished [OF 1(3)] not_finished [OF 2(3)] by blast
    then show ?thesis using 1 2 s unfolding inv_def by cases (simp_all add: udp_copy_poll_def Let_def)
  qed
  have run: "\<exists>s' r. udp_polls n s = Some (Inr (s', r)) \<and> inv s' \<and> r \<noteq> Ready (Inr ())" if "inv s" for s
    using that
  proof (induction n arbitrary: s)
    case (Suc n)
    obtain s' r where p: "udp_copy_poll s = Some (Inr (s', r))" "inv s'" "r \<noteq> Ready (Inr ())" using poll [OF Suc.prems] by blast
    then show ?case using Suc.IH [OF p(2)] by (cases r) simp_all
  qed simp
  have "inv (connect_udp_new a_src a_sk b_src b_sk)"
    using udp_buffer_new_ok [of 1 16] from_socket_arrived [of b_src]
    by (simp add: inv_def relayed_def connect_udp_new_def converts_def udp_buffer_new_def case_prod_unfold list_all_iff)
  from run [OF this] obtain s r where s: "udp_polls n (connect_udp_new a_src a_sk b_src b_sk) = Some (Inr (s, r))" "inv s" "r \<noteq> Ready (Inr ())" by blast
  from s(2) obtain u where u: "a_src = u @ uc_a_source s" "sk_sent (uc_b_sink s) @ packets (uc_send_queue s) = sk_sent b_sk @ arrived u"
    "ub_ok (uc_send_queue s)" "ub_max (uc_send_queue s) = 16" by (auto simp: inv_def relayed_def)
  from s(2) obtain v where v: "from_socket b_src = v @ uc_b_source s" "ub_ok (uc_recv_queue s)" "ub_max (uc_recv_queue s) = 16"
    "sk_sent (uc_a_sink s) @ map (converted to_channel) (packets (uc_recv_queue s)) = sk_sent a_sk @ map (converted to_channel) (arrived v)"
    by (auto simp: inv_def relayed_def)
  have "v = from_socket (take (length v) b_src)" "uc_b_source s = from_socket (drop (length v) b_src)"
    using arg_cong [OF v(1), of "take (length v)"] arg_cong [OF v(1), of "drop (length v)"]
    by (simp_all add: from_socket_def take_map drop_map)
  moreover from this(1) have "map (converted to_channel) (arrived v) = arrived (take (length v) b_src)"
    using from_socket_arrived by metis
  moreover have "length (ub_queue (uc_send_queue s)) \<le> 16" "length (ub_queue (uc_recv_queue s)) \<le> 16"
    using u(3,4) v(2,3) by (simp_all add: ub_ok_def)
  moreover have "arrived (take (length u) a_src) = arrived u" "drop (length u) a_src = uc_a_source s" using u(1) by simp_all
  ultimately show ?thesis using s(1,3) u(2) v(4) by metis
qed

end
