(* ===== verification/Udp_Forward.thy ===== *)
theory Udp_Forward
  imports Udp_Copy
begin

section \<open>Forwarding datagrams of many clients\<close>

text \<open>
  \<open>rd-std/src/util/forward_udp.rs\<close> with \<open>connection.rs\<close> and \<open>send_back.rs\<close>: a source delivers datagrams of
  many clients (a transparent proxy, a network stack, a port forward). Each client address gets a connection
  of its own, a task that runs the UDP relay between a \<open>BackChannel\<close> and a socket bound for it; answers come
  back through one queue. The connections are kept in a cache of the crate \<open>lru_time_cache\<close>, given by the
  operations the code uses and the laws of the locale \<open>conn_cache\<close>.
\<close>

record udp_packet =
  up_from :: socket_addr
  up_to :: socket_addr
  up_data :: bytes

subsection \<open>A connection\<close>

text \<open>\<open>UdpConnection\<close>: what was accepted for the task, in order, with the address the task binds. Whether the
  bounded channel takes a datagram depends on how far the task is and is an argument.\<close>

record udp_connection =
  fc_from :: socket_addr
  fc_bind :: address
  fc_accepted :: "(bytes \<times> socket_addr) list"

definition udp_connection_new :: "socket_addr \<Rightarrow> address \<Rightarrow> udp_connection" where
  "udp_connection_new bind_from bind_addr = \<lparr> fc_from = bind_from, fc_bind = bind_addr, fc_accepted = [] \<rparr>"

definition fc_send :: "bool \<Rightarrow> bytes \<times> socket_addr \<Rightarrow> udp_connection \<Rightarrow> udp_connection \<times> unit io" where
  "fc_send room packet conn =
     (if room then (conn\<lparr> fc_accepted := fc_accepted conn @ [packet] \<rparr>, Inr ()) else (conn, Inl (IoError OtherKind ''no available capacity'')))"

record back_channel =
  bc_to :: socket_addr
  bc_receiver :: "(bytes \<times> socket_addr) list"
  bc_closed :: bool
  bc_flushing :: bool

definition back_channel_new :: "socket_addr \<Rightarrow> back_channel" where
  "back_channel_new addr = \<lparr> bc_to = addr, bc_receiver = [], bc_closed = False, bc_flushing = False \<rparr>"

definition bc_poll_send_to :: "nat \<Rightarrow> back_channel \<Rightarrow> back_channel \<times> (bytes \<times> address) io poll" where
  "bc_poll_send_to room bc = (case bc_receiver bc of
     [] \<Rightarrow> (bc, if bc_closed bc then Ready (Inl (IoError OtherKind ''channel closed'')) else Pending)
   | (item, addr) # rest \<Rightarrow> (bc\<lparr> bc_receiver := rest \<rparr>, Ready (Inr (take room item, SocketAddr addr))))"

text \<open>\<open>poll_recv_from\<close>: \<open>ready\<close> and \<open>flushed\<close> are the answers of the sink (\<open>PollSender\<close>) to \<open>poll_ready\<close> and
  \<open>poll_flush\<close>, \<open>q\<close> the queue it feeds.\<close>

definition bc_finish :: "unit io poll \<Rightarrow> nat \<Rightarrow> back_channel \<Rightarrow> back_channel \<times> nat io poll" where
  "bc_finish flushed n bc = (case flushed of
     Pending \<Rightarrow> (bc, Pending)
   | Ready (Inl e) \<Rightarrow> (bc, Ready (Inl e))
   | Ready (Inr _) \<Rightarrow> (bc\<lparr> bc_flushing := False \<rparr>, Ready (Inr n)))"

definition bc_poll_recv_from ::
  "unit io poll \<Rightarrow> unit io poll \<Rightarrow> bytes \<Rightarrow> socket_addr \<Rightarrow> back_channel \<Rightarrow> udp_packet list \<Rightarrow> back_channel \<times> udp_packet list \<times> nat io poll" where
  "bc_poll_recv_from ready flushed buf target bc q =
     (if bc_flushing bc then (case bc_finish flushed (length buf) bc of (bc, r) \<Rightarrow> (bc, q, r))
      else case ready of
        Pending \<Rightarrow> (bc, q, Pending)
      | Ready (Inl e) \<Rightarrow> (bc, q, Ready (Inl e))
      | Ready (Inr _) \<Rightarrow>
          (case bc_finish flushed (length buf) (bc\<lparr> bc_flushing := True \<rparr>) of
             (bc', r) \<Rightarrow> (bc', q @ [\<lparr> up_from = target, up_to = bc_to bc, up_data = buf \<rparr>], r)))"

subsection \<open>The forwarder\<close>

record 'c conn_ops =
  cc_peek :: "'c \<Rightarrow> socket_addr \<Rightarrow> udp_connection option"
  cc_entry :: "socket_addr \<Rightarrow> udp_connection \<Rightarrow> 'c \<Rightarrow> 'c"
  cc_set :: "socket_addr \<Rightarrow> udp_connection \<Rightarrow> 'c \<Rightarrow> 'c"

record 'c forward_udp =
  fu_conn :: 'c
  fu_back :: "udp_packet list"
  fu_send_buf :: "udp_packet option"

text \<open>\<open>get\<close> inserts a connection unless there is one; the result of \<open>cc_peek\<close> is the entry the code then holds
  a reference to.\<close>

definition fu_get :: "'c conn_ops \<Rightarrow> socket_addr \<Rightarrow> 'c forward_udp \<Rightarrow> 'c forward_udp" where
  "fu_get ops bind_from s = s\<lparr> fu_conn := cc_entry ops bind_from (udp_connection_new bind_from (any_addr_port bind_from)) (fu_conn s) \<rparr>"

definition fu_deliver :: "'c conn_ops \<Rightarrow> bool \<Rightarrow> udp_packet \<Rightarrow> 'c forward_udp \<Rightarrow> 'c forward_udp" where
  "fu_deliver ops room p s =
     (let s = fu_get ops (up_from p) s in
      case cc_peek ops (fu_conn s) (up_from p) of
        None \<Rightarrow> s
      | Some conn \<Rightarrow> s\<lparr> fu_conn := cc_set ops (up_from p) (fst (fc_send room (up_data p, up_to p) conn)) (fu_conn s) \<rparr>)"

text \<open>\<open>poll_recv_packet\<close>: the source's answers, each datagram with the state of its connection's channel.\<close>

fun poll_recv_packet :: "'c conn_ops \<Rightarrow> (bool \<times> udp_packet) io poll list \<Rightarrow> 'c forward_udp \<Rightarrow> 'c forward_udp \<times> (bool \<times> udp_packet) io poll list \<times> unit io poll" where
  "poll_recv_packet ops [] s = (s, [], Pending)"
| "poll_recv_packet ops (Pending # src) s = (s, src, Pending)"
| "poll_recv_packet ops (Ready (Inl e) # src) s = (s, src, Ready (Inl e))"
| "poll_recv_packet ops (Ready (Inr (room, p)) # src) s = poll_recv_packet ops src (fu_deliver ops room p s)"

text \<open>\<open>poll_send_back\<close>: the forwarder holds a sender itself, so its queue is never closed.\<close>

type_synonym endpoint_sink = "(socket_addr \<times> socket_addr) udp_sink"

function poll_send_back :: "udp_packet list \<Rightarrow> udp_packet option \<Rightarrow> endpoint_sink \<Rightarrow> udp_packet list \<times> udp_packet option \<times> endpoint_sink \<times> unit io poll" where
  "poll_send_back q (Some p) sk = (case sink_send (up_data p) (up_from p, up_to p) sk of
     (sk', Pending) \<Rightarrow> (q, Some p, sk', Pending)
   | (sk', Ready (Inl e)) \<Rightarrow> (q, Some p, sk', Ready (Inl e))
   | (sk', Ready (Inr _)) \<Rightarrow> poll_send_back q None sk')"
| "poll_send_back [] None sk = ([], None, sk, Pending)"
| "poll_send_back (p # q) None sk = poll_send_back q (Some p) sk"
  by pat_completeness auto
termination
  by (relation "measure (\<lambda>(q, b, _). 2 * length q + (if b = None then 0 else 1))") auto

definition forward_udp_poll ::
  "'c conn_ops \<Rightarrow> ('c \<Rightarrow> 'c) \<Rightarrow> (bool \<times> udp_packet) io poll list \<Rightarrow> endpoint_sink \<Rightarrow> 'c forward_udp
   \<Rightarrow> 'c forward_udp \<times> (bool \<times> udp_packet) io poll list \<times> endpoint_sink \<times> unit io poll" where
  "forward_udp_poll ops clear_expired src sk s = (case poll_recv_packet ops src s of
     (s, src, Ready (Inl e)) \<Rightarrow> (s, src, sk, Ready (Inl e))
   | (s, src, a_to_b) \<Rightarrow>
       (case poll_send_back (fu_back s) (fu_send_buf s) sk of
          (q, b, sk, b_to_a) \<Rightarrow>
            (let s = s\<lparr> fu_back := q, fu_send_buf := b \<rparr> in
             case b_to_a of
               Ready (Inl e) \<Rightarrow> (s, src, sk, Ready (Inl e))
             | _ \<Rightarrow> (s\<lparr> fu_conn := clear_expired (fu_conn s) \<rparr>, src, sk,
                     if a_to_b = Pending \<and> b_to_a = Pending then Pending else Ready (Inr ())))))"

subsection \<open>Each client has its own connection\<close>

text \<open>The datagrams of client \<open>k\<close> among those that arrived, as its connection sees them.\<close>

definition from_client :: "socket_addr \<Rightarrow> udp_packet list \<Rightarrow> (bytes \<times> socket_addr) list" where
  "from_client k ps = map (\<lambda>p. (up_data p, up_to p)) (filter (\<lambda>p. up_from p = k) ps)"

definition separate :: "'c conn_ops \<Rightarrow> udp_packet list \<Rightarrow> 'c \<Rightarrow> bool" where
  "separate ops ps c = (\<forall>k conn. cc_peek ops c k = Some conn \<longrightarrow>
     fc_from conn = k \<and> fc_bind conn = any_addr_port k \<and> subseq (fc_accepted conn) (from_client k ps))"

definition received :: "(bool \<times> udp_packet) io poll list \<Rightarrow> udp_packet list" where
  "received src = List.map_filter (\<lambda>a. case a of Ready (Inr (_, p)) \<Rightarrow> Some p | _ \<Rightarrow> None) src"

lemma received_simps [simp]:
  "received [] = []" "received (Pending # src) = received src" "received (Ready (Inl e) # src) = received src"
  "received (Ready (Inr (room, p)) # src) = p # received src" "received (xs @ ys) = received xs @ received ys"
  by (simp_all add: received_def map_filter_simps map_filter_def)

lemma from_client_snoc: "from_client k (ps @ [p]) = from_client k ps @ (if up_from p = k then [(up_data p, up_to p)] else [])"
  by (simp add: from_client_def)

locale conn_cache =
  fixes ops :: "'c conn_ops"
  assumes entry_here: "cc_peek ops (cc_entry ops k v c) k = Some (case cc_peek ops c k of Some w \<Rightarrow> w | None \<Rightarrow> v)"
    and entry_other: "k' \<noteq> k \<Longrightarrow> cc_peek ops (cc_entry ops k v c) k' \<in> {cc_peek ops c k', None}"
    and set_here: "cc_peek ops c k \<noteq> None \<Longrightarrow> cc_peek ops (cc_set ops k v c) k = Some v"
    and set_other: "k' \<noteq> k \<Longrightarrow> cc_peek ops (cc_set ops k v c) k' = cc_peek ops c k'"
begin

lemma deliver_separate:
  assumes "separate ops ps (fu_conn s)"
  shows "separate ops (ps @ [p]) (fu_conn (fu_deliver ops room p s))"
proof -
  define k0 where "k0 = up_from p"
  define c1 where "c1 = cc_entry ops k0 (udp_connection_new k0 (any_addr_port k0)) (fu_conn s)"
  obtain conn where conn: "cc_peek ops c1 k0 = Some conn"
    "conn = (case cc_peek ops (fu_conn s) k0 of Some w \<Rightarrow> w | None \<Rightarrow> udp_connection_new k0 (any_addr_port k0))"
    using entry_here c1_def by simp
  have ok: "fc_from conn = k0 \<and> fc_bind conn = any_addr_port k0 \<and> subseq (fc_accepted conn) (from_client k0 ps)"
    using assms conn(2) by (auto simp: separate_def udp_connection_new_def split: option.splits)
  let ?conn = "fst (fc_send room (up_data p, up_to p) conn)"
  have new: "fc_from ?conn = k0 \<and> fc_bind ?conn = any_addr_port k0 \<and> subseq (fc_accepted ?conn) (from_client k0 (ps @ [p]))"
    using ok by (auto simp: fc_send_def from_client_snoc k0_def intro: list_emb_append_mono list_emb_prefix)
  have f: "fu_conn (fu_deliver ops room p s) = cc_set ops k0 ?conn c1"
    using conn(1) by (simp add: fu_deliver_def fu_get_def c1_def k0_def Let_def)
  show ?thesis
    unfolding separate_def f
  proof (intro allI impI)
    fix k c assume c: "cc_peek ops (cc_set ops k0 ?conn c1) k = Some c"
    show "fc_from c = k \<and> fc_bind c = any_addr_port k \<and> subseq (fc_accepted c) (from_client k (ps @ [p]))"
    proof (cases "k = k0")
      case True
      with c set_here conn(1) new show ?thesis by (metis option.distinct(1) option.inject)
    next
      case False
      then have "cc_peek ops (fu_conn s) k = Some c"
        using c entry_other [of k k0 "udp_connection_new k0 (any_addr_port k0)" "fu_conn s"] by (auto simp: set_other c1_def)
      with assms False show ?thesis by (simp add: separate_def from_client_snoc k0_def)
    qed
  qed
qed

lemma recv_packet_separate:
  assumes "separate ops ps (fu_conn s)" "poll_recv_packet ops src s = (s', src', r)"
  obtains used where "src = used @ src'"
    "separate ops (ps @ received used) (fu_conn s')"
    "fu_back s' = fu_back s" "fu_send_buf s' = fu_send_buf s"
  using assms
proof (induction src arbitrary: s ps thesis)
  case Nil
  then show ?case by (intro Nil.prems(1) [of "[]"]) simp_all
next
  case (Cons a src)
  consider "a = Pending" | e where "a = Ready (Inl e)" | room p where "a = Ready (Inr (room, p))"
    by (cases a) (auto, metis old.sum.exhaust surj_pair)
  then show ?case
  proof cases
    case (3 room p)
    obtain used where "src = used @ src'" "fu_back s' = fu_back (fu_deliver ops room p s)" "fu_send_buf s' = fu_send_buf (fu_deliver ops room p s)"
      "separate ops ((ps @ [p]) @ received used) (fu_conn s')"
      by (rule Cons.IH [OF _ deliver_separate [OF Cons.prems(2)]]) (use Cons.prems(3) 3 in auto)
    with 3 show ?thesis
      by (intro Cons.prems(1) [of "a # used"]) (simp_all add: fu_deliver_def fu_get_def Let_def split: option.splits)
  qed (use Cons.prems in \<open>auto intro: Cons.prems(1) [of "[a]"]\<close>)
qed

end

text \<open>A least recently used cache with a capacity is such a cache.\<close>

definition lru_conns :: "nat \<Rightarrow> (socket_addr \<times> udp_connection) list conn_ops" where
  "lru_conns capacity = \<lparr>
     cc_peek = \<lambda>c k. map_of c k,
     cc_entry = \<lambda>k v c. take (Suc capacity) ((k, case map_of c k of Some w \<Rightarrow> w | None \<Rightarrow> v) # filter (\<lambda>p. fst p \<noteq> k) c),
     cc_set = \<lambda>k v c. map (\<lambda>p. if fst p = k then (k, v) else p) c \<rparr>"

lemma map_of_set: "map_of (map (\<lambda>p. if fst p = k then (k, v) else p) c) k' = (if k' = k \<and> map_of c k \<noteq> None then Some v else map_of c k')"
  by (induction c) auto

interpretation lru_conn: conn_cache "lru_conns capacity" for capacity
proof unfold_locales
  fix k k' :: socket_addr and v :: udp_connection and c
  show "cc_peek (lru_conns capacity) (cc_entry (lru_conns capacity) k v c) k
      = Some (case cc_peek (lru_conns capacity) c k of Some w \<Rightarrow> w | None \<Rightarrow> v)" by (simp add: lru_conns_def)
  show "cc_peek (lru_conns capacity) (cc_entry (lru_conns capacity) k v c) k' \<in> {cc_peek (lru_conns capacity) c k', None}" if "k' \<noteq> k"
    using that map_of_take [of capacity "filter (\<lambda>p. fst p \<noteq> k) c" k'] by (auto simp: lru_conns_def map_of_filter_ne)
qed (auto simp: lru_conns_def map_of_set)

subsection \<open>The whole forwarder\<close>

definition sent_form :: "udp_packet \<Rightarrow> bytes \<times> socket_addr \<times> socket_addr" where
  "sent_form p = (up_data p, up_from p, up_to p)"

definition held :: "udp_packet option \<Rightarrow> udp_packet list \<Rightarrow> udp_packet list" where
  "held b q = (case b of None \<Rightarrow> [] | Some p \<Rightarrow> [p]) @ q"

lemma poll_send_back_keeps:
  "poll_send_back q b sk = (q', b', sk', r) \<Longrightarrow>
   sk_sent sk' @ map sent_form (held b' q') = sk_sent sk @ map sent_form (held b q) \<and> r \<noteq> Ready (Inr ())"
proof (induction q b sk rule: poll_send_back.induct)
  case (1 q p sk)
  then show ?case
    by (auto simp: held_def sent_form_def sink_send_def split: prod.splits poll.splits sum.splits list.splits)
qed (auto simp: held_def)

text \<open>A step of the forwarder: a poll, or an answer that the relay of a client puts into the queue through its
  \<open>BackChannel\<close>.\<close>

datatype fu_op = FuPoll | FuAnswer back_channel bytes socket_addr

fun fu_run ::
  "'c conn_ops \<Rightarrow> ('c \<Rightarrow> 'c) \<Rightarrow> fu_op list \<Rightarrow> (bool \<times> udp_packet) io poll list \<Rightarrow> endpoint_sink \<Rightarrow> 'c forward_udp
   \<Rightarrow> (bool \<times> udp_packet) io poll list \<times> endpoint_sink \<times> 'c forward_udp" where
  "fu_run ops clear [] src sk s = (src, sk, s)"
| "fu_run ops clear (FuPoll # ps) src sk s = (case forward_udp_poll ops clear src sk s of
     (s', src', sk', _) \<Rightarrow> fu_run ops clear ps src' sk' s')"
| "fu_run ops clear (FuAnswer bc buf target # ps) src sk s =
     fu_run ops clear ps src sk (s\<lparr> fu_back := fst (snd (bc_poll_recv_from (Ready (Inr ())) (Ready (Inr ())) buf target bc (fu_back s))) \<rparr>)"

definition answers :: "fu_op list \<Rightarrow> udp_packet list" where
  "answers ps = List.map_filter (\<lambda>p. case p of FuAnswer bc buf target \<Rightarrow>
     (if bc_flushing bc then None else Some \<lparr> up_from = target, up_to = bc_to bc, up_data = buf \<rparr>) | FuPoll \<Rightarrow> None) ps"

definition fu_inv :: "'c conn_ops \<Rightarrow> (bool \<times> udp_packet) io poll list \<Rightarrow> udp_packet list
   \<Rightarrow> (bool \<times> udp_packet) io poll list \<times> endpoint_sink \<times> 'c forward_udp \<Rightarrow> bool" where
  "fu_inv ops src0 answered = (\<lambda>(src, sk, s). \<exists>used. src0 = used @ src \<and> separate ops (received used) (fu_conn s)
     \<and> sk_sent sk @ map sent_form (held (fu_send_buf s) (fu_back s)) = map sent_form answered)"

lemma forward_udp_poll_inv:
  assumes "conn_cache ops" "\<And>c k. cc_peek ops (clear c) k \<in> {cc_peek ops c k, None}" "fu_inv ops src0 ans (src, sk, s)"
    and "forward_udp_poll ops clear src sk s = (s', src', sk', r)"
  shows "fu_inv ops src0 ans (src', sk', s')"
proof -
  obtain used where u: "src0 = used @ src" "separate ops (received used) (fu_conn s)"
    "sk_sent sk @ map sent_form (held (fu_send_buf s) (fu_back s)) = map sent_form ans" using assms(3) by (auto simp: fu_inv_def)
  obtain s1 src1 r1 where p: "poll_recv_packet ops src s = (s1, src1, r1)" by (metis prod_cases3)
  obtain used1 where u1: "src = used1 @ src1" "separate ops (received used @ received used1) (fu_conn s1)" "fu_back s1 = fu_back s" "fu_send_buf s1 = fu_send_buf s"
    by (rule conn_cache.recv_packet_separate [OF assms(1) u(2) p])
  have clear: "separate ops ps c \<Longrightarrow> separate ops ps (clear c)" for ps c
    using assms(2) unfolding separate_def by (metis empty_iff insert_iff option.distinct(1))
  obtain q b sk1 r2 where b: "poll_send_back (fu_back s1) (fu_send_buf s1) sk = (q, b, sk1, r2)" by (metis prod_cases4)
  from poll_send_back_keeps [OF b] u(3) u1(3,4) have k: "sk_sent sk1 @ map sent_form (held b q) = map sent_form ans" by simp
  have "src0 = (used @ used1) @ src1" using u(1) u1(1) by simp
  moreover have "separate ops (received (used @ used1)) (fu_conn s1)" using u1(2) by simp
  moreover have "src' = src1 \<and> ((s' = s1 \<and> sk' = sk) \<or> (sk' = sk1 \<and> fu_send_buf s' = b \<and> fu_back s' = q \<and> fu_conn s' \<in> {fu_conn s1, clear (fu_conn s1)}))"
    using assms(4) p b by (auto simp: forward_udp_poll_def Let_def split: poll.splits sum.splits)
  ultimately show ?thesis using k u(3) u1(3,4) clear unfolding fu_inv_def by (intro case_prodI exI [of _ "used @ used1"]) auto
qed

lemma fu_run_inv:
  assumes "conn_cache ops" "\<And>c k. cc_peek ops (clear c) k \<in> {cc_peek ops c k, None}" "fu_inv ops src0 ans (src, sk, s)"
  shows "fu_inv ops src0 (ans @ answers ps) (fu_run ops clear ps src sk s)"
  using assms(3)
proof (induction ps arbitrary: src sk s ans)
  case (Cons p ps)
  show ?case
  proof (cases p)
    case FuPoll
    obtain s' src' sk' r where f: "forward_udp_poll ops clear src sk s = (s', src', sk', r)" by (metis prod_cases4)
    with Cons.IH [OF forward_udp_poll_inv [OF assms(1,2) Cons.prems f]] FuPoll show ?thesis by (simp add: answers_def map_filter_simps)
  next
    case (FuAnswer bc buf target)
    let ?new = "if bc_flushing bc then [] else [\<lparr> up_from = target, up_to = bc_to bc, up_data = buf \<rparr>]"
    have "fst (snd (bc_poll_recv_from (Ready (Inr ())) (Ready (Inr ())) buf target bc (fu_back s))) = fu_back s @ ?new"
      by (simp add: bc_poll_recv_from_def bc_finish_def)
    with Cons.prems have "fu_inv ops src0 (ans @ ?new)
        (src, sk, s\<lparr> fu_back := fst (snd (bc_poll_recv_from (Ready (Inr ())) (Ready (Inr ())) buf target bc (fu_back s))) \<rparr>)"
      by (auto simp: fu_inv_def held_def)
    from Cons.IH [OF this] FuAnswer show ?thesis by (simp add: answers_def map_filter_simps split: if_splits)
  qed
qed (simp add: answers_def map_filter_simps)

text \<open>C27: Forwarding keeps clients apart. Whatever datagrams arrive, whatever the cache drops and the bounded
  channels refuse, and however answers interleave: a connection belongs to one client address, is bound for
  it, and has been given, in order, only datagrams of that client; and the answers reach the source
  in the order in which the relays produced them, each addressed to the client of its relay.\<close>

theorem forward_udp_separates:
  assumes "conn_cache ops" "\<And>c k. cc_peek ops (clear c) k \<in> {cc_peek ops c k, None}"
    and "cc_peek ops (fu_conn s) = (\<lambda>_. None)" "fu_back s = []" "fu_send_buf s = None" "sk_sent sk = []"
    and "fu_run ops clear ps src sk s = (src', sk', s')"
  shows "\<exists>used. src = used @ src'
    \<and> (\<forall>k conn. cc_peek ops (fu_conn s') k = Some conn \<longrightarrow>
         fc_from conn = k \<and> fc_bind conn = any_addr_port k \<and> subseq (fc_accepted conn) (from_client k (received used)))
    \<and> sk_sent sk' @ map sent_form (held (fu_send_buf s') (fu_back s')) = map sent_form (answers ps)"
proof -
  have "fu_inv ops src [] (src, sk, s)" using assms(3-6) by (simp add: fu_inv_def separate_def held_def)
  from fu_run_inv [OF assms(1,2) this, of ps] assms(7) show ?thesis by (auto simp: fu_inv_def separate_def)
qed

theorem forward_udp_separates_witness:
  "\<exists>used src' sk' s'. fu_run (lru_conns 255) (\<lambda>c. c) [FuPoll, FuAnswer (back_channel_new (SockV4 1 1)) [5] (SockV4 9 9), FuPoll]
      [Ready (Inr (True, \<lparr> up_from = SockV4 1 1, up_to = SockV4 9 9, up_data = [7] \<rparr>)), Pending]
      \<lparr> sk_answers = [Ready (Inr ())], sk_sent = [] \<rparr> \<lparr> fu_conn = [], fu_back = [], fu_send_buf = None \<rparr> = (src', sk', s')
    \<and> cc_peek (lru_conns 255) (fu_conn s') (SockV4 1 1) \<noteq> None
    \<and> sk_sent sk' @ map sent_form (held (fu_send_buf s') (fu_back s')) = [([5], SockV4 9 9, SockV4 1 1)]"
proof -
  define ps where "ps = [FuPoll, FuAnswer (back_channel_new (SockV4 1 1)) [5] (SockV4 9 9), FuPoll]"
  define src where "src = [Ready (Inr (True, \<lparr> up_from = SockV4 1 1, up_to = SockV4 9 9, up_data = [7 :: byte] \<rparr>)), Pending :: (bool \<times> udp_packet) io poll]"
  define sk :: endpoint_sink where "sk = \<lparr> sk_answers = [Ready (Inr ())], sk_sent = [] \<rparr>"
  define s where "s = \<lparr> fu_conn = ([] :: (socket_addr \<times> udp_connection) list), fu_back = [], fu_send_buf = None \<rparr>"
  obtain src' sk' s' where run: "fu_run (lru_conns 255) (\<lambda>c. c) ps src sk s = (src', sk', s')" by (metis prod_cases3)
  then have "cc_peek (lru_conns 255) (fu_conn s') (SockV4 1 1) \<noteq> None"
    by (auto simp: ps_def src_def sk_def s_def forward_udp_poll_def fu_deliver_def fu_get_def fc_send_def lru_conns_def bc_poll_recv_from_def
        bc_finish_def back_channel_new_def sink_send_def Let_def)
  moreover have "map sent_form (answers ps) = [([5], SockV4 9 9, SockV4 1 1)]"
    by (simp add: answers_def ps_def map_filter_simps back_channel_new_def sent_form_def)
  moreover have "sk_sent sk' @ map sent_form (held (fu_send_buf s') (fu_back s')) = map sent_form (answers ps)"
    using forward_udp_separates [OF lru_conn.conn_cache_axioms _ _ _ _ _ run] by (auto simp: s_def sk_def lru_conns_def)
  ultimately show ?thesis using run unfolding ps_def src_def sk_def s_def by auto
qed

end
