(* ===== verification/Nets.thy ===== *)
theory Nets
  imports Conn_Context Address Errors
begin

section \<open>Nets\<close>

text \<open>
  \<open>rd-interface/src/interface.rs\<close> (\<open>INet\<close>, \<open>Net\<close>), the nets of the engine that wrap another net
  (\<open>RunningNet\<close> and \<open>RunningServerNet\<close> of \<open>running.rs\<close>) and the built-in nets that combine others:
  \<open>alias\<close>, \<open>combine\<close>, \<open>noop\<close> and \<open>resolve\<close> of \<open>rd-std/src/builtin\<close> and \<open>select\<close> of \<open>src/select.rs\<close>. A net is
  the capabilities it provides; a call gets the connection context and the address and acts on the world
  \<open>'w\<close>. Streams, listeners and sockets are opaque.
\<close>

type_synonym ('w, 'a) net_call = "conn_context \<Rightarrow> address \<Rightarrow> 'w \<Rightarrow> 'w \<times> conn_context \<times> 'a rd"
type_synonym 'w net_lookup = "address \<Rightarrow> 'w \<Rightarrow> 'w \<times> socket_addr list rd"

record ('w, 't, 'l, 'u) inet =
  provide_tcp_connect :: "('w, 't) net_call option"
  provide_tcp_bind :: "('w, 'l) net_call option"
  provide_udp_bind :: "('w, 'u) net_call option"
  provide_lookup_host :: "'w net_lookup option"

text \<open>\<open>Net::tcp_connect\<close>, \<open>tcp_bind\<close>, \<open>udp_bind\<close> and \<open>lookup_host\<close>.\<close>

definition call_net :: "('w, 'a) net_call option \<Rightarrow> ('w, 'a) net_call" where
  "call_net f ctx addr w = (case f of None \<Rightarrow> (w, ctx, Inl NotImplemented) | Some g \<Rightarrow> g ctx addr w)"

definition net_lookup_host :: "('w, 't, 'l, 'u) inet \<Rightarrow> 'w net_lookup" where
  "net_lookup_host net addr w = (case provide_lookup_host net of None \<Rightarrow> (w, Inl NotImplemented) | Some g \<Rightarrow> g addr w)"

subsection \<open>Built-in nets\<close>

definition not_implemented_net :: "('w, 't, 'l, 'u) inet" where
  "not_implemented_net = \<lparr> provide_tcp_connect = None, provide_tcp_bind = None, provide_udp_bind = None, provide_lookup_host = None \<rparr>"

definition alias_net :: "('w, 't, 'l, 'u) inet \<Rightarrow> ('w, 't, 'l, 'u) inet" where
  "alias_net net = \<lparr> provide_tcp_connect = provide_tcp_connect net, provide_tcp_bind = provide_tcp_bind net,
     provide_udp_bind = provide_udp_bind net, provide_lookup_host = provide_lookup_host net \<rparr>"

definition combine_net ::
  "('w, 't, 'l, 'u) inet \<Rightarrow> ('w, 't, 'l, 'u) inet \<Rightarrow> ('w, 't, 'l, 'u) inet \<Rightarrow> ('w, 't, 'l, 'u) inet \<Rightarrow> ('w, 't, 'l, 'u) inet" where
  "combine_net tc tb ub lh = \<lparr> provide_tcp_connect = provide_tcp_connect tc, provide_tcp_bind = provide_tcp_bind tb,
     provide_udp_bind = provide_udp_bind ub, provide_lookup_host = provide_lookup_host lh \<rparr>"

definition select_net_new :: "('w, 't, 'l, 'u) inet \<Rightarrow> ('w, 't, 'l, 'u) inet list \<Rightarrow> ('w, 't, 'l, 'u) inet rd" where
  "select_net_new selected lst = (if lst = [] then Inl (OtherError ''select list is empty'')
     else Inr \<lparr> provide_tcp_connect = provide_tcp_connect selected, provide_tcp_bind = provide_tcp_bind selected,
       provide_udp_bind = provide_udp_bind selected, provide_lookup_host = provide_lookup_host selected \<rparr>)"

text \<open>\<open>resolve\<close>: the resolver asks the other net and keeps the address families asked for; the error of the
  lookup becomes an I/O error. The addresses are then tried in order.\<close>

definition is_v4 :: "socket_addr \<Rightarrow> bool" where
  "is_v4 s = (case s of SockV4 _ _ \<Rightarrow> True | SockV6 _ _ _ _ \<Rightarrow> False)"

definition resolve_addrs ::
  "(rd_error \<Rightarrow> string) \<Rightarrow> ('w, 't, 'l, 'u) inet \<Rightarrow> bool \<Rightarrow> bool \<Rightarrow> address \<Rightarrow> 'w \<Rightarrow> 'w \<times> socket_addr list io" where
  "resolve_addrs display resolve_net ipv4 ipv6 addr w = (case normalize addr of
     Inl s \<Rightarrow> (w, Inr [s])
   | Inr (d, p) \<Rightarrow>
       (case net_lookup_host resolve_net (Domain d p) w of
          (w', Inl e) \<Rightarrow> (w', Inl (to_io_err display e))
        | (w', Inr as) \<Rightarrow> (w', Inr (filter (\<lambda>i. (ipv4 \<and> is_v4 i) \<or> (ipv6 \<and> \<not> is_v4 i)) as))))"

fun try_addrs :: "('w, 'a) net_call \<Rightarrow> rd_error option \<Rightarrow> socket_addr list \<Rightarrow> conn_context \<Rightarrow> 'w \<Rightarrow> 'w \<times> conn_context \<times> 'a rd" where
  "try_addrs f last_err [] ctx w =
     (w, ctx, Inl (case last_err of Some e \<Rightarrow> e | None \<Rightarrow> IO (IoError NotFoundKind ''could not resolve to any address'')))"
| "try_addrs f last_err (a # as) ctx w = (case f ctx (SocketAddr a) w of
     (w', ctx', Inr x) \<Rightarrow> (w', ctx', Inr x)
   | (w', ctx', Inl e) \<Rightarrow> try_addrs f (Some e) as ctx' w')"

definition resolve_call ::
  "(rd_error \<Rightarrow> string) \<Rightarrow> ('w, 't, 'l, 'u) inet \<Rightarrow> bool \<Rightarrow> bool \<Rightarrow> ('w, 'a) net_call option \<Rightarrow> ('w, 'a) net_call" where
  "resolve_call display resolve_net ipv4 ipv6 f ctx addr w = (case resolve_addrs display resolve_net ipv4 ipv6 addr w of
     (w', Inl e) \<Rightarrow> (w', ctx, Inl (IO e))
   | (w', Inr as) \<Rightarrow> try_addrs (call_net f) None as ctx w')"

definition resolve_net_new ::
  "(rd_error \<Rightarrow> string) \<Rightarrow> ('w, 't, 'l, 'u) inet \<Rightarrow> ('w, 't, 'l, 'u) inet \<Rightarrow> bool \<Rightarrow> bool \<Rightarrow> ('w, 't, 'l, 'u) inet" where
  "resolve_net_new display net rnet ipv4 ipv6 = \<lparr>
     provide_tcp_connect = Some (resolve_call display rnet ipv4 ipv6 (provide_tcp_connect net)),
     provide_tcp_bind = provide_tcp_bind net,
     provide_udp_bind = Some (resolve_call display rnet ipv4 ipv6 (provide_udp_bind net)),
     provide_lookup_host = provide_lookup_host net \<rparr>"

subsection \<open>Nets of the engine\<close>

text \<open>\<open>RunningNet\<close> provides everything and adds its name to the list of nets of the context.\<close>

definition named_call :: "string \<Rightarrow> ('w, 'a) net_call option \<Rightarrow> ('w, 'a) net_call" where
  "named_call name f ctx addr w = call_net f (append_net name ctx) addr w"

definition running_net :: "string \<Rightarrow> ('w, 't, 'l, 'u) inet \<Rightarrow> ('w, 't, 'l, 'u) inet" where
  "running_net name net = \<lparr>
     provide_tcp_connect = Some (named_call name (provide_tcp_connect net)),
     provide_tcp_bind = Some (named_call name (provide_tcp_bind net)),
     provide_udp_bind = Some (named_call name (provide_udp_bind net)),
     provide_lookup_host = Some (net_lookup_host net) \<rparr>"

text \<open>\<open>RunningServerNet\<close>: \<open>wrap_tcp\<close> and \<open>wrap_udp\<close> register the connection with the connection manager.\<close>

record ('w, 't, 'u) server_env =
  sv_domain_json :: "address_domain \<Rightarrow> string + json"
  sv_socket_json :: "socket_addr \<Rightarrow> string + json"
  sv_wrap_tcp :: "'t \<Rightarrow> address \<Rightarrow> conn_context \<Rightarrow> 'w \<Rightarrow> 'w \<times> 't"
  sv_wrap_udp :: "'u \<Rightarrow> address \<Rightarrow> conn_context \<Rightarrow> 'w \<Rightarrow> 'w \<times> 'u"

definition insert_dest :: "('w, 't, 'u) server_env \<Rightarrow> address \<Rightarrow> conn_context \<Rightarrow> conn_context rd" where
  "insert_dest env addr ctx = map_err ContextError (case addr of
     Domain d p \<Rightarrow> ctx_insert (sv_domain_json env) KEY_dest_domain \<lparr> ad_domain = d, ad_port = p \<rparr> ctx
   | SocketAddr s \<Rightarrow> ctx_insert (sv_socket_json env) KEY_dest_socket_addr s ctx)"

definition server_tcp_connect :: "('w, 't, 'u) server_env \<Rightarrow> string \<Rightarrow> ('w, 't, 'l, 'u) inet \<Rightarrow> ('w, 't) net_call" where
  "server_tcp_connect env server_name net ctx addr w =
     (let ctx1 = append_net server_name ctx in
      case insert_dest env addr ctx1 of
        Inl e \<Rightarrow> (w, ctx1, Inl e)
      | Inr ctx2 \<Rightarrow>
          (case call_net (provide_tcp_connect net) ctx2 addr w of
             (w', ctx3, Inl e) \<Rightarrow> (w', ctx3, Inl e)
           | (w', ctx3, Inr tcp) \<Rightarrow> (case sv_wrap_tcp env tcp addr ctx3 w' of (w'', tcp') \<Rightarrow> (w'', ctx3, Inr tcp'))))"

definition server_udp_bind :: "('w, 't, 'u) server_env \<Rightarrow> string \<Rightarrow> ('w, 't, 'l, 'u) inet \<Rightarrow> ('w, 'u) net_call" where
  "server_udp_bind env server_name net ctx addr w =
     (case call_net (provide_udp_bind net) (append_net server_name ctx) addr w of
        (w', ctx', Inl e) \<Rightarrow> (w', ctx', Inl e)
      | (w', ctx', Inr udp) \<Rightarrow> (case sv_wrap_udp env udp addr ctx' w' of (w'', udp') \<Rightarrow> (w'', ctx', Inr udp')))"

definition running_server_net :: "('w, 't, 'u) server_env \<Rightarrow> string \<Rightarrow> ('w, 't, 'l, 'u) inet \<Rightarrow> ('w, 't, 'l, 'u) inet" where
  "running_server_net env server_name net = \<lparr>
     provide_tcp_connect = Some (server_tcp_connect env server_name net),
     provide_tcp_bind = Some (named_call server_name (provide_tcp_bind net)),
     provide_udp_bind = Some (server_udp_bind env server_name net),
     provide_lookup_host = provide_lookup_host net \<rparr>"

subsection \<open>Resolving\<close>

text \<open>Trying addresses ends with the first that works, after the ones before it have failed.\<close>

inductive tried :: "('w, 'a) net_call \<Rightarrow> socket_addr list \<Rightarrow> conn_context \<times> 'w \<Rightarrow> conn_context \<times> 'w \<Rightarrow> bool" where
  none: "tried f [] s s"
| failed: "f ctx (SocketAddr a) w = (w', ctx', Inl e) \<Longrightarrow> tried f as (ctx', w') s \<Longrightarrow> tried f (a # as) (ctx, w) s"

lemma try_addrs_ok:
  "try_addrs f e as ctx w = (w', ctx', Inr x) \<Longrightarrow>
   \<exists>before a after c1 w1. as = before @ a # after \<and> tried f before (ctx, w) (c1, w1) \<and> f c1 (SocketAddr a) w1 = (w', ctx', Inr x)"
proof (induction f e as ctx w rule: try_addrs.induct)
  case (2 f last_err a as ctx w)
  obtain w1 c1 r where f: "f ctx (SocketAddr a) w = (w1, c1, r)" by (metis prod_cases3)
  show ?case
  proof (cases r)
    case (Inl e)
    with 2 f obtain before b after c2 w2 where "as = before @ b # after" "tried f before (c1, w1) (c2, w2)" "f c2 (SocketAddr b) w2 = (w', ctx', Inr x)"
      by fastforce
    moreover from this(2) f Inl have "tried f (a # before) (ctx, w) (c2, w2)" by (auto intro: tried.failed)
    ultimately show ?thesis by (metis append_Cons)
  next
    case (Inr y)
    with 2 f show ?thesis by (intro exI [of _ "[]"] exI [of _ a] exI [of _ as]) (auto intro: tried.none)
  qed
qed simp

lemma try_addrs_err:
  "try_addrs f e as ctx w = (w', ctx', Inl x) \<Longrightarrow> tried f as (ctx, w) (ctx', w')"
proof (induction f e as ctx w rule: try_addrs.induct)
  case (2 f last_err a as ctx w)
  obtain w1 c1 r where "f ctx (SocketAddr a) w = (w1, c1, r)" by (metis prod_cases3)
  with 2 show ?case by (cases r) (auto intro: tried.failed)
qed (auto intro: tried.none)

text \<open>C31: The \<open>resolve\<close> net connects to the first address that works. An address that is, or names, an IP address
  is connected to as it is, whatever its family. For a name it asks the resolving net: if that fails, so does the connection, with its
  error; otherwise the addresses of the answer whose family is enabled are tried in the order of the answer, and the stream
  belongs to the first that works, after those before it failed. Without success all of them were tried, and when there are none the error says so.\<close>

theorem resolve_connects_first:
  assumes "call_net (provide_tcp_connect (resolve_net_new display net rnet ipv4 ipv6)) ctx addr w = (w', ctx', r)"
  shows "case normalize addr of
     Inl a \<Rightarrow> (w', ctx', r) = call_net (provide_tcp_connect net) ctx (SocketAddr a) w
   | Inr (d, p) \<Rightarrow> (case net_lookup_host rnet (Domain d p) w of
       (w0, Inl e) \<Rightarrow> w' = w0 \<and> ctx' = ctx \<and> r = Inl (IO (to_io_err display e))
     | (w0, Inr found) \<Rightarrow> (case r of
         Inr tcp \<Rightarrow> \<exists>before a after c1 w1. [a \<leftarrow> found. case a of SockV4 _ _ \<Rightarrow> ipv4 | SockV6 _ _ _ _ \<Rightarrow> ipv6] = before @ a # after
             \<and> tried (call_net (provide_tcp_connect net)) before (ctx, w0) (c1, w1)
             \<and> call_net (provide_tcp_connect net) c1 (SocketAddr a) w1 = (w', ctx', Inr tcp)
       | Inl e \<Rightarrow> tried (call_net (provide_tcp_connect net)) [a \<leftarrow> found. case a of SockV4 _ _ \<Rightarrow> ipv4 | SockV6 _ _ _ _ \<Rightarrow> ipv6] (ctx, w0) (ctx', w')
           \<and> (if [a \<leftarrow> found. case a of SockV4 _ _ \<Rightarrow> ipv4 | SockV6 _ _ _ _ \<Rightarrow> ipv6] = []
              then e = IO (IoError NotFoundKind ''could not resolve to any address'') else True)))"
proof (cases "normalize addr")
  case (Inl a)
  have "try_addrs f None [a] ctx w = f ctx (SocketAddr a) w" for f :: "('a, 'b) net_call"
    by (simp split: prod.split sum.split)
  with assms Inl show ?thesis
    by (simp add: call_net_def [of "Some _"] resolve_net_new_def resolve_call_def resolve_addrs_def)
next
  case (Inr dp)
  obtain d p where dp: "dp = (d, p)" by (cases dp)
  obtain w0 l where l: "net_lookup_host rnet (Domain d p) w = (w0, l)" by (cases "net_lookup_host rnet (Domain d p) w")
  let ?f = "call_net (provide_tcp_connect net)"
  show ?thesis
  proof (cases l)
    case (Inl e)
    with assms Inr dp l show ?thesis
      by (simp add: call_net_def [of "Some _"] resolve_net_new_def resolve_call_def resolve_addrs_def)
  next
    case found: (Inr found)
    let ?as = "[a \<leftarrow> found. case a of SockV4 _ _ \<Rightarrow> ipv4 | SockV6 _ _ _ _ \<Rightarrow> ipv6]"
    have "filter (\<lambda>i. (ipv4 \<and> is_v4 i) \<or> (ipv6 \<and> \<not> is_v4 i)) found = ?as"
      by (rule filter_cong) (auto simp: is_v4_def split: socket_addr.split)
    with assms Inr dp l found have t: "try_addrs ?f None ?as ctx w0 = (w', ctx', r)"
      by (simp add: call_net_def [of "Some _"] resolve_net_new_def resolve_call_def resolve_addrs_def)
    show ?thesis
    proof (cases r)
      case (Inr tcp)
      with t try_addrs_ok [of ?f None ?as ctx w0 w' ctx' tcp] \<open>normalize addr = Inr dp\<close> dp l found show ?thesis by simp
    next
      case (Inl e)
      have "e = IO (IoError NotFoundKind ''could not resolve to any address'')" if "?as = []"
        using t Inl unfolding that by simp
      with t try_addrs_err [of ?f None ?as ctx w0 w' ctx' e] Inl \<open>normalize addr = Inr dp\<close> dp l found show ?thesis by simp
    qed
  qed
qed

text \<open>A net over the world of the addresses that were tried: port 1 refuses, and lookups give two addresses.\<close>

definition test_net :: "(address list, address, unit, unit) inet" where
  "test_net = \<lparr> provide_tcp_connect = Some (\<lambda>ctx a w. (w @ [a], ctx, if port a = 1 then Inl Timeout else Inr a)),
     provide_tcp_bind = None, provide_udp_bind = None,
     provide_lookup_host = Some (\<lambda>a w. (w, Inr [SockV4 7 1, SockV6 9 (port a) 0 0, SockV4 8 (port a)])) \<rparr>"

lemma read_number_None: "takeWhile (is_digit r) s = [] \<Longrightarrow> read_number r m z b s = None"
  by (simp add: read_number_def)

text \<open>A name that starts with neither a digit nor a colon is not an address.\<close>

lemma parse_ip_name:
  assumes "takeWhile (is_digit 10) s = []" "takeWhile (is_digit 16) s = []" "read_given_char (CHR '':'') s = None"
  shows "parse_ip s = None"
proof -
  have "read_octets 4 True s = None"
    using read_octets.simps(2) [of 3 True s] by (simp add: read_separator_def read_number_None [OF assms(1)])
  then have v4: "read_ipv4_addr s = None" by (simp add: read_ipv4_addr_def)
  have "read_groups 8 True s = ([], False, s)"
    using read_groups.simps(2) [of 7 True s] by (simp add: read_separator_def v4 read_number_None [OF assms(2)])
  then have "read_ipv6_addr s = None" using assms(3) by (simp add: read_ipv6_addr_def)
  with v4 show ?thesis by (simp add: parse_ip_def read_ip_addr_def)
qed

lemma resolve_example:
  "normalize (Domain ''xy'' 80) = Inr (''xy'', 80)"
  "call_net (provide_tcp_connect (resolve_net_new (\<lambda>_. []) test_net test_net True False)) ctx_new (Domain ''xy'' 80) []
    = ([SocketAddr (SockV4 7 1), SocketAddr (SockV4 8 80)], ctx_new, Inr (SocketAddr (SockV4 8 80)))"
proof -
  have "strip_brackets ''xy'' = ''xy''" by code_simp
  moreover have "parse_ip ''xy'' = None" by (rule parse_ip_name; code_simp)
  ultimately have "parse_ip (strip_brackets ''xy'') = None" by simp
  then show n: "normalize (Domain ''xy'' 80) = Inr (''xy'', 80)" by simp
  then show "call_net (provide_tcp_connect (resolve_net_new (\<lambda>_. []) test_net test_net True False)) ctx_new (Domain ''xy'' 80) []
    = ([SocketAddr (SockV4 7 1), SocketAddr (SockV4 8 80)], ctx_new, Inr (SocketAddr (SockV4 8 80)))"
    by (simp add: call_net_def [of "Some _"] resolve_net_new_def resolve_call_def resolve_addrs_def net_lookup_host_def)
      (simp add: test_net_def call_net_def is_v4_def)
qed

lemma resolve_connects_first_witness:
  "\<exists>before a after c1 w1. [SockV4 7 1, SockV4 8 80] = before @ a # after
     \<and> tried (call_net (provide_tcp_connect test_net)) before (ctx_new, []) (c1, w1)
     \<and> call_net (provide_tcp_connect test_net) c1 (SocketAddr a) w1
         = ([SocketAddr (SockV4 7 1), SocketAddr (SockV4 8 80)], ctx_new, Inr (SocketAddr (SockV4 8 80)))"
proof -
  have "net_lookup_host test_net (Domain ''xy'' 80) [] = ([], Inr [SockV4 7 1, SockV6 9 80 0 0, SockV4 8 80])"
    by (simp add: net_lookup_host_def test_net_def)
  with resolve_connects_first [OF resolve_example(2)] resolve_example(1) show ?thesis by simp
qed

subsection \<open>The path of a connection\<close>

definition dest_key :: "address \<Rightarrow> string" where
  "dest_key addr = (case addr of Domain _ _ \<Rightarrow> KEY_dest_domain | SocketAddr _ \<Rightarrow> KEY_dest_socket_addr)"

definition dest_json :: "('w, 't, 'u) server_env \<Rightarrow> address \<Rightarrow> string + json" where
  "dest_json env addr = (case addr of Domain d p \<Rightarrow> sv_domain_json env \<lparr> ad_domain = d, ad_port = p \<rparr> | SocketAddr s \<Rightarrow> sv_socket_json env s)"

definition chain :: "string list \<Rightarrow> ('w, 't, 'l, 'u) inet \<Rightarrow> ('w, 't, 'l, 'u) inet" where
  "chain names net = foldr running_net names net"

lemma call_chain:
  "call_net (provide_tcp_connect (chain names net)) ctx addr w = call_net (provide_tcp_connect net) (fold append_net names ctx) addr w"
  by (induction names arbitrary: ctx) (simp_all add: chain_def call_net_def [of "Some _"] running_net_def named_call_def)

lemma append_nets:
  "ctx_net_list ctx = cvs_of ss \<Longrightarrow> fold append_net names ctx = ctx\<lparr> ctx_net_list := cvs_of (ss @ names) \<rparr>"
  by (induction names arbitrary: ctx ss) (simp_all add: append_net_def)

text \<open>C10: A connection records its way. A TCP connection that a server opens through a chain of named nets
  reaches the last net with a context that lists the server and then the nets in the order they were passed,
  after what was listed before, holds the destination under its key and keeps every other value; its stream
  is the one of the last net, registered with the connection manager.\<close>

theorem connection_path_recorded:
  assumes "ctx_net_list ctx = cvs_of ss" "dest_json env addr = Inr v"
  shows "\<exists>ctx'. ctx_net_list ctx' = cvs_of (ss @ server # names)
    \<and> (\<forall>k. hm_get (ctx_data ctx') k = (if k = dest_key addr then Some v else hm_get (ctx_data ctx) k))
    \<and> call_net (provide_tcp_connect (running_server_net env server (chain names net))) ctx addr w
        = (case call_net (provide_tcp_connect net) ctx' addr w of
             (w', ctx3, Inl e) \<Rightarrow> (w', ctx3, Inl e)
           | (w', ctx3, Inr tcp) \<Rightarrow> (case sv_wrap_tcp env tcp addr ctx3 w' of (w'', tcp') \<Rightarrow> (w'', ctx3, Inr tcp')))"
proof -
  define ctx2 where "ctx2 = ctx\<lparr> ctx_net_list := cvs_of (ss @ [server]), ctx_data := hm_insert (dest_key addr) v (ctx_data ctx) \<rparr>"
  have i: "insert_dest env addr (append_net server ctx) = Inr ctx2"
    using assms by (cases addr) (simp_all add: insert_dest_def ctx_insert_def append_net_def ctx2_def dest_key_def dest_json_def)
  have f: "fold append_net names ctx2 = ctx2\<lparr> ctx_net_list := cvs_of ((ss @ [server]) @ names) \<rparr>"
    by (rule append_nets) (simp add: ctx2_def)
  show ?thesis
  proof (intro exI [of _ "fold append_net names ctx2"] conjI allI)
    show "call_net (provide_tcp_connect (running_server_net env server (chain names net))) ctx addr w
        = (case call_net (provide_tcp_connect net) (fold append_net names ctx2) addr w of
             (w', ctx3, Inl e) \<Rightarrow> (w', ctx3, Inl e)
           | (w', ctx3, Inr tcp) \<Rightarrow> (case sv_wrap_tcp env tcp addr ctx3 w' of (w'', tcp') \<Rightarrow> (w'', ctx3, Inr tcp')))"
      by (simp add: running_server_net_def call_net_def [of "Some _"] server_tcp_connect_def i call_chain Let_def)
  qed (simp_all add: f, simp_all add: ctx2_def)
qed

theorem connection_path_recorded_witness:
  "\<exists>ctx'. ctx_net_list ctx' = cvs_of [''in'', ''rule'', ''direct'']
    \<and> call_net (provide_tcp_connect (running_server_net
          \<lparr> sv_domain_json = \<lambda>_. Inr JNull, sv_socket_json = \<lambda>_. Inr JNull, sv_wrap_tcp = \<lambda>t a c w. (w, t), sv_wrap_udp = \<lambda>u a c w. (w, u) \<rparr>
          ''in'' (chain [''rule'', ''direct''] test_net))) ctx_new (SocketAddr (SockV4 8 80)) []
        = ([SocketAddr (SockV4 8 80)], ctx', Inr (SocketAddr (SockV4 8 80)))"
proof -
  have "ctx_net_list ctx_new = cvs_of []" by (simp add: ctx_new_def cvs_of_Nil)
  from connection_path_recorded [OF this, where env = "\<lparr> sv_domain_json = \<lambda>_. Inr JNull, sv_socket_json = \<lambda>_. Inr JNull,
      sv_wrap_tcp = \<lambda>t a c w. (w, t), sv_wrap_udp = \<lambda>u a c w. (w, u) \<rparr>" and addr = "SocketAddr (SockV4 8 80)"
      and server = "''in''" and names = "[''rule'', ''direct'']" and net = test_net and w = "[]"]
  show ?thesis by (auto simp: dest_json_def test_net_def call_net_def)
qed

subsection \<open>Capabilities as types\<close>

datatype capability = CapTcpConnect | CapTcpBind | CapUdpBind | CapLookupHost

datatype ('w, 't, 'l, 'u) net_expr =
    BaseNet "('w, 't, 'l, 'u) inet"
  | AliasOf "('w, 't, 'l, 'u) net_expr"
  | CombineOf "('w, 't, 'l, 'u) net_expr" "('w, 't, 'l, 'u) net_expr" "('w, 't, 'l, 'u) net_expr" "('w, 't, 'l, 'u) net_expr"
  | SelectOf "('w, 't, 'l, 'u) net_expr"
  | ResolveOf "('w, 't, 'l, 'u) net_expr" "('w, 't, 'l, 'u) net_expr" bool bool
  | RunningOf string "('w, 't, 'l, 'u) net_expr"
  | ServerOf string "('w, 't, 'l, 'u) net_expr"

fun eval_net :: "('w, 't, 'u) server_env \<Rightarrow> (rd_error \<Rightarrow> string) \<Rightarrow> ('w, 't, 'l, 'u) net_expr \<Rightarrow> ('w, 't, 'l, 'u) inet" where
  "eval_net env display (BaseNet net) = net"
| "eval_net env display (AliasOf e) = alias_net (eval_net env display e)"
| "eval_net env display (CombineOf a b c d) =
     combine_net (eval_net env display a) (eval_net env display b) (eval_net env display c) (eval_net env display d)"
| "eval_net env display (SelectOf e) = projr (select_net_new (eval_net env display e) [eval_net env display e])"
| "eval_net env display (ResolveOf e r ipv4 ipv6) = resolve_net_new display (eval_net env display e) (eval_net env display r) ipv4 ipv6"
| "eval_net env display (RunningOf name e) = running_net name (eval_net env display e)"
| "eval_net env display (ServerOf name e) = running_server_net env name (eval_net env display e)"

definition provides :: "('w, 't, 'l, 'u) inet \<Rightarrow> capability \<Rightarrow> bool" where
  "provides net c = (case c of
     CapTcpConnect \<Rightarrow> provide_tcp_connect net \<noteq> None
   | CapTcpBind \<Rightarrow> provide_tcp_bind net \<noteq> None
   | CapUdpBind \<Rightarrow> provide_udp_bind net \<noteq> None
   | CapLookupHost \<Rightarrow> provide_lookup_host net \<noteq> None)"

text \<open>The type of a net: the capabilities that work. A running net claims all of them.\<close>

fun net_type :: "('w, 't, 'l, 'u) net_expr \<Rightarrow> capability \<Rightarrow> bool" where
  "net_type (BaseNet net) c = provides net c"
| "net_type (AliasOf e) c = net_type e c"
| "net_type (CombineOf tc tb ub lh) c =
     (case c of CapTcpConnect \<Rightarrow> net_type tc c | CapTcpBind \<Rightarrow> net_type tb c | CapUdpBind \<Rightarrow> net_type ub c | CapLookupHost \<Rightarrow> net_type lh c)"
| "net_type (SelectOf e) c = net_type e c"
| "net_type (ResolveOf e r ipv4 ipv6) c = net_type e c"
| "net_type (RunningOf name e) c = net_type e c"
| "net_type (ServerOf name e) c = net_type e c"

text \<open>What the type says of a call: with the capability it is never answered by \<open>NotImplemented\<close>, without it
  it never succeeds.\<close>

definition call_typed :: "('w, 'a) net_call option \<Rightarrow> bool \<Rightarrow> bool" where
  "call_typed f b = (\<forall>ctx addr w. let r = snd (snd (call_net f ctx addr w)) in if b then r \<noteq> Inl NotImplemented else \<exists>e. r = Inl e)"

definition lookup_typed :: "('w, 't, 'l, 'u) inet \<Rightarrow> bool \<Rightarrow> bool" where
  "lookup_typed net b = (\<forall>addr w. let r = snd (net_lookup_host net addr w) in if b then r \<noteq> Inl NotImplemented else \<exists>e. r = Inl e)"

definition net_typed :: "('w, 't, 'l, 'u) inet \<Rightarrow> (capability \<Rightarrow> bool) \<Rightarrow> bool" where
  "net_typed net T = (call_typed (provide_tcp_connect net) (T CapTcpConnect) \<and> call_typed (provide_tcp_bind net) (T CapTcpBind)
     \<and> call_typed (provide_udp_bind net) (T CapUdpBind) \<and> lookup_typed net (T CapLookupHost))"

text \<open>A base net answers what it provides.\<close>

fun honest :: "('w, 't, 'l, 'u) net_expr \<Rightarrow> bool" where
  "honest (BaseNet net) = net_typed net (provides net)"
| "honest (AliasOf e) = honest e"
| "honest (CombineOf a b c d) = (honest a \<and> honest b \<and> honest c \<and> honest d)"
| "honest (SelectOf e) = honest e"
| "honest (ResolveOf e r ipv4 ipv6) = (honest e \<and> honest r)"
| "honest (RunningOf name e) = honest e"
| "honest (ServerOf name e) = honest e"

lemma call_typed_named: "call_typed f b \<Longrightarrow> call_typed (Some (named_call name f)) b"
  by (auto simp: call_typed_def call_net_def [of "Some _"] named_call_def)

lemma try_addrs_typed:
  assumes "call_typed f b" "\<And>e. last_err = Some e \<Longrightarrow> e \<noteq> NotImplemented \<or> \<not> b" "try_addrs (call_net f) last_err as ctx w = (w', ctx', r)"
  shows "if b then r \<noteq> Inl NotImplemented else \<exists>e. r = Inl e"
  using assms(2,3)
proof (induction "call_net f" last_err as ctx w rule: try_addrs.induct)
  case (2 last_err a as ctx w)
  obtain w1 c1 x where c: "call_net f ctx (SocketAddr a) w = (w1, c1, x)" by (metis prod_cases3)
  with assms(1) have x: "if b then x \<noteq> Inl NotImplemented else \<exists>e. x = Inl e" unfolding call_typed_def Let_def by (metis snd_conv)
  with 2 c show ?case by (cases x) (auto split: if_splits)
qed (auto split: option.splits if_splits)

lemma call_typed_resolve: "call_typed f b \<Longrightarrow> call_typed (Some (resolve_call display rnet ipv4 ipv6 f)) b"
proof (unfold call_typed_def [of "Some _"], intro allI)
  fix ctx addr w
  assume t: "call_typed f b"
  obtain w0 r where a: "resolve_addrs display rnet ipv4 ipv6 addr w = (w0, r)" by fastforce
  show "let r = snd (snd (call_net (Some (resolve_call display rnet ipv4 ipv6 f)) ctx addr w)) in if b then r \<noteq> Inl NotImplemented else \<exists>e. r = Inl e"
  proof (cases r)
    case (Inr as)
    obtain w' ctx' x where "try_addrs (call_net f) None as ctx w0 = (w', ctx', x)" by (metis prod_cases3)
    with try_addrs_typed [OF t _ this] a Inr show ?thesis by (simp add: call_net_def [of "Some _"] resolve_call_def Let_def)
  qed (simp add: a call_net_def resolve_call_def)
qed

lemma call_typed_server:
  "call_typed (provide_tcp_connect net) b \<Longrightarrow> call_typed (Some (server_tcp_connect env name net)) b"
  "call_typed (provide_udp_bind net) b \<Longrightarrow> call_typed (Some (server_udp_bind env name net)) b"
  unfolding call_typed_def
  by (auto simp: call_net_def [of "Some _"] server_tcp_connect_def server_udp_bind_def insert_dest_def map_err_def Let_def
      split: prod.splits sum.splits if_splits) (metis snd_conv sum.distinct(1))+

text \<open>C9: Capabilities are a sound type system for nets. For any combination of base nets by \<open>alias\<close>, \<open>combine\<close>,
  \<open>select\<close>, \<open>resolve\<close> and the nets of the engine, whose type is computed from its parts: an operation in the
  type is never refused as not implemented, and one that is not in the type never succeeds, although a
  running net claims to provide every operation.\<close>

theorem net_types_sound:
  assumes "honest e"
  shows "net_typed (eval_net env display e) (net_type e)"
  using assms
proof (induction e)
  case (CombineOf e1 e2 e3 e4)
  then show ?case by (simp add: net_typed_def combine_net_def lookup_typed_def net_lookup_host_def)
next
  case (RunningOf name e)
  then show ?case by (simp add: net_typed_def running_net_def call_typed_named lookup_typed_def net_lookup_host_def [of "\<lparr> provide_tcp_connect = _, provide_tcp_bind = _, provide_udp_bind = _, provide_lookup_host = _ \<rparr>"])
next
  case (ServerOf name e)
  then show ?case by (simp add: net_typed_def running_server_net_def call_typed_named call_typed_server lookup_typed_def net_lookup_host_def)
next
  case (ResolveOf e r ipv4 ipv6)
  then show ?case by (simp add: net_typed_def resolve_net_new_def call_typed_resolve lookup_typed_def net_lookup_host_def)
qed (simp_all add: net_typed_def alias_net_def select_net_new_def lookup_typed_def net_lookup_host_def)

lemma test_net_honest: "honest (BaseNet test_net)"
  by (simp add: net_typed_def provides_def test_net_def call_typed_def lookup_typed_def call_net_def net_lookup_host_def)

theorem net_types_sound_witness:
  "net_typed (eval_net \<lparr> sv_domain_json = \<lambda>_. Inr JNull, sv_socket_json = \<lambda>_. Inr JNull, sv_wrap_tcp = \<lambda>t a c w. (w, t),
       sv_wrap_udp = \<lambda>u a c w. (w, u) \<rparr> (\<lambda>_. []) (ServerOf ''in'' (RunningOf ''r'' (CombineOf (BaseNet test_net) (BaseNet not_implemented_net)
         (BaseNet not_implemented_net) (AliasOf (BaseNet test_net))))))
     (\<lambda>c. c = CapTcpConnect \<or> c = CapLookupHost)"
proof -
  let ?e = "ServerOf ''in'' (RunningOf ''r'' (CombineOf (BaseNet test_net) (BaseNet not_implemented_net)
         (BaseNet not_implemented_net) (AliasOf (BaseNet test_net))))"
  have "honest (BaseNet (not_implemented_net :: (address list, address, unit, unit) inet))"
    by (simp add: net_typed_def provides_def not_implemented_net_def call_typed_def lookup_typed_def call_net_def net_lookup_host_def)
  with test_net_honest have "honest ?e" by simp
  moreover have "net_type ?e = (\<lambda>c. c = CapTcpConnect \<or> c = CapLookupHost)"
    by (rule ext) (simp add: provides_def test_net_def not_implemented_net_def split: capability.splits)
  ultimately show ?thesis using net_types_sound [of ?e] by simp
qed

end
