(* ===== verification/Wrap_Streams.thy ===== *)
theory Wrap_Streams
  imports Conn_Manager Poll_Stream
begin

section \<open>Counted streams and sockets\<close>

text \<open>
  \<open>WrapTcpStream\<close> and \<open>WrapUdpSocket\<close> of \<open>rabbit-digger/src/rabbit_digger/running.rs\<close>: every connection that
  a server opens is wrapped so that the connection manager counts its bytes and can stop it. A wrapped
  object is the stream or socket below and the uuid of its \<open>Connection\<close>; a poll acts on the manager's world.
  \<open>hb\<close> says whether the heartbeat of the connection is due, \<open>t\<close> is the time.
\<close>

definition wrap_tcp_new :: "'u \<Rightarrow> address \<Rightarrow> 'v \<Rightarrow> nat \<Rightarrow> ('u, 'v) conn_world \<Rightarrow> ('u, 'v) conn_world" where
  "wrap_tcp_new uuid addr ctx t w = connection_new uuid Tcp addr ctx t w"

definition wrap_tcp_read ::
  "bool \<Rightarrow> nat \<Rightarrow> 'u \<Rightarrow> nat \<Rightarrow> inner \<Rightarrow> ('u, 'v) conn_world \<Rightarrow> inner \<times> ('u, 'v) conn_world \<times> bytes io poll" where
  "wrap_tcp_read hb t uuid room i w = (case connection_poll hb uuid t w of
     (w, Inl e) \<Rightarrow> (i, w, Ready (Inl e))
   | (w, Inr _) \<Rightarrow>
       (case inner_read room i of
          (i, Ready (Inr c)) \<Rightarrow> (i, connection_call uuid (CallRead (word_of_nat (length c))) w, Ready (Inr c))
        | (i, r) \<Rightarrow> (i, w, r)))"

definition wrap_tcp_write :: "'u \<Rightarrow> bytes \<Rightarrow> inner \<Rightarrow> ('u, 'v) conn_world \<Rightarrow> inner \<times> ('u, 'v) conn_world \<times> nat io poll" where
  "wrap_tcp_write uuid buf i w = (case inner_write buf i of
     (i, Ready (Inr n)) \<Rightarrow> (i, connection_call uuid (CallWrite (word_of_nat n)) w, Ready (Inr n))
   | (i, r) \<Rightarrow> (i, w, r))"

text \<open>The UDP socket, given the answers of the socket below.\<close>

definition wrap_udp_new :: "'u \<Rightarrow> address \<Rightarrow> 'v \<Rightarrow> nat \<Rightarrow> ('u, 'v) conn_world \<Rightarrow> ('u, 'v) conn_world" where
  "wrap_udp_new uuid addr ctx t w = connection_new uuid Udp addr ctx t w"

definition wrap_udp_recv_from ::
  "bool \<Rightarrow> nat \<Rightarrow> 'u \<Rightarrow> (bytes \<times> socket_addr) io poll \<Rightarrow> ('u, 'v) conn_world \<Rightarrow> ('u, 'v) conn_world \<times> (bytes \<times> socket_addr) io poll" where
  "wrap_udp_recv_from hb t uuid answer w = (case connection_poll hb uuid t w of
     (w, Inl e) \<Rightarrow> (w, Ready (Inl e))
   | (w, Inr _) \<Rightarrow>
       (case answer of
          Ready (Inr (d, a)) \<Rightarrow> (connection_call uuid (CallRecvFrom (SocketAddr a) (word_of_nat (length d))) w, answer)
        | _ \<Rightarrow> (w, answer)))"

definition wrap_udp_send_to ::
  "'u \<Rightarrow> bytes \<Rightarrow> address \<Rightarrow> nat io poll \<Rightarrow> ('u, 'v) conn_world \<Rightarrow> ('u, 'v) conn_world \<times> nat io poll" where
  "wrap_udp_send_to uuid buf target answer w = (case answer of
     Ready (Inr r) \<Rightarrow> (connection_call uuid (CallSendTo target (word_of_nat (length buf))) w, Ready (Inr r))
   | _ \<Rightarrow> (w, answer))"

subsection \<open>All connections of the engine\<close>

text \<open>The wrapped streams and sockets that are open, the manager's world, and the bytes that the polls have
  moved: \<open>en_up\<close> those accepted by writes and sends, \<open>en_down\<close> those returned by reads and receives.\<close>

record ('u, 'v) engine_net =
  en_tcp :: "'u \<Rightarrow> inner option"
  en_udp :: "'u set"
  en_world :: "('u, 'v) conn_world"
  en_up :: u64
  en_down :: u64

definition moved_down :: "bytes io poll \<Rightarrow> u64" where
  "moved_down r = (case r of Ready (Inr c) \<Rightarrow> word_of_nat (length c) | _ \<Rightarrow> 0)"

definition moved_up :: "nat io poll \<Rightarrow> u64" where
  "moved_up r = (case r of Ready (Inr n) \<Rightarrow> word_of_nat n | _ \<Rightarrow> 0)"

inductive en_step :: "('u, 'v) engine_net \<Rightarrow> ('u, 'v) engine_net \<Rightarrow> bool" where
  tcp_open: "hm_get (cw_live (en_world s)) u = None \<Longrightarrow> \<not> known (drained (en_world s)) u \<Longrightarrow>
    en_step s (s\<lparr> en_tcp := (en_tcp s)(u \<mapsto> i), en_world := wrap_tcp_new u addr ctx t (en_world s) \<rparr>)"
| udp_open: "hm_get (cw_live (en_world s)) u = None \<Longrightarrow> \<not> known (drained (en_world s)) u \<Longrightarrow>
    en_step s (s\<lparr> en_udp := insert u (en_udp s), en_world := wrap_udp_new u addr ctx t (en_world s) \<rparr>)"
| tcp_read: "en_tcp s u = Some i \<Longrightarrow> wrap_tcp_read hb t u room i (en_world s) = (i', w', r) \<Longrightarrow>
    en_step s (s\<lparr> en_tcp := (en_tcp s)(u \<mapsto> i'), en_world := w', en_down := en_down s + moved_down r \<rparr>)"
| tcp_write: "en_tcp s u = Some i \<Longrightarrow> wrap_tcp_write u buf i (en_world s) = (i', w', r) \<Longrightarrow>
    en_step s (s\<lparr> en_tcp := (en_tcp s)(u \<mapsto> i'), en_world := w', en_up := en_up s + moved_up r \<rparr>)"
| udp_recv: "u \<in> en_udp s \<Longrightarrow> wrap_udp_recv_from hb t u answer (en_world s) = (w', r) \<Longrightarrow>
    en_step s (s\<lparr> en_world := w', en_down := en_down s + (case r of Ready (Inr (d, _)) \<Rightarrow> word_of_nat (length d) | _ \<Rightarrow> 0) \<rparr>)"
| udp_send: "u \<in> en_udp s \<Longrightarrow> wrap_udp_send_to u buf target answer (en_world s) = (w', r) \<Longrightarrow>
    en_step s (s\<lparr> en_world := w', en_up := en_up s + (case r of Ready (Inr _) \<Rightarrow> word_of_nat (length buf) | _ \<Rightarrow> 0) \<rparr>)"
| tcp_drop: "en_tcp s u = Some i \<Longrightarrow> en_step s (s\<lparr> en_tcp := (en_tcp s)(u := None), en_world := connection_drop u t (en_world s) \<rparr>)"
| udp_drop: "u \<in> en_udp s \<Longrightarrow> en_step s (s\<lparr> en_udp := en_udp s - {u}, en_world := connection_drop u t (en_world s) \<rparr>)"
| manager: "en_step s (s\<lparr> en_world := recv_event (en_world s) \<rparr>)"
| stop_conn: "en_step s (s\<lparr> en_world := fst (stop_connection u (en_world s)) \<rparr>)"

definition en_init :: "('u, 'v) engine_net" where
  "en_init = \<lparr> en_tcp = \<lambda>_. None, en_udp = {}, en_world = cw_init, en_up = 0, en_down = 0 \<rparr>"

inductive en_reach :: "('u, 'v) engine_net \<Rightarrow> bool" where
  start: "en_reach en_init"
| go: "en_reach s \<Longrightarrow> en_step s s' \<Longrightarrow> en_reach s'"

subsection \<open>The counters are the bytes moved\<close>

fun is_tcp :: "conn_counters \<Rightarrow> bool" where
  "is_tcp (TcpCounters _ _) = True" | "is_tcp (UdpCounters _ _) = False"

lemma is_tcp_call [simp]: "is_tcp (apply_call call c) = is_tcp c"
  by (cases "(call, c)" rule: apply_call.cases) auto

lemma is_tcp_events [simp]: "is_tcp (snd (get_events c)) = is_tcp c"
  by (cases c) auto

text \<open>What the operations do to the live connections and the totals.\<close>

definition live_kind :: "('u, 'v) conn_world \<Rightarrow> 'u \<Rightarrow> bool option" where
  "live_kind w u = map_option is_tcp (hm_get (cw_live w) u)"

lemma live_kind_ops [simp]:
  "live_kind (fst (connection_poll hb u t w)) = live_kind w"
  "live_kind (connection_call u call w) = live_kind w"
  "live_kind (recv_event w) = live_kind w"
  "live_kind (fst (stop_connection u w)) = live_kind w"
  "live_kind (connection_new u p addr ctx t w) = (live_kind w)(u \<mapsto> is_tcp (counters_default p))"
  "live_kind (connection_drop u t w) = (live_kind w)(u := None)"
proof -
  show "live_kind (fst (connection_poll hb u t w)) = live_kind w"
    by (rule ext) (auto simp: live_kind_def connection_poll_def send_events_def Let_def case_prod_unfold split: option.splits)
  show "live_kind (connection_call u call w) = live_kind w"
    by (rule ext) (auto simp: live_kind_def connection_call_def split: option.splits)
  show "live_kind (recv_event w) = live_kind w"
    by (rule ext) (simp add: live_kind_def recv_event_def split: list.splits)
  show "live_kind (fst (stop_connection u w)) = live_kind w"
    by (rule ext) (simp add: live_kind_def stop_connection_def Let_def split: option.splits)
  show "live_kind (connection_new u p addr ctx t w) = (live_kind w)(u \<mapsto> is_tcp (counters_default p))"
    by (rule ext) (auto simp: live_kind_def connection_new_def send_events_def)
  show "live_kind (connection_drop u t w) = (live_kind w)(u := None)"
    by (rule ext) (auto simp: live_kind_def connection_drop_def send_events_def case_prod_unfold split: option.splits)
qed

lemma totals_ops [simp]:
  "cw_up (fst (connection_poll hb u t w)) = cw_up w" "cw_down (fst (connection_poll hb u t w)) = cw_down w"
  "cw_up (recv_event w) = cw_up w" "cw_down (recv_event w) = cw_down w"
  "cw_up (fst (stop_connection u w)) = cw_up w" "cw_down (fst (stop_connection u w)) = cw_down w"
  "cw_up (connection_new u p addr ctx t w) = cw_up w" "cw_down (connection_new u p addr ctx t w) = cw_down w"
  "cw_up (connection_drop u t w) = cw_up w" "cw_down (connection_drop u t w) = cw_down w"
  by (auto simp: connection_poll_def recv_event_def stop_connection_def connection_new_def connection_drop_def send_events_def
      Let_def case_prod_unfold split: option.splits list.splits)

lemma call_totals:
  "live_kind w u = Some True \<Longrightarrow> cw_down (connection_call u (CallRead n) w) = cw_down w + n \<and> cw_up (connection_call u (CallRead n) w) = cw_up w"
  "live_kind w u = Some True \<Longrightarrow> cw_up (connection_call u (CallWrite n) w) = cw_up w + n \<and> cw_down (connection_call u (CallWrite n) w) = cw_down w"
  "live_kind w u = Some False \<Longrightarrow> cw_down (connection_call u (CallRecvFrom a n) w) = cw_down w + n \<and> cw_up (connection_call u (CallRecvFrom a n) w) = cw_up w"
  "live_kind w u = Some False \<Longrightarrow> cw_up (connection_call u (CallSendTo a n) w) = cw_up w + n \<and> cw_down (connection_call u (CallSendTo a n) w) = cw_down w"
  by (auto simp: live_kind_def connection_call_def split: option.splits elim!: is_tcp.elims)

definition en_inv :: "('u, 'v) engine_net \<Rightarrow> bool" where
  "en_inv s = (cm_reach (en_world s) \<and> cw_up (en_world s) = en_up s \<and> cw_down (en_world s) = en_down s
     \<and> (\<forall>u. (en_tcp s u \<noteq> None \<longleftrightarrow> live_kind (en_world s) u = Some True) \<and> (u \<in> en_udp s \<longleftrightarrow> live_kind (en_world s) u = Some False)))"

lemma wrap_tcp_read_world:
  assumes "wrap_tcp_read hb t u room i w = (i', w', r)" "cm_reach w" "live_kind w u = Some True"
  shows "cm_reach w' \<and> live_kind w' = live_kind w \<and> cw_up w' = cw_up w \<and> cw_down w' = cw_down w + moved_down r"
proof -
  obtain w1 p where c: "connection_poll hb u t w = (w1, p)" by fastforce
  have w1: "cm_reach w1" "live_kind w1 = live_kind w" "cw_up w1 = cw_up w" "cw_down w1 = cw_down w"
    using cm_reach.step [OF assms(2) cm_step.poll [of w hb u t]] live_kind_ops(1) [of hb u t w] totals_ops(1,2) [of hb u t w] c by simp_all
  then have "cm_reach (connection_call u call w1)" for call by (intro cm_reach.step [OF _ cm_step.call])
  with w1 call_totals(1) [of w1 u] assms(1,3) c show ?thesis
    by (auto simp: wrap_tcp_read_def moved_down_def split: sum.splits prod.splits poll.splits)
qed

lemma wrap_tcp_write_world:
  assumes "wrap_tcp_write u buf i w = (i', w', r)" "cm_reach w" "live_kind w u = Some True"
  shows "cm_reach w' \<and> live_kind w' = live_kind w \<and> cw_up w' = cw_up w + moved_up r \<and> cw_down w' = cw_down w"
  using assms cm_reach.step [OF assms(2) cm_step.call] call_totals(2) [of w u]
  by (auto simp: wrap_tcp_write_def moved_up_def split: sum.splits prod.splits poll.splits)

lemma wrap_udp_recv_world:
  assumes "wrap_udp_recv_from hb t u answer w = (w', r)" "cm_reach w" "live_kind w u = Some False"
  shows "cm_reach w' \<and> live_kind w' = live_kind w \<and> cw_up w' = cw_up w
    \<and> cw_down w' = cw_down w + (case r of Ready (Inr (d, _)) \<Rightarrow> word_of_nat (length d) | _ \<Rightarrow> 0)"
proof -
  obtain w1 p where c: "connection_poll hb u t w = (w1, p)" by fastforce
  have w1: "cm_reach w1" "live_kind w1 = live_kind w" "cw_up w1 = cw_up w" "cw_down w1 = cw_down w"
    using cm_reach.step [OF assms(2) cm_step.poll [of w hb u t]] live_kind_ops(1) [of hb u t w] totals_ops(1,2) [of hb u t w] c by simp_all
  then have "cm_reach (connection_call u call w1)" for call by (intro cm_reach.step [OF _ cm_step.call])
  with w1 call_totals(3) [of w1 u] assms(1,3) c show ?thesis
    by (auto simp: wrap_udp_recv_from_def split: sum.splits prod.splits poll.splits)
qed

lemma wrap_udp_send_world:
  assumes "wrap_udp_send_to u buf target answer w = (w', r)" "cm_reach w" "live_kind w u = Some False"
  shows "cm_reach w' \<and> live_kind w' = live_kind w \<and> cw_down w' = cw_down w
    \<and> cw_up w' = cw_up w + (case r of Ready (Inr _) \<Rightarrow> word_of_nat (length buf) | _ \<Rightarrow> 0)"
  using assms cm_reach.step [OF assms(2) cm_step.call] call_totals(4) [of w u]
  by (auto simp: wrap_udp_send_to_def split: sum.splits prod.splits poll.splits)

lemma live_kind_None: "live_kind w u = None \<longleftrightarrow> hm_get (cw_live w) u = None"
  by (simp add: live_kind_def)

lemma new_reach:
  "cm_reach w \<Longrightarrow> live_kind w u = None \<Longrightarrow> \<not> known (drained w) u \<Longrightarrow> cm_reach (connection_new u p addr ctx t w)"
  by (intro cm_reach.step [OF _ cm_step.new]) (auto simp: known_def drained_def live_kind_None)

lemma reach_ops:
  assumes "cm_reach w"
  shows "cm_reach (connection_drop u t w)" "cm_reach (recv_event w)" "cm_reach (fst (stop_connection u w))"
  by (rule cm_reach.step [OF assms], rule cm_step.intros)+

lemma en_inv_live:
  assumes "en_inv s"
  shows "cm_reach (en_world s)" "en_tcp s u = Some i \<Longrightarrow> live_kind (en_world s) u = Some True" "u \<in> en_udp s \<Longrightarrow> live_kind (en_world s) u = Some False"
  using assms by (auto simp: en_inv_def)

text \<open>A poll of an open connection keeps the invariant when it counts what it moves.\<close>

lemma en_inv_poll:
  assumes "en_inv s" "cm_reach w'" "live_kind w' = live_kind (en_world s)" "cw_up w' = cw_up (en_world s) + up" "cw_down w' = cw_down (en_world s) + down"
  shows "en_inv (s\<lparr> en_world := w', en_up := en_up s + up, en_down := en_down s + down \<rparr>)"
    and "en_tcp s u = Some i \<Longrightarrow> en_inv (s\<lparr> en_tcp := (en_tcp s)(u \<mapsto> i'), en_world := w', en_up := en_up s + up, en_down := en_down s + down \<rparr>)"
  using assms by (auto simp: en_inv_def)

lemma en_step_inv: "en_step s s' \<Longrightarrow> en_inv s \<Longrightarrow> en_inv s'"
proof (induction rule: en_step.induct)
  case tcp_open
  then show ?case by (auto simp: en_inv_def wrap_tcp_new_def live_kind_None [symmetric] intro: new_reach)
next
  case udp_open
  then show ?case by (auto simp: en_inv_def wrap_udp_new_def live_kind_None [symmetric] intro: new_reach)
next
  case tcp_read
  note live = en_inv_live [OF tcp_read(3)]
  from en_inv_poll(2) [OF tcp_read(3) _ _ _ _ tcp_read(1), where up = 0] wrap_tcp_read_world [OF tcp_read(2) live(1) live(2) [OF tcp_read(1)]]
  show ?case by simp
next
  case tcp_write
  note live = en_inv_live [OF tcp_write(3)]
  from en_inv_poll(2) [OF tcp_write(3) _ _ _ _ tcp_write(1), where down = 0] wrap_tcp_write_world [OF tcp_write(2) live(1) live(2) [OF tcp_write(1)]]
  show ?case by simp
next
  case udp_recv
  note live = en_inv_live [OF udp_recv(3)]
  from en_inv_poll(1) [OF udp_recv(3), where up = 0] wrap_udp_recv_world [OF udp_recv(2) live(1) live(3) [OF udp_recv(1)]]
  show ?case by simp
next
  case udp_send
  note live = en_inv_live [OF udp_send(3)]
  from en_inv_poll(1) [OF udp_send(3), where down = 0] wrap_udp_send_world [OF udp_send(2) live(1) live(3) [OF udp_send(1)]]
  show ?case by simp
next
  case tcp_drop
  with en_inv_live(2) [OF tcp_drop(2,1)] show ?case by (auto simp: en_inv_def reach_ops)
qed (auto simp: en_inv_def reach_ops)

lemma en_reach_inv: "en_reach s \<Longrightarrow> en_inv s"
proof (induction rule: en_reach.induct)
  case start
  show ?case by (auto simp: en_inv_def en_init_def live_kind_def cw_init_def [symmetric] intro: cm_reach.init) (simp_all add: cw_init_def)
qed (rule en_step_inv)

text \<open>C7: The engine counts exactly what its connections move. In every state that the wrapped TCP streams and
  UDP sockets, the connection manager's task and stop requests reach in any interleaving: the open
  connections are those the manager knows once its queue is worked off, and its totals, together with what
  the open connections have not reported yet, are the bytes that the writes and sends have accepted and that
  the reads and receives have returned (as \<open>u64\<close>).\<close>

theorem engine_counts_bytes:
  assumes "en_reach s"
  shows "total_upload (drained (en_world s)) + pending pend_up (en_world s) = en_up s
    \<and> total_download (drained (en_world s)) + pending pend_down (en_world s) = en_down s
    \<and> (\<forall>u. known (drained (en_world s)) u \<longleftrightarrow> en_tcp s u \<noteq> None \<or> u \<in> en_udp s)"
proof -
  have inv: "en_inv s" using assms by (rule en_reach_inv)
  then have books: "books_ok (en_world s)" by (simp add: en_inv_def cm_reach_books)
  have "hm_get (cw_live (en_world s)) u \<noteq> None \<longleftrightarrow> en_tcp s u \<noteq> None \<or> u \<in> en_udp s" for u
    using inv live_kind_None [of "en_world s" u] by (cases "live_kind (en_world s) u") (auto simp: en_inv_def)
  with inv books show ?thesis by (auto simp: en_inv_def books_ok_def)
qed

definition counted_example :: "(nat, unit) engine_net" where
  "counted_example = \<lparr> en_tcp = [0 \<mapsto> \<lparr> i_out = [1, 2], i_writes = [], i_reads = [] \<rparr>], en_udp = {},
     en_world = connection_call 0 (CallWrite 2) (connection_new 0 Tcp (Domain ''a'' 1) () 0 cw_init), en_up = 2, en_down = 0 \<rparr>"

lemma counted_example_reach: "en_reach counted_example"
proof -
  let ?i = "\<lparr> i_out = [], i_writes = [Ready (Inr 9)], i_reads = [] \<rparr>"
  let ?e = "en_init :: (nat, unit) engine_net"
  let ?s = "?e\<lparr> en_tcp := (en_tcp ?e)(0 \<mapsto> ?i), en_world := wrap_tcp_new 0 (Domain ''a'' 1) () 0 (en_world ?e) \<rparr>"
  have "en_step ?e ?s" by (rule en_step.tcp_open) (simp_all add: en_init_def cw_init_def conn_state_new_def known_def drained_def)
  then have r: "en_reach ?s" by (rule en_reach.go [OF en_reach.start])
  have "wrap_tcp_write 0 [1, 2] ?i (en_world ?s) = (\<lparr> i_out = [1, 2], i_writes = [], i_reads = [] \<rparr>, connection_call 0 (CallWrite 2) (en_world ?s), Ready (Inr 2))"
    by (simp add: wrap_tcp_write_def inner_write_def)
  from en_step.tcp_write [of ?s 0 ?i, OF _ this] have "en_step ?s counted_example"
    by (simp add: counted_example_def en_init_def wrap_tcp_new_def moved_up_def)
  with r show ?thesis by (rule en_reach.go)
qed

theorem engine_counts_bytes_witness:
  "total_upload (drained (en_world counted_example)) + pending pend_up (en_world counted_example) = 2
    \<and> known (drained (en_world counted_example)) 0"
  using engine_counts_bytes [OF counted_example_reach] by (simp add: counted_example_def)

end
