(* ===== verification/Rpc_Wire.thy ===== *)
theory Rpc_Wire
  imports Nets Stream_Codec
begin

section \<open>RPC: messages, frames and the server\<close>

text \<open>
  \<open>protocol/rpc\<close> gives a client the nets of a server. This theory has the messages (\<open>types.rs\<close>), the frames
  on the TCP stream (\<open>connection.rs\<close>), the table of remote objects (\<open>session/state.rs\<close>) and the request
  handler (\<open>server.rs\<close>). Messages are serialized by \<open>cbor4ii\<close> or \<open>serde_json\<close>, and socket addresses become JSON
  values by serde: both are parameters. The methods of the streams, listeners and sockets that the server's net
  returns are given by a record of operations on the world.
\<close>

subsection \<open>Messages\<close>

type_synonym uuid = "128 word"

datatype rpc_object = Object u32

datatype rpc_value = RpcNull | RpcValue json | RpcObjectValue rpc_object json

datatype rpc_command =
    CmdHandshake uuid
  | CmdTcpConnect json address
  | CmdTcpBind json address
  | CmdUdpBind json address
  | CmdLookupHost address
  | CmdAccept rpc_object
  | CmdRead rpc_object u32
  | CmdWrite rpc_object
  | CmdFlush rpc_object
  | CmdShutdown rpc_object
  | CmdRecvFrom rpc_object
  | CmdSendTo rpc_object address
  | CmdLocalAddr rpc_object
  | CmdPeerAddr rpc_object
  | CmdClose rpc_object

record rpc_request =
  rq_cmd :: rpc_command
  rq_seq :: u32

record rpc_response =
  rs_seq :: u32
  rs_result :: "string + rpc_value"

definition into_null :: "rpc_response \<Rightarrow> unit rd" where
  "into_null r = rbind (map_err OtherError (rs_result r)) (\<lambda>v. case v of
     RpcNull \<Rightarrow> Inr ()
   | _ \<Rightarrow> Inl (OtherError ''not null''))"

definition into_value :: "(json \<Rightarrow> string + 'a) \<Rightarrow> rpc_response \<Rightarrow> 'a rd" where
  "into_value de r = rbind (map_err OtherError (rs_result r)) (\<lambda>v. case v of
     RpcValue j \<Rightarrow> map_err ConfigError (de j)
   | _ \<Rightarrow> Inl (OtherError ''invalid response''))"

definition into_object_value :: "(json \<Rightarrow> string + 'a) \<Rightarrow> rpc_response \<Rightarrow> (rpc_object \<times> 'a) rd" where
  "into_object_value de r = rbind (map_err OtherError (rs_result r)) (\<lambda>v. case v of
     RpcObjectValue obj j \<Rightarrow> map_err ConfigError (rbind (de j) (\<lambda>x. Inr (obj, x)))
   | _ \<Rightarrow> Inl (OtherError ''invalid response''))"

subsection \<open>Frames\<close>

definition MAX_ITEM_SIZE :: u32 where "MAX_ITEM_SIZE = 1 * 1024 * 1024"

definition MAX_DATA_SIZE :: u32 where "MAX_DATA_SIZE = 1 * 1024 * 1024"

text \<open>One turn of the write task and of the read task. The lengths are cut to 32 bits by \<open>as u32\<close>.\<close>

definition rpc_write_frame :: "('i \<Rightarrow> string + bytes) \<Rightarrow> 'i \<times> bytes option \<Rightarrow> bytes io" where
  "rpc_write_frame ser m = (case m of (item, data) \<Rightarrow>
     rbind (map_err (IoError OtherKind) (ser item)) (\<lambda>item_buf.
     let data_size = (case data of Some d \<Rightarrow> word_of_nat (length d) | None \<Rightarrow> 0);
         item_size = word_of_nat (length item_buf)
     in Inr (u32_to_be item_size @ u32_to_be data_size @ item_buf @ (case data of Some d \<Rightarrow> d | None \<Rightarrow> []))))"

definition rpc_read_frame :: "(bytes \<Rightarrow> string + 'i) \<Rightarrow> bytes \<Rightarrow> (('i \<times> bytes) \<times> bytes) io" where
  "rpc_read_frame de s =
     rbind (read_exact 4 s) (\<lambda>(a, s1).
     rbind (read_exact 4 s1) (\<lambda>(b, s2).
     let item_size = u32_from_be a; data_size = u32_from_be b in
     if item_size > MAX_ITEM_SIZE \<or> data_size > MAX_DATA_SIZE then Inl (IoError InvalidData ''item size or data size is too big'')
     else
     rbind (read_exact (unat item_size) s2) (\<lambda>(item_buf, s3).
     rbind (read_exact (unat data_size) s3) (\<lambda>(data_buf, s4).
     rbind (map_err (IoError OtherKind) (de item_buf)) (\<lambda>item. Inr ((item, data_buf), s4))))))"

lemma unat_MAX [simp]: "unat MAX_ITEM_SIZE = 1048576" "unat MAX_DATA_SIZE = 1048576"
  by (simp_all add: MAX_ITEM_SIZE_def MAX_DATA_SIZE_def)

definition frame_data :: "bytes option \<Rightarrow> bytes" where
  "frame_data data = (case data of Some d \<Rightarrow> d | None \<Rightarrow> [])"

lemma rpc_read_write_frame:
  assumes ser: "ser item = Inr b" "de b = Inr item"
    and b: "length b \<le> 1048576" and d: "length (frame_data data) \<le> 1048576"
  shows "\<exists>f. rpc_write_frame ser (item, data) = Inr f \<and> rpc_read_frame de (f @ rest) = Inr ((item, frame_data data), rest)"
proof -
  have u: "unat (word_of_nat n :: u32) = n" if "n \<le> 1048576" for n
    using that by (simp add: unat_of_nat)
  have le: "\<not> MAX_ITEM_SIZE < word_of_nat n" "\<not> MAX_DATA_SIZE < word_of_nat n" if "n \<le> 1048576" for n
    using u [OF that] that by (simp_all add: word_less_nat_alt)
  have w: "rpc_write_frame ser (item, data)
    = Inr (u32_to_be (word_of_nat (length b)) @ u32_to_be (word_of_nat (length (frame_data data))) @ b @ frame_data data)"
    using ser(1) by (cases data) (simp_all add: rpc_write_frame_def frame_data_def Let_def)
  show ?thesis
    unfolding w using ser(2) u [OF b] u [OF d] le(1) [OF b] le(2) [OF d]
    by (simp add: rpc_read_frame_def Let_def)
qed

lemma read_exact_length: "read_exact n s = Inr (a, b) \<Longrightarrow> length s = n + length b"
  using read_exact_InrE [of n s a b] by auto

lemma rpc_read_frame_shorter: "rpc_read_frame de s = Inr (m, rest) \<Longrightarrow> length rest < length s"
  by (auto simp: rpc_read_frame_def rbind_def Let_def split: sum.splits prod.splits if_splits dest!: read_exact_length)

subsection \<open>Remote objects\<close>

datatype ('t, 'l, 'u) rpc_obj = ObjTcpStream 't | ObjTcpListener 'l | ObjUdpSocket 'u

definition obj_tcp_listener :: "('t, 'l, 'u) rpc_obj \<Rightarrow> 'l rd" where
  "obj_tcp_listener obj = (case obj of ObjTcpListener l \<Rightarrow> Inr l | _ \<Rightarrow> Inl (OtherError ''not a tcp listener''))"

definition obj_tcp_stream_mut :: "('t, 'l, 'u) rpc_obj \<Rightarrow> 't rd" where
  "obj_tcp_stream_mut obj = (case obj of ObjTcpStream s \<Rightarrow> Inr s | _ \<Rightarrow> Inl (OtherError ''not a tcp stream''))"

definition obj_udp_socket_mut :: "('t, 'l, 'u) rpc_obj \<Rightarrow> 'u rd" where
  "obj_udp_socket_mut obj = (case obj of ObjUdpSocket u \<Rightarrow> Inr u | _ \<Rightarrow> Inl (OtherError ''not a udp socket''))"

record 'o server_session_state =
  ss_objects :: "(rpc_object \<times> 'o) list"
  ss_obj_id :: u32

definition server_state_new :: "'o server_session_state" where
  "server_state_new = \<lparr> ss_objects = [], ss_obj_id = 0 \<rparr>"

definition insert_object :: "'o \<Rightarrow> 'o server_session_state \<Rightarrow> rpc_object \<times> 'o server_session_state" where
  "insert_object obj st = (let key = Object (ss_obj_id st) in
     (key, st\<lparr> ss_obj_id := ss_obj_id st + 1, ss_objects := hm_insert key obj (ss_objects st) \<rparr>))"

definition remove_object :: "rpc_object \<Rightarrow> 'o server_session_state \<Rightarrow> 'o server_session_state" where
  "remove_object key st = st\<lparr> ss_objects := hm_remove key (ss_objects st) \<rparr>"

definition get_object :: "rpc_object \<Rightarrow> 'o server_session_state \<Rightarrow> 'o rd" where
  "get_object key st = ok_or (NotFound ''Object not found'') (hm_get (ss_objects st) key)"

subsection \<open>The request handler\<close>

record ('w, 't, 'l, 'u) obj_ops =
  ops_read :: "'t \<Rightarrow> nat \<Rightarrow> 'w \<Rightarrow> 'w \<times> bytes io poll"
  ops_write :: "'t \<Rightarrow> bytes \<Rightarrow> 'w \<Rightarrow> 'w \<times> nat io poll"
  ops_flush :: "'t \<Rightarrow> 'w \<Rightarrow> 'w \<times> unit io poll"
  ops_shutdown :: "'t \<Rightarrow> 'w \<Rightarrow> 'w \<times> unit io poll"
  ops_stream_local :: "'t \<Rightarrow> 'w \<Rightarrow> 'w \<times> socket_addr rd"
  ops_stream_peer :: "'t \<Rightarrow> 'w \<Rightarrow> 'w \<times> socket_addr rd"
  ops_accept :: "'l \<Rightarrow> 'w \<Rightarrow> 'w \<times> ('t \<times> socket_addr) rd poll"
  ops_listener_local :: "'l \<Rightarrow> 'w \<Rightarrow> 'w \<times> socket_addr rd"
  ops_recv_from :: "'u \<Rightarrow> nat \<Rightarrow> 'w \<Rightarrow> 'w \<times> (bytes \<times> socket_addr) io poll"
  ops_send_to :: "'u \<Rightarrow> bytes \<Rightarrow> address \<Rightarrow> 'w \<Rightarrow> 'w \<times> nat io poll"
  ops_socket_local :: "'u \<Rightarrow> 'w \<Rightarrow> 'w \<times> socket_addr rd"

record ('w, 't, 'l, 'u) rpc_env =
  re_net :: "('w, 't, 'l, 'u) inet"
  re_ops :: "('w, 't, 'l, 'u) obj_ops"
  re_sa_ser :: "socket_addr \<Rightarrow> string + json"

type_synonym rpc_reply = "rpc_value \<times> bytes option"

fun ser_all :: "('a \<Rightarrow> string + json) \<Rightarrow> 'a list \<Rightarrow> string + json list" where
  "ser_all f [] = Inr []"
| "ser_all f (x # xs) = rbind (f x) (\<lambda>j. rbind (ser_all f xs) (\<lambda>js. Inr (j # js)))"

definition to_value_list :: "('a \<Rightarrow> string + json) \<Rightarrow> 'a list \<Rightarrow> json rd" where
  "to_value_list f xs = map_err ConfigError (rbind (ser_all f xs) (\<lambda>js. Inr (JArr js)))"

text \<open>
  A handler is a future. What it does before it first waits, with the object it has looked up, is
  \<^emph>\<open>starting\<close> it; a command that awaits a method of the net or an address is done at once. The
  \<open>poll_fn\<close> closures are polled until they are ready. \<open>UDP_BUFFER_SIZE\<close> is 8 KiB here.
\<close>

datatype ('t, 'l, 'u) rpc_task =
    TaskDone "rpc_reply rd may_panic"
  | TaskRecvFrom "('t, 'l, 'u) rpc_obj"
  | TaskSendTo "('t, 'l, 'u) rpc_obj" bytes address
  | TaskRead "('t, 'l, 'u) rpc_obj" nat
  | TaskWrite "('t, 'l, 'u) rpc_obj" bytes
  | TaskFlush "('t, 'l, 'u) rpc_obj"
  | TaskShutdown "('t, 'l, 'u) rpc_obj"
  | TaskAccept "('t, 'l, 'u) rpc_obj"

definition rpc_udp_buffer :: nat where "rpc_udp_buffer = 8 * 1024"

definition open_object ::
  "('w, 'a) net_call option \<Rightarrow> ('a \<Rightarrow> 'o) \<Rightarrow> json \<Rightarrow> address \<Rightarrow> 'o server_session_state \<times> 'w \<Rightarrow>
   ('o server_session_state \<times> 'w) \<times> rpc_reply rd may_panic" where
  "open_object f mk j addr s = (case s of (st, w) \<Rightarrow> (case ctx_from_value j of
     Inl e \<Rightarrow> ((st, w), Inr (Inl (ContextError e)))
   | Inr ctx \<Rightarrow> (case call_net f ctx addr w of
       (w', ctx', Inl e) \<Rightarrow> ((st, w'), Inr (Inl e))
     | (w', ctx', Inr x) \<Rightarrow> (case insert_object (mk x) st of (key, st') \<Rightarrow>
         ((st', w'), rbind (ctx_to_value ctx') (\<lambda>v. Inr (Inr (RpcObjectValue key v, None))))))))"

definition with_object :: "rpc_object \<Rightarrow> 'o server_session_state \<times> 'w \<Rightarrow> ('o \<Rightarrow> ('t, 'l, 'u) rpc_task) \<Rightarrow>
    ('o server_session_state \<times> 'w) \<times> ('t, 'l, 'u) rpc_task" where
  "with_object key s k = (case get_object key (fst s) of Inl e \<Rightarrow> (s, TaskDone (Inr (Inl e))) | Inr obj \<Rightarrow> (s, k obj))"

definition addr_reply :: "(socket_addr \<Rightarrow> string + json) \<Rightarrow> socket_addr rd \<Rightarrow> rpc_reply rd" where
  "addr_reply ser r = rbind r (\<lambda>a. rbind (map_err ConfigError (ser a)) (\<lambda>j. Inr (RpcValue j, None)))"

definition obj_local_addr :: "('w, 't, 'l, 'u) obj_ops \<Rightarrow> ('t, 'l, 'u) rpc_obj \<Rightarrow> 'w \<Rightarrow> 'w \<times> socket_addr rd" where
  "obj_local_addr ops obj w = (case obj of
     ObjTcpStream t \<Rightarrow> ops_stream_local ops t w
   | ObjTcpListener l \<Rightarrow> ops_listener_local ops l w
   | ObjUdpSocket u \<Rightarrow> ops_socket_local ops u w)"

definition obj_peer_addr :: "('w, 't, 'l, 'u) obj_ops \<Rightarrow> ('t, 'l, 'u) rpc_obj \<Rightarrow> 'w \<Rightarrow> 'w \<times> socket_addr rd" where
  "obj_peer_addr ops obj w = (case obj of
     ObjTcpStream t \<Rightarrow> ops_stream_peer ops t w
   | _ \<Rightarrow> (w, Inl (OtherError ''invalid object'')))"

definition addr_task ::
  "('w, 't, 'l, 'u) rpc_env \<Rightarrow> (('t, 'l, 'u) rpc_obj \<Rightarrow> 'w \<Rightarrow> 'w \<times> socket_addr rd) \<Rightarrow> rpc_object \<Rightarrow>
   ('t, 'l, 'u) rpc_obj server_session_state \<times> 'w \<Rightarrow> (('t, 'l, 'u) rpc_obj server_session_state \<times> 'w) \<times> ('t, 'l, 'u) rpc_task" where
  "addr_task env f key s = (case get_object key (fst s) of
     Inl e \<Rightarrow> (s, TaskDone (Inr (Inl e)))
   | Inr obj \<Rightarrow> (case f obj (snd s) of (w', r) \<Rightarrow> ((fst s, w'), TaskDone (Inr (addr_reply (re_sa_ser env) r)))))"

fun handle_start ::
  "('w, 't, 'l, 'u) rpc_env \<Rightarrow> rpc_command \<Rightarrow> bytes \<Rightarrow> ('t, 'l, 'u) rpc_obj server_session_state \<times> 'w \<Rightarrow>
   (('t, 'l, 'u) rpc_obj server_session_state \<times> 'w) \<times> ('t, 'l, 'u) rpc_task" where
  "handle_start env (CmdTcpConnect j addr) data s = map_prod id TaskDone (open_object (provide_tcp_connect (re_net env)) ObjTcpStream j addr s)"
| "handle_start env (CmdTcpBind j addr) data s = map_prod id TaskDone (open_object (provide_tcp_bind (re_net env)) ObjTcpListener j addr s)"
| "handle_start env (CmdUdpBind j addr) data s = map_prod id TaskDone (open_object (provide_udp_bind (re_net env)) ObjUdpSocket j addr s)"
| "handle_start env (CmdClose key) data s = ((remove_object key (fst s), snd s), TaskDone (Inr (Inr (RpcNull, None))))"
| "handle_start env (CmdLookupHost addr) data s = (case net_lookup_host (re_net env) addr (snd s) of (w', r) \<Rightarrow>
     ((fst s, w'), TaskDone (Inr (rbind r (\<lambda>addrs. rbind (to_value_list (re_sa_ser env) addrs) (\<lambda>j. Inr (RpcValue j, None)))))))"
| "handle_start env (CmdRecvFrom key) data s = with_object key s TaskRecvFrom"
| "handle_start env (CmdSendTo key addr) data s = with_object key s (\<lambda>obj. TaskSendTo obj data addr)"
| "handle_start env (CmdRead key buf_size) data s = with_object key s (\<lambda>obj. TaskRead obj (unat buf_size))"
| "handle_start env (CmdWrite key) data s = with_object key s (\<lambda>obj. TaskWrite obj data)"
| "handle_start env (CmdFlush key) data s = with_object key s TaskFlush"
| "handle_start env (CmdShutdown key) data s = with_object key s TaskShutdown"
| "handle_start env (CmdAccept key) data s = with_object key s TaskAccept"
| "handle_start env (CmdLocalAddr key) data s = addr_task env (obj_local_addr (re_ops env)) key s"
| "handle_start env (CmdPeerAddr key) data s = addr_task env (obj_peer_addr (re_ops env)) key s"
| "handle_start env (CmdHandshake _) data s = (s, TaskDone (Inr (Inl (OtherError ''Invalid command''))))"

definition done_with :: "('a \<Rightarrow> rpc_reply rd) \<Rightarrow> 'a io poll \<Rightarrow> rpc_reply rd may_panic poll" where
  "done_with f p = (case p of Pending \<Rightarrow> Pending | Ready r \<Rightarrow> Ready (Inr (rbind (map_err IO r) f)))"

definition poll_stream :: "('t, 'l, 'u) rpc_obj \<Rightarrow> ('t \<Rightarrow> 'w \<Rightarrow> 'w \<times> 'a io poll) \<Rightarrow> ('a \<Rightarrow> rpc_reply rd) \<Rightarrow> 'w \<Rightarrow>
    'w \<times> rpc_reply rd may_panic poll" where
  "poll_stream obj op f w = (case obj_tcp_stream_mut obj of
     Inl e \<Rightarrow> (w, Ready (Inr (Inl e)))
   | Inr t \<Rightarrow> map_prod id (done_with f) (op t w))"

definition poll_socket :: "('t, 'l, 'u) rpc_obj \<Rightarrow> ('u \<Rightarrow> 'w \<Rightarrow> 'w \<times> 'a io poll) \<Rightarrow> ('a \<Rightarrow> rpc_reply rd) \<Rightarrow> 'w \<Rightarrow>
    'w \<times> rpc_reply rd may_panic poll" where
  "poll_socket obj op f w = (case obj_udp_socket_mut obj of
     Inl e \<Rightarrow> (w, Ready (Inr (Inl e)))
   | Inr u \<Rightarrow> map_prod id (done_with f) (op u w))"

fun poll_task ::
  "('w, 't, 'l, 'u) rpc_env \<Rightarrow> ('t, 'l, 'u) rpc_task \<Rightarrow> ('t, 'l, 'u) rpc_obj server_session_state \<times> 'w \<Rightarrow>
   (('t, 'l, 'u) rpc_obj server_session_state \<times> 'w) \<times> rpc_reply rd may_panic poll" where
  "poll_task env (TaskDone r) s = (s, Ready r)"
| "poll_task env (TaskRecvFrom obj) s = (case poll_socket obj (\<lambda>u. ops_recv_from (re_ops env) u rpc_udp_buffer)
     (\<lambda>(d, from). rbind (map_err ConfigError (re_sa_ser env from)) (\<lambda>j. Inr (RpcValue j, Some d))) (snd s) of (w', r) \<Rightarrow> ((fst s, w'), r))"
| "poll_task env (TaskSendTo obj data addr) s =
     (case poll_socket obj (\<lambda>u. ops_send_to (re_ops env) u data addr) (\<lambda>_. Inr (RpcNull, None)) (snd s) of (w', r) \<Rightarrow> ((fst s, w'), r))"
| "poll_task env (TaskRead obj n) s =
     (case poll_stream obj (\<lambda>t. ops_read (re_ops env) t n) (\<lambda>d. Inr (RpcNull, Some d)) (snd s) of (w', r) \<Rightarrow> ((fst s, w'), r))"
| "poll_task env (TaskWrite obj data) s =
     (case poll_stream obj (\<lambda>t. ops_write (re_ops env) t data) (\<lambda>n. Inr (RpcValue (JNum (int n)), None)) (snd s) of (w', r) \<Rightarrow> ((fst s, w'), r))"
| "poll_task env (TaskFlush obj) s =
     (case poll_stream obj (ops_flush (re_ops env)) (\<lambda>_. Inr (RpcNull, None)) (snd s) of (w', r) \<Rightarrow> ((fst s, w'), r))"
| "poll_task env (TaskShutdown obj) s =
     (case poll_stream obj (ops_shutdown (re_ops env)) (\<lambda>_. Inr (RpcNull, None)) (snd s) of (w', r) \<Rightarrow> ((fst s, w'), r))"
| "poll_task env (TaskAccept obj) s = (case obj_tcp_listener obj of
     Inl e \<Rightarrow> (s, Ready (Inr (Inl e)))
   | Inr l \<Rightarrow> (case ops_accept (re_ops env) l (snd s) of
       (w', Pending) \<Rightarrow> ((fst s, w'), Pending)
     | (w', Ready (Inl e)) \<Rightarrow> ((fst s, w'), Ready (Inr (Inl e)))
     | (w', Ready (Inr (tcp, addr))) \<Rightarrow> (case insert_object (ObjTcpStream tcp) (fst s) of (key, st') \<Rightarrow>
         ((st', w'), Ready (Inr (rbind (map_err ConfigError (re_sa_ser env addr)) (\<lambda>j. Inr (RpcObjectValue key j, None))))))))"

text \<open>What the spawned task sends back: the result of the handler, with the error as its text. A handler that
  panics sends nothing.\<close>

definition reply_of :: "(rd_error \<Rightarrow> string) \<Rightarrow> u32 \<Rightarrow> rpc_reply rd \<Rightarrow> rpc_response \<times> bytes option" where
  "reply_of display seq r = (case r of
     Inr (v, data) \<Rightarrow> (\<lparr> rs_seq = seq, rs_result = Inr v \<rparr>, data)
   | Inl e \<Rightarrow> (\<lparr> rs_seq = seq, rs_result = Inl (display e) \<rparr>, None))"

end
