(* ===== verification/Rpc_Remote.thy ===== *)
theory Rpc_Remote
  imports Rpc_Wire Poll_Stream
begin

section \<open>RPC: remote nets, streams and sockets\<close>

text \<open>
  The client of the RPC protocol (\<open>net.rs\<close> and \<open>net/socket.rs\<close>) and its agreement with the server: a call on a
  remote object, sent as a frame, handled by the server and answered by a frame, is the call on the
  server's own object. A session is here the function that sends a command and waits for its response;
  \<open>Rpc_Session\<close> has the session itself.
\<close>

type_synonym 's rpc_call = "rpc_command \<Rightarrow> bytes option \<Rightarrow> 's \<Rightarrow> 's \<times> (rpc_response \<times> bytes) rd poll"

subsection \<open>The client\<close>

definition on_reply :: "('a \<Rightarrow> 'b) \<Rightarrow> 's \<times> 'a poll \<Rightarrow> 's \<times> 'b poll" where
  "on_reply f r = (case r of (s, p) \<Rightarrow> (s, map_poll f p))"

text \<open>\<open>tcp_connect\<close>, \<open>tcp_bind\<close> and \<open>udp_bind\<close> of \<open>RpcNet\<close> differ in the command. The context comes back
  with the response; an error leaves the caller's context as it was.\<close>

definition rpc_open ::
  "'s rpc_call \<Rightarrow> (json \<Rightarrow> address \<Rightarrow> rpc_command) \<Rightarrow> conn_context \<Rightarrow> address \<Rightarrow> 's \<Rightarrow> 's \<times> (conn_context \<times> rpc_object) rd may_panic poll" where
  "rpc_open call cmd ctx addr s = (case ctx_to_value ctx of
     Inl p \<Rightarrow> (s, Ready (Inl p))
   | Inr v \<Rightarrow> on_reply (\<lambda>r. Inr (rbind r (\<lambda>(resp, _). rbind (into_object_value Inr resp) (\<lambda>(obj, cv).
       rbind (map_err ContextError (ctx_from_value cv)) (\<lambda>ctx'. Inr (ctx', obj)))))) (call (cmd v addr) None s))"

definition rpc_value_call :: "'s rpc_call \<Rightarrow> (json \<Rightarrow> string + 'a) \<Rightarrow> rpc_command \<Rightarrow> 's \<Rightarrow> 's \<times> 'a rd poll" where
  "rpc_value_call call de cmd s = on_reply (\<lambda>r. rbind r (\<lambda>(resp, _). into_value de resp)) (call cmd None s)"

definition rpc_lookup_host :: "'s rpc_call \<Rightarrow> (json \<Rightarrow> string + socket_addr list) \<Rightarrow> address \<Rightarrow> 's \<Rightarrow> 's \<times> socket_addr list rd poll" where
  "rpc_lookup_host call de addr s = rpc_value_call call de (CmdLookupHost addr) s"

definition rpc_accept :: "'s rpc_call \<Rightarrow> (json \<Rightarrow> string + socket_addr) \<Rightarrow> rpc_object \<Rightarrow> 's \<Rightarrow> 's \<times> (rpc_object \<times> socket_addr) rd poll" where
  "rpc_accept call de obj s = on_reply (\<lambda>r. rbind r (\<lambda>(resp, _). into_object_value de resp)) (call (CmdAccept obj) None s)"

definition rpc_local_addr :: "'s rpc_call \<Rightarrow> (json \<Rightarrow> string + socket_addr) \<Rightarrow> rpc_object \<Rightarrow> 's \<Rightarrow> 's \<times> socket_addr rd poll" where
  "rpc_local_addr call de obj s = rpc_value_call call de (CmdLocalAddr obj) s"

definition rpc_peer_addr :: "'s rpc_call \<Rightarrow> (json \<Rightarrow> string + socket_addr) \<Rightarrow> rpc_object \<Rightarrow> 's \<Rightarrow> 's \<times> socket_addr rd poll" where
  "rpc_peer_addr call de obj s = rpc_value_call call de (CmdPeerAddr obj) s"

text \<open>The futures of the stream and socket wrappers. A size that arrives as JSON is read as a \<open>u32\<close>;
  \<open>flush\<close> and \<open>shutdown\<close> do not look at the response.\<close>

definition de_u32 :: "json \<Rightarrow> string + nat" where
  "de_u32 j = (case j of
     JNum i \<Rightarrow> if 0 \<le> i \<and> i < 2 ^ 32 then Inr (nat i) else Inl ''invalid value: expected u32''
   | _ \<Rightarrow> Inl ''invalid type: expected u32'')"

definition rpc_read :: "(rd_error \<Rightarrow> string) \<Rightarrow> 's rpc_call \<Rightarrow> rpc_object \<Rightarrow> nat \<Rightarrow> 's \<Rightarrow> 's \<times> bytes io poll" where
  "rpc_read display call obj buf_size s = on_reply (\<lambda>r. map_err (to_io_err display) (rbind r (\<lambda>(resp, data).
     rbind (into_null resp) (\<lambda>_. Inr data)))) (call (CmdRead obj (word_of_nat buf_size)) None s)"

definition rpc_write :: "(rd_error \<Rightarrow> string) \<Rightarrow> 's rpc_call \<Rightarrow> rpc_object \<Rightarrow> bytes \<Rightarrow> 's \<Rightarrow> 's \<times> nat io poll" where
  "rpc_write display call obj buf s = on_reply (\<lambda>r. map_err (to_io_err display) (rbind r (\<lambda>(resp, _).
     into_value de_u32 resp))) (call (CmdWrite obj) (Some buf) s)"

definition rpc_flush :: "(rd_error \<Rightarrow> string) \<Rightarrow> 's rpc_call \<Rightarrow> rpc_object \<Rightarrow> 's \<Rightarrow> 's \<times> unit io poll" where
  "rpc_flush display call obj s = on_reply (\<lambda>r. map_err (to_io_err display) (rbind r (\<lambda>_. Inr ()))) (call (CmdFlush obj) None s)"

definition rpc_shutdown :: "(rd_error \<Rightarrow> string) \<Rightarrow> 's rpc_call \<Rightarrow> rpc_object \<Rightarrow> 's \<Rightarrow> 's \<times> unit io poll" where
  "rpc_shutdown display call obj s = on_reply (\<lambda>r. map_err (to_io_err display) (rbind r (\<lambda>_. Inr ()))) (call (CmdShutdown obj) None s)"

definition rpc_recv_from ::
  "(rd_error \<Rightarrow> string) \<Rightarrow> 's rpc_call \<Rightarrow> (json \<Rightarrow> string + socket_addr) \<Rightarrow> rpc_object \<Rightarrow> nat \<Rightarrow> 's \<Rightarrow> 's \<times> (bytes \<times> socket_addr) io poll" where
  "rpc_recv_from display call de obj remaining s = on_reply (\<lambda>r. map_err (to_io_err display) (rbind r (\<lambda>(resp, data).
     rbind (into_value de resp) (\<lambda>from. Inr (take remaining data, from))))) (call (CmdRecvFrom obj) None s)"

definition rpc_send_to :: "(rd_error \<Rightarrow> string) \<Rightarrow> 's rpc_call \<Rightarrow> rpc_object \<Rightarrow> bytes \<Rightarrow> address \<Rightarrow> 's \<Rightarrow> 's \<times> nat io poll" where
  "rpc_send_to display call obj buf target s = on_reply (\<lambda>r. map_err (to_io_err display) (rbind r (\<lambda>(resp, _).
     rbind (into_null resp) (\<lambda>_. Inr (length buf))))) (call (CmdSendTo obj target) (Some buf) s)"

definition close_object :: "'s rpc_call \<Rightarrow> rpc_object \<Rightarrow> 's \<Rightarrow> 's \<times> unit rd poll" where
  "close_object call obj s = on_reply (\<lambda>r. rbind r (\<lambda>_. Inr ())) (call (CmdClose obj) None s)"

subsection \<open>One request over the wire\<close>

text \<open>A task is polled at most \<open>k\<close> times; the last poll decides.\<close>

fun poll_until :: "nat \<Rightarrow> ('s \<Rightarrow> 's \<times> 'a poll) \<Rightarrow> 's \<Rightarrow> 's \<times> 'a poll" where
  "poll_until 0 f s = (s, Pending)"
| "poll_until (Suc k) f s = (case f s of (s', Pending) \<Rightarrow> poll_until k f s' | (s', Ready r) \<Rightarrow> (s', Ready r))"

record rpc_serde =
  sd_rq_ser :: "rpc_request \<Rightarrow> string + bytes"
  sd_rq_de :: "bytes \<Rightarrow> string + rpc_request"
  sd_rs_ser :: "rpc_response \<Rightarrow> string + bytes"
  sd_rs_de :: "bytes \<Rightarrow> string + rpc_response"

text \<open>A command goes through the frame of the client, the handler, and the frame of the server. A frame that
  cannot be sent or read ends the session, which the caller sees as a broken pipe; a handler that panics
  never answers.\<close>

definition rpc_exchange ::
  "('w, 't, 'l, 'u) rpc_env \<Rightarrow> rpc_serde \<Rightarrow> (rd_error \<Rightarrow> string) \<Rightarrow> nat \<Rightarrow> u32 \<Rightarrow> (('t, 'l, 'u) rpc_obj server_session_state \<times> 'w) rpc_call" where
  "rpc_exchange env sd display k seq cmd data s =
    (case rbind (rpc_write_frame (sd_rq_ser sd) (\<lparr> rq_cmd = cmd, rq_seq = seq \<rparr>, data)) (rpc_read_frame (sd_rq_de sd)) of
       Inl _ \<Rightarrow> (s, Ready (Inl (IO (IoError BrokenPipe ''''))))
     | Inr ((req, d), _) \<Rightarrow> (case handle_start env (rq_cmd req) d s of (s1, task) \<Rightarrow>
        (case poll_until k (poll_task env task) s1 of
           (s2, Pending) \<Rightarrow> (s2, Pending)
         | (s2, Ready (Inl _)) \<Rightarrow> (s2, Pending)
         | (s2, Ready (Inr r)) \<Rightarrow> (s2, Ready
             (case rbind (rpc_write_frame (sd_rs_ser sd) (reply_of display (rq_seq req) r)) (rpc_read_frame (sd_rs_de sd)) of
                Inl _ \<Rightarrow> Inl (IO (IoError BrokenPipe ''''))
              | Inr ((resp, d'), _) \<Rightarrow> Inr (resp, d'))))))"

subsection \<open>Transparency\<close>

definition carried :: "('i \<Rightarrow> string + bytes) \<Rightarrow> (bytes \<Rightarrow> string + 'i) \<Rightarrow> 'i \<Rightarrow> bool" where
  "carried ser de item = (case ser item of Inl _ \<Rightarrow> False | Inr b \<Rightarrow> de b = Inr item \<and> length b \<le> unat MAX_ITEM_SIZE)"

definition reply_fits :: "rpc_serde \<Rightarrow> rpc_response \<times> bytes option \<Rightarrow> bool" where
  "reply_fits sd r = (carried (sd_rs_ser sd) (sd_rs_de sd) (fst r) \<and> length (frame_data (snd r)) \<le> unat MAX_DATA_SIZE)"

definition request_fits :: "rpc_serde \<Rightarrow> rpc_command \<Rightarrow> u32 \<Rightarrow> bytes option \<Rightarrow> bool" where
  "request_fits sd cmd seq data = (carried (sd_rq_ser sd) (sd_rq_de sd) \<lparr> rq_cmd = cmd, rq_seq = seq \<rparr> \<and> length (frame_data data) \<le> unat MAX_DATA_SIZE)"

lemma frame_trip:
  assumes "carried ser de item" "length (frame_data data) \<le> unat MAX_DATA_SIZE"
  shows "rbind (rpc_write_frame ser (item, data)) (rpc_read_frame de) = Inr ((item, frame_data data), [])"
proof -
  obtain b where "ser item = Inr b" "de b = Inr item" "length b \<le> 1048576"
    using assms(1) by (auto simp: carried_def split: sum.splits)
  with rpc_read_write_frame [of ser item b de data "[]"] assms(2) show ?thesis by auto
qed

text \<open>Frames that follow each other are read one by one, in order.\<close>

lemma rpc_frames:
  "stream_codec (\<lambda>(i, d). projr (rpc_write_frame ser (i, Some d))) (\<lambda>bs. res_ok (rpc_read_frame de bs))
     (\<lambda>(i, d). carried ser de i \<and> length d \<le> unat MAX_DATA_SIZE)"
proof
  fix x :: "'a \<times> bytes" and rest :: bytes
  assume "case x of (i, d) \<Rightarrow> carried ser de i \<and> length d \<le> unat MAX_DATA_SIZE"
  then obtain i d b where x: "x = (i, d)" "ser i = Inr b" "de b = Inr i" "length b \<le> 1048576" "length d \<le> 1048576"
    by (auto simp: carried_def split: sum.splits)
  with rpc_read_write_frame [of ser i b de "Some d" rest]
  show "res_ok (rpc_read_frame de ((case x of (i, d) \<Rightarrow> projr (rpc_write_frame ser (i, Some d))) @ rest)) = Some (x, rest)"
    by (auto simp: frame_data_def)
next
  fix bs x rest
  assume "res_ok (rpc_read_frame de bs) = Some (x, rest)"
  then show "length rest < length bs" by (auto dest: rpc_read_frame_shorter)
qed

lemmas rpc_frames_in_order = stream_codec.dec_stream_whole [OF rpc_frames]

lemma rpc_exchange_task:
  assumes rq: "request_fits sd cmd seq data"
    and start: "handle_start env cmd (frame_data data) s = (s1, task)"
    and polls: "poll_until k (poll_task env task) s1 = (s2, map_poll Inr p)"
    and rs: "\<And>r. p = Ready r \<Longrightarrow> reply_fits sd (reply_of display seq r)"
  shows "rpc_exchange env sd display k seq cmd data s = (s2, map_poll (\<lambda>r. Inr (map_prod id frame_data (reply_of display seq r))) p)"
proof (cases p)
  case Pending
  then show ?thesis using rq start polls by (simp add: rpc_exchange_def frame_trip request_fits_def)
next
  case (Ready r)
  obtain resp d where r: "reply_of display seq r = (resp, d)" by (cases "reply_of display seq r")
  with rs [OF Ready] have "carried (sd_rs_ser sd) (sd_rs_de sd) resp" "length (frame_data d) \<le> unat MAX_DATA_SIZE"
    by (simp_all add: reply_fits_def)
  with Ready rq start polls r show ?thesis by (simp add: rpc_exchange_def frame_trip request_fits_def)
qed

lemma poll_until_lift:
  assumes "\<And>w. f (st, w) = (case g w of (w', p) \<Rightarrow> ((st, w'), map_poll h p))"
  shows "poll_until k f (st, w) = (case poll_until k g w of (w', p) \<Rightarrow> ((st, w'), map_poll h p))"
  by (induction k arbitrary: w) (simp_all add: assms split: prod.splits poll.splits)

lemma poll_task_stream:
  "poll_task env (TaskRead (ObjTcpStream t) n) (st, w) = (case ops_read (re_ops env) t n w of
     (w', p) \<Rightarrow> ((st, w'), map_poll (\<lambda>r. Inr (rbind (map_err IO r) (\<lambda>d. Inr (RpcNull, Some d)))) p))"
  "poll_task env (TaskWrite (ObjTcpStream t) buf) (st, w) = (case ops_write (re_ops env) t buf w of
     (w', p2) \<Rightarrow> ((st, w'), map_poll (\<lambda>r. Inr (rbind (map_err IO r) (\<lambda>n. Inr (RpcValue (JNum (int n)), None)))) p2))"
  "poll_task env (TaskFlush (ObjTcpStream t)) (st, w) = (case ops_flush (re_ops env) t w of
     (w', p3) \<Rightarrow> ((st, w'), map_poll (\<lambda>r. Inr (rbind (map_err IO r) (\<lambda>_. Inr (RpcNull, None)))) p3))"
  by (auto simp: poll_stream_def obj_tcp_stream_mut_def done_with_def split: prod.splits poll.splits)

text \<open>An error of the server's object arrives as its text in an error of the kind \<open>Other\<close>.\<close>

definition remote_err :: "(rd_error \<Rightarrow> string) \<Rightarrow> io_error \<Rightarrow> io_error" where
  "remote_err display e = IoError OtherKind (display (OtherError (display (IO e))))"

definition read_reply :: "bytes io \<Rightarrow> rpc_reply rd" where
  "read_reply r = rbind (map_err IO r) (\<lambda>d. Inr (RpcNull, Some d))"

definition write_reply :: "nat io \<Rightarrow> rpc_reply rd" where
  "write_reply r = rbind (map_err IO r) (\<lambda>n. Inr (RpcValue (JNum (int n)), None))"

lemma rpc_read_transparent:
  assumes obj: "hm_get (ss_objects st) key = Some (ObjTcpStream t)"
    and rq: "request_fits sd (CmdRead key (word_of_nat n)) seq None" and n: "n < 2 ^ 32"
    and direct: "poll_until k (ops_read (re_ops env) t n) w = (w', p)"
    and rs: "\<And>r. p = Ready r \<Longrightarrow> reply_fits sd (reply_of display seq (read_reply r))"
  shows "rpc_read display (rpc_exchange env sd display k seq) key n (st, w) = ((st, w'), map_poll (map_err (remote_err display)) p)"
proof -
  have u: "unat (word_of_nat n :: u32) = n" using n by (simp add: unat_of_nat)
  have polls: "poll_until k (poll_task env (TaskRead (ObjTcpStream t) n)) (st, w) = ((st, w'), map_poll Inr (map_poll read_reply p))"
    using poll_until_lift [of "poll_task env (TaskRead (ObjTcpStream t) n)" st, OF poll_task_stream(1)] direct
    by (simp add: read_reply_def poll.map_comp comp_def)
  have start: "handle_start env (CmdRead key (word_of_nat n)) (frame_data None) (st, w) = ((st, w), TaskRead (ObjTcpStream t) n)"
    using obj u by (simp add: with_object_def get_object_def ok_or_def)
  have fits: "reply_fits sd (reply_of display seq x)" if "map_poll read_reply p = Ready x" for x
    using that rs by (cases p) auto
  from rpc_exchange_task [OF rq start polls] fits
  have ex: "rpc_exchange env sd display k seq (CmdRead key (word_of_nat n)) None (st, w)
    = ((st, w'), map_poll (\<lambda>r. Inr (map_prod id frame_data (reply_of display seq r))) (map_poll read_reply p))"
    by blast
  show ?thesis
  proof (cases p)
    case (Ready r)
    then show ?thesis
      by (cases r) (simp_all add: rpc_read_def ex on_reply_def reply_of_def read_reply_def into_null_def frame_data_def remote_err_def to_io_err_def)
  qed (simp add: rpc_read_def ex on_reply_def)
qed

lemma rpc_write_transparent:
  assumes obj: "hm_get (ss_objects st) key = Some (ObjTcpStream t)"
    and rq: "request_fits sd (CmdWrite key) seq (Some buf)"
    and direct: "poll_until k (ops_write (re_ops env) t buf) w = (w', p)"
    and rs: "\<And>r. p = Ready r \<Longrightarrow> reply_fits sd (reply_of display seq (write_reply r))"
    and short: "\<And>n. p = Ready (Inr n) \<Longrightarrow> n \<le> length buf"
  shows "rpc_write display (rpc_exchange env sd display k seq) key buf (st, w) = ((st, w'), map_poll (map_err (remote_err display)) p)"
proof -
  have polls: "poll_until k (poll_task env (TaskWrite (ObjTcpStream t) buf)) (st, w) = ((st, w'), map_poll Inr (map_poll write_reply p))"
    using poll_until_lift [of "poll_task env (TaskWrite (ObjTcpStream t) buf)" st, OF poll_task_stream(2)] direct
    by (simp add: write_reply_def poll.map_comp comp_def)
  have start: "handle_start env (CmdWrite key) (frame_data (Some buf)) (st, w) = ((st, w), TaskWrite (ObjTcpStream t) buf)"
    using obj by (simp add: with_object_def get_object_def ok_or_def frame_data_def)
  have small: "int n < 4294967296" if "p = Ready (Inr n)" for n
    using short [OF that] rq by (simp add: request_fits_def frame_data_def)
  have fits: "reply_fits sd (reply_of display seq x)" if "map_poll write_reply p = Ready x" for x
    using that rs by (cases p) auto
  from rpc_exchange_task [OF rq start polls] fits
  have ex: "rpc_exchange env sd display k seq (CmdWrite key) (Some buf) (st, w)
    = ((st, w'), map_poll (\<lambda>r. Inr (map_prod id frame_data (reply_of display seq r))) (map_poll write_reply p))"
    by blast
  show ?thesis
  proof (cases p)
    case (Ready r)
    then show ?thesis
      using small by (cases r) (simp_all add: rpc_write_def ex on_reply_def reply_of_def write_reply_def into_value_def de_u32_def  remote_err_def to_io_err_def)
  qed (simp add: rpc_write_def ex on_reply_def)
qed

text \<open>A script of reads and writes, on the server's stream and on the remote stream. It stops at a call that is
  still pending after \<open>k\<close> polls.\<close>

datatype stream_op = OpRead nat | OpWrite bytes

datatype op_result = ResRead "bytes io" | ResWrite "nat io"

fun op_result_err :: "(io_error \<Rightarrow> io_error) \<Rightarrow> op_result \<Rightarrow> op_result" where
  "op_result_err f (ResRead r) = ResRead (map_err f r)"
| "op_result_err f (ResWrite r) = ResWrite (map_err f r)"

definition and_then :: "('a \<Rightarrow> op_result) \<Rightarrow> ('s \<Rightarrow> 's \<times> op_result list) \<Rightarrow> 's \<times> 'a poll \<Rightarrow> 's \<times> op_result list" where
  "and_then f k r = (case r of (s, Pending) \<Rightarrow> (s, []) | (s, Ready x) \<Rightarrow> (case k s of (s', rs) \<Rightarrow> (s', f x # rs)))"

fun direct_script :: "('w, 't, 'l, 'u) obj_ops \<Rightarrow> nat \<Rightarrow> 't \<Rightarrow> stream_op list \<Rightarrow> 'w \<Rightarrow> 'w \<times> op_result list" where
  "direct_script ops k t [] w = (w, [])"
| "direct_script ops k t (OpRead n # xs) w = and_then ResRead (direct_script ops k t xs) (poll_until k (ops_read ops t n) w)"
| "direct_script ops k t (OpWrite buf # xs) w = and_then ResWrite (direct_script ops k t xs) (poll_until k (ops_write ops t buf) w)"

fun remote_script ::
  "('w, 't, 'l, 'u) rpc_env \<Rightarrow> rpc_serde \<Rightarrow> (rd_error \<Rightarrow> string) \<Rightarrow> nat \<Rightarrow> rpc_object \<Rightarrow> u32 \<Rightarrow> stream_op list \<Rightarrow>
   ('t, 'l, 'u) rpc_obj server_session_state \<times> 'w \<Rightarrow> (('t, 'l, 'u) rpc_obj server_session_state \<times> 'w) \<times> op_result list" where
  "remote_script env sd display k key seq [] s = (s, [])"
| "remote_script env sd display k key seq (OpRead n # xs) s =
     and_then ResRead (remote_script env sd display k key (seq + 1) xs) (rpc_read display (rpc_exchange env sd display k seq) key n s)"
| "remote_script env sd display k key seq (OpWrite buf # xs) s =
     and_then ResWrite (remote_script env sd display k key (seq + 1) xs) (rpc_write display (rpc_exchange env sd display k seq) key buf s)"

text \<open>The messages of the script serialize within the limits, and the stream honours the size of the write buffer.\<close>

fun script_fits ::
  "('w, 't, 'l, 'u) obj_ops \<Rightarrow> rpc_serde \<Rightarrow> (rd_error \<Rightarrow> string) \<Rightarrow> nat \<Rightarrow> 't \<Rightarrow> rpc_object \<Rightarrow> u32 \<Rightarrow> stream_op list \<Rightarrow> 'w \<Rightarrow> bool" where
  "script_fits ops sd display k t key seq [] w = True"
| "script_fits ops sd display k t key seq (OpRead n # xs) w = (n < 2 ^ 32 \<and> request_fits sd (CmdRead key (word_of_nat n)) seq None
     \<and> (case poll_until k (ops_read ops t n) w of
          (w', Pending) \<Rightarrow> True
        | (w', Ready r) \<Rightarrow> reply_fits sd (reply_of display seq (read_reply r)) \<and> script_fits ops sd display k t key (seq + 1) xs w'))"
| "script_fits ops sd display k t key seq (OpWrite buf # xs) w = (request_fits sd (CmdWrite key) seq (Some buf)
     \<and> (case poll_until k (ops_write ops t buf) w of
          (w', Pending) \<Rightarrow> True
        | (w', Ready r) \<Rightarrow> reply_fits sd (reply_of display seq (write_reply r)) \<and> (case r of Inr n \<Rightarrow> n \<le> length buf | Inl _ \<Rightarrow> True)
            \<and> script_fits ops sd display k t key (seq + 1) xs w'))"

text \<open>C6: A remote stream is the server's stream. Any sequence of reads and writes on the stream object of an
  RPC session, each sent as a frame, handled by the server and answered by a frame, returns what the same sequence
  returns on the stream that the server holds, and leaves that stream in the same state and the table of objects
  untouched; only an error arrives as the text of the server's error. The messages have to fit into
  the frame limits.\<close>

theorem rpc_script_transparent:
  assumes "hm_get (ss_objects st) key = Some (ObjTcpStream t)" and "script_fits (re_ops env) sd display k t key seq xs w"
  shows "remote_script env sd display k key seq xs (st, w)
    = (case direct_script (re_ops env) k t xs w of (w', rs) \<Rightarrow> ((st, w'), map (op_result_err (remote_err display)) rs))"
  using assms(2)
proof (induction xs arbitrary: seq w)
  case (Cons x xs)
  show ?case
  proof (cases x)
    case (OpRead n)
    obtain w' p where direct: "poll_until k (ops_read (re_ops env) t n) w = (w', p)" by fastforce
    from Cons.prems OpRead direct
    have rem: "rpc_read display (rpc_exchange env sd display k seq) key n (st, w) = ((st, w'), map_poll (map_err (remote_err display)) p)"
      by (intro rpc_read_transparent [OF assms(1) _ _ direct]) auto
    show ?thesis
      using Cons.prems Cons.IH [of "seq + 1" w'] OpRead direct rem
      by (cases p) (auto simp: and_then_def split: prod.splits)
  next
    case (OpWrite buf)
    obtain w' p where direct: "poll_until k (ops_write (re_ops env) t buf) w = (w', p)" by fastforce
    from Cons.prems OpWrite direct
    have rem: "rpc_write display (rpc_exchange env sd display k seq) key buf (st, w) = ((st, w'), map_poll (map_err (remote_err display)) p)"
      by (intro rpc_write_transparent [OF assms(1) _ direct]) (auto split: sum.splits)
    show ?thesis
      using Cons.prems Cons.IH [of "seq + 1" w'] OpWrite direct rem
      by (cases p) (auto simp: and_then_def split: prod.splits)
  qed
qed simp

text \<open>A server whose only object is a stream that gives and takes a few bytes, with a plain serialization of the
  messages for reading and writing.\<close>

definition plain_ops :: "(inner, unit, unit, unit) obj_ops" where
  "plain_ops = \<lparr> ops_read = (\<lambda>_. inner_read), ops_write = (\<lambda>_. inner_write), ops_flush = (\<lambda>_ w. (w, Ready (Inr ()))),
     ops_shutdown = (\<lambda>_ w. (w, Ready (Inr ()))), ops_stream_local = (\<lambda>_ w. (w, Inl NotImplemented)),
     ops_stream_peer = (\<lambda>_ w. (w, Inl NotImplemented)), ops_accept = (\<lambda>_ w. (w, Pending)),
     ops_listener_local = (\<lambda>_ w. (w, Inl NotImplemented)), ops_recv_from = (\<lambda>_ _ w. (w, Pending)),
     ops_send_to = (\<lambda>_ _ _ w. (w, Pending)), ops_socket_local = (\<lambda>_ w. (w, Inl NotImplemented)) \<rparr>"

definition plain_env :: "(inner, unit, unit, unit) rpc_env" where
  "plain_env = \<lparr> re_net = not_implemented_net, re_ops = plain_ops, re_sa_ser = (\<lambda>_. Inr JNull) \<rparr>"

fun plain_rq_ser :: "rpc_request \<Rightarrow> string + bytes" where
  "plain_rq_ser r = (case rq_cmd r of
     CmdRead (Object a) n \<Rightarrow> Inr (0 # u32_to_be (rq_seq r) @ u32_to_be a @ u32_to_be n)
   | CmdWrite (Object a) \<Rightarrow> Inr (1 # u32_to_be (rq_seq r) @ u32_to_be a)
   | _ \<Rightarrow> Inl ''unsupported'')"

fun plain_rq_de :: "bytes \<Rightarrow> string + rpc_request" where
  "plain_rq_de (b # bs) = (let seq = u32_from_be (take 4 bs); a = Object (u32_from_be (take 4 (drop 4 bs))) in
     Inr \<lparr> rq_cmd = (if b = 0 then CmdRead a (u32_from_be (drop 8 bs)) else CmdWrite a), rq_seq = seq \<rparr>)"
| "plain_rq_de [] = Inl ''empty''"

fun plain_rs_ser :: "rpc_response \<Rightarrow> string + bytes" where
  "plain_rs_ser r = (case rs_result r of
     Inr RpcNull \<Rightarrow> Inr (u32_to_be (rs_seq r))
   | Inr (RpcValue (JNum i)) \<Rightarrow> Inr (u32_to_be (rs_seq r) @ [word_of_int i])
   | _ \<Rightarrow> Inl ''unsupported'')"

fun plain_rs_de :: "bytes \<Rightarrow> string + rpc_response" where
  "plain_rs_de bs = Inr \<lparr> rs_seq = u32_from_be (take 4 bs),
     rs_result = Inr (case drop 4 bs of [] \<Rightarrow> RpcNull | b # _ \<Rightarrow> RpcValue (JNum (uint b))) \<rparr>"

definition plain_serde :: rpc_serde where
  "plain_serde = \<lparr> sd_rq_ser = plain_rq_ser, sd_rq_de = plain_rq_de, sd_rs_ser = plain_rs_ser, sd_rs_de = plain_rs_de \<rparr>"

definition plain_stream :: inner where
  "plain_stream = \<lparr> i_out = [], i_writes = [Pending, Ready (Inr 2), Ready (Inr 5)], i_reads = [Ready (Inr [7, 8, 9])] \<rparr>"

definition plain_script :: "stream_op list" where
  "plain_script = [OpWrite [1, 2, 3], OpRead 2, OpWrite [3], OpRead 2]"

lemma plain_requests:
  "request_fits plain_serde (CmdRead (Object a) n) seq None"
  "length buf \<le> 1048576 \<Longrightarrow> request_fits plain_serde (CmdWrite (Object a)) seq (Some buf)"
  by (simp_all add: request_fits_def carried_def plain_serde_def Let_def frame_data_def)

lemma plain_replies:
  "length d \<le> 1048576 \<Longrightarrow> reply_fits plain_serde (reply_of display seq (read_reply (Inr d)))"
  "m < 256 \<Longrightarrow> reply_fits plain_serde (reply_of display seq (write_reply (Inr m)))"
  by (simp_all add: reply_fits_def reply_of_def read_reply_def write_reply_def carried_def plain_serde_def frame_data_def
      unsigned_of_nat take_bit_nat_eq_self)

lemma plain_script_run:
  "direct_script plain_ops 2 () plain_script plain_stream
    = (\<lparr> i_out = [1, 2, 3], i_writes = [], i_reads = [] \<rparr>,
       [ResWrite (Inr 2), ResRead (Inr [7, 8]), ResWrite (Inr 1), ResRead (Inr [9])])"
  by (simp add: plain_ops_def plain_script_def plain_stream_def numeral_2_eq_2 and_then_def inner_read_def inner_write_def)

lemma plain_script_fits: "script_fits plain_ops plain_serde display 2 () (Object 0) 0 plain_script plain_stream"
proof -
  have "poll_until 2 (ops_write plain_ops () [1, 2, 3]) plain_stream
      = (plain_stream\<lparr> i_out := [1, 2], i_writes := [Ready (Inr 5)] \<rparr>, Ready (Inr 2))"
    by (simp add: plain_ops_def plain_stream_def numeral_2_eq_2 inner_write_def)
  then show ?thesis
    by (simp add: plain_script_def plain_requests plain_replies)
      (simp add: plain_ops_def plain_stream_def numeral_2_eq_2 inner_read_def inner_write_def plain_replies [unfolded One_nat_def] plain_requests)
qed

lemma rpc_script_transparent_witness:
  "remote_script plain_env plain_serde (\<lambda>_. []) 2 (Object 0) 0 plain_script
     (\<lparr> ss_objects = [(Object 0, ObjTcpStream ())], ss_obj_id = 1 \<rparr>, plain_stream)
   = ((\<lparr> ss_objects = [(Object 0, ObjTcpStream ())], ss_obj_id = 1 \<rparr>, \<lparr> i_out = [1, 2, 3], i_writes = [], i_reads = [] \<rparr>),
      [ResWrite (Inr 2), ResRead (Inr [7, 8]), ResWrite (Inr 1), ResRead (Inr [9])])"
proof -
  have "hm_get (ss_objects \<lparr> ss_objects = [(Object 0, ObjTcpStream ())], ss_obj_id = 1 \<rparr>) (Object 0) = Some (ObjTcpStream ())"
    by (simp add: hm_get_def)
  moreover have ops: "re_ops plain_env = plain_ops" by (simp add: plain_env_def)
  with plain_script_fits have "script_fits (re_ops plain_env) plain_serde (\<lambda>_. []) 2 () (Object 0) 0 plain_script plain_stream" by metis
  ultimately show ?thesis by (subst rpc_script_transparent) (simp_all add: ops plain_script_run)
qed

subsection \<open>Opening and closing objects\<close>

text \<open>The invariant of the object table: identifiers were given out before.\<close>

definition objects_ok :: "'o server_session_state \<Rightarrow> bool" where
  "objects_ok st = (\<forall>i. hm_get (ss_objects st) (Object i) \<noteq> None \<longrightarrow> i < ss_obj_id st)"

lemma objects_ok_new: "objects_ok server_state_new"
  by (simp add: objects_ok_def server_state_new_def)

lemma fresh_id: "objects_ok st \<Longrightarrow> hm_get (ss_objects st) (Object (ss_obj_id st)) = None"
  by (auto simp: objects_ok_def)

lemma objects_ok_insert:
  assumes "objects_ok st" "ss_obj_id st + 1 \<noteq> 0"
  shows "objects_ok (snd (insert_object obj st))"
proof -
  have "unat (ss_obj_id st + 1) = Suc (unat (ss_obj_id st))"
    using assms(2) by (metis add.commute unatSuc)
  with assms(1) show ?thesis
    by (auto simp: objects_ok_def insert_object_def Let_def word_less_nat_alt)
qed

lemma objects_ok_remove: "objects_ok st \<Longrightarrow> objects_ok (remove_object key st)"
  by (auto simp: objects_ok_def remove_object_def)

lemma open_object_table:
  assumes "objects_ok st" "ss_obj_id st + 1 \<noteq> 0" "open_object f mk j addr (st, w) = ((st', w'), r)"
  shows "objects_ok st'"
  using assms objects_ok_insert [OF assms(1,2)]
  by (auto simp: open_object_def split: sum.splits prod.splits) (metis snd_conv)+

text \<open>The context as it is after it was sent.\<close>

definition wire_ctx :: "conn_context \<Rightarrow> conn_context" where
  "wire_ctx ctx = (case rbind (map_err Inl (ctx_to_value ctx)) (\<lambda>v. map_err Inr (ctx_from_value v)) of Inr c \<Rightarrow> c | Inl _ \<Rightarrow> ctx)"

lemma wire_ctx_facts:
  assumes "cvs_reach (ctx_net_list ctx)"
  obtains v where "ctx_to_value ctx = Inr v" "ctx_from_value v = Inr (wire_ctx ctx)"
    and "ctx_net_list (wire_ctx ctx) = ctx_net_list ctx"
    and "\<And>k. k \<noteq> ''net_list'' \<Longrightarrow> hm_get (ctx_data (wire_ctx ctx)) k = hm_get (ctx_data ctx) k"
proof -
  obtain v and c :: conn_context where "ctx_to_value ctx = Inr v" "ctx_from_value v = Inr c"
    "ctx_net_list c = ctx_net_list ctx" "\<forall>k. hm_get (ctx_data c) k = (if k = ''net_list'' then None else hm_get (ctx_data ctx) k)"
    using context_value_roundtrip [OF assms] by auto
  with that show thesis by (simp add: wire_ctx_def)
qed

lemma rpc_exchange_done:
  assumes "request_fits sd cmd seq data" "handle_start env cmd (frame_data data) s = (s1, TaskDone (Inr r))" "0 < k"
    and "reply_fits sd (reply_of display seq r)"
  shows "rpc_exchange env sd display k seq cmd data s = (s1, Ready (Inr (map_prod id frame_data (reply_of display seq r))))"
proof -
  have "poll_until k (poll_task env (TaskDone (Inr r))) s1 = (s1, map_poll Inr (Ready r))"
    using assms(3) by (cases k) simp_all
  from rpc_exchange_task [OF assms(1,2) this] assms(4) show ?thesis by simp
qed

definition opened_reply :: "rpc_object \<Rightarrow> json \<Rightarrow> rpc_reply rd" where
  "opened_reply key v = Inr (RpcObjectValue key v, None)"

text \<open>C21: Connecting through an RPC net is connecting on the server. The server's net is called with the context of
  the caller. When it connects, the stream is put into the table under an identifier that no object
  has, every other object stays, and the caller gets this identifier and the context as the server's net
  left it (its list of nets and every value); when it fails, the caller gets the text of the error and
  the table stays as it was.\<close>

theorem rpc_connect_transparent:
  assumes ctx: "cvs_reach (ctx_net_list ctx)" and tab: "objects_ok st" and id: "ss_obj_id st + 1 \<noteq> 0" and k: "0 < k"
    and rq: "\<forall>v. ctx_to_value ctx = Inr v \<longrightarrow> request_fits sd (CmdTcpConnect v addr) seq None"
    and direct: "call_net (provide_tcp_connect (re_net env)) (wire_ctx ctx) addr w = (w', ctx1, r)"
    and ctx1: "cvs_reach (ctx_net_list ctx1)"
    and rs: "case r of Inl e \<Rightarrow> reply_fits sd (reply_of display seq (Inl e))
      | Inr _ \<Rightarrow> (\<forall>v. ctx_to_value ctx1 = Inr v \<longrightarrow> reply_fits sd (reply_of display seq (opened_reply (Object (ss_obj_id st)) v)))"
  shows "case r of
     Inl e \<Rightarrow> rpc_open (rpc_exchange env sd display k seq) CmdTcpConnect ctx addr (st, w) = ((st, w'), Ready (Inr (Inl (OtherError (display e)))))
   | Inr t \<Rightarrow> \<exists>st' ctx2 key. rpc_open (rpc_exchange env sd display k seq) CmdTcpConnect ctx addr (st, w) = ((st', w'), Ready (Inr (Inr (ctx2, key))))
       \<and> hm_get (ss_objects st) key = None \<and> hm_get (ss_objects st') key = Some (ObjTcpStream t) \<and> objects_ok st'
       \<and> (\<forall>other. other \<noteq> key \<longrightarrow> hm_get (ss_objects st') other = hm_get (ss_objects st) other)
       \<and> ctx_net_list ctx2 = ctx_net_list ctx1
       \<and> (\<forall>f. f \<noteq> ''net_list'' \<longrightarrow> hm_get (ctx_data ctx2) f = hm_get (ctx_data ctx1) f)"
proof -
  obtain v where v: "ctx_to_value ctx = Inr v" "ctx_from_value v = Inr (wire_ctx ctx)" by (rule wire_ctx_facts [OF ctx])
  with rq have fits: "request_fits sd (CmdTcpConnect v addr) seq None" by blast
  show ?thesis
  proof (cases r)
    case (Inl e)
    have "handle_start env (CmdTcpConnect v addr) (frame_data None) (st, w) = ((st, w'), TaskDone (Inr (Inl e)))"
      using direct v Inl by (simp add: open_object_def)
    from rpc_exchange_done [OF fits this k] rs Inl
    have "rpc_exchange env sd display k seq (CmdTcpConnect v addr) None (st, w)
      = ((st, w'), Ready (Inr (map_prod id frame_data (reply_of display seq (Inl e)))))" by simp
    with Inl show ?thesis by (simp add: rpc_open_def v on_reply_def reply_of_def into_object_value_def)
  next
    case (Inr t)
    obtain v1 where v1: "ctx_to_value ctx1 = Inr v1" "ctx_from_value v1 = Inr (wire_ctx ctx1)"
      and kept: "ctx_net_list (wire_ctx ctx1) = ctx_net_list ctx1"
        "\<And>f. f \<noteq> ''net_list'' \<Longrightarrow> hm_get (ctx_data (wire_ctx ctx1)) f = hm_get (ctx_data ctx1) f"
      by (rule wire_ctx_facts [OF ctx1]) blast
    define key where "key = Object (ss_obj_id st)"
    define st' where "st' = snd (insert_object (ObjTcpStream t) st)"
    have ins: "insert_object (ObjTcpStream t) st = (key, st')" by (simp add: key_def st'_def insert_object_def Let_def)
    have "handle_start env (CmdTcpConnect v addr) (frame_data None) (st, w) = ((st', w'), TaskDone (Inr (opened_reply key v1)))"
      using direct v v1 Inr ins by (simp add: open_object_def opened_reply_def)
    from rpc_exchange_done [OF fits this k] rs Inr v1 key_def
    have "rpc_exchange env sd display k seq (CmdTcpConnect v addr) None (st, w)
      = ((st', w'), Ready (Inr (map_prod id frame_data (reply_of display seq (opened_reply key v1)))))" by simp
    then have "rpc_open (rpc_exchange env sd display k seq) CmdTcpConnect ctx addr (st, w) = ((st', w'), Ready (Inr (Inr (wire_ctx ctx1, key))))"
      by (simp add: rpc_open_def v v1 on_reply_def reply_of_def opened_reply_def into_object_value_def)
    moreover have "hm_get (ss_objects st') other = (if other = key then Some (ObjTcpStream t) else hm_get (ss_objects st) other)" for other
      by (simp add: st'_def key_def insert_object_def Let_def)
    ultimately show ?thesis
      using Inr kept fresh_id [OF tab] objects_ok_insert [OF tab id, of "ObjTcpStream t"]
      by (auto simp: st'_def key_def)
  qed
qed

text \<open>A server that connects to everything, and a serialization that knows one request and one response.\<close>

definition open_env :: "(unit, unit, unit, unit) rpc_env" where
  "open_env = \<lparr> re_net = not_implemented_net\<lparr> provide_tcp_connect := Some (\<lambda>ctx addr w. (w, ctx, Inr ())) \<rparr>,
     re_ops = \<lparr> ops_read = (\<lambda>_ _ w. (w, Pending)), ops_write = (\<lambda>_ _ w. (w, Pending)), ops_flush = (\<lambda>_ w. (w, Pending)),
     ops_shutdown = (\<lambda>_ w. (w, Pending)), ops_stream_local = (\<lambda>_ w. (w, Inl NotImplemented)),
     ops_stream_peer = (\<lambda>_ w. (w, Inl NotImplemented)), ops_accept = (\<lambda>_ w. (w, Pending)),
     ops_listener_local = (\<lambda>_ w. (w, Inl NotImplemented)), ops_recv_from = (\<lambda>_ _ w. (w, Pending)),
     ops_send_to = (\<lambda>_ _ _ w. (w, Pending)), ops_socket_local = (\<lambda>_ w. (w, Inl NotImplemented)) \<rparr>,
     re_sa_ser = (\<lambda>_. Inr JNull) \<rparr>"

definition one_serde :: "rpc_request \<Rightarrow> rpc_response \<Rightarrow> rpc_serde" where
  "one_serde rq rs = \<lparr> sd_rq_ser = (\<lambda>x. if x = rq then Inr [] else Inl ''unknown''), sd_rq_de = (\<lambda>_. Inr rq),
     sd_rs_ser = (\<lambda>x. if x = rs then Inr [] else Inl ''unknown''), sd_rs_de = (\<lambda>_. Inr rs) \<rparr>"

definition open_serde :: rpc_serde where
  "open_serde = one_serde
     \<lparr> rq_cmd = CmdTcpConnect (projr (ctx_to_value ctx_new)) (Domain ''xy'' 80), rq_seq = 0 \<rparr>
     \<lparr> rs_seq = 0, rs_result = Inr (RpcObjectValue (Object 0) (projr (ctx_to_value (wire_ctx ctx_new)))) \<rparr>"

lemma rpc_connect_transparent_witness:
  "\<exists>(st' :: (unit, unit, unit) rpc_obj server_session_state) (ctx2 :: conn_context) key.
     rpc_open (rpc_exchange open_env open_serde (\<lambda>_. []) 1 0) CmdTcpConnect ctx_new (Domain ''xy'' 80) (server_state_new, ())
       = ((st', ()), Ready (Inr (Inr (ctx2, key))))
     \<and> hm_get (ss_objects st') key = Some (ObjTcpStream ()) \<and> ctx_net_list ctx2 = ctx_net_list (wire_ctx ctx_new)"
proof -
  let ?st = "server_state_new :: (unit, unit, unit) rpc_obj server_session_state"
  have reach: "cvs_reach (ctx_net_list ctx_new)" by (simp add: ctx_new_def cvs_reach.intros)
  then obtain v where "ctx_net_list (wire_ctx ctx_new) = ctx_net_list ctx_new" by (rule wire_ctx_facts)
  with reach have reach1: "cvs_reach (ctx_net_list (wire_ctx ctx_new))" by simp
  have direct: "call_net (provide_tcp_connect (re_net open_env)) (wire_ctx ctx_new) (Domain ''xy'' 80) () = ((), wire_ctx ctx_new, Inr ())"
    by (simp add: call_net_def open_env_def)
  have rq: "\<forall>v. ctx_to_value ctx_new = Inr v \<longrightarrow> request_fits open_serde (CmdTcpConnect v (Domain ''xy'' 80)) 0 None"
    by (simp add: open_serde_def one_serde_def request_fits_def carried_def frame_data_def)
  have rs: "\<forall>v. ctx_to_value (wire_ctx ctx_new) = Inr v \<longrightarrow> reply_fits open_serde (reply_of (\<lambda>_. []) 0 (opened_reply (Object (ss_obj_id ?st)) v))"
    by (simp add: open_serde_def one_serde_def reply_fits_def carried_def frame_data_def reply_of_def opened_reply_def server_state_new_def)
  have id: "ss_obj_id ?st + 1 \<noteq> 0" by (simp add: server_state_new_def)
  from rpc_connect_transparent [where display = "\<lambda>_. []" and k = 1, OF reach objects_ok_new id _ rq direct reach1] rs
  show ?thesis by fastforce
qed

end
