(* ===== verification/Rpc_Session.thy ===== *)
theory Rpc_Session
  imports Rpc_Remote "HOL-Library.Multiset"
begin

section \<open>RPC: concurrent sessions\<close>

text \<open>
  A session of \<open>protocol/rpc\<close> with any number of concurrent callers (\<open>session.rs\<close>, \<open>session/state.rs\<close> and
  \<open>handle_conn\<close> of \<open>server.rs\<close>). A call takes a sequence number, puts its request on the connection, then registers a
  channel under its number and spawns a task that takes one response from the connection and hands it
  to whoever registered its number. The server starts a handler for each request, and the handlers finish in any
  order. Every step of a task between two points where another may run is a step of the system. The
  connection delivers frames in order (\<open>Rpc_Wire\<close>).
\<close>

record ('s, 'k) rpc_sys =
  y_issued :: "(rpc_command \<times> bytes) list"
  y_seq_id :: u32
  y_prepared :: "(nat \<times> u32) list"
  y_sending :: "(nat \<times> u32) list"
  y_wait_map :: "(u32, nat) hmap"
  y_readers :: "u32 list"
  y_got :: "(nat, rpc_response \<times> bytes) hmap"
  y_closed :: bool
  y_requests :: "(rpc_request \<times> bytes) list"
  y_running :: "(rpc_request \<times> bytes \<times> 'k) list"
  y_responses :: "(rpc_response \<times> bytes) list"
  y_server :: 's
  y_answers :: "((rpc_request \<times> bytes) \<times> rpc_response \<times> bytes) list"
  y_broken :: "(u32 \<times> string) list"
  y_dropped :: "u32 list"

text \<open>Calls are numbered in the order of \<open>next_seq_id\<close>; the number stands for the call's \<open>oneshot\<close> channel.
  \<open>y_issued\<close> and \<open>y_answers\<close> record what was asked and answered, \<open>y_broken\<close> the tasks that found the
  connection broken, with the error, and \<open>y_dropped\<close> the calls that were dropped; no step depends on these four.\<close>

definition session_new :: "'s \<Rightarrow> ('s, 'k) rpc_sys" where
  "session_new sv = \<lparr> y_issued = [], y_seq_id = 0, y_prepared = [], y_sending = [], y_wait_map = [], y_readers = [],
     y_got = [], y_closed = False, y_requests = [], y_running = [], y_responses = [], y_server = sv, y_answers = [],
     y_broken = [], y_dropped = [] \<rparr>"

subsection \<open>The client\<close>

definition next_seq_id :: "rpc_command \<Rightarrow> bytes \<Rightarrow> ('s, 'k) rpc_sys \<Rightarrow> ('s, 'k) rpc_sys" where
  "next_seq_id cmd data y = y\<lparr> y_seq_id := y_seq_id y + 1, y_issued := y_issued y @ [(cmd, data)],
     y_prepared := (length (y_issued y), y_seq_id y) # y_prepared y \<rparr>"

definition send_request :: "nat \<Rightarrow> u32 \<Rightarrow> ('s, 'k) rpc_sys \<Rightarrow> ('s, 'k) rpc_sys" where
  "send_request n q y = (case y_issued y ! n of (cmd, data) \<Rightarrow> y\<lparr> y_prepared := remove1 (n, q) (y_prepared y), y_sending := (n, q) # y_sending y,
     y_requests := y_requests y @ [(\<lparr> rq_cmd = cmd, rq_seq = q \<rparr>, data)] \<rparr>)"

definition send_failed :: "nat \<Rightarrow> u32 \<Rightarrow> ('s, 'k) rpc_sys \<Rightarrow> ('s, 'k) rpc_sys" where
  "send_failed n q y = y\<lparr> y_prepared := remove1 (n, q) (y_prepared y), y_closed := True \<rparr>"

definition wait_for_response :: "nat \<Rightarrow> u32 \<Rightarrow> ('s, 'k) rpc_sys \<Rightarrow> ('s, 'k) rpc_sys" where
  "wait_for_response n q y = y\<lparr> y_sending := remove1 (n, q) (y_sending y), y_wait_map := hm_insert q n (y_wait_map y),
     y_readers := q # y_readers y \<rparr>"

definition send_response :: "rpc_response \<Rightarrow> bytes \<Rightarrow> ('s, 'k) rpc_sys \<Rightarrow> ('s, 'k) rpc_sys" where
  "send_response resp data y = (case hm_get (y_wait_map y) (rs_seq resp) of
     None \<Rightarrow> y
   | Some n \<Rightarrow> y\<lparr> y_wait_map := hm_remove (rs_seq resp) (y_wait_map y), y_got := hm_insert n (resp, data) (y_got y) \<rparr>)"

definition wait_response :: "u32 \<Rightarrow> ('s, 'k) rpc_sys \<Rightarrow> ('s, 'k) rpc_sys" where
  "wait_response q y = (case y_responses y of
     [] \<Rightarrow> y
   | (resp, data) # rest \<Rightarrow> send_response resp data (y\<lparr> y_readers := remove1 q (y_readers y), y_responses := rest \<rparr>))"

definition wait_failed :: "u32 \<Rightarrow> string \<Rightarrow> ('s, 'k) rpc_sys \<Rightarrow> ('s, 'k) rpc_sys" where
  "wait_failed q e y = send_response \<lparr> rs_seq = q, rs_result = Inl e \<rparr> []
     (y\<lparr> y_readers := remove1 q (y_readers y), y_closed := True, y_broken := (q, e) # y_broken y \<rparr>)"

definition drop_getter :: "u32 \<Rightarrow> ('s, 'k) rpc_sys \<Rightarrow> ('s, 'k) rpc_sys" where
  "drop_getter q y = send_response \<lparr> rs_seq = q, rs_result = Inl ''Aborted'' \<rparr> [] (y\<lparr> y_dropped := q # y_dropped y \<rparr>)"

subsection \<open>The server\<close>

definition rpc_serve ::
  "('w, 't, 'l, 'u) rpc_env \<Rightarrow> rpc_request \<Rightarrow> bytes \<Rightarrow>
   (('t, 'l, 'u) rpc_obj server_session_state \<times> 'w, ('t, 'l, 'u) rpc_task) rpc_sys \<Rightarrow>
   (('t, 'l, 'u) rpc_obj server_session_state \<times> 'w, ('t, 'l, 'u) rpc_task) rpc_sys" where
  "rpc_serve env req data y = (case handle_start env (rq_cmd req) data (y_server y) of
     (sv, task) \<Rightarrow> y\<lparr> y_server := sv, y_running := (req, data, task) # y_running y \<rparr>)"

definition rpc_serve_poll ::
  "('w, 't, 'l, 'u) rpc_env \<Rightarrow> (rd_error \<Rightarrow> string) \<Rightarrow> rpc_request \<Rightarrow> bytes \<Rightarrow> ('t, 'l, 'u) rpc_task \<Rightarrow>
   (('t, 'l, 'u) rpc_obj server_session_state \<times> 'w, ('t, 'l, 'u) rpc_task) rpc_sys \<Rightarrow>
   (('t, 'l, 'u) rpc_obj server_session_state \<times> 'w, ('t, 'l, 'u) rpc_task) rpc_sys" where
  "rpc_serve_poll env display req data task y = (case poll_task env task (y_server y) of
     (sv, Pending) \<Rightarrow> y\<lparr> y_server := sv \<rparr>
   | (sv, Ready (Inl _)) \<Rightarrow> y\<lparr> y_server := sv, y_running := remove1 (req, data, task) (y_running y) \<rparr>
   | (sv, Ready (Inr r)) \<Rightarrow> (let reply = map_prod id frame_data (reply_of display (rq_seq req) r) in
       y\<lparr> y_server := sv, y_running := remove1 (req, data, task) (y_running y), y_responses := y_responses y @ [reply],
          y_answers := y_answers y @ [((req, data), reply)] \<rparr>))"

subsection \<open>The session\<close>

inductive rpc_step for env :: "('w, 't, 'l, 'u) rpc_env" and display :: "rd_error \<Rightarrow> string" where
  next_id: "rpc_step env display y (next_seq_id cmd data y)"
| send: "(n, q) \<in> set (y_prepared y) \<Longrightarrow> rpc_step env display y (send_request n q y)"
| send_fails: "(n, q) \<in> set (y_prepared y) \<Longrightarrow> rpc_step env display y (send_failed n q y)"
| register: "(n, q) \<in> set (y_sending y) \<Longrightarrow> rpc_step env display y (wait_for_response n q y)"
| response: "q \<in> set (y_readers y) \<Longrightarrow> rpc_step env display y (wait_response q y)"
| broken: "q \<in> set (y_readers y) \<Longrightarrow> rpc_step env display y (wait_failed q e y)"
| drop: "n < length (y_issued y) \<Longrightarrow> (n, q) \<notin> set (y_prepared y @ y_sending y) \<Longrightarrow> q = word_of_nat n \<Longrightarrow> rpc_step env display y (drop_getter q y)"
| serve: "y_requests y = (req, data) # rest \<Longrightarrow> rpc_step env display y (rpc_serve env req data (y\<lparr> y_requests := rest \<rparr>))"
| poll: "(req, data, task) \<in> set (y_running y) \<Longrightarrow> rpc_step env display y (rpc_serve_poll env display req data task y)"

inductive rpc_reach for env :: "('w, 't, 'l, 'u) rpc_env" and display :: "rd_error \<Rightarrow> string" where
  start: "rpc_reach env display (session_new sv)"
| step: "rpc_reach env display y \<Longrightarrow> rpc_step env display y y' \<Longrightarrow> rpc_reach env display y'"

subsection \<open>Responses reach their callers\<close>

definition asked :: "('s, 'k) rpc_sys \<Rightarrow> rpc_request \<times> bytes \<Rightarrow> bool" where
  "asked y x = (\<exists>m < length (y_issued y). y_issued y ! m = (rq_cmd (fst x), snd x) \<and> rq_seq (fst x) = word_of_nat m)"

definition numbered :: "('s, 'k) rpc_sys \<Rightarrow> bool" where
  "numbered y = (y_seq_id y = word_of_nat (length (y_issued y))
     \<and> (\<forall>n q. (n, q) \<in> set (y_prepared y) \<union> set (y_sending y) \<longrightarrow> n < length (y_issued y) \<and> q = word_of_nat n)
     \<and> (\<forall>q n. hm_get (y_wait_map y) q = Some n \<longrightarrow> n < length (y_issued y) \<and> q = word_of_nat n))"

definition traced :: "('s, 'k) rpc_sys \<Rightarrow> bool" where
  "traced y = ((\<forall>x \<in> set (y_requests y). asked y x) \<and> (\<forall>(rq, d, _) \<in> set (y_running y). asked y (rq, d))
     \<and> (\<forall>(x, r) \<in> set (y_answers y). asked y x \<and> rs_seq (fst r) = rq_seq (fst x))
     \<and> set (y_responses y) \<subseteq> snd ` set (y_answers y))"

text \<open>An error that was made on the client for this very call: its task found the connection broken, or the call was dropped.\<close>

definition made_on_client :: "('s, 'k) rpc_sys \<Rightarrow> nat \<Rightarrow> rpc_response \<times> bytes \<Rightarrow> bool" where
  "made_on_client y n r = (rs_seq (fst r) = word_of_nat n \<and> snd r = []
     \<and> (\<exists>e. rs_result (fst r) = Inl e \<and> (y_closed y \<and> (word_of_nat n, e) \<in> set (y_broken y) \<or> e = ''Aborted'' \<and> word_of_nat n \<in> set (y_dropped y))))"

definition delivered_right :: "('s, 'k) rpc_sys \<Rightarrow> bool" where
  "delivered_right y = (\<forall>n r. hm_get (y_got y) n = Some r \<longrightarrow> n < length (y_issued y) \<and> rs_seq (fst r) = word_of_nat n
     \<and> ((\<exists>x. (x, r) \<in> set (y_answers y)) \<or> made_on_client y n r))"

lemmas session_defs = numbered_def traced_def delivered_right_def

lemma in_remove1: "x \<in> set (remove1 a xs) \<Longrightarrow> x \<in> set xs"
  by (meson notin_set_remove1)

lemma asked_mono: "asked y x \<Longrightarrow> y_issued y' = y_issued y @ more' \<Longrightarrow> asked y' x"
  unfolding asked_def by (metis length_append nth_append trans_less_add1)

lemma asked_same: "y_issued y' = y_issued y \<Longrightarrow> asked y' = asked y"
  by (rule ext) (simp add: asked_def)

lemma send_response_frame [simp]:
  "y_issued (send_response r d y) = y_issued y" "y_seq_id (send_response r d y) = y_seq_id y"
  "y_prepared (send_response r d y) = y_prepared y" "y_sending (send_response r d y) = y_sending y"
  "y_requests (send_response r d y) = y_requests y" "y_running (send_response r d y) = y_running y"
  "y_responses (send_response r d y) = y_responses y" "y_answers (send_response r d y) = y_answers y"
  "y_readers (send_response r d y) = y_readers y" "y_closed (send_response r d y) = y_closed y"
  "y_broken (send_response r d y) = y_broken y" "y_dropped (send_response r d y) = y_dropped y"
  by (simp_all add: send_response_def split: option.split)

lemma send_response_numbered: "numbered y \<Longrightarrow> numbered (send_response r d y)"
  by (auto simp: numbered_def send_response_def split: option.split)

lemma send_response_traced: "traced y \<Longrightarrow> traced (send_response r d y)"
  using asked_same [of "send_response r d y" y] by (simp add: traced_def)

lemma send_response_delivered:
  assumes "numbered y" "delivered_right y" "(\<exists>x. (x, r, d) \<in> set (y_answers y)) \<or> (\<forall>n. rs_seq r = word_of_nat n \<longrightarrow> made_on_client y n (r, d))"
  shows "delivered_right (send_response r d y)"
proof -
  have same: "made_on_client (send_response r d y) = made_on_client y" by (intro ext) (simp add: made_on_client_def)
  show ?thesis
    using assms unfolding delivered_right_def same
    by (auto simp: numbered_def send_response_def split: option.split)
qed

lemma step_numbered: "rpc_step env display y y' \<Longrightarrow> numbered y \<Longrightarrow> numbered y'"
proof (induction rule: rpc_step.induct)
  case (response q y)
  then show ?case
    by (auto simp: wait_response_def numbered_def send_response_def split: option.split list.split prod.split)
next
  case (broken q y e)
  then show ?case unfolding wait_failed_def by (intro send_response_numbered) (simp add: numbered_def)
next
  case (drop n y q)
  then show ?case unfolding drop_getter_def by (intro send_response_numbered) (simp add: numbered_def)
next
  case (poll req data task y)
  then show ?case by (auto simp: rpc_serve_poll_def numbered_def Let_def split: prod.split poll.split sum.split)
qed (auto simp: numbered_def next_seq_id_def send_request_def send_failed_def wait_for_response_def rpc_serve_def
    intro: less_SucI split: prod.splits dest!: in_remove1)

lemma step_traced: "rpc_step env display y y' \<Longrightarrow> numbered y \<Longrightarrow> traced y \<Longrightarrow> traced y'"
proof (induction rule: rpc_step.induct)
  case (next_id y cmd data)
  have "asked (next_seq_id cmd data y) x" if "asked y x" for x
    by (rule asked_mono [OF that]) (simp add: next_seq_id_def)
  with next_id show ?case by (auto simp: traced_def) (auto simp: next_seq_id_def)
next
  case (send n q y)
  have same: "asked (send_request n q y) = asked y" by (rule asked_same) (simp add: send_request_def split: prod.split)
  obtain cmd data where i: "y_issued y ! n = (cmd, data)" by (cases "y_issued y ! n")
  from send i have "asked y (\<lparr> rq_cmd = cmd, rq_seq = q \<rparr>, data)" by (auto simp: asked_def numbered_def)
  with send i show ?case by (auto simp: traced_def same) (auto simp: send_request_def)
next
  case (response q y)
  show ?case
  proof (cases "y_responses y")
    case (Cons a rest)
    have "traced (y\<lparr> y_readers := remove1 q (y_readers y), y_responses := rest \<rparr>)"
      using response(3) Cons by (auto simp: traced_def asked_def)
    then show ?thesis using Cons by (cases a) (simp add: wait_response_def send_response_traced)
  qed (use response in \<open>simp add: wait_response_def\<close>)
next
  case (broken q y e)
  then show ?case unfolding wait_failed_def by (intro send_response_traced) (simp add: traced_def asked_def)
next
  case (drop n y q)
  then show ?case unfolding drop_getter_def by (intro send_response_traced) (simp add: traced_def asked_def)
next
  case (poll req data task y)
  have "asked (rpc_serve_poll env display req data task y) = asked y"
    by (rule asked_same) (auto simp: rpc_serve_poll_def Let_def split: prod.split poll.split sum.split)
  with poll show ?case
    by (auto simp: traced_def rpc_serve_poll_def Let_def reply_of_def split: prod.split poll.split sum.split dest!: in_remove1)
qed (auto simp: traced_def asked_def send_failed_def wait_for_response_def rpc_serve_def split: prod.splits)

definition records_grow :: "('s, 'k) rpc_sys \<Rightarrow> ('s, 'k) rpc_sys \<Rightarrow> bool" where
  "records_grow y y' = (length (y_issued y) \<le> length (y_issued y') \<and> set (y_answers y) \<subseteq> set (y_answers y')
     \<and> (y_closed y \<longrightarrow> y_closed y') \<and> set (y_broken y) \<subseteq> set (y_broken y') \<and> set (y_dropped y) \<subseteq> set (y_dropped y'))"

lemma made_on_client_mono: "made_on_client y n r \<Longrightarrow> records_grow y y' \<Longrightarrow> made_on_client y' n r"
  unfolding made_on_client_def records_grow_def by blast

lemma delivered_right_mono:
  assumes "delivered_right y" "y_got y' = y_got y" "records_grow y y'"
  shows "delivered_right y'"
  unfolding delivered_right_def
proof (intro allI impI)
  fix n r
  assume "hm_get (y_got y') n = Some r"
  with assms(1,2) have "n < length (y_issued y) \<and> rs_seq (fst r) = word_of_nat n
      \<and> ((\<exists>x. (x, r) \<in> set (y_answers y)) \<or> made_on_client y n r)"
    unfolding delivered_right_def by metis
  with assms(3) show "n < length (y_issued y') \<and> rs_seq (fst r) = word_of_nat n
      \<and> ((\<exists>x. (x, r) \<in> set (y_answers y')) \<or> made_on_client y' n r)"
    using made_on_client_mono [OF _ assms(3)] unfolding records_grow_def by (meson order_less_le_trans subsetD)
qed

lemma step_records: "rpc_step env display y y' \<Longrightarrow> records_grow y y'"
proof (induction rule: rpc_step.induct)
  case (response q y)
  then show ?case by (simp add: wait_response_def records_grow_def split: list.split prod.split)
next
  case (poll req data task y)
  then show ?case by (auto simp: rpc_serve_poll_def records_grow_def Let_def split: prod.split poll.split sum.split)
qed (auto simp: records_grow_def next_seq_id_def send_request_def send_failed_def wait_for_response_def rpc_serve_def
    wait_failed_def drop_getter_def split: prod.splits)

lemma step_delivered: "rpc_step env display y y' \<Longrightarrow> numbered y \<Longrightarrow> traced y \<Longrightarrow> delivered_right y \<Longrightarrow> delivered_right y'"
proof (induction rule: rpc_step.induct)
  case (response q y)
  show ?case
  proof (cases "y_responses y")
    case (Cons a rest)
    obtain r d where a: "a = (r, d)" by (cases a)
    let ?y = "y\<lparr> y_readers := remove1 q (y_readers y), y_responses := rest \<rparr>"
    have "\<exists>x. (x, r, d) \<in> set (y_answers ?y)" using response(3) Cons a by (force simp: traced_def)
    moreover have "numbered ?y" using response(2) by (simp add: numbered_def)
    moreover have "delivered_right ?y" by (rule delivered_right_mono [OF response(4)]) (simp_all add: records_grow_def)
    ultimately show ?thesis using Cons a send_response_delivered [of ?y r d] by (simp add: wait_response_def)
  qed (use response in \<open>simp add: wait_response_def\<close>)
next
  case (broken q y e)
  let ?y = "y\<lparr> y_readers := remove1 q (y_readers y), y_closed := True, y_broken := (q, e) # y_broken y \<rparr>"
  have "delivered_right ?y" by (rule delivered_right_mono [OF broken(4)]) (auto simp: records_grow_def)
  moreover have "numbered ?y" using broken(2) by (simp add: numbered_def)
  ultimately show ?case unfolding wait_failed_def by (intro send_response_delivered) (auto simp: made_on_client_def)
next
  case (drop n y q)
  let ?y = "y\<lparr> y_dropped := q # y_dropped y \<rparr>"
  have "delivered_right ?y" by (rule delivered_right_mono [OF drop(6)]) (auto simp: records_grow_def)
  moreover have "numbered ?y" using drop(4) by (simp add: numbered_def)
  ultimately show ?case unfolding drop_getter_def by (intro send_response_delivered) (auto simp: made_on_client_def)
next
  case (poll req data task y)
  obtain sv p where "poll_task env task (y_server y) = (sv, p)" by fastforce
  then show ?case
    by (intro delivered_right_mono [OF poll(4)]) (auto simp: rpc_serve_poll_def records_grow_def Let_def split: poll.split sum.split)
qed (erule delivered_right_mono;
    auto simp: records_grow_def next_seq_id_def send_request_def send_failed_def wait_for_response_def rpc_serve_def split: prod.split)+

lemma session_invariant:
  assumes "rpc_reach env display y"
  shows "numbered y \<and> traced y \<and> delivered_right y"
  using assms
proof induction
  case (start sv)
  show ?case by (simp add: session_defs session_new_def)
next
  case (step y y')
  then show ?case using step_numbered step_traced step_delivered by blast
qed

lemma traced_answer: "traced y \<Longrightarrow> (x, r, d) \<in> set (y_answers y) \<Longrightarrow> asked y x \<and> rs_seq r = rq_seq (fst x)"
  unfolding traced_def by fastforce

lemma same_call:
  assumes "m < k" "n < k" "k \<le> 2 ^ 32" "(word_of_nat m :: u32) = word_of_nat n"
  shows "m = n"
proof -
  have u: "unat (word_of_nat i :: u32) = i" if "i < k" for i
    using that assms(3) by (simp add: unat_of_nat)
  show ?thesis using u [OF assms(1)] u [OF assms(2)] assms(4) by metis
qed

text \<open>C8: A response reaches the call it answers. However many calls share a session, and in whatever order the
  server's handlers finish, what a call receives is the server's answer to the command and data of this very call,
  or an error that was made on the client for this very call: the task waiting on its behalf found the connection broken, with this error, and
  the session is closed, or the call was dropped. Holds up to the wrap-around of the 32-bit sequence number.\<close>

theorem rpc_answers_own_call:
  assumes "rpc_reach env display y" and "length (y_issued y) \<le> 2 ^ 32" and "hm_get (y_got y) n = Some (resp, data)"
  shows "((\<lparr> rq_cmd = fst (y_issued y ! n), rq_seq = word_of_nat n \<rparr>, snd (y_issued y ! n)), resp, data) \<in> set (y_answers y)
    \<or> rs_seq resp = word_of_nat n \<and> data = []
      \<and> (\<exists>e. rs_result resp = Inl e
        \<and> (y_closed y \<and> (word_of_nat n, e) \<in> set (y_broken y) \<or> e = ''Aborted'' \<and> word_of_nat n \<in> set (y_dropped y)))"
proof -
  have tr: "traced y" and del: "delivered_right y" using session_invariant [OF assms(1)] by simp_all
  note d = del [unfolded delivered_right_def, rule_format, OF assms(3), unfolded fst_conv snd_conv]
  from d consider (answer) x where "(x, resp, data) \<in> set (y_answers y)" | (error) "made_on_client y n (resp, data)"
    by blast
  then show ?thesis
  proof cases
    case answer
    have "asked y x \<and> rs_seq resp = rq_seq (fst x)" by (rule traced_answer [OF tr answer])
    then obtain m where m: "m < length (y_issued y)" "y_issued y ! m = (rq_cmd (fst x), snd x)" "rq_seq (fst x) = word_of_nat m"
      and seq: "rs_seq resp = rq_seq (fst x)" unfolding asked_def by blast
    have "n < length (y_issued y)" "rs_seq resp = word_of_nat n" using d by blast+
    with m seq have "m = n" by (intro same_call [OF m(1) _ assms(2)]) simp_all
    with m have "x = (\<lparr> rq_cmd = fst (y_issued y ! n), rq_seq = word_of_nat n \<rparr>, snd (y_issued y ! n))"
      by (cases x, cases "fst x") simp
    with answer show ?thesis by simp
  next
    case error
    then show ?thesis by (auto simp: made_on_client_def)
  qed
qed

subsection \<open>A lost response\<close>


text \<open>The calls that are not registered yet, and the numbers of all messages under way and of the waiting tasks.\<close>

definition unregistered :: "('s, 'k) rpc_sys \<Rightarrow> nat set" where
  "unregistered y = fst ` set (y_prepared y) \<union> fst ` set (y_sending y)"

definition under_way :: "('s, 'k) rpc_sys \<Rightarrow> u32 set" where
  "under_way y = set (y_readers y) \<union> (rq_seq \<circ> fst) ` set (y_requests y) \<union> (rq_seq \<circ> fst) ` set (y_running y)
     \<union> (rs_seq \<circ> fst) ` set (y_responses y)"


lemmas message_sets = unregistered_def under_way_def

lemma send_response_sets [simp]:
  "unregistered (send_response r d y) = unregistered y" "under_way (send_response r d y) = under_way y"
  by (simp_all add: message_sets)

lemma issued_grows: "rpc_step env display y y' \<Longrightarrow> length (y_issued y) \<le> length (y_issued y')"
proof (induction rule: rpc_step.induct)
  case (response q y)
  then show ?case by (simp add: wait_response_def split: list.split prod.split)
next
  case (poll req data task y)
  then show ?case by (simp add: rpc_serve_poll_def Let_def split: prod.split poll.split sum.split)
qed (simp_all add: next_seq_id_def send_request_def send_failed_def wait_for_response_def rpc_serve_def wait_failed_def drop_getter_def split: prod.splits)









inductive rpc_steps for env :: "('w, 't, 'l, 'u) rpc_env" and display :: "rd_error \<Rightarrow> string" where
  stop: "rpc_steps env display y y"
| more_steps: "rpc_steps env display y z \<Longrightarrow> rpc_step env display z y' \<Longrightarrow> rpc_steps env display y y'"

lemma steps_reach: "rpc_steps env display y y' \<Longrightarrow> rpc_reach env display y \<Longrightarrow> rpc_reach env display y'"
  by (induction rule: rpc_steps.induct) (auto intro: rpc_reach.step)


text \<open>Every number is used once: it is prepared, or in a request, or in a running handler, or in a response.\<close>

definition pipeline :: "('s, 'k) rpc_sys \<Rightarrow> u32 list" where
  "pipeline y = map snd (y_prepared y) @ map (rq_seq \<circ> fst) (y_requests y) @ map (rq_seq \<circ> fst) (y_running y)
     @ map (rs_seq \<circ> fst) (y_responses y)"


lemma send_response_pipeline [simp]: "pipeline (send_response r d y) = pipeline y"
  by (simp add: pipeline_def)


















text \<open>The run: the first call waits; the second is sent, answered, and its answer taken by the first call's task before
  it registers; then the second call's task takes the answer of the first.\<close>

definition close_done :: "(unit, unit, unit) rpc_task" where
  "close_done = TaskDone (Inr (Inr (RpcNull, None)))"

definition close_request :: "nat \<Rightarrow> rpc_request" where
  "close_request n = \<lparr> rq_cmd = CmdClose (Object (word_of_nat n)), rq_seq = word_of_nat n \<rparr>"

type_synonym unit_sys = "((unit, unit, unit) rpc_obj server_session_state \<times> unit, (unit, unit, unit) rpc_task) rpc_sys"

definition both_served :: unit_sys where
  "both_served = (session_new (server_state_new, ()))\<lparr> y_issued := [(CmdClose (Object 0), []), (CmdClose (Object 1), [])], y_seq_id := 2,
     y_sending := [(1, 1)], y_wait_map := [(0, 0)], y_readers := [0],
     y_running := [(close_request 1, [], close_done), (close_request 0, [], close_done)] \<rparr>"

definition null_reply :: "nat \<Rightarrow> rpc_response \<times> bytes" where
  "null_reply n = (\<lparr> rs_seq = word_of_nat n, rs_result = Inr RpcNull \<rparr>, [])"

definition lost_state :: unit_sys where
  "lost_state = both_served\<lparr> y_sending := [], y_wait_map := [(1, 1)], y_readers := [], y_running := [],
     y_got := [(0, null_reply 0)],
     y_answers := [((close_request 1, []), null_reply 1), ((close_request 0, []), null_reply 0)] \<rparr>"

lemmas run_defs = next_seq_id_def send_request_def wait_for_response_def wait_response_def send_response_def rpc_serve_def
  rpc_serve_poll_def session_new_def both_served_def lost_state_def close_request_def close_done_def null_reply_def remove_object_def
  server_state_new_def reply_of_def frame_data_def hm_get_def hm_insert_def hm_remove_def Let_def

lemma step_to: "rpc_reach env display y \<Longrightarrow> rpc_step env display y z \<Longrightarrow> z = y' \<Longrightarrow> rpc_reach env display y'"
  by (blast intro: rpc_reach.step)

lemma both_served_reach: "rpc_reach open_env display both_served"
proof -
  let ?s0 = "session_new (server_state_new, ()) :: unit_sys"
  let ?s1 = "?s0\<lparr> y_issued := [(CmdClose (Object 0), [])], y_seq_id := 1, y_prepared := [(0, 0)] \<rparr>"
  let ?s2 = "?s1\<lparr> y_prepared := [], y_sending := [(0, 0)], y_requests := [(close_request 0, [])] \<rparr>"
  let ?s3 = "?s2\<lparr> y_sending := [], y_wait_map := [(0, 0)], y_readers := [0] \<rparr>"
  let ?s4 = "?s3\<lparr> y_issued := [(CmdClose (Object 0), []), (CmdClose (Object 1), [])], y_seq_id := 2, y_prepared := [(1, 1)] \<rparr>"
  let ?s5 = "?s4\<lparr> y_prepared := [], y_sending := [(1, 1)], y_requests := [(close_request 0, []), (close_request 1, [])] \<rparr>"
  let ?s6 = "?s5\<lparr> y_requests := [(close_request 1, [])], y_running := [(close_request 0, [], close_done)] \<rparr>"
  have "rpc_reach open_env display ?s0" by (rule rpc_reach.start)
  then have "rpc_reach open_env display ?s1" by (rule step_to [OF _ rpc_step.next_id]) (simp add: run_defs)
  then have "rpc_reach open_env display ?s2" by (rule step_to [OF _ rpc_step.send [where n = 0 and q = 0]]) (simp_all add: run_defs)
  then have "rpc_reach open_env display ?s3" by (rule step_to [OF _ rpc_step.register [where n = 0 and q = 0]]) (simp_all add: run_defs)
  then have "rpc_reach open_env display ?s4" by (rule step_to [OF _ rpc_step.next_id]) (simp add: run_defs)
  then have "rpc_reach open_env display ?s5" by (rule step_to [OF _ rpc_step.send [where n = 1 and q = 1]]) (simp_all add: run_defs)
  then have "rpc_reach open_env display ?s6" by (rule step_to [OF _ rpc_step.serve [where req = "close_request 0" and data = "[]" and rest = "[(close_request 1, [])]"]]) (simp_all add: run_defs)
  then show ?thesis by (rule step_to [OF _ rpc_step.serve [where req = "close_request 1" and data = "[]" and rest = "[]"]]) (simp_all add: run_defs)
qed

text \<open>The state in which the answer of the second call has arrived before it registers.\<close>

definition early_state :: unit_sys where
  "early_state = both_served\<lparr> y_running := [(close_request 0, [], close_done)], y_responses := [null_reply 1],
     y_answers := [((close_request 1, []), null_reply 1)] \<rparr>"

lemma early_state_reach: "rpc_reach open_env display early_state"
  by (rule step_to [OF both_served_reach rpc_step.poll [where req = "close_request 1" and data = "[]" and task = close_done]])
    (simp_all add: run_defs early_state_def)

lemma steps_to: "rpc_steps env display a y \<Longrightarrow> rpc_step env display y z \<Longrightarrow> z = y' \<Longrightarrow> rpc_steps env display a y'"
  by (blast intro: rpc_steps.more_steps)

lemma lost_state_steps: "rpc_steps open_env display (wait_response 0 early_state) lost_state"
proof -
  let ?s2 = "early_state\<lparr> y_readers := [], y_responses := [] \<rparr>"
  let ?s3 = "?s2\<lparr> y_sending := [], y_wait_map := [(0, 0), (1, 1)], y_readers := [1] \<rparr>"
  let ?s4 = "?s3\<lparr> y_running := [], y_responses := [null_reply 0], y_answers := [((close_request 1, []), null_reply 1), ((close_request 0, []), null_reply 0)] \<rparr>"
  have "wait_response 0 early_state = ?s2" by (simp add: run_defs early_state_def)
  then have "rpc_steps open_env display (wait_response 0 early_state) ?s2" using rpc_steps.stop [of open_env display ?s2] by simp
  then have "rpc_steps open_env display (wait_response 0 early_state) ?s3"
    by (rule steps_to [OF _ rpc_step.register [where n = 1 and q = 1]]) (simp_all add: run_defs early_state_def)
  then have "rpc_steps open_env display (wait_response 0 early_state) ?s4"
    by (rule steps_to [OF _ rpc_step.poll [where req = "close_request 0" and data = "[]" and task = close_done]]) (simp_all add: run_defs early_state_def)
  then show ?thesis by (rule steps_to [OF _ rpc_step.response [where q = 1]]) (simp_all add: run_defs early_state_def)
qed

lemma lost_state_reach: "rpc_reach open_env display lost_state"
proof -
  have "rpc_step open_env display early_state (wait_response 0 early_state)"
    by (rule rpc_step.response) (simp add: early_state_def both_served_def)
  from steps_reach [OF lost_state_steps rpc_reach.step [OF early_state_reach this]] show ?thesis .
qed


lemma rpc_answers_own_call_witness:
  "hm_get (y_got lost_state) 0 = Some (null_reply 0)
   \<and> ((\<lparr> rq_cmd = CmdClose (Object 0), rq_seq = 0 \<rparr>, []), null_reply 0) \<in> set (y_answers lost_state)"
proof -
  have got: "hm_get (y_got lost_state) 0 = Some (\<lparr> rs_seq = word_of_nat 0, rs_result = Inr RpcNull \<rparr>, [])" by (simp add: run_defs)
  have "length (y_issued lost_state) \<le> 2 ^ 32" by (simp add: run_defs)
  from rpc_answers_own_call [OF lost_state_reach this got] got show ?thesis
    by (simp add: null_reply_def) (simp add: lost_state_def both_served_def)
qed

subsection \<open>Every call is answered\<close>

text \<open>A healthy session: the connection stays up, no handler panics, no call is dropped, and a call has registered
  before its answer is taken.\<close>

inductive calm_step for env :: "('w, 't, 'l, 'u) rpc_env" and display :: "rd_error \<Rightarrow> string" where
  next_id: "calm_step env display y (next_seq_id cmd data y)"
| send: "(n, q) \<in> set (y_prepared y) \<Longrightarrow> calm_step env display y (send_request n q y)"
| register: "(n, q) \<in> set (y_sending y) \<Longrightarrow> calm_step env display y (wait_for_response n q y)"
| response: "q \<in> set (y_readers y) \<Longrightarrow> y_responses y = (resp, d) # rest \<Longrightarrow> rs_seq resp \<notin> snd ` set (y_sending y) \<Longrightarrow>
    calm_step env display y (wait_response q y)"
| serve: "y_requests y = (req, data) # rest \<Longrightarrow> calm_step env display y (rpc_serve env req data (y\<lparr> y_requests := rest \<rparr>))"
| poll: "(req, data, task) \<in> set (y_running y) \<Longrightarrow> poll_task env task (y_server y) = (sv, p) \<Longrightarrow> (\<forall>m. p \<noteq> Ready (Inl m)) \<Longrightarrow>
    calm_step env display y (rpc_serve_poll env display req data task y)"

inductive calm_reach for env :: "('w, 't, 'l, 'u) rpc_env" and display :: "rd_error \<Rightarrow> string" where
  start: "calm_reach env display (session_new sv)"
| step: "calm_reach env display y \<Longrightarrow> calm_step env display y y' \<Longrightarrow> calm_reach env display y'"

lemma calm_is_step: "calm_step env display y y' \<Longrightarrow> rpc_step env display y y'"
  by (induction rule: calm_step.induct) (auto intro: rpc_step.intros)

lemma calm_is_reach: "calm_reach env display y \<Longrightarrow> rpc_reach env display y"
  by (induction rule: calm_reach.induct) (auto intro: rpc_reach.intros calm_is_step)

definition readers_enough :: "('s, 'k) rpc_sys \<Rightarrow> bool" where
  "readers_enough y = (length (y_readers y) + length (y_sending y) = length (y_requests y) + length (y_running y) + length (y_responses y))"

lemma len_remove1: "x \<in> set xs \<Longrightarrow> length xs = Suc (length (remove1 x xs))"
  by (induction xs) auto

lemma calm_readers: "calm_step env display y y' \<Longrightarrow> readers_enough y \<Longrightarrow> readers_enough y'"
proof (induction rule: calm_step.induct)
  case (register n q y)
  then show ?case using len_remove1 [OF register(1)] by (simp add: readers_enough_def wait_for_response_def)
next
  case (response q y resp d rest)
  then show ?case using len_remove1 [OF response(1)] by (simp add: readers_enough_def wait_response_def)
next
  case (poll req data task y sv p)
  then show ?case using len_remove1 [OF poll(1)]
    by (cases p) (auto simp: readers_enough_def rpc_serve_poll_def Let_def split: sum.split)
qed (simp_all add: readers_enough_def next_seq_id_def send_request_def rpc_serve_def split: prod.split)

text \<open>The numbers of the messages under way, and where a call can be.\<close>

definition messages :: "('s, 'k) rpc_sys \<Rightarrow> u32 set" where
  "messages y = (rq_seq \<circ> fst) ` set (y_requests y) \<union> (rq_seq \<circ> fst) ` set (y_running y) \<union> (rs_seq \<circ> fst) ` set (y_responses y)"

definition call_known :: "('s, 'k) rpc_sys \<Rightarrow> nat \<Rightarrow> bool" where
  "call_known y n = (n \<in> fst ` set (y_prepared y) \<or> hm_get (y_got y) n \<noteq> None
     \<or> (word_of_nat n \<in> messages y \<and> ((n, word_of_nat n) \<in> set (y_sending y) \<or> hm_get (y_wait_map y) (word_of_nat n) = Some n)))"

lemma messages_poll:
  assumes "(req, data, task) \<in> set (y_running y)" "poll_task env task (y_server y) = (sv, p)" "\<forall>m. p \<noteq> Ready (Inl m)"
  shows "messages y \<subseteq> messages (rpc_serve_poll env display req data task y)"
proof (cases p)
  case Pending
  then show ?thesis using assms(2) by (simp add: messages_def rpc_serve_poll_def)
next
  case (Ready r)
  with assms(3) obtain v where v: "r = Inr v" by (cases r) auto
  have "set (y_running y) \<subseteq> insert (req, data, task) (set (remove1 (req, data, task) (y_running y)))"
    by (metis insertCI insert_iff in_set_remove1 subsetI)
  then have "(rq_seq \<circ> fst) ` set (y_running y) \<subseteq> insert (rq_seq req) ((rq_seq \<circ> fst) ` set (remove1 (req, data, task) (y_running y)))"
    by auto
  moreover have "rs_seq (fst (reply_of display (rq_seq req) v)) = rq_seq req"
    by (simp add: reply_of_def split: sum.split prod.split)
  ultimately show ?thesis using assms(2) Ready v
    by (auto simp: messages_def rpc_serve_poll_def Let_def)
qed

definition calm_inv :: "('s, 'k) rpc_sys \<Rightarrow> bool" where
  "calm_inv y = (\<forall>n < length (y_issued y). call_known y n)"

lemma call_knownI:
  assumes "call_known y n" "fst ` set (y_prepared y) \<subseteq> fst ` set (y_prepared y')" "y_got y' = y_got y" "messages y \<subseteq> messages y'"
    "set (y_sending y) \<subseteq> set (y_sending y')" "y_wait_map y' = y_wait_map y"
  shows "call_known y' n"
  using assms unfolding call_known_def by auto

lemma calm_send:
  assumes "(n, q) \<in> set (y_prepared y)" "numbered y" "calm_inv y"
  shows "calm_inv (send_request n q y)"
proof -
  obtain cmd data where i: "y_issued y ! n = (cmd, data)" by (cases "y_issued y ! n")
  have q: "q = word_of_nat n" using assms(1,2) unfolding numbered_def by blast
  have "call_known (send_request n q y) m" if "m < length (y_issued y)" for m
  proof (cases "m = n")
    case True
    then show ?thesis using q i by (simp add: call_known_def send_request_def messages_def)
  next
    case False
    have "call_known y m" using assms(3) that by (simp add: calm_inv_def)
    moreover have "fst ` set (y_prepared y) \<subseteq> insert n (fst ` set (remove1 (n, q) (y_prepared y)))"
      by (metis (no_types, lifting) fst_conv image_subsetI imageI in_set_remove1 insertCI)
    ultimately show ?thesis using False i by (auto simp: call_known_def send_request_def messages_def)
  qed
  then show ?thesis using i by (simp add: calm_inv_def send_request_def)
qed

lemma calm_register:
  assumes "(n, q) \<in> set (y_sending y)" "numbered y" "calm_inv y" "length (y_issued y) \<le> 2 ^ 32"
  shows "calm_inv (wait_for_response n q y)"
proof -
  have q: "q = word_of_nat n" and n: "n < length (y_issued y)" using assms(1,2) unfolding numbered_def by blast+
  have "call_known (wait_for_response n q y) m" if m: "m < length (y_issued y)" for m
  proof -
    have "call_known y m" using assms(3) m by (simp add: calm_inv_def)
    moreover have "(word_of_nat m :: u32) \<noteq> q" if "m \<noteq> n" using same_call [OF m n assms(4)] that q by blast
    moreover have "(m, word_of_nat m) \<in> set (remove1 (n, q) (y_sending y))" if "(m, word_of_nat m) \<in> set (y_sending y)" "m \<noteq> n"
      using that by (metis in_set_remove1 fst_conv)
    moreover have "messages (wait_for_response n q y) = messages y" by (simp add: messages_def wait_for_response_def)
    ultimately show ?thesis using q
      unfolding call_known_def by (cases "m = n") (auto simp: wait_for_response_def)
  qed
  then show ?thesis by (simp add: calm_inv_def wait_for_response_def)
qed

lemma calm_response:
  assumes resp: "y_responses y = (r, d) # rest" and out: "rs_seq r \<notin> snd ` set (y_sending y)"
    and num: "numbered y" and inv: "calm_inv y" and len: "length (y_issued y) \<le> 2 ^ 32"
  shows "calm_inv (wait_response q y)"
proof -
  let ?y = "y\<lparr> y_readers := remove1 q (y_readers y), y_responses := rest \<rparr>"
  have y': "wait_response q y = send_response r d ?y" using resp by (simp add: wait_response_def)
  have msgs: "messages y \<subseteq> insert (rs_seq r) (messages (send_response r d ?y))"
    using resp by (auto simp: messages_def)
  have wait: "n < length (y_issued y)" "k = word_of_nat n" if "hm_get (y_wait_map y) k = Some n" for n k
    using num that unfolding numbered_def by blast+
  have "call_known (send_response r d ?y) m" if m: "m < length (y_issued y)" for m
  proof -
    have "call_known y m" using inv m by (simp add: calm_inv_def)
    then consider "m \<in> fst ` set (y_prepared y)" | "hm_get (y_got y) m \<noteq> None"
      | (own) "rs_seq r = word_of_nat m" "hm_get (y_wait_map y) (word_of_nat m) = Some m"
      | (other) "rs_seq r \<noteq> word_of_nat m" "word_of_nat m \<in> messages y"
          "(m, word_of_nat m) \<in> set (y_sending y) \<or> hm_get (y_wait_map y) (word_of_nat m) = Some m"
      using out unfolding call_known_def by force
    then show ?thesis
    proof cases
      case 1
      then show ?thesis by (simp add: call_known_def)
    next
      case 2
      then show ?thesis by (auto simp: call_known_def send_response_def split: option.split)
    next
      case own
      then show ?thesis by (simp add: call_known_def send_response_def)
    next
      case other
      then have "word_of_nat m \<in> messages (send_response r d ?y)" using msgs by auto
      moreover have "hm_get (y_wait_map (send_response r d ?y)) (word_of_nat m) = hm_get (y_wait_map y) (word_of_nat m)"
        using other(1) by (simp add: send_response_def split: option.split)
      ultimately show ?thesis using other(3) unfolding call_known_def by simp
    qed
  qed
  then show ?thesis by (simp add: calm_inv_def y')
qed

lemma calm_inv_step:
  "calm_step env display y y' \<Longrightarrow> numbered y \<Longrightarrow> length (y_issued y) \<le> 2 ^ 32 \<Longrightarrow> calm_inv y \<Longrightarrow> calm_inv y'"
proof (induction rule: calm_step.induct)
  case (next_id y cmd data)
  have "call_known (next_seq_id cmd data y) m" if "m < Suc (length (y_issued y))" for m
  proof (cases "m < length (y_issued y)")
    case True
    then have "call_known y m" using next_id(3) by (simp add: calm_inv_def)
    then show ?thesis by (rule call_knownI) (auto simp: next_seq_id_def messages_def)
  next
    case False
    with that have "m = length (y_issued y)" by simp
    then show ?thesis by (simp add: call_known_def next_seq_id_def)
  qed
  then show ?case by (simp add: calm_inv_def) (simp add: next_seq_id_def)
next
  case (send n q y)
  then show ?case by (simp add: calm_send)
next
  case (register n q y)
  then show ?case by (simp add: calm_register)
next
  case (response q y resp d rest)
  then show ?case by (simp add: calm_response)
next
  case (serve y req data rest)
  obtain sv task where h: "handle_start env (rq_cmd req) data (y_server y) = (sv, task)" by fastforce
  have "call_known (rpc_serve env req data (y\<lparr> y_requests := rest \<rparr>)) m" if "call_known y m" for m
    using that by (rule call_knownI) (use serve(1) h in \<open>auto simp: rpc_serve_def messages_def\<close>)
  then show ?case using serve h by (simp add: calm_inv_def) (simp add: rpc_serve_def)
next
  case (poll req data task y sv p)
  have same: "y_issued (rpc_serve_poll env display req data task y) = y_issued y" "y_prepared (rpc_serve_poll env display req data task y) = y_prepared y"
    "y_got (rpc_serve_poll env display req data task y) = y_got y" "y_sending (rpc_serve_poll env display req data task y) = y_sending y"
    "y_wait_map (rpc_serve_poll env display req data task y) = y_wait_map y"
    by (simp_all add: rpc_serve_poll_def Let_def split: prod.split poll.split sum.split)
  have "call_known (rpc_serve_poll env display req data task y) m" if "call_known y m" for m
    using that by (rule call_knownI) (use messages_poll [OF poll(1,2,3)] same in simp_all)
  then show ?case using poll(6) by (simp add: calm_inv_def same)
qed

lemma calm_invariants:
  "calm_reach env display y \<Longrightarrow> length (y_issued y) \<le> 2 ^ 32 \<Longrightarrow> calm_inv y \<and> readers_enough y"
proof (induction rule: calm_reach.induct)
  case (start sv)
  then show ?case by (simp add: calm_inv_def readers_enough_def session_new_def)
next
  case (step y y')
  have len: "length (y_issued y) \<le> 2 ^ 32" using issued_grows [OF calm_is_step [OF step(2)]] step(4) by simp
  have "numbered y" using session_invariant [OF calm_is_reach [OF step(1)]] by simp
  with calm_inv_step [OF step(2)] calm_readers [OF step(2)] step(3) [OF len] len show ?case by blast
qed

text \<open>C17: Every call is answered when no call is overtaken by its own answer. In a session whose connection stays up, whose
  handlers do not panic and whose calls register before their answers are taken, once the server has answered
  every request either a waiting task can take the next response, or every call has its answer.\<close>

theorem rpc_calls_answered:
  assumes "calm_reach env display y" and "length (y_issued y) \<le> 2 ^ 32"
    and "y_prepared y = []" "y_sending y = []" "y_requests y = []" "y_running y = []"
  shows "if y_responses y = [] then \<forall>n < length (y_issued y). hm_get (y_got y) n \<noteq> None
    else \<exists>q. q \<in> set (y_readers y) \<and> calm_step env display y (wait_response q y)"
proof (cases "y_responses y")
  case Nil
  with calm_invariants [OF assms(1,2)] assms(3-6) show ?thesis
    by (auto simp: calm_inv_def call_known_def messages_def)
next
  case (Cons a rest)
  with calm_invariants [OF assms(1,2)] assms(4-6) have "y_readers y \<noteq> []" by (auto simp: readers_enough_def)
  then obtain q where q: "q \<in> set (y_readers y)" by (cases "y_readers y") auto
  obtain r d where "a = (r, d)" by (cases a)
  with Cons q assms(4) have "calm_step env display y (wait_response q y)" by (intro calm_step.response) simp_all
  with q Cons show ?thesis by auto
qed

lemma calm_to: "calm_reach env display y \<Longrightarrow> calm_step env display y z \<Longrightarrow> z = y' \<Longrightarrow> calm_reach env display y'"
  by (blast intro: calm_reach.step)

definition answered_state :: unit_sys where
  "answered_state = (session_new (server_state_new, ()))\<lparr> y_issued := [(CmdClose (Object 0), [])], y_seq_id := 1,
     y_got := [(0, null_reply 0)], y_answers := [((close_request 0, []), null_reply 0)] \<rparr>"

lemma answered_state_reach: "calm_reach open_env display answered_state"
proof -
  let ?s0 = "session_new (server_state_new, ()) :: unit_sys"
  let ?s1 = "?s0\<lparr> y_issued := [(CmdClose (Object 0), [])], y_seq_id := 1, y_prepared := [(0, 0)] \<rparr>"
  let ?s2 = "?s1\<lparr> y_prepared := [], y_sending := [(0, 0)], y_requests := [(close_request 0, [])] \<rparr>"
  let ?s3 = "?s2\<lparr> y_sending := [], y_wait_map := [(0, 0)], y_readers := [0] \<rparr>"
  let ?s4 = "?s3\<lparr> y_requests := [], y_running := [(close_request 0, [], close_done)] \<rparr>"
  let ?s5 = "?s4\<lparr> y_running := [], y_responses := [null_reply 0], y_answers := [((close_request 0, []), null_reply 0)] \<rparr>"
  have "calm_reach open_env display ?s0" by (rule calm_reach.start)
  then have "calm_reach open_env display ?s1" by (rule calm_to [OF _ calm_step.next_id]) (simp add: run_defs)
  then have "calm_reach open_env display ?s2" by (rule calm_to [OF _ calm_step.send [where n = 0 and q = 0]]) (simp_all add: run_defs)
  then have "calm_reach open_env display ?s3" by (rule calm_to [OF _ calm_step.register [where n = 0 and q = 0]]) (simp_all add: run_defs)
  then have "calm_reach open_env display ?s4"
    by (rule calm_to [OF _ calm_step.serve [where req = "close_request 0" and data = "[]" and rest = "[]"]]) (simp_all add: run_defs)
  then have "calm_reach open_env display ?s5"
    by (rule calm_to [OF _ calm_step.poll [where req = "close_request 0" and data = "[]" and task = close_done
          and sv = "(server_state_new, ())" and p = "Ready (Inr (Inr (RpcNull, None)))"]]) (simp_all add: run_defs)
  then show ?thesis
    by (rule calm_to [OF _ calm_step.response [where q = 0 and resp = "fst (null_reply 0)" and d = "[]" and rest = "[]"]])
      (simp_all add: run_defs answered_state_def)
qed

lemma rpc_calls_answered_witness: "y_responses answered_state = [] \<and> hm_get (y_got answered_state) 0 \<noteq> None"
proof -
  have "length (y_issued answered_state) \<le> 2 ^ 32" by (simp add: answered_state_def)
  from rpc_calls_answered [OF answered_state_reach [of "\<lambda>_. []"] this] show ?thesis
    by (simp add: answered_state_def session_new_def del: not_None_eq)
qed

end
