(* ===== verification/Rpc_Net.thy ===== *)
theory Rpc_Net
  imports Rpc_Session
begin

section \<open>RPC: getting a session, and streams from asynchronous functions\<close>

text \<open>
  \<open>RpcNet::get_sess\<close> with the handshake on both sides, and \<open>rd-std/src/util/async_fn.rs\<close>, which makes a stream out
  of asynchronous functions; the remote stream is one. Connecting and asking whether a session is closed
  are parameters of \<open>get_sess\<close>.
\<close>

subsection \<open>The handshake\<close>

definition client_handshake :: "'s rpc_call \<Rightarrow> uuid \<Rightarrow> 's \<Rightarrow> 's \<times> unit rd poll" where
  "client_handshake call session_id s = on_reply (\<lambda>r. rbind r (\<lambda>(resp, _). into_null resp)) (call (CmdHandshake session_id) None s)"

definition server_handshake :: "(rd_error \<Rightarrow> string) \<Rightarrow> rpc_request \<Rightarrow> (rpc_response \<times> bytes option) rd" where
  "server_handshake display req = (case rq_cmd req of
     CmdHandshake session_id \<Rightarrow> Inr (reply_of display (rq_seq req) (Inr (RpcNull, None)))
   | _ \<Rightarrow> Inl (OtherError ''Invalid handshake''))"

lemma rpc_handshake_agrees:
  assumes "call (CmdHandshake i) None s = (s', Ready (map_err IO (rbind (rpc_write_frame ser (resp, data)) (\<lambda>f. rbind (rpc_read_frame de f) (\<lambda>(m, _). Inr m)))))"
    and "server_handshake display \<lparr> rq_cmd = CmdHandshake i, rq_seq = q \<rparr> = Inr (resp, data)" and "carried ser de resp"
  shows "client_handshake call i s = (s', Ready (Inr ()))"
proof -
  have r: "resp = \<lparr> rs_seq = q, rs_result = Inr RpcNull \<rparr>" "data = None"
    using assms(2) by (simp_all add: server_handshake_def reply_of_def)
  obtain f where f: "rpc_write_frame ser (resp, data) = Inr f" "rpc_read_frame de f = Inr ((resp, frame_data data), [])"
    using frame_trip [OF assms(3), of data] r(2) by (auto simp: frame_data_def rbind_def split: sum.splits)
  show ?thesis using assms(1) f by (simp add: client_handshake_def on_reply_def r into_null_def)
qed

subsection \<open>\<open>get_sess\<close>\<close>

text \<open>The cell holds the session or the error of the attempt that made it. Failed attempts and closed sessions
  are tried again at once, without limit, while the lock is held.\<close>

partial_function (option) get_sess ::
  "('w \<Rightarrow> 'w \<times> 'a rd) \<Rightarrow> ('a \<Rightarrow> 'w \<Rightarrow> bool) \<Rightarrow> (rd_error \<Rightarrow> string) \<Rightarrow> bool \<Rightarrow> 'a rd option \<Rightarrow> 'w \<Rightarrow> ('a rd option \<times> 'w \<times> 'a rd) option" where
  "get_sess connect is_closed display auto_reconnect cell w = (case (case cell of Some r \<Rightarrow> (w, r) | None \<Rightarrow> connect w) of
     (w', Inl e) \<Rightarrow>
       if \<not> auto_reconnect then Some (Some (Inl e), w', Inl (OtherError (display e)))
       else get_sess connect is_closed display auto_reconnect None w'
   | (w', Inr s) \<Rightarrow>
       if \<not> auto_reconnect \<or> \<not> is_closed s w' then Some (Some (Inr s), w', Inr s)
       else get_sess connect is_closed display auto_reconnect None w')"

text \<open>An attempt that does not give an open session, and the world after some of them.\<close>

definition attempt_fails :: "('w \<Rightarrow> 'w \<times> 'a rd) \<Rightarrow> ('a \<Rightarrow> 'w \<Rightarrow> bool) \<Rightarrow> 'w \<Rightarrow> bool" where
  "attempt_fails connect is_closed w = (case connect w of (w', Inl _) \<Rightarrow> True | (w', Inr s) \<Rightarrow> is_closed s w')"

fun after_attempts :: "('w \<Rightarrow> 'w \<times> 'a rd) \<Rightarrow> nat \<Rightarrow> 'w \<Rightarrow> 'w" where
  "after_attempts connect 0 w = w"
| "after_attempts connect (Suc n) w = after_attempts connect n (fst (connect w))"

lemma get_sess_retry:
  "attempt_fails connect is_closed w \<Longrightarrow>
   get_sess connect is_closed display True None w = get_sess connect is_closed display True None (fst (connect w))"
  by (subst get_sess.simps) (auto simp: attempt_fails_def split: prod.splits sum.splits)

lemma get_sess_done:
  "\<not> attempt_fails connect is_closed w \<Longrightarrow>
   \<exists>w' s. connect w = (w', Inr s) \<and> get_sess connect is_closed display True None w = Some (Some (Inr s), w', Inr s)"
  by (subst get_sess.simps) (auto simp: attempt_fails_def split: prod.splits sum.splits)

lemma get_sess_after:
  "\<forall>i < n. attempt_fails connect is_closed (after_attempts connect i w) \<Longrightarrow>
   get_sess connect is_closed display True None w = get_sess connect is_closed display True None (after_attempts connect n w)"
proof (induction n arbitrary: w)
  case (Suc n)
  from Suc.prems have "attempt_fails connect is_closed w" by fastforce
  moreover have "\<forall>i < n. attempt_fails connect is_closed (after_attempts connect i (fst (connect w)))"
    using Suc.prems by fastforce
  ultimately show ?case using Suc.IH [of "fst (connect w)"] get_sess_retry [of connect is_closed w display] by simp
qed simp

lemma get_sess_returns:
  "get_sess connect is_closed display auto cell w = Some y \<Longrightarrow> auto \<Longrightarrow> cell = None \<Longrightarrow>
   \<exists>n. \<not> attempt_fails connect is_closed (after_attempts connect n w)"
proof (induction connect is_closed display auto cell w y rule: get_sess.raw_induct [rotated, consumes 1, case_names step])
  case (step f connect is_closed display auto cell w y)
  show ?case
  proof (cases "attempt_fails connect is_closed w")
    case True
    then have "f connect is_closed display auto None (fst (connect w)) = Some y"
      using step(2,3,4) by (auto simp: attempt_fails_def split: prod.splits sum.splits)
    from step(1) [OF this] step(3) obtain n where "\<not> attempt_fails connect is_closed (after_attempts connect n (fst (connect w)))" by blast
    then have "\<not> attempt_fails connect is_closed (after_attempts connect (Suc n) w)" by simp
    then show ?thesis by blast
  next
    case False
    then have "\<not> attempt_fails connect is_closed (after_attempts connect 0 w)" by simp
    then show ?thesis by blast
  qed
qed

text \<open>C32: Asking an RPC net for its session returns exactly when some attempt to connect gives an open session. It
  then returns that session, the one of the first such attempt, and keeps it for the calls that follow. As long
  as the server cannot be reached, the call does not return at all: it retries without pause and without limit.\<close>

theorem get_sess_terminates:
  "(if \<exists>n. \<not> attempt_fails connect is_closed (after_attempts connect n w)
    then \<exists>n w' s. (\<forall>i < n. attempt_fails connect is_closed (after_attempts connect i w))
      \<and> connect (after_attempts connect n w) = (w', Inr s) \<and> \<not> is_closed s w'
      \<and> get_sess connect is_closed display True None w = Some (Some (Inr s), w', Inr s)
    else get_sess connect is_closed display True None w = None)"
proof (cases "\<exists>n. \<not> attempt_fails connect is_closed (after_attempts connect n w)")
  case True
  define n where "n = (LEAST n. \<not> attempt_fails connect is_closed (after_attempts connect n w))"
  have now: "\<not> attempt_fails connect is_closed (after_attempts connect n w)"
    using True unfolding n_def by (rule LeastI_ex)
  have before: "\<forall>i < n. attempt_fails connect is_closed (after_attempts connect i w)"
    unfolding n_def using not_less_Least by blast
  obtain w' s where "connect (after_attempts connect n w) = (w', Inr s)"
    "get_sess connect is_closed display True None (after_attempts connect n w) = Some (Some (Inr s), w', Inr s)"
    using get_sess_done [OF now] by blast
  moreover from this(1) now have "\<not> is_closed s w'" by (simp add: attempt_fails_def)
  ultimately show ?thesis using True before get_sess_after [OF before, of display] by auto
next
  case False
  then have "get_sess connect is_closed display True None w = None"
    using get_sess_returns [of connect is_closed display True None w] by (cases "get_sess connect is_closed display True None w") blast+
  with False show ?thesis by simp
qed

lemma get_sess_terminates_witness:
  "\<exists>n w' s. (\<forall>i < n. attempt_fails (\<lambda>w :: nat. (w - 1, if w = 0 then Inr True else Inl Timeout)) (\<lambda>_ _. False)
       (after_attempts (\<lambda>w. (w - 1, if w = 0 then Inr True else Inl Timeout)) i 2))
     \<and> get_sess (\<lambda>w :: nat. (w - 1, if w = 0 then Inr True else Inl Timeout)) (\<lambda>_ _. False) (\<lambda>_. []) True None 2 = Some (Some (Inr s), w', Inr s)"
proof -
  let ?connect = "\<lambda>w :: nat. (w - 1, if w = 0 then Inr True else Inl Timeout)"
  have "\<not> attempt_fails ?connect (\<lambda>_ _. False) (after_attempts ?connect 2 2)"
    by (simp add: attempt_fails_def numeral_2_eq_2)
  with get_sess_terminates [of ?connect "\<lambda>_ _. False" 2 "\<lambda>_. []"] show ?thesis by (auto split: if_splits)
qed

text \<open>A session that is open is handed out again without a new connection.\<close>

lemma get_sess_keeps:
  "\<not> is_closed s w \<Longrightarrow> get_sess connect is_closed display True (Some (Inr s)) w = Some (Some (Inr s), w, Inr s)"
  by (subst get_sess.simps) simp

subsection \<open>Streams from asynchronous functions\<close>

text \<open>A future is a state with a poll; \<open>poll_next\<close> starts one when none is running and forgets it when it is ready.\<close>

type_synonym ('f, 's, 'r) future = "'f \<Rightarrow> 's \<Rightarrow> 's \<times> ('f + 'r)"

definition poll_next :: "('f, 's, 'r) future \<Rightarrow> 'f \<Rightarrow> 'f option \<Rightarrow> 's \<Rightarrow> 's \<times> 'f option \<times> 'r poll" where
  "poll_next pf new fut s = (case pf (case fut of Some f \<Rightarrow> f | None \<Rightarrow> new) s of
     (s', Inl f) \<Rightarrow> (s', Some f, Pending)
   | (s', Inr r) \<Rightarrow> (s', None, Ready r))"

record ('r, 'w, 'f, 'h) async_fn_io =
  read_fut :: "'r option"
  write_fut :: "'w option"
  flush_fut :: "'f option"
  shutdown_fut :: "'h option"

definition async_fn_io_new :: "('r, 'w, 'f, 'h) async_fn_io" where
  "async_fn_io_new = \<lparr> read_fut = None, write_fut = None, flush_fut = None, shutdown_fut = None \<rparr>"

text \<open>The slice that takes the result of a read is \<open>remaining\<close> bytes long; a longer result panics.\<close>

definition async_poll_read ::
  "('r, 's, bytes io) future \<Rightarrow> (nat \<Rightarrow> 'r) \<Rightarrow> nat \<Rightarrow> ('r, 'w, 'f, 'h) async_fn_io \<Rightarrow> 's \<Rightarrow> 's \<times> ('r, 'w, 'f, 'h) async_fn_io \<times> bytes io poll may_panic" where
  "async_poll_read pf read remaining io s = (case poll_next pf (read remaining) (read_fut io) s of
     (s', fut, r) \<Rightarrow> (s', io\<lparr> read_fut := fut \<rparr>, (case r of
        Ready (Inr buf) \<Rightarrow> if length buf \<le> remaining then Inr (Ready (Inr buf)) else Inl (Panic ''range end index out of range'')
      | _ \<Rightarrow> Inr r)))"

definition async_poll_write ::
  "('w, 's, nat io) future \<Rightarrow> (bytes \<Rightarrow> 'w) \<Rightarrow> bytes \<Rightarrow> ('r, 'w, 'f, 'h) async_fn_io \<Rightarrow> 's \<Rightarrow> 's \<times> ('r, 'w, 'f, 'h) async_fn_io \<times> nat io poll" where
  "async_poll_write pf write_fn buf io s = (case poll_next pf (write_fn buf) (write_fut io) s of (s', fut, r) \<Rightarrow> (s', io\<lparr> write_fut := fut \<rparr>, r))"

definition async_poll_flush ::
  "('f, 's, unit io) future \<Rightarrow> 'f \<Rightarrow> ('r, 'w, 'f, 'h) async_fn_io \<Rightarrow> 's \<Rightarrow> 's \<times> ('r, 'w, 'f, 'h) async_fn_io \<times> unit io poll" where
  "async_poll_flush pf flush io s = (case poll_next pf flush (flush_fut io) s of (s', fut, r) \<Rightarrow> (s', io\<lparr> flush_fut := fut \<rparr>, r))"

definition async_poll_shutdown ::
  "('h, 's, unit io) future \<Rightarrow> 'h \<Rightarrow> ('r, 'w, 'f, 'h) async_fn_io \<Rightarrow> 's \<Rightarrow> 's \<times> ('r, 'w, 'f, 'h) async_fn_io \<times> unit io poll" where
  "async_poll_shutdown pf shutdown io s = (case poll_next pf shutdown (shutdown_fut io) s of (s', fut, r) \<Rightarrow> (s', io\<lparr> shutdown_fut := fut \<rparr>, r))"

text \<open>Polling a write until it is ready runs one future to its end, the one made from the first buffer: whatever buffers
  the later polls give, no second request is started.\<close>

fun run_future :: "('f, 's, 'r) future \<Rightarrow> nat \<Rightarrow> 'f \<Rightarrow> 's \<Rightarrow> 's \<times> ('f + 'r)" where
  "run_future pf 0 f s = (s, Inl f)"
| "run_future pf (Suc k) f s = (case pf f s of (s', Inl f') \<Rightarrow> run_future pf k f' s' | (s', Inr r) \<Rightarrow> (s', Inr r))"

fun write_polls ::
  "('w, 's, nat io) future \<Rightarrow> (bytes \<Rightarrow> 'w) \<Rightarrow> bytes list \<Rightarrow> ('r, 'w, 'f, 'h) async_fn_io \<Rightarrow> 's \<Rightarrow> 's \<times> ('r, 'w, 'f, 'h) async_fn_io \<times> nat io poll" where
  "write_polls pf write_fn [] io s = (s, io, Pending)"
| "write_polls pf write_fn (b # bs) io s = (case async_poll_write pf write_fn b io s of
     (s', io', Pending) \<Rightarrow> write_polls pf write_fn bs io' s'
   | (s', io', Ready r) \<Rightarrow> (s', io', Ready r))"

lemma write_polls_running:
  "write_fut io = Some f \<Longrightarrow> write_polls pf write_fn bs io s = (case run_future pf (length bs) f s of
     (s', Inl f') \<Rightarrow> (s', io\<lparr> write_fut := Some f' \<rparr>, Pending)
   | (s', Inr r) \<Rightarrow> (s', io\<lparr> write_fut := None \<rparr>, Ready r))"
proof (induction bs arbitrary: f io s)
  case (Cons b bs)
  obtain s' x where x: "pf f s = (s', x)" by fastforce
  show ?case
  proof (cases x)
    case (Inl f')
    with x Cons show ?thesis by (simp add: async_poll_write_def poll_next_def split: prod.split sum.split)
  next
    case (Inr r)
    with x Cons show ?thesis by (simp add: async_poll_write_def poll_next_def)
  qed
qed simp

lemma write_polls_fresh:
  "write_fut io = None \<Longrightarrow> write_polls pf write_fn (b # bs) io s = (case run_future pf (Suc (length bs)) (write_fn b) s of
     (s', Inl f') \<Rightarrow> (s', io\<lparr> write_fut := Some f' \<rparr>, Pending)
   | (s', Inr r) \<Rightarrow> (s', io\<lparr> write_fut := None \<rparr>, Ready r))"
  using write_polls_running [of "io\<lparr> write_fut := Some (write_fn b) \<rparr>" "write_fn b" pf write_fn "b # bs" s]
  by (simp add: async_poll_write_def poll_next_def split: prod.splits sum.splits)

text \<open>A read that was started for a larger buffer and is polled with a smaller one panics.\<close>

lemma async_read_panics:
  assumes "read_fut io = Some f" "pf f s = (s', Inr (Inr buf))" "remaining < length buf"
  shows "snd (snd (async_poll_read pf read remaining io s)) = Inl (Panic ''range end index out of range'')"
  using assms by (simp add: async_poll_read_def poll_next_def)

end
