(* ===== verification/Storage.thy ===== *)
theory Storage
  imports Hash_Map Errors
begin

section \<open>Key/value storage\<close>

text \<open>
  \<open>src/storage.rs\<close>, \<open>storage/memory.rs\<close> and \<open>storage/file.rs\<close>. A storage keeps a text and the time of its last
  change under a key. The file storage holds an index file, which names a file of its own for each key; the
  disk is the map from file names in the storage folder to contents, and the JSON form of the index a
  parameter. Times are seconds. The lock of the file storage is not held: \<open>let _ = lock.write().await\<close> drops
  the guard at once, so the steps of two calls interleave.
\<close>

record storage_item =
  si_updated_at :: nat
  si_content :: string

subsection \<open>In memory\<close>

type_synonym memory_cache = "(string, storage_item) hmap"

definition mem_new :: memory_cache where
  "mem_new = []"

definition mem_get_updated_at :: "string \<Rightarrow> memory_cache \<Rightarrow> nat option" where
  "mem_get_updated_at key m = map_option si_updated_at (hm_get m key)"

definition mem_get :: "string \<Rightarrow> memory_cache \<Rightarrow> string + storage_item option" where
  "mem_get key m = Inr (hm_get m key)"

definition mem_set :: "nat \<Rightarrow> string \<Rightarrow> string \<Rightarrow> memory_cache \<Rightarrow> memory_cache \<times> (string + unit)" where
  "mem_set now key v m = (hm_insert key \<lparr> si_updated_at = now, si_content = v \<rparr> m, Inr ())"

definition mem_keys :: "memory_cache \<Rightarrow> (string \<times> nat) list" where
  "mem_keys m = map (\<lambda>(k, i). (k, si_updated_at i)) m"

definition mem_remove :: "string \<Rightarrow> memory_cache \<Rightarrow> memory_cache \<times> (string + unit)" where
  "mem_remove key m = (hm_remove key m, Inr ())"

definition mem_clear :: "memory_cache \<Rightarrow> memory_cache \<times> (string + unit)" where
  "mem_clear m = ([], Inr ())"

subsection \<open>On disk\<close>

type_synonym disk = "(string, string) hmap"

record index =
  ix_version :: u32
  ix_index :: "(string, storage_item) hmap"

record index_serde =
  ix_ser :: "index \<Rightarrow> string"
  ix_de :: "string \<Rightarrow> string + index"

definition index_path :: string where "index_path = ''index.json''"

definition lock_path :: string where "lock_path = ''index.lock''"

definition get_index :: "index_serde \<Rightarrow> disk \<Rightarrow> string + index" where
  "get_index sd d = (case hm_get d index_path of
     None \<Rightarrow> Inl ''open cache index''
   | Some s \<Rightarrow> ix_de sd s)"

definition set_index :: "index_serde \<Rightarrow> index \<Rightarrow> disk \<Rightarrow> disk" where
  "set_index sd ix d = hm_insert index_path (ix_ser sd ix) d"

definition empty_index :: index where
  "empty_index = \<lparr> ix_version = 0, ix_index = [] \<rparr>"

definition file_new :: "index_serde \<Rightarrow> disk \<Rightarrow> disk" where
  "file_new sd d = (let d1 = hm_insert lock_path [] d;
     d2 = (if hm_get d1 index_path \<noteq> None \<and> \<not> is_ok (get_index sd d1) then hm_remove index_path d1 else d1)
     in if hm_get d2 index_path = None then set_index sd empty_index d2 else d2)"

definition file_get_path :: "index_serde \<Rightarrow> string \<Rightarrow> disk \<Rightarrow> string + string option" where
  "file_get_path sd key d = rbind (get_index sd d) (\<lambda>ix. Inr (map_option si_content (hm_get (ix_index ix) key)))"

definition file_get_updated_at :: "index_serde \<Rightarrow> string \<Rightarrow> disk \<Rightarrow> string + nat option" where
  "file_get_updated_at sd key d = rbind (get_index sd d) (\<lambda>ix. Inr (map_option si_updated_at (hm_get (ix_index ix) key)))"

definition file_get :: "index_serde \<Rightarrow> string \<Rightarrow> disk \<Rightarrow> string + storage_item option" where
  "file_get sd key d = rbind (get_index sd d) (\<lambda>ix. case hm_get (ix_index ix) key of
     Some item \<Rightarrow> (case hm_get d (si_content item) of
        Some c \<Rightarrow> Inr (Some \<lparr> si_updated_at = si_updated_at item, si_content = c \<rparr>)
      | None \<Rightarrow> Inl ''No such file or directory'')
   | None \<Rightarrow> Inr None)"

text \<open>\<open>set\<close> after it has read the index; \<open>uuid\<close> is the name of a new file.\<close>

definition set_with_index :: "index_serde \<Rightarrow> nat \<Rightarrow> string \<Rightarrow> string \<Rightarrow> string \<Rightarrow> index \<Rightarrow> disk \<Rightarrow> disk" where
  "set_with_index sd now uuid key v ix d =
     (let filename = (case hm_get (ix_index ix) key of Some item \<Rightarrow> si_content item | None \<Rightarrow> uuid)
      in set_index sd (ix\<lparr> ix_index := hm_insert key \<lparr> si_updated_at = now, si_content = filename \<rparr> (ix_index ix) \<rparr>) (hm_insert filename v d))"

definition file_set :: "index_serde \<Rightarrow> nat \<Rightarrow> string \<Rightarrow> string \<Rightarrow> string \<Rightarrow> disk \<Rightarrow> disk \<times> (string + unit)" where
  "file_set sd now uuid key v d =
     (if v = [] then (d, Inr ())
      else (case get_index sd d of
        Inl e \<Rightarrow> (d, Inl e)
      | Inr ix \<Rightarrow> (set_with_index sd now uuid key v ix d, Inr ())))"

definition file_keys :: "index_serde \<Rightarrow> disk \<Rightarrow> string + (string \<times> nat) list" where
  "file_keys sd d = rbind (get_index sd d) (\<lambda>ix. Inr (map (\<lambda>(k, i). (k, si_updated_at i)) (ix_index ix)))"

definition file_remove :: "index_serde \<Rightarrow> string \<Rightarrow> string \<Rightarrow> disk \<Rightarrow> disk \<times> (string + unit)" where
  "file_remove sd uuid key d = (case get_index sd d of
     Inl e \<Rightarrow> (d, Inl e)
   | Inr ix \<Rightarrow> (let filename = (case hm_get (ix_index ix) key of Some item \<Rightarrow> si_content item | None \<Rightarrow> uuid)
       in (set_index sd (ix\<lparr> ix_index := hm_remove key (ix_index ix) \<rparr>) (hm_remove filename d), Inr ())))"

definition file_clear :: "index_serde \<Rightarrow> disk \<Rightarrow> disk \<times> (string + unit)" where
  "file_clear sd d = (case get_index sd d of
     Inl e \<Rightarrow> (d, Inl e)
   | Inr ix \<Rightarrow> (set_index sd empty_index (fold (\<lambda>(_, item). hm_remove (si_content item)) (ix_index ix) d), Inr ()))"

subsection \<open>What a storage promises\<close>

datatype 'e storage_op = OpSet 'e string string | OpRemove 'e string

fun storage_run ::
  "('e \<Rightarrow> string \<Rightarrow> string \<Rightarrow> 's \<Rightarrow> 's \<times> (string + unit)) \<Rightarrow> ('e \<Rightarrow> string \<Rightarrow> 's \<Rightarrow> 's \<times> (string + unit)) \<Rightarrow> 'e storage_op list \<Rightarrow> 's \<Rightarrow> 's" where
  "storage_run set_key remove_key [] s = s"
| "storage_run set_key remove_key (OpSet e k v # ops) s = storage_run set_key remove_key ops (fst (set_key e k v s))"
| "storage_run set_key remove_key (OpRemove e k # ops) s = storage_run set_key remove_key ops (fst (remove_key e k s))"

fun ops_fresh ::
  "('e \<Rightarrow> string \<Rightarrow> string \<Rightarrow> 's \<Rightarrow> 's \<times> (string + unit)) \<Rightarrow> ('e \<Rightarrow> string \<Rightarrow> 's \<Rightarrow> 's \<times> (string + unit)) \<Rightarrow> ('e \<Rightarrow> 's \<Rightarrow> bool) \<Rightarrow> 'e storage_op list \<Rightarrow> 's \<Rightarrow> bool" where
  "ops_fresh set_key remove_key fresh [] s = True"
| "ops_fresh set_key remove_key fresh (OpSet e k v # ops) s = (fresh e s \<and> v \<noteq> [] \<and> ops_fresh set_key remove_key fresh ops (fst (set_key e k v s)))"
| "ops_fresh set_key remove_key fresh (OpRemove e k # ops) s = (fresh e s \<and> ops_fresh set_key remove_key fresh ops (fst (remove_key e k s)))"

text \<open>The abstract storage: a map from keys to items.\<close>

fun map_run :: "('e \<Rightarrow> nat) \<Rightarrow> 'e storage_op list \<Rightarrow> (string \<rightharpoonup> storage_item) \<Rightarrow> (string \<rightharpoonup> storage_item)" where
  "map_run time [] m = m"
| "map_run time (OpSet e k v # ops) m = map_run time ops (m(k \<mapsto> \<lparr> si_updated_at = time e, si_content = v \<rparr>))"
| "map_run time (OpRemove e k # ops) m = map_run time ops (m(k := None))"

text \<open>The \<open>Storage\<close> trait: after \<open>set\<close> a key has its value, after \<open>remove\<close> none, and other keys keep theirs. An
  argument \<open>e\<close> carries the time and what the call draws at random.\<close>

locale storage =
  fixes ok :: "'s \<Rightarrow> bool" and get :: "string \<Rightarrow> 's \<Rightarrow> string + storage_item option"
    and set_key :: "'e \<Rightarrow> string \<Rightarrow> string \<Rightarrow> 's \<Rightarrow> 's \<times> (string + unit)"
    and remove_key :: "'e \<Rightarrow> string \<Rightarrow> 's \<Rightarrow> 's \<times> (string + unit)"
    and time :: "'e \<Rightarrow> nat" and fresh :: "'e \<Rightarrow> 's \<Rightarrow> bool"
  assumes get_total: "ok s \<Longrightarrow> \<exists>x. get k s = Inr x"
    and set_result: "ok s \<Longrightarrow> fresh e s \<Longrightarrow> v \<noteq> [] \<Longrightarrow> snd (set_key e k v s) = Inr ()"
    and set_ok: "ok s \<Longrightarrow> fresh e s \<Longrightarrow> v \<noteq> [] \<Longrightarrow> ok (fst (set_key e k v s))"
    and get_set: "ok s \<Longrightarrow> fresh e s \<Longrightarrow> v \<noteq> [] \<Longrightarrow>
      get j (fst (set_key e k v s)) = (if j = k then Inr (Some \<lparr> si_updated_at = time e, si_content = v \<rparr>) else get j s)"
    and remove_result: "ok s \<Longrightarrow> fresh e s \<Longrightarrow> snd (remove_key e k s) = Inr ()"
    and remove_ok: "ok s \<Longrightarrow> fresh e s \<Longrightarrow> ok (fst (remove_key e k s))"
    and get_remove: "ok s \<Longrightarrow> fresh e s \<Longrightarrow> get j (fst (remove_key e k s)) = (if j = k then Inr None else get j s)"
begin

definition view :: "'s \<Rightarrow> string \<rightharpoonup> storage_item" where
  "view s k = (case get k s of Inr x \<Rightarrow> x | Inl _ \<Rightarrow> None)"

lemma get_view: "ok s \<Longrightarrow> get k s = Inr (view s k)"
  using get_total [of s k] by (auto simp: view_def)

lemma view_set: "ok s \<Longrightarrow> fresh e s \<Longrightarrow> v \<noteq> [] \<Longrightarrow> view (fst (set_key e k v s)) = (view s)(k \<mapsto> \<lparr> si_updated_at = time e, si_content = v \<rparr>)"
  by (rule ext) (simp add: view_def get_set)

lemma view_remove: "ok s \<Longrightarrow> fresh e s \<Longrightarrow> view (fst (remove_key e k s)) = (view s)(k := None)"
  by (rule ext) (simp add: view_def get_remove)

theorem run_refines:
  "ok s \<Longrightarrow> ops_fresh set_key remove_key fresh ops s \<Longrightarrow>
   ok (storage_run set_key remove_key ops s) \<and> view (storage_run set_key remove_key ops s) = map_run time ops (view s)"
proof (induction ops arbitrary: s)
  case (Cons x ops)
  then show ?case by (cases x) (simp_all add: view_set view_remove set_ok remove_ok fun_upd_def)
qed simp

lemma get_run: "ok s \<Longrightarrow> ops_fresh set_key remove_key fresh ops s \<Longrightarrow>
   get k (storage_run set_key remove_key ops s) = Inr (map_run time ops (view s) k)"
  using run_refines [of s ops] get_view by simp

end

interpretation mem: storage "\<lambda>_. True" mem_get mem_set "\<lambda>_. mem_remove" id "\<lambda>_ _. True"
  by unfold_locales (simp_all add: mem_get_def mem_set_def mem_remove_def)

subsection \<open>The file storage is a storage\<close>

text \<open>The index names existing files, one per key, and neither the index nor the lock file.\<close>

definition index_ok :: "index \<Rightarrow> disk \<Rightarrow> bool" where
  "index_ok ix d = (hm_ok (ix_index ix)
     \<and> (\<forall>k i. hm_get (ix_index ix) k = Some i \<longrightarrow> si_content i \<noteq> index_path \<and> si_content i \<noteq> lock_path \<and> hm_get d (si_content i) \<noteq> None)
     \<and> (\<forall>k j i i'. hm_get (ix_index ix) k = Some i \<longrightarrow> hm_get (ix_index ix) j = Some i' \<longrightarrow> k \<noteq> j \<longrightarrow> si_content i \<noteq> si_content i'))"

definition disk_ok :: "index_serde \<Rightarrow> disk \<Rightarrow> bool" where
  "disk_ok sd d = (case get_index sd d of Inl _ \<Rightarrow> False | Inr ix \<Rightarrow> index_ok ix d)"

definition index_serde_ok :: "index_serde \<Rightarrow> bool" where
  "index_serde_ok sd = (\<forall>ix. ix_de sd (ix_ser sd ix) = Inr ix)"

definition file_fresh :: "nat \<times> string \<Rightarrow> disk \<Rightarrow> bool" where
  "file_fresh e d = (hm_get d (snd e) = None \<and> snd e \<noteq> index_path \<and> snd e \<noteq> lock_path)"

lemma index_okD:
  assumes "index_ok ix d" "hm_get (ix_index ix) k = Some i"
  obtains c where "si_content i \<noteq> index_path" "si_content i \<noteq> lock_path" "hm_get d (si_content i) = Some c"
  using assms unfolding index_ok_def by fast

lemma index_ok_inj:
  "index_ok ix d \<Longrightarrow> hm_get (ix_index ix) k = Some i \<Longrightarrow> hm_get (ix_index ix) j = Some i' \<Longrightarrow> si_content i = si_content i' \<Longrightarrow> k = j"
  unfolding index_ok_def by fast

lemma get_set_index: "index_serde_ok sd \<Longrightarrow> get_index sd (set_index sd ix d) = Inr ix"
  by (simp add: get_index_def set_index_def index_serde_ok_def)

definition file_of :: "string \<Rightarrow> string \<Rightarrow> index \<Rightarrow> string" where
  "file_of uuid key ix = (case hm_get (ix_index ix) key of Some item \<Rightarrow> si_content item | None \<Rightarrow> uuid)"

lemma file_of_other:
  assumes "index_ok ix d" "file_fresh (now, uuid) d" "hm_get (ix_index ix) j = Some i" "j \<noteq> key"
  shows "si_content i \<noteq> file_of uuid key ix"
proof (cases "hm_get (ix_index ix) key")
  case None
  obtain c where "hm_get d (si_content i) = Some c" by (rule index_okD [OF assms(1,3)])
  with None assms(2) show ?thesis by (auto simp: file_fresh_def file_of_def)
next
  case (Some i')
  with index_ok_inj [OF assms(1,3) Some] assms(4) show ?thesis by (auto simp: file_of_def)
qed

lemma file_of_name:
  assumes "index_ok ix d" "file_fresh (now, uuid) d"
  shows "file_of uuid key ix \<noteq> index_path" "file_of uuid key ix \<noteq> lock_path"
  using assms by (auto simp: index_ok_def file_fresh_def file_of_def split: option.splits)

lemma set_with_index_ok:
  assumes sd: "index_serde_ok sd" and ix: "index_ok ix d" and fresh: "file_fresh (now, uuid) d"
  shows "disk_ok sd (set_with_index sd now uuid key v ix d)"
proof -
  let ?f = "file_of uuid key ix"
  let ?ix = "ix\<lparr> ix_index := hm_insert key \<lparr> si_updated_at = now, si_content = ?f \<rparr> (ix_index ix) \<rparr>"
  let ?d = "set_index sd ?ix (hm_insert ?f v d)"
  have "index_ok ?ix ?d"
    unfolding index_ok_def
  proof (intro conjI allI impI)
    show "hm_ok (ix_index ?ix)" using ix by (simp add: index_ok_def)
  next
    fix k i
    assume k: "hm_get (ix_index ?ix) k = Some i"
    show "si_content i \<noteq> index_path" "si_content i \<noteq> lock_path" "hm_get ?d (si_content i) \<noteq> None"
      using k ix file_of_name [OF ix fresh, of key] by (auto simp: set_index_def index_ok_def split: if_splits)
  next
    fix k j i i'
    assume "hm_get (ix_index ?ix) k = Some i" "hm_get (ix_index ?ix) j = Some i'" "k \<noteq> j"
    then show "si_content i \<noteq> si_content i'"
      using file_of_other [OF ix fresh] index_ok_inj [OF ix] by (auto split: if_splits) metis+
  qed
  then show ?thesis
    using get_set_index [OF sd] by (simp add: set_with_index_def file_of_def disk_ok_def Let_def)
qed

lemma file_get_set_with_index:
  assumes sd: "index_serde_ok sd" and ix: "get_index sd d = Inr ix" "index_ok ix d" and fresh: "file_fresh (now, uuid) d"
  shows "file_get sd j (set_with_index sd now uuid key v ix d)
    = (if j = key then Inr (Some \<lparr> si_updated_at = now, si_content = v \<rparr>) else file_get sd j d)"
proof -
  let ?f = "file_of uuid key ix"
  let ?ix = "ix\<lparr> ix_index := hm_insert key \<lparr> si_updated_at = now, si_content = ?f \<rparr> (ix_index ix) \<rparr>"
  have d': "set_with_index sd now uuid key v ix d = set_index sd ?ix (hm_insert ?f v d)"
    by (simp add: set_with_index_def file_of_def Let_def)
  have names: "?f \<noteq> index_path" by (rule file_of_name [OF ix(2) fresh])
  have other: "si_content i \<noteq> ?f" "si_content i \<noteq> index_path" if "hm_get (ix_index ix) j = Some i" "j \<noteq> key" for i
    using file_of_other [OF ix(2) fresh that] ix(2) that by (auto simp: index_ok_def)
  show ?thesis
    unfolding file_get_def d' get_set_index [OF sd] ix(1) using names other
    by (auto simp: set_index_def split: option.split)
qed

lemma remove_index_ok:
  assumes sd: "index_serde_ok sd" and ix: "index_ok ix d" and fresh: "file_fresh (now, uuid) d"
  shows "disk_ok sd (set_index sd (ix\<lparr> ix_index := hm_remove key (ix_index ix) \<rparr>) (hm_remove (file_of uuid key ix) d))"
proof -
  have "index_ok (ix\<lparr> ix_index := hm_remove key (ix_index ix) \<rparr>) (set_index sd ix' (hm_remove (file_of uuid key ix) d))" for ix'
    using ix file_of_other [OF ix fresh, of _ _ key] by (auto simp: index_ok_def set_index_def)
  then show ?thesis using get_set_index [OF sd] by (simp add: disk_ok_def)
qed

lemma file_get_remove_index:
  assumes sd: "index_serde_ok sd" and ix: "get_index sd d = Inr ix" "index_ok ix d" and fresh: "file_fresh (now, uuid) d"
  shows "file_get sd j (set_index sd (ix\<lparr> ix_index := hm_remove key (ix_index ix) \<rparr>) (hm_remove (file_of uuid key ix) d))
    = (if j = key then Inr None else file_get sd j d)"
proof -
  have other: "si_content i \<noteq> file_of uuid key ix" "si_content i \<noteq> index_path" if "hm_get (ix_index ix) j = Some i" "j \<noteq> key" for i
    using file_of_other [OF ix(2) fresh that] ix(2) that by (auto simp: index_ok_def)
  show ?thesis
    unfolding file_get_def get_set_index [OF sd] ix(1) using other
    by (auto simp: set_index_def split: option.split)
qed

lemma file_storage:
  assumes sd: "index_serde_ok sd"
  shows "storage (disk_ok sd) (file_get sd) (\<lambda>(now, uuid). file_set sd now uuid) (\<lambda>(now, uuid). file_remove sd uuid) fst file_fresh"
proof
  have ix: "\<exists>ix. get_index sd d = Inr ix \<and> index_ok ix d" if "disk_ok sd d" for d
    using that by (auto simp: disk_ok_def split: sum.splits)
  fix d :: disk and k j v :: string and e :: "nat \<times> string"
  obtain now uuid where e: "e = (now, uuid)" by (cases e)
  assume "disk_ok sd d"
  then obtain ix where ix: "get_index sd d = Inr ix" "index_ok ix d" using ix by blast
  show "\<exists>x. file_get sd k d = Inr x"
    using ix(1) index_okD [OF ix(2), of k] by (fastforce simp: file_get_def split: option.split)
  assume fresh: "file_fresh e d"
  have rem: "file_remove sd uuid k d = (set_index sd (ix\<lparr> ix_index := hm_remove k (ix_index ix) \<rparr>) (hm_remove (file_of uuid k ix) d), Inr ())"
    using ix by (simp add: file_remove_def file_of_def Let_def)
  show "snd ((case e of (now, uuid) \<Rightarrow> file_remove sd uuid) k d) = Inr ()" by (simp add: e rem)
  show "disk_ok sd (fst ((case e of (now, uuid) \<Rightarrow> file_remove sd uuid) k d))"
    using remove_index_ok [OF sd ix(2)] fresh by (simp add: e rem)
  show "file_get sd j (fst ((case e of (now, uuid) \<Rightarrow> file_remove sd uuid) k d)) = (if j = k then Inr None else file_get sd j d)"
    using file_get_remove_index [OF sd ix] fresh by (simp add: e rem)
  assume v: "v \<noteq> []"
  have set_eq: "file_set sd now uuid k v d = (set_with_index sd now uuid k v ix d, Inr ())"
    using ix v by (simp add: file_set_def)
  show "snd ((case e of (now, uuid) \<Rightarrow> file_set sd now uuid) k v d) = Inr ()" by (simp add: e set_eq)
  show "disk_ok sd (fst ((case e of (now, uuid) \<Rightarrow> file_set sd now uuid) k v d))"
    using set_with_index_ok [OF sd ix(2)] fresh by (simp add: e set_eq)
  show "file_get sd j (fst ((case e of (now, uuid) \<Rightarrow> file_set sd now uuid) k v d))
    = (if j = k then Inr (Some \<lparr> si_updated_at = fst e, si_content = v \<rparr>) else file_get sd j d)"
    using file_get_set_with_index [OF sd ix] fresh by (simp add: e set_eq)
qed


lemma file_new_ok: "index_serde_ok sd \<Longrightarrow> disk_ok sd (file_new sd [])"
  using get_set_index [of sd empty_index "hm_insert lock_path [] []"]
  by (simp add: file_new_def disk_ok_def Let_def index_ok_def empty_index_def index_path_def lock_path_def)

lemma file_new_get: "index_serde_ok sd \<Longrightarrow> file_get sd k (file_new sd []) = Inr None"
  using get_set_index [of sd empty_index "hm_insert lock_path [] []"]
  by (simp add: file_new_def file_get_def Let_def empty_index_def index_path_def lock_path_def)

text \<open>C30: The file storage is a map. After any sequence of calls of \<open>set\<close> and \<open>remove\<close>, one after the other, on a storage that
  was created in an empty folder, \<open>get\<close> returns exactly what the map of the last values returns, with the time of the
  last \<open>set\<close>, and never fails. File names drawn at random have to be new, and values not empty.\<close>

theorem file_storage_refines_map:
  assumes "index_serde_ok sd"
    and "ops_fresh (\<lambda>(now, uuid). file_set sd now uuid) (\<lambda>(now, uuid). file_remove sd uuid) file_fresh ops (file_new sd [])"
  shows "file_get sd k (storage_run (\<lambda>(now, uuid). file_set sd now uuid) (\<lambda>(now, uuid). file_remove sd uuid) ops (file_new sd []))
    = Inr (map_run fst ops Map.empty k)"
proof -
  have st: "storage (disk_ok sd) (file_get sd) (\<lambda>(now, uuid). file_set sd now uuid) (\<lambda>(now, uuid). file_remove sd uuid) fst file_fresh"
    by (rule file_storage [OF assms(1)])
  have "storage.view (file_get sd) (file_new sd []) = Map.empty"
    by (rule ext) (simp add: storage.view_def [OF st] file_new_get [OF assms(1)])
  with storage.get_run [OF st file_new_ok [OF assms(1)] assms(2), of k] show ?thesis by simp
qed

subsection \<open>Two writers\<close>




text \<open>A plain form of the index: lengths and times in unary.\<close>

definition unary :: "nat \<Rightarrow> string" where
  "unary n = replicate n CHR ''1'' @ ''0''"

definition de_unary :: "string \<Rightarrow> nat \<times> string" where
  "de_unary s = (length (takeWhile (\<lambda>c. c = CHR ''1'') s), drop 1 (dropWhile (\<lambda>c. c = CHR ''1'') s))"

lemma de_unary [simp]: "de_unary (unary n @ s) = (n, s)"
  unfolding de_unary_def unary_def by (induction n) simp_all

definition plain_text :: "string \<Rightarrow> string" where
  "plain_text s = unary (length s) @ s"

definition de_text :: "string \<Rightarrow> string \<times> string" where
  "de_text s = (case de_unary s of (n, r) \<Rightarrow> (take n r, drop n r))"

lemma de_text [simp]: "de_text (plain_text s @ r) = (s, r)"
  by (simp add: de_text_def plain_text_def)

fun plain_item :: "string \<times> storage_item \<Rightarrow> string" where
  "plain_item (k, i) = plain_text k @ unary (si_updated_at i) @ plain_text (si_content i)"

fun de_items :: "nat \<Rightarrow> string \<Rightarrow> (string \<times> storage_item) list" where
  "de_items 0 s = []"
| "de_items (Suc n) s = (case de_text s of (k, s1) \<Rightarrow> case de_unary s1 of (t, s2) \<Rightarrow> case de_text s2 of (c, s3) \<Rightarrow>
     (k, \<lparr> si_updated_at = t, si_content = c \<rparr>) # de_items n s3)"

lemma de_items: "de_items (length xs) (concat (map plain_item xs)) = xs"
proof (induction xs)
  case (Cons x xs)
  then show ?case by (cases x) simp
qed simp

definition plain_index_serde :: index_serde where
  "plain_index_serde = \<lparr> ix_ser = (\<lambda>ix. unary (unat (ix_version ix)) @ unary (length (ix_index ix)) @ concat (map plain_item (ix_index ix))),
     ix_de = (\<lambda>s. case de_unary s of (v, s1) \<Rightarrow> case de_unary s1 of (n, s2) \<Rightarrow> Inr \<lparr> ix_version = word_of_nat v, ix_index = de_items n s2 \<rparr>) \<rparr>"

lemma plain_index_serde_ok: "index_serde_ok plain_index_serde"
  by (simp add: index_serde_ok_def plain_index_serde_def de_items)

definition two_sets :: "(nat \<times> string) storage_op list" where
  "two_sets = [OpSet (5, ''f'') ''a'' ''x'', OpSet (6, ''g'') ''a'' ''y'']"

lemma two_sets_fresh:
  "ops_fresh (\<lambda>(now, uuid). file_set plain_index_serde now uuid) (\<lambda>(now, uuid). file_remove plain_index_serde uuid) file_fresh two_sets (file_new plain_index_serde [])"
proof -
  have new: "file_new plain_index_serde [] = [(lock_path, []), (index_path, ix_ser plain_index_serde empty_index)]"
    by (simp add: file_new_def set_index_def Let_def hm_insert_def hm_get_def index_path_def lock_path_def)
  have ix: "get_index plain_index_serde (file_new plain_index_serde []) = Inr empty_index"
    using plain_index_serde_ok by (simp add: new get_index_def index_serde_ok_def hm_get_def index_path_def lock_path_def)
  have set1: "file_set plain_index_serde 5 ''f'' ''a'' ''x'' (file_new plain_index_serde [])
    = (set_with_index plain_index_serde 5 ''f'' ''a'' ''x'' empty_index (file_new plain_index_serde []), Inr ())"
    by (simp add: file_set_def ix)
  have free: "hm_get (file_new plain_index_serde []) name = None" if "name \<noteq> index_path" "name \<noteq> lock_path" for name
    using that by (simp add: new hm_get_def)
  have "hm_get (set_with_index plain_index_serde 5 ''f'' ''a'' ''x'' empty_index (file_new plain_index_serde [])) ''g'' = None"
    using free [of "''g''"] by (simp add: set_with_index_def set_index_def empty_index_def Let_def index_path_def lock_path_def)
  then show ?thesis
    using free [of "''f''"] by (simp add: two_sets_def set1 file_fresh_def index_path_def lock_path_def)
qed

lemma file_storage_refines_map_witness:
  "file_get plain_index_serde ''a'' (storage_run (\<lambda>(now, uuid). file_set plain_index_serde now uuid)
     (\<lambda>(now, uuid). file_remove plain_index_serde uuid) two_sets (file_new plain_index_serde []))
   = Inr (Some \<lparr> si_updated_at = 6, si_content = ''y'' \<rparr>)"
  by (subst file_storage_refines_map [OF plain_index_serde_ok two_sets_fresh]) (simp add: two_sets_def)


end
