(* ===== verification/Config_Sources.thy ===== *)
theory Config_Sources
  imports Storage Engine_Config
begin

section \<open>Where configurations come from\<close>

text \<open>
  \<open>src/config.rs\<close> (sources, their cache and what they wait for), \<open>src/config/manager.rs\<close> (loading a configuration with its
  imports and remembered selections, and the stream of configurations), \<open>src/config/importer.rs\<close> and
  \<open>importer/merge.rs\<close>. The cache is a storage, given by its operations; reading files, fetching, watching files and
  parsing are parameters that act on the world \<open>'w\<close>. Times are seconds.
\<close>

datatype config_source =
    FromPath string
  | FromPoll string "u64 option"
  | FromStorage string string
  | FromText string

record ('s, 'w) cache_ops =
  co_get :: "string \<Rightarrow> 's \<Rightarrow> string + storage_item option"
  co_set :: "'w \<Rightarrow> string \<Rightarrow> string \<Rightarrow> 's \<Rightarrow> 's \<times> (string + unit)"
  co_updated_at :: "string \<Rightarrow> 's \<Rightarrow> string + nat option"

record 'w source_env =
  se_now :: "'w \<Rightarrow> nat"
  se_read_to_string :: "string \<Rightarrow> 'w \<Rightarrow> string + string"
  se_fetch :: "string \<Rightarrow> 'w \<Rightarrow> 'w \<times> (string + string)"
  se_data_get :: "string \<Rightarrow> string \<Rightarrow> 'w \<Rightarrow> string + storage_item option"
  se_data_path :: "string \<Rightarrow> string \<Rightarrow> 'w \<Rightarrow> string + string option"
  se_watch :: "string \<Rightarrow> 'w \<Rightarrow> string + unit"
  se_visited_at :: "string \<Rightarrow> 'w \<Rightarrow> nat option"
  se_debug_path :: "string \<Rightarrow> string"

subsection \<open>Content\<close>

definition cache_key :: "'w source_env \<Rightarrow> config_source \<Rightarrow> string" where
  "cache_key env src = (case src of
     FromPath p \<Rightarrow> ''path:'' @ se_debug_path env p
   | FromPoll url _ \<Rightarrow> ''poll:'' @ url
   | FromStorage folder key \<Rightarrow> ''storage:'' @ folder @ '':'' @ key
   | FromText _ \<Rightarrow> ''text'')"

definition get_expire_duration :: "config_source \<Rightarrow> nat option" where
  "get_expire_duration src = (case src of FromPoll _ interval \<Rightarrow> map_option unat interval | _ \<Rightarrow> None)"

definition usable_content :: "nat \<Rightarrow> config_source \<Rightarrow> storage_item \<Rightarrow> string option" where
  "usable_content now src c = (if si_content c = [] then None
     else if (case get_expire_duration src of Some d \<Rightarrow> now < si_updated_at c + d | None \<Rightarrow> True) then Some (si_content c) else None)"

text \<open>\<open>retry\<close> calls once, and then up to \<open>times\<close> calls in all.\<close>

fun retry_loop :: "nat \<Rightarrow> ('w \<Rightarrow> 'w \<times> ('e + 'r)) \<Rightarrow> 'e \<Rightarrow> 'w \<Rightarrow> 'w \<times> ('e + 'r)" where
  "retry_loop 0 f last_err w = (w, Inl last_err)"
| "retry_loop (Suc n) f last_err w = (case f w of (w', Inr r) \<Rightarrow> (w', Inr r) | (w', Inl e) \<Rightarrow> retry_loop n f e w')"

definition retry :: "nat \<Rightarrow> ('w \<Rightarrow> 'w \<times> ('e + 'r)) \<Rightarrow> 'w \<Rightarrow> 'w \<times> ('e + 'r)" where
  "retry n f w = (case f w of (w', Inr r) \<Rightarrow> (w', Inr r) | (w', Inl e) \<Rightarrow> retry_loop (n - 1) f e w')"

definition bom :: string where
  "bom = [char_of (0xEF :: nat), char_of (0xBB :: nat), char_of (0xBF :: nat)]"

definition read_from_path :: "'w source_env \<Rightarrow> string \<Rightarrow> 'w \<Rightarrow> string + string" where
  "read_from_path env path w = rbind (se_read_to_string env path w) (\<lambda>content.
     Inr (if take 3 content = bom then drop 3 content else content))"

definition poll_content :: "('s, 'w) cache_ops \<Rightarrow> 'w source_env \<Rightarrow> string \<Rightarrow> string \<Rightarrow> 's \<times> 'w \<Rightarrow> ('s \<times> 'w) \<times> (string + string)" where
  "poll_content ops env key url st = (case st of (s, w) \<Rightarrow> (case retry 3 (se_fetch env url) w of
     (w', Inl e) \<Rightarrow> ((s, w'), rbind (co_get ops key s) (\<lambda>item. rbind (ok_or e item) (\<lambda>i. Inr (si_content i))))
   | (w', Inr content) \<Rightarrow>
       if content = [] then ((s, w'), Inr content)
       else (case co_set ops w' key content s of
          (s', Inl e) \<Rightarrow> ((s', w'), Inl e)
        | (s', Inr _) \<Rightarrow> ((s', w'), Inr content))))"

definition source_content :: "('s, 'w) cache_ops \<Rightarrow> 'w source_env \<Rightarrow> config_source \<Rightarrow> 's \<times> 'w \<Rightarrow> ('s \<times> 'w) \<times> (string + string)" where
  "source_content ops env src st = (case st of (s, w) \<Rightarrow> (case co_get ops (cache_key env src) s of
     Inl e \<Rightarrow> (st, Inl e)
   | Inr cached \<Rightarrow> (case Option.bind cached (usable_content (se_now env w) src) of
       Some content \<Rightarrow> (st, Inr content)
     | None \<Rightarrow> (case src of
         FromPath path \<Rightarrow> (st, read_from_path env path w)
       | FromPoll url _ \<Rightarrow> poll_content ops env (cache_key env src) url st
       | FromStorage folder key \<Rightarrow> (st, rbind (se_data_get env folder key w) (\<lambda>item. rbind (ok_or ''Not found'' item) (\<lambda>i. Inr (si_content i))))
       | FromText content \<Rightarrow> (st, Inr content)))))"

subsection \<open>Waiting for a change\<close>

datatype wake = WakeOnFile string | WakeNow | WakeAfter nat | WakeNever

definition latest :: "nat option \<Rightarrow> nat option \<Rightarrow> nat option" where
  "latest a b = (case (a, b) of (Some x, Some y) \<Rightarrow> Some (max x y) | (Some t, None) \<Rightarrow> Some t | (None, Some t) \<Rightarrow> Some t | (None, None) \<Rightarrow> None)"

definition source_wait :: "('s, 'w) cache_ops \<Rightarrow> 'w source_env \<Rightarrow> config_source \<Rightarrow> 's \<times> 'w \<Rightarrow> string + wake" where
  "source_wait ops env src st = (case st of (s, w) \<Rightarrow> (case src of
     FromPath path \<Rightarrow> rbind (se_watch env path w) (\<lambda>_. Inr (WakeOnFile path))
   | FromPoll _ interval \<Rightarrow> rbind (co_updated_at ops (cache_key env src) s) (\<lambda>updated_at.
       Inr (case (latest (se_visited_at env (cache_key env src) w) updated_at, interval) of
         (None, _) \<Rightarrow> WakeNow
       | (Some _, None) \<Rightarrow> WakeNever
       | (Some time, Some i) \<Rightarrow> WakeAfter (time + unat i - se_now env w)))
   | FromStorage folder key \<Rightarrow> rbind (se_data_path env folder key w) (\<lambda>p. rbind (ok_or ''Not found'' p) (\<lambda>path.
       rbind (se_watch env path w) (\<lambda>_. Inr (WakeOnFile path))))
   | FromText _ \<Rightarrow> Inr WakeNever))"

text \<open>\<open>wait_source\<close> ends with the first wait that ends, also when it ends with an error.\<close>

definition wait_source :: "('s, 'w) cache_ops \<Rightarrow> 'w source_env \<Rightarrow> config_source \<Rightarrow> config_source list \<Rightarrow> 's \<times> 'w \<Rightarrow> (string + wake) list" where
  "wait_source ops env src imports st = map (\<lambda>x. source_wait ops env x st) (src # imports)"

definition at_once :: "string + wake \<Rightarrow> bool" where
  "at_once r = (case r of Inl _ \<Rightarrow> True | Inr WakeNow \<Rightarrow> True | Inr (WakeAfter d) \<Rightarrow> d = 0 | _ \<Rightarrow> False)"

definition reloads_at_once :: "(string + wake) list \<Rightarrow> bool" where
  "reloads_at_once waits = list_ex at_once waits"

subsection \<open>Loading\<close>

record config_import =
  im_name :: "string option"
  im_format :: string
  im_source :: config_source
  im_opt :: json

record ('s, 'w) load_env =
  le_src :: "'w source_env"
  le_cache :: "('s, 'w) cache_ops"
  le_deserialize :: "string \<Rightarrow> string + config \<times> config_import list"
  le_yaml_config :: "string \<Rightarrow> string + config"
  le_clash :: "json \<Rightarrow> config \<Rightarrow> string \<Rightarrow> 's \<times> 'w \<Rightarrow> ('s \<times> 'w) \<times> (string + config)"
  le_rhai :: "json \<Rightarrow> config \<Rightarrow> string \<Rightarrow> 's \<times> 'w \<Rightarrow> ('s \<times> 'w) \<times> (string + config)"
  le_select_get :: "string \<Rightarrow> 'w \<Rightarrow> string + storage_item option"
  le_select_map :: "string \<Rightarrow> string + (string, string) hmap"

definition merge_process :: "('s, 'w) load_env \<Rightarrow> config \<Rightarrow> string \<Rightarrow> string + config" where
  "merge_process env config content = rbind (le_yaml_config env content) (\<lambda>other. Inr (config_merge config other))"

definition get_importer ::
  "('s, 'w) load_env \<Rightarrow> config_import \<Rightarrow> string + (config \<Rightarrow> string \<Rightarrow> 's \<times> 'w \<Rightarrow> ('s \<times> 'w) \<times> (string + config))" where
  "get_importer env i =
     (if im_format i = ''clash'' then Inr (le_clash env (im_opt i))
      else if im_format i = ''merge'' then Inr (\<lambda>config content st. (st, merge_process env config content))
      else if im_format i = ''rhai'' then Inr (le_rhai env (im_opt i))
      else Inl (''Importer not found: '' @ im_format i))"

definition import_apply :: "('s, 'w) load_env \<Rightarrow> config_import \<Rightarrow> config \<Rightarrow> 's \<times> 'w \<Rightarrow> ('s \<times> 'w) \<times> (string + config)" where
  "import_apply env i config st = (case get_importer env i of
     Inl e \<Rightarrow> (st, Inl e)
   | Inr process \<Rightarrow> (case source_content (le_cache env) (le_src env) (im_source i) st of
       (st', Inl e) \<Rightarrow> (st', Inl e)
     | (st', Inr content) \<Rightarrow> process config content st'))"

fun apply_imports :: "('s, 'w) load_env \<Rightarrow> config_import list \<Rightarrow> config \<Rightarrow> 's \<times> 'w \<Rightarrow> ('s \<times> 'w) \<times> (string + config)" where
  "apply_imports env [] config st = (st, Inr config)"
| "apply_imports env (i # is) config st = (case import_apply env i config st of
     (st', Inl e) \<Rightarrow> (st', Inl (''applying import: '' @ e))
   | (st', Inr config') \<Rightarrow> apply_imports env is config' st')"

definition select_map_from_cache :: "('s, 'w) load_env \<Rightarrow> string \<Rightarrow> 'w \<Rightarrow> string + (string, string) hmap" where
  "select_map_from_cache env i w = rbind (le_select_get env i w) (\<lambda>item. Inr (case item of
     Some c \<Rightarrow> (case le_select_map env (si_content c) of Inr m \<Rightarrow> m | Inl _ \<Rightarrow> [])
   | None \<Rightarrow> []))"

definition load_config ::
  "('s, 'w) load_env \<Rightarrow> config_source \<Rightarrow> 's \<times> 'w \<Rightarrow> ('s \<times> 'w) \<times> (string + config \<times> config_import list)" where
  "load_config env src st = (case source_content (le_cache env) (le_src env) src st of
     (st1, Inl e) \<Rightarrow> (st1, Inl e)
   | (st1, Inr content) \<Rightarrow> (case le_deserialize env content of
       Inl e \<Rightarrow> (st1, Inl e)
     | Inr (config, imports) \<Rightarrow> (case apply_imports env imports (config\<lparr> cfg_id := cache_key (le_src env) src \<rparr>) st1 of
         (st2, Inl e) \<Rightarrow> (st2, Inl e)
       | (st2, Inr config') \<Rightarrow> (st2, rbind (select_map_from_cache env (cfg_id config') (snd st2)) (\<lambda>m.
           Inr (select_map_apply m config', imports))))))"

text \<open>The stream of configurations. A turn ends because something changed, because another source is chosen, or because no
  more sources will come; an error ends the stream after it is reported.\<close>

datatype stream_signal = SourceChanged | NewSource config_source | SourcesEnd

fun config_stream_from_sources ::
  "('s, 'w) load_env \<Rightarrow> stream_signal list \<Rightarrow> config_source \<Rightarrow> 's \<times> 'w \<Rightarrow> (string + config) list" where
  "config_stream_from_sources env sigs src st = (case load_config env src st of
     (st', Inl e) \<Rightarrow> [Inl e]
   | (st', Inr (config, _)) \<Rightarrow> Inr config # (case sigs of
       [] \<Rightarrow> []
     | SourceChanged # rest \<Rightarrow> config_stream_from_sources env rest src st'
     | NewSource src' # rest \<Rightarrow> config_stream_from_sources env rest src' st'
     | SourcesEnd # rest \<Rightarrow> []))"

subsection \<open>Cached and fetched content\<close>

fun after_calls :: "('w \<Rightarrow> 'w \<times> 'r) \<Rightarrow> nat \<Rightarrow> 'w \<Rightarrow> 'w" where
  "after_calls f 0 w = w"
| "after_calls f (Suc n) w = after_calls f n (fst (f w))"

definition call_fails :: "('w \<Rightarrow> 'w \<times> ('e + 'r)) \<Rightarrow> 'w \<Rightarrow> bool" where
  "call_fails f w = (\<not> is_ok (snd (f w)))"

lemma retry_loop_result:
  "retry_loop n f e w = (w', r) \<Longrightarrow> case r of
     Inl _ \<Rightarrow> (\<forall>i < n. call_fails f (after_calls f i w)) \<and> w' = after_calls f n w
   | Inr x \<Rightarrow> \<exists>k < n. (\<forall>i < k. call_fails f (after_calls f i w)) \<and> f (after_calls f k w) = (w', Inr x)"
proof (induction n arbitrary: e w)
  case (Suc n)
  obtain w1 r1 where f: "f w = (w1, r1)" by fastforce
  show ?case
  proof (cases r1)
    case (Inl e1)
    from Suc.prems f Inl have "retry_loop n f e1 w1 = (w', r)" by simp
    from Suc.IH [OF this] f Inl show ?thesis
      by (auto simp: All_less_Suc2 Ex_less_Suc2 call_fails_def is_ok_def split: sum.splits)
  next
    case (Inr x)
    with Suc.prems f show ?thesis by (auto simp: Ex_less_Suc2)
  qed
qed auto

lemma retry_result:
  assumes "retry (Suc n) f w = (w', r)"
  shows "case r of
     Inl _ \<Rightarrow> (\<forall>i < Suc n. call_fails f (after_calls f i w)) \<and> w' = after_calls f (Suc n) w
   | Inr x \<Rightarrow> \<exists>k < Suc n. (\<forall>i < k. call_fails f (after_calls f i w)) \<and> f (after_calls f k w) = (w', Inr x)"
  using retry_loop_result [of "Suc n" f undefined w w' r] assms by (simp add: retry_def split: prod.splits sum.splits)

text \<open>What the sources rely on of their cache, which is a storage: time and file names are drawn from the world.\<close>

definition polls_only :: "('s, 'w) cache_ops \<Rightarrow> 's \<Rightarrow> bool" where
  "polls_only ops s = (\<forall>k item. co_get ops k s = Inr (Some item) \<longrightarrow> take 5 k = ''poll:'')"

definition read_now :: "'w source_env \<Rightarrow> config_source \<Rightarrow> 'w \<Rightarrow> string + string" where
  "read_now env src w = (case src of
     FromPath path \<Rightarrow> read_from_path env path w
   | FromStorage folder key \<Rightarrow> rbind (se_data_get env folder key w) (\<lambda>item. rbind (ok_or ''Not found'' item) (\<lambda>i. Inr (si_content i)))
   | FromText content \<Rightarrow> Inr content
   | FromPoll _ _ \<Rightarrow> Inl [])"

lemma local_keys: "take 5 (cache_key env src) = ''poll:'' \<longleftrightarrow> (\<exists>url interval. src = FromPoll url interval)"
  by (cases src) (simp_all add: cache_key_def)

context storage
begin

lemma poll_content_cases:
  assumes ops: "co_get ops = get" "\<And>w. co_set ops w = set_key (draw w)" and s: "ok s" "\<And>w. fresh (draw w) s"
    and eq: "poll_content ops env key url (s, w) = ((s', w'), r)"
  shows "(\<exists>c. retry 3 (se_fetch env url) w = (w', Inr c) \<and> r = Inr c
        \<and> (if c = [] then s' = s else s' = fst (set_key (draw w') key c s)))
    \<or> (\<exists>e. retry 3 (se_fetch env url) w = (w', Inl e) \<and> s' = s
        \<and> r = (case view s key of Some i \<Rightarrow> Inr (si_content i) | None \<Rightarrow> Inl e))"
proof -
  obtain w1 x where f: "retry 3 (se_fetch env url) w = (w1, x)" by fastforce
  show ?thesis
  proof (cases x)
    case (Inl e)
    then show ?thesis
      using eq f s ops get_view [OF s(1), of key] by (auto simp: poll_content_def ok_or_def split: option.splits)
  next
    case (Inr c)
    then show ?thesis
      using eq f s ops set_result [OF s(1) s(2) [of w1], of c key]
      by (cases "set_key (draw w1) key c s") (auto simp: poll_content_def split: if_splits sum.splits)
  qed
qed

lemma source_content_local:
  assumes ops: "co_get ops = get" and s: "ok s" and polls: "polls_only ops s" and src: "\<forall>url interval. src \<noteq> FromPoll url interval"
  shows "source_content ops env src (s, w) = ((s, w), read_now env src w)"
proof -
  have "co_get ops (cache_key env src) s = Inr None"
    using get_view [OF s, of "cache_key env src"] polls local_keys [of env src] src ops
    by (cases "view s (cache_key env src)") (auto simp: polls_only_def)
  with src show ?thesis by (cases src) (simp_all add: source_content_def read_now_def)
qed

lemma source_content_keeps:
  assumes ops: "co_get ops = get" "\<And>w. co_set ops w = set_key (draw w)" and s: "ok s" "\<And>w. fresh (draw w) s"
    and polls: "polls_only ops s" and eq: "source_content ops env src (s, w) = ((s', w'), r)"
  shows "ok s' \<and> polls_only ops s'"
proof (cases "\<forall>url interval. src \<noteq> FromPoll url interval")
  case True
  then show ?thesis using source_content_local [OF ops(1) s(1) polls True, of env w] eq s(1) polls by simp
next
  case False
  then obtain url interval where src: "src = FromPoll url interval" by blast
  let ?key = "cache_key env src"
  have "s' = s \<or> (\<exists>c. c \<noteq> [] \<and> s' = fst (set_key (draw w') ?key c s))"
    using eq src get_view [OF s(1), of ?key] ops(1) poll_content_cases [OF ops s, of env ?key url w s' w' r]
    by (auto simp: source_content_def split: option.splits if_splits)
  then show ?thesis
  proof (elim disjE exE conjE)
    fix c assume c: "c \<noteq> []" "s' = fst (set_key (draw w') ?key c s)"
    have key: "take 5 ?key = ''poll:''" using local_keys [of env src] src by blast
    have "take 5 k = ''poll:''" if "get k s' = Inr (Some i)" for k i
    proof (cases "k = ?key")
      case False
      then have "co_get ops k s = Inr (Some i)" using that get_set [OF s(1) s(2) [of w'] c(1), of k ?key] c(2) ops(1) by simp
      with polls show ?thesis unfolding polls_only_def by blast
    qed (use key in simp)
    then show ?thesis using set_ok [OF s(1) s(2) [of w'] c(1), of ?key] c(2) ops(1) by (auto simp: polls_only_def)
  qed (use s(1) polls in simp)
qed

end

text \<open>The caches of the configuration manager: the operations of a file storage.\<close>

definition file_cache :: "index_serde \<Rightarrow> ('w \<Rightarrow> nat \<times> string) \<Rightarrow> (disk, 'w) cache_ops" where
  "file_cache sd draw = \<lparr> co_get = file_get sd, co_set = (\<lambda>w. case draw w of (now, uuid) \<Rightarrow> file_set sd now uuid),
     co_updated_at = file_get_updated_at sd \<rparr>"

definition memory_ops :: "('w \<Rightarrow> nat) \<Rightarrow> (memory_cache, 'w) cache_ops" where
  "memory_ops now = \<lparr> co_get = mem_get, co_set = (\<lambda>w. mem_set (now w)), co_updated_at = (\<lambda>k s. Inr (mem_get_updated_at k s)) \<rparr>"

text \<open>C34: A local configuration is never stale. Whatever sources are read through the cache, only fetched content is ever
  stored in it, and so the content of a file, of a stored text and of an inline text is what they hold now; the cache
  stays consistent.\<close>

theorem local_sources_fresh:
  assumes "index_serde_ok sd" "disk_ok sd d" "\<forall>w. file_fresh (draw w) d" "polls_only (file_cache sd draw) d"
    and "source_content (file_cache sd draw) env src (d, w) = ((d', w'), r)"
  shows "disk_ok sd d' \<and> polls_only (file_cache sd draw) d'
    \<and> ((\<forall>url interval. src \<noteq> FromPoll url interval) \<longrightarrow> d' = d \<and> r = read_now env src w)"
proof -
  note st = file_storage [OF assms(1)]
  have ops: "co_get (file_cache sd draw) = file_get sd" "co_set (file_cache sd draw) w = (case draw w of (now, uuid) \<Rightarrow> file_set sd now uuid)" for w
    by (simp_all add: file_cache_def)
  have fresh: "file_fresh (draw w) d" for w using assms(3) by simp
  from storage.source_content_local [OF st ops(1) assms(2,4), of src env w] assms(5)
  have "(\<forall>url interval. src \<noteq> FromPoll url interval) \<longrightarrow> d' = d \<and> r = read_now env src w" by auto
  with storage.source_content_keeps [OF st ops assms(2) fresh assms(4,5)] show ?thesis by blast
qed

text \<open>What fetching gives. The content of a source that is polled is, in this order: what the cache holds, when it is not empty
  and younger than the interval; what one of at most three attempts fetches now, which is then in the cache under
  this source with the current time, unless it is empty; what the cache holds, whatever its age, when all three attempts have
  failed. It is an error only when they failed and nothing is cached.\<close>

theorem poll_source_content:
  assumes "source_content (memory_ops now) env (FromPoll url interval) (s, w) = ((s', w'), r)"
  shows "let key = ''poll:'' @ url in
     case Option.bind (hm_get s key) (usable_content (se_now env w) (FromPoll url interval)) of
       Some c \<Rightarrow> r = Inr c \<and> s' = s \<and> w' = w
     | None \<Rightarrow> (\<exists>c k. k < 3 \<and> (\<forall>i < k. call_fails (se_fetch env url) (after_calls (se_fetch env url) i w))
           \<and> se_fetch env url (after_calls (se_fetch env url) k w) = (w', Inr c) \<and> r = Inr c
           \<and> (\<forall>j. hm_get s' j = (if j = key \<and> c \<noteq> [] then Some \<lparr> si_updated_at = now w', si_content = c \<rparr> else hm_get s j)))
       \<or> (\<exists>e. (\<forall>i < 3. call_fails (se_fetch env url) (after_calls (se_fetch env url) i w)) \<and> w' = after_calls (se_fetch env url) 3 w \<and> s' = s
           \<and> r = (case hm_get s key of Some i \<Rightarrow> Inr (si_content i) | None \<Rightarrow> Inl e))"
proof -
  let ?key = "''poll:'' @ url"
  have key: "cache_key env (FromPoll url interval) = ?key" by (simp add: cache_key_def)
  have three: "3 = Suc 2" by simp
  show ?thesis
  proof (cases "Option.bind (hm_get s ?key) (usable_content (se_now env w) (FromPoll url interval))")
    case (Some c)
    with assms show ?thesis by (simp add: source_content_def key memory_ops_def mem_get_def Let_def)
  next
    case None
    have poll: "poll_content (memory_ops now) env ?key url (s, w) = ((s', w'), r)"
      using assms None by (simp add: source_content_def key memory_ops_def mem_get_def)
    obtain w1 x where f: "retry 3 (se_fetch env url) w = (w1, x)" by fastforce
    note res = retry_result [of 2 "se_fetch env url" w w1 x, folded three, OF f]
    show ?thesis
    proof (cases x)
      case (Inl e)
      then have "s' = s" "w' = w1" "r = (case hm_get s ?key of Some i \<Rightarrow> Inr (si_content i) | None \<Rightarrow> Inl e)"
        using poll f by (auto simp: poll_content_def memory_ops_def mem_get_def ok_or_def split: option.splits)
      with None Inl res show ?thesis by (auto simp: Let_def)
    next
      case (Inr c)
      then have "w' = w1" "r = Inr c" "\<forall>j. hm_get s' j = (if j = ?key \<and> c \<noteq> [] then Some \<lparr> si_updated_at = now w', si_content = c \<rparr> else hm_get s j)"
        using poll f by (auto simp: poll_content_def memory_ops_def mem_set_def split: if_splits)
      with None Inr res show ?thesis by (auto simp: Let_def)
    qed
  qed
qed

text \<open>Rounds of the configuration stream with one polled source: read it, then wait.\<close>

fun poll_rounds ::
  "('s, 'w) cache_ops \<Rightarrow> 'w source_env \<Rightarrow> config_source \<Rightarrow> nat \<Rightarrow> 's \<times> 'w \<Rightarrow> ('s \<times> 'w) \<times> ((string + string) \<times> (string + wake)) list" where
  "poll_rounds ops env src 0 st = (st, [])"
| "poll_rounds ops env src (Suc n) st = (case source_content ops env src st of (st1, r) \<Rightarrow>
     (case poll_rounds ops env src n st1 of (st2, rs) \<Rightarrow> (st2, (r, source_wait ops env src st1) # rs)))"

lemma after_calls_add: "after_calls f (m + n) w = after_calls f n (after_calls f m w)"
  by (induction m arbitrary: w) simp_all

lemma after_calls_mono:
  assumes "\<And>w. t w \<le> (t (fst (f w)) :: nat)"
  shows "t w \<le> t (after_calls f n w)"
  by (induction n arbitrary: w) (auto intro: order_trans [OF assms])

lemma fails_always:
  assumes "\<And>w. call_fails f w" "retry 3 f w = (w', r)"
  shows "\<exists>e. r = Inl e \<and> w' = after_calls f 3 w"
proof (cases r)
  case (Inl e)
  then show ?thesis using retry_result [of 2 f w w' r] assms(2) by simp
next
  case (Inr x)
  then obtain k where "f (after_calls f k w) = (w', Inr x)" using retry_result [of 2 f w w' r] assms(2) by auto
  with assms(1) [of "after_calls f k w"] show ?thesis by (simp add: call_fails_def is_ok_def)
qed

text \<open>C40: A polled configuration whose server is down spins. Once the cached content is older than the interval and
  every fetch fails, each round makes three attempts, goes on with the stale content, and then waits for no time at all:
  the visit that \<open>wait\<close> looks up is never recorded, and the time of the cached item does not change.\<close>

theorem poll_spins:
  assumes down: "\<forall>w. call_fails (se_fetch env url) w" and clock: "\<forall>w. se_now env w \<le> se_now env (fst (se_fetch env url w))"
    and visits: "\<forall>k w. se_visited_at env k w = None"
    and item: "hm_get s (''poll:'' @ url) = Some i" and expired: "si_updated_at i + unat interval \<le> se_now env w"
  shows "poll_rounds (memory_ops now) env (FromPoll url (Some interval)) n (s, w)
    = ((s, after_calls (se_fetch env url) (3 * n) w), replicate n (Inr (si_content i), Inr (WakeAfter 0)))"
  using expired
proof (induction n arbitrary: w)
  case (Suc n)
  let ?src = "FromPoll url (Some interval)" and ?f = "se_fetch env url"
  let ?w = "after_calls ?f 3 w"
  have key: "cache_key env ?src = ''poll:'' @ url" by (simp add: cache_key_def)
  obtain e where r: "retry 3 ?f w = (?w, Inl e)"
    using fails_always [of ?f w] down by (metis surj_pair)
  have "usable_content (se_now env w) ?src i = None"
    using Suc.prems by (simp add: usable_content_def get_expire_duration_def)
  then have content: "source_content (memory_ops now) env ?src (s, w) = ((s, ?w), Inr (si_content i))"
    using item r by (simp add: source_content_def key memory_ops_def mem_get_def poll_content_def ok_or_def)
  have le: "si_updated_at i + unat interval \<le> se_now env ?w"
    using Suc.prems after_calls_mono [of "se_now env" ?f w 3] clock by (meson order_trans)
  then have "source_wait (memory_ops now) env ?src (s, ?w) = Inr (WakeAfter 0)"
    using item visits by (simp add: source_wait_def key memory_ops_def mem_get_updated_at_def latest_def)
  moreover have "after_calls ?f (3 * n) ?w = after_calls ?f (3 * Suc n) w"
    by (simp flip: after_calls_add)
  ultimately show ?case using content Suc.IH [OF le] by simp
qed simp

text \<open>A world that counts attempts; the attempt with an odd number succeeds.\<close>

definition counting_env :: "(nat \<Rightarrow> bool) \<Rightarrow> nat source_env" where
  "counting_env up = \<lparr> se_now = (\<lambda>w. 100 + w), se_read_to_string = (\<lambda>_ _. Inl ''missing''),
     se_fetch = (\<lambda>_ w. (w + 1, if up w then Inr ''net'' else Inl ''down'')), se_data_get = (\<lambda>_ _ _. Inr None),
     se_data_path = (\<lambda>_ _ _. Inr None), se_watch = (\<lambda>_ _. Inr ()), se_visited_at = (\<lambda>_ _. None), se_debug_path = id \<rparr>"

lemma local_sources_fresh_witness:
  "read_now (counting_env odd) (FromText ''abc'') 0 = Inr ''abc''
   \<and> polls_only (file_cache plain_index_serde (\<lambda>w :: nat. (0, ''f''))) (file_new plain_index_serde [])"
proof -
  let ?d = "file_new plain_index_serde []" and ?draw = "\<lambda>w :: nat. (0 :: nat, ''f'')"
  have new: "?d = [(lock_path, []), (index_path, ix_ser plain_index_serde empty_index)]"
    by (simp add: file_new_def set_index_def Let_def hm_insert_def hm_get_def index_path_def lock_path_def)
  have fresh: "\<forall>w. file_fresh (?draw w) ?d"
    by (simp add: file_fresh_def new hm_get_def index_path_def lock_path_def)
  have polls: "polls_only (file_cache plain_index_serde ?draw) ?d"
    by (simp add: polls_only_def file_cache_def file_new_get [OF plain_index_serde_ok])
  obtain d' w' r where eq: "source_content (file_cache plain_index_serde ?draw) (counting_env odd) (FromText ''abc'') (?d, 0) = ((d', w'), r)"
    by (metis surj_pair)
  from local_sources_fresh [OF plain_index_serde_ok file_new_ok [OF plain_index_serde_ok] fresh polls eq] polls
  show ?thesis by (simp add: read_now_def)
qed

lemma poll_source_content_witness:
  "\<exists>s' w'. source_content (memory_ops id) (counting_env odd) (FromPoll ''u'' None) ([], 0) = ((s', w'), Inr ''net'')
     \<and> hm_get s' ''poll:u'' = Some \<lparr> si_updated_at = w', si_content = ''net'' \<rparr>"
proof -

  have run: "source_content (memory_ops id) (counting_env odd) (FromPoll ''u'' None) ([], 0)
      = (([(''poll:u'', \<lparr> si_updated_at = 2, si_content = ''net'' \<rparr>)], 2), Inr ''net'')"
    by (simp add: source_content_def cache_key_def memory_ops_def mem_get_def poll_content_def retry_def counting_env_def mem_set_def numeral_2_eq_2
        hm_insert_def hm_get_def)
  from poll_source_content [OF run] run show ?thesis by (simp add: Let_def hm_get_def)
qed

lemma poll_spins_witness:
  "poll_rounds (memory_ops id) (counting_env (\<lambda>_. False)) (FromPoll ''u'' (Some 10)) 2 ([(''poll:u'', \<lparr> si_updated_at = 5, si_content = ''old'' \<rparr>)], 0)
   = (([(''poll:u'', \<lparr> si_updated_at = 5, si_content = ''old'' \<rparr>)], after_calls (se_fetch (counting_env (\<lambda>_. False)) ''u'') 6 0),
      [(Inr ''old'', Inr (WakeAfter 0)), (Inr ''old'', Inr (WakeAfter 0))])"
proof -
  have "poll_rounds (memory_ops id) (counting_env (\<lambda>_. False)) (FromPoll ''u'' (Some 10)) 2 ([(''poll:u'', \<lparr> si_updated_at = 5, si_content = ''old'' \<rparr>)], 0)
    = (([(''poll:u'', \<lparr> si_updated_at = 5, si_content = ''old'' \<rparr>)], after_calls (se_fetch (counting_env (\<lambda>_. False)) ''u'') (3 * 2) 0),
      replicate 2 (Inr (si_content \<lparr> si_updated_at = 5, si_content = ''old'' \<rparr>), Inr (WakeAfter 0)))"
    by (rule poll_spins) (simp_all add: counting_env_def call_fails_def is_ok_def hm_get_def)
  then show ?thesis by (simp add: numeral_2_eq_2)
qed

subsection \<open>The identity of a configuration\<close>

definition importers_keep_id :: "('s, 'w) load_env \<Rightarrow> bool" where
  "importers_keep_id env = (\<forall>opt c content st c'. snd (le_clash env opt c content st) = Inr c' \<or> snd (le_rhai env opt c content st) = Inr c'
     \<longrightarrow> cfg_id c' = cfg_id c)"

lemma import_apply_id: "importers_keep_id env \<Longrightarrow> snd (import_apply env i c st) = Inr c' \<Longrightarrow> cfg_id c' = cfg_id c"
  by (auto simp: import_apply_def get_importer_def merge_process_def config_merge_def importers_keep_id_def rbind_def
      split: sum.splits prod.splits if_splits)

lemma apply_imports_id: "importers_keep_id env \<Longrightarrow> snd (apply_imports env is c st) = Inr c' \<Longrightarrow> cfg_id c' = cfg_id c"
proof (induction env "is" c st rule: apply_imports.induct)
  case (2 env i "is" c st)
  obtain st1 r where r: "import_apply env i c st = (st1, r)" by (metis surj_pair)
  show ?case
  proof (cases r)
    case (Inr c1)
    with 2 r import_apply_id [of env i c st c1] show ?thesis by simp
  qed (use 2 r in simp)
qed simp

lemma select_map_apply_id: "cfg_id (select_map_apply m c) = cfg_id c"
  by (induction m c rule: select_map_apply.induct) (simp_all split: option.split)

lemma load_config_id:
  assumes "importers_keep_id env" "snd (load_config env src st) = Inr (c, is)"
  shows "cfg_id c = cache_key (le_src env) src"
proof -
  obtain st1 r1 where r1: "source_content (le_cache env) (le_src env) src st = (st1, r1)" by (metis surj_pair)
  with assms(2) obtain content c0 where c0: "r1 = Inr content" "le_deserialize env content = Inr (c0, is)"
    by (auto simp: load_config_def rbind_def split: sum.splits prod.splits)
  obtain st2 r2 where r2: "apply_imports env is (c0\<lparr> cfg_id := cache_key (le_src env) src \<rparr>) st1 = (st2, r2)" by (metis surj_pair)
  with assms(2) r1 c0 obtain c1 m where "r2 = Inr c1" "c = select_map_apply m c1"
    by (auto simp: load_config_def rbind_def split: sum.splits)
  then show ?thesis using apply_imports_id [OF assms(1), of "is" "c0\<lparr> cfg_id := cache_key (le_src env) src \<rparr>" st1 c1] r2 by (simp add: select_map_apply_id)
qed

fun sources_of :: "stream_signal list \<Rightarrow> config_source list" where
  "sources_of [] = []"
| "sources_of (NewSource src # sigs) = src # sources_of sigs"
| "sources_of (_ # sigs) = sources_of sigs"

text \<open>Every configuration of the stream carries the key of a source that was chosen, so selections are remembered for it.\<close>

lemma config_stream_ids:
  assumes "importers_keep_id env"
  shows "Inr c \<in> set (config_stream_from_sources env sigs src st) \<Longrightarrow> cfg_id c \<in> cache_key (le_src env) ` set (src # sources_of sigs)"
proof (induction sigs arbitrary: src st)
  case Nil
  obtain st' r where "load_config env src st = (st', r)" by (metis surj_pair)
  with Nil show ?case using load_config_id [OF assms, of src st] by (auto split: sum.splits)
next
  case (Cons s sigs)
  obtain st' r where r: "load_config env src st = (st', r)" by (metis surj_pair)
  show ?case
  proof (cases r)
    case (Inr ci)
    obtain c0 im where ci: "ci = (c0, im)" by (cases ci)
    have out: "config_stream_from_sources env (s # sigs) src st = Inr c0 # (case s of
        SourceChanged \<Rightarrow> config_stream_from_sources env sigs src st'
      | NewSource src' \<Rightarrow> config_stream_from_sources env sigs src' st'
      | SourcesEnd \<Rightarrow> [])"
      by (subst config_stream_from_sources.simps) (simp add: r Inr ci)
    have "c = c0 \<or> (\<exists>src'. Inr c \<in> set (config_stream_from_sources env sigs src' st') \<and> (src' = src \<or> s = NewSource src') \<and> s \<noteq> SourcesEnd)"
      using Cons.prems unfolding out by (cases s) auto
    then show ?thesis
    proof (elim disjE exE conjE)
      assume "c = c0"
      then show ?thesis using load_config_id [OF assms, of src st c0 im] r Inr ci by simp
    next
      fix src' assume "Inr c \<in> set (config_stream_from_sources env sigs src' st')" "src' = src" 
      from Cons.IH [OF this(1)] this(2) show ?thesis by (cases s) auto
    next
      fix src' assume "Inr c \<in> set (config_stream_from_sources env sigs src' st')" "s = NewSource src'"
      from Cons.IH [OF this(1)] this(2) show ?thesis by auto
    qed
  next
    case (Inl e)
    have out: "config_stream_from_sources env (s # sigs) src st = [Inl e]" by (subst config_stream_from_sources.simps) (simp add: r Inl)
    show ?thesis using Cons.prems unfolding out by simp
  qed
qed

end
