(* ===== verification/Spec2Isabelle.thy ===== *)
theory Spec2Isabelle
  imports Compact_Vec_String Hysteria_Tcp Hysteria_Udp Vless_Xudp Vless_Vision Rule_Net Clash_Importer
    Engine_Run Fake_Ip Side_Effects Tcp_Copy Anytls Obfs_Http Trojan Socks5 Sni_Sniffer Dns_Sniffer
    Udp_Forward Nets Wrap_Streams Rpc_Net Config_Sources
begin

text \<open>
  \<^bold>\<open>Rabbit Digger Pro: a verification library\<close>

  The program is a proxy engine. A configuration names nets (ways to open connections: direct, through a
  proxy protocol, by rules) and servers (listeners that accept connections and forward them through a net).
  Nets refer to each other; a plugin registry turns the configuration into running objects
  (\<open>rabbit-digger/src\<close>), \<open>rd-interface\<close> holds the types every crate shares, \<open>rd-std\<close> the built-in nets and
  servers, \<open>protocol/*\<close> the proxy protocols, and \<open>src/\<close> the command line, the importers and the control API.
  A connection enters a server, gets a context, is routed by the rule net, wrapped by the engine for
  accounting, encoded by a protocol and copied in both directions until one side ends.

  \<^bold>\<open>Conventions.\<close> Machine integers are words; a Rust string is the list of its UTF-8 bytes as characters;
  \<open>Result\<close> is a sum with the error on the left; code that can panic has a further sum with the panic on
  the left; a hash map is an association list with one entry per key, and no theorem depends on its order.
  Asynchronous code is modelled at its polls: a stream, socket or channel is the list of its future answers
  (a list that has run out answers \<open>Pending\<close>), and what a task does between two awaits is one step. Release
  builds wrap on overflow, and so do the words. Code outside the repository (TLS, QUIC, hash functions,
  serde, random numbers, the operating system) is an argument of the definitions that call it, with what
  is relied on as a named hypothesis. Loops with a bound are total functions with a measure; loops without
  one are partial functions into \<open>option\<close> whose results are proved to exist; the recursion of the net
  builder through user supplied plugins has fuel, and \<open>build_fuel\<close>, one more than the size of the
  configuration, is proved to be enough.

  \<^bold>\<open>The theories.\<close>

  \<^item> \<open>Prelude\<close>, \<open>Std_Text\<close>, \<open>Std_Net\<close>, \<open>Hash_Map\<close>, \<open>Json\<close>: the parts of the standard library and of
    \<open>serde_json\<close> the sources call, with the round trips of numerals and addresses.
  \<^item> \<open>Errors\<close>: \<open>rd-interface/src/error.rs\<close>: the error type, its conversion
    to an I/O error and context.
  \<^item> \<open>Address\<close>: \<open>rd-interface/src/address.rs\<close>: addresses with every
    conversion. Printing and parsing is a round trip up to the normal form, and the parser is characterised.
  \<^item> \<open>Compact_Vec_String\<close>: \<open>rd-interface/src/config/compact_vec_string.rs\<close>:
    the compact string vector refines lists of strings, and its unchecked UTF-8 conversion only sees valid
    text.
  \<^item> \<open>Conn_Context\<close>: \<open>rd-interface/src/context.rs\<close>: the connection context
    and its serialized form.
  \<^item> \<open>Config_Values\<close>: \<open>rd-interface/src/config.rs\<close>,
    \<open>config/resolvable.rs\<close>, \<open>single_or_vec.rs\<close>, \<open>registry.rs\<close>:
    configuration values, the visitor and the resolution of net references, after which no accessor panics.
  \<^item> \<open>Engine_Config\<close>: \<open>rabbit-digger/src/config.rs\<close>,
    \<open>src/config/select_map.rs\<close>: configurations, default nets and remembered selections.
  \<^item> \<open>Engine_Build\<close>: \<open>rd-interface/src/registry.rs\<close>,
    \<open>rabbit-digger/src/registry.rs\<close> and the builder of \<open>rabbit_digger.rs\<close>:
    building a configuration terminates, and circular references are errors.
  \<^item> \<open>Engine_Run\<close>: \<open>rabbit_digger.rs\<close> and \<open>running.rs\<close>: the
    life cycle of servers; the reported status is truthful, and the engine shuts down when its configuration
    stream ends.
  \<^item> \<open>Conn_Manager\<close>: \<open>rabbit_digger/connection_manager.rs\<close> and
    \<open>event.rs\<close>: accounting of connections under every interleaving of their events, and stop
    requests.
  \<^item> \<open>Side_Effects\<close>: \<open>rd-interface/src/side_effect.rs\<close>: applied system
    changes; recovery after a crash does what an orderly end does.
  \<^item> \<open>Rule_Matcher\<close>, \<open>Rule_Net\<close>, \<open>Udp_Connector\<close>:
    \<open>rd-std/src/rule\<close>, \<open>rd-std/src/util/udp_connector.rs\<close>: matchers, their merging
    and the cached lookup, which returns the first matching rule; the lazily bound UDP socket and its
    failure.
  \<^item> \<open>Tcp_Copy\<close>: \<open>rd-std/src/context/connect_tcp.rs\<close>: the bidirectional copy
    of a proxied TCP connection loses, repeats and reorders nothing.
  \<^item> \<open>Fake_Ip\<close>: \<open>protocol/raw/src/fake_ip.rs\<close>: the pool of fake addresses.
  \<^item> \<open>Clash_Importer\<close>: \<open>src/config/importer/clash.rs\<close>: the import of Clash
    files keeps the decision of the rules.
  \<^item> \<open>Hysteria_Codec\<close>, \<open>Hysteria_Tcp\<close>, \<open>Hysteria_Udp\<close>:
    \<open>protocol/hysteria/src\<close>: variable length integers, Salamander, the TCP messages of both
    ends, authentication, and UDP fragmentation and reassembly end to end.
  \<^item> \<open>Vless_Header\<close>, \<open>Vless_Streams\<close>, \<open>Vless_Xudp\<close>,
    \<open>Vless_Vision\<close>: \<open>protocol/vless/src/common.rs\<close>: the request header, the XUDP
    codec, and the Vision stream, whose reader delivers the plaintext the wire format defines however the
    bytes are cut.
  \<^item> \<open>Nets\<close>: \<open>rd-interface/src/interface.rs\<close>, \<open>running.rs\<close>,
    \<open>rd-std/src/builtin\<close>, \<open>src/select.rs\<close>: nets as sets of capabilities, a sound
    type system for their combinations, the path a connection records, and resolution before connecting.
  \<^item> \<open>Wrap_Streams\<close>: \<open>running.rs\<close>: the counted streams and sockets; together
    with \<open>Conn_Manager\<close>, the totals are the bytes moved.
  \<^item> \<open>Udp_Copy\<close>, \<open>Udp_Forward\<close>:
    \<open>rd-std/src/context/connect_udp.rs\<close>, \<open>util/forward_udp\<close>: the relay of
    datagrams, which loses nothing it has taken, and the forwarder that keeps clients apart.
  \<^item> \<open>Sni_Sniffer\<close>, \<open>Dns_Sniffer\<close>: \<open>rd-std/src/sniffer\<close>:
    connections redirected to the name the handshake or an earlier DNS answer shows.
  \<^item> \<open>Stream_Codec\<close>, \<open>Poll_Stream\<close>: the generic theory of self-delimiting
    records on a byte stream, and the byte stream under the stream adapters, given by the answers to its
    polls.
  \<^item> \<open>Socks_Addr\<close>, \<open>Socks5\<close>: \<open>rd-std/src/socks5\<close>: addresses on
    the wire, the handshake, the dispatch of requests and the UDP sockets; a datagram and its answer arrive
    unchanged, and where a stray or failed datagram goes wrong.
  \<^item> \<open>Trojan\<close>: \<open>protocol/trojan/src\<close>: the head that travels with the first
    write, the UDP packets on the stream, the WebSocket stream.
  \<^item> \<open>Anytls\<close>: \<open>protocol/anytls/src\<close>: frames, padding schemes, the writer
    and reader tasks; data is delivered whatever the padding.
  \<^item> \<open>Obfs_Http\<close>: \<open>protocol/obfs/src/http_simple.rs\<close>: the HTTP disguise of
    the first packets and its defects.
  \<^item> \<open>Rpc_Wire\<close>, \<open>Rpc_Remote\<close>, \<open>Rpc_Session\<close>,
    \<open>Rpc_Net\<close>: \<open>protocol/rpc/src\<close>, \<open>rd-std/src/util/async_fn.rs\<close>:
    frames, the request handler and its objects; a remote stream behaves as the server's own, concurrent
    calls get their own answers, and the run that loses one.
  \<^item> \<open>Storage\<close>, \<open>Config_Sources\<close>: \<open>src/storage\<close>,
    \<open>src/config.rs\<close>, \<open>src/config/manager.rs\<close>, \<open>config/importer.rs\<close>:
    the file and memory storages, which refine a map when their calls do not overlap, and the loading of a
    configuration from its sources through the cache.

  \<^bold>\<open>Interfaces.\<close> The contract between two parts is a locale: \<open>display_from_str\<close> (printing and parsing a
  type), \<open>string_vector\<close> (the compact vector as a list of strings), \<open>reassembler\<close> (what both ends of
  Hysteria need of a reassembly table) and \<open>rule_cache_laws\<close> (what the rule net needs of its
  cache), \<open>stream_codec\<close> (a record format that can be read back from a stream), \<open>s5_codec\<close> (the
  address format of the SOCKS crate) with its extension \<open>trojan_codec\<close>,
  \<open>name_cache\<close> and \<open>conn_cache\<close> (what the DNS sniffer and the forwarder rely on of their caches)
  and \<open>storage\<close> (a key value store; interpreted on the memory cache and proved of the file storage). Each is interpreted on the definitions of the component that provides it, and the
  properties use the interpreted facts.

  \<^bold>\<open>Not modelled.\<close> Operating system glue (TUN devices, routing and firewall setup, service installation,
  sockets), TLS, QUIC and HTTP endpoints that are calls into other crates, the REALITY handshake (a fork of
  a TLS stack), the HTTP and RPC control API, log and trace output, the foreign function interface and the
  web interfaces. They move bytes or call libraries, and their behaviour is that of code outside the
  repository. Parts that carry logic of their own and are still open are listed with their status in the manifest.
\<close>

end
